(* ===== verification/Prelude.thy ===== *)
theory Prelude
  imports Main "HOL-Library.Word" "HOL-Library.Monad_Syntax" "HOL-Library.Multiset"
    "HOL-Library.Char_ord" "HOL-Library.List_Lexorder"
begin

unbundle bit_operations_syntax

text \<open>
  Shared vocabulary of the development: the machine types of the Go sources
  (\<^verbatim>\<open>byte\<close>, \<^verbatim>\<open>uint64\<close>, \<^verbatim>\<open>int64\<close>, \<^verbatim>\<open>common.Address\<close>, \<^verbatim>\<open>common.Hash\<close>), big-endian
  conversions between numbers and byte slices, Go's conversions of \<^verbatim>\<open>*big.Int\<close> to
  fixed-width integers, and the generic lemmas the component theories build on.

  A Go function that may panic (nil dereference, index out of range) is a function into
  \<open>option\<close>, with \<open>None\<close> for the panic; a Go \<^verbatim>\<open>error\<close> result is a value of an error
  datatype, \<open>Inl e\<close> for a failing call and \<open>Inr x\<close> for a result.
\<close>

section \<open>Machine types\<close>

type_synonym byte = "8 word"
type_synonym bytes = "byte list"
type_synonym u64 = "64 word"

text \<open>\<^verbatim>\<open>common.Address\<close> is \<^verbatim>\<open>[20]byte\<close> and \<^verbatim>\<open>common.Hash\<close> is \<^verbatim>\<open>[32]byte\<close>: fixed-width
  big-endian values. The zero value \<^verbatim>\<open>common.Hash{}\<close> is \<open>0\<close>.\<close>

type_synonym address = "160 word"
type_synonym hash = "256 word"

named_theorems go_simps \<open>unfolding of small Go library operations\<close>
named_theorems be_simps \<open>big-endian conversions\<close>

section \<open>Big-endian byte strings\<close>

text \<open>\<open>be_val\<close> reads a byte slice as \<^verbatim>\<open>big.Int.SetBytes\<close> does; \<open>nat_bytes\<close> is
  \<^verbatim>\<open>big.Int.Bytes\<close>, the shortest big-endian representation (empty for zero);
  \<open>be_bytes n\<close> is the representation in exactly \<open>n\<close> bytes.\<close>

definition be_val :: "bytes \<Rightarrow> nat" where
  "be_val bs = foldl (\<lambda>v b. v * 256 + unat b) 0 bs"

fun nat_bytes :: "nat \<Rightarrow> bytes" where
  "nat_bytes x = (if x = 0 then [] else nat_bytes (x div 256) @ [of_nat (x mod 256)])"

declare nat_bytes.simps [simp del]

primrec be_bytes :: "nat \<Rightarrow> nat \<Rightarrow> bytes" where
  "be_bytes 0 x = []"
| "be_bytes (Suc n) x = be_bytes n (x div 256) @ [of_nat (x mod 256)]"

lemma unat_of_nat_byte [simp]: "unat (of_nat (x mod 256) :: byte) = x mod 256"
  by (simp add: unat_of_nat)

lemma unat_byte_less [simp]: "unat (b :: byte) < 256"
  using unsigned_less [of b] by simp

lemma be_val_Nil [simp, be_simps]: "be_val [] = 0"
  by (simp add: be_val_def)

lemma be_val_snoc [simp, be_simps]: "be_val (bs @ [b]) = be_val bs * 256 + unat b"
  by (simp add: be_val_def)

lemma be_val_append: "be_val (as @ bs) = be_val as * 256 ^ length bs + be_val bs"
proof (induction bs rule: rev_induct)
  case Nil
  then show ?case by simp
next
  case (snoc b bs)
  have "be_val (as @ bs @ [b]) = be_val (as @ bs) * 256 + unat b"
    by (metis append_assoc be_val_snoc)
  with snoc show ?case by (simp add: algebra_simps)
qed

lemma be_val_single [simp, be_simps]: "be_val [b] = unat b"
  using be_val_snoc [of "[]" b] by simp

lemma be_val_Cons: "be_val (b # bs) = unat b * 256 ^ length bs + be_val bs"
  using be_val_append [of "[b]" bs] by simp

lemma be_val_less: "be_val bs < 256 ^ length bs"
proof (induction bs rule: rev_induct)
  case Nil
  then show ?case by simp
next
  case (snoc b bs)
  define P :: nat where "P = 256 ^ length bs"
  have "be_val bs + 1 \<le> P" using snoc by (simp add: P_def)
  moreover have "unat b < 256" by simp
  ultimately have "be_val bs * 256 + unat b < P * 256" by linarith
  then show ?case by (simp add: P_def mult.commute)
qed

lemma nat_bytes_0 [simp, be_simps]: "nat_bytes 0 = []"
  by (subst nat_bytes.simps) simp

lemma nat_bytes_pos: "0 < x \<Longrightarrow> nat_bytes x = nat_bytes (x div 256) @ [of_nat (x mod 256)]"
  by (subst nat_bytes.simps) simp

lemma nat_bytes_eq_Nil [simp]: "nat_bytes x = [] \<longleftrightarrow> x = 0"
  by (subst nat_bytes.simps) simp

lemma be_val_nat_bytes [simp, be_simps]: "be_val (nat_bytes x) = x"
proof (induction x rule: nat_bytes.induct)
  case (1 x)
  then show ?case by (cases "x = 0") (simp_all add: nat_bytes_pos)
qed

lemma hd_nat_bytes: "0 < x \<Longrightarrow> hd (nat_bytes x) \<noteq> 0"
proof (induction x rule: nat_bytes.induct)
  case (1 x)
  show ?case
  proof (cases "x < 256")
    case True
    then have "nat_bytes x = [of_nat x]" using "1.prems" by (simp add: nat_bytes_pos)
    moreover have "unat (of_nat x :: byte) = x" using True by (simp add: unat_of_nat)
    ultimately show ?thesis using "1.prems" by (metis list.sel(1) unat_0 less_numeral_extra(3))
  next
    case False
    then have "0 < x div 256" by simp
    with "1.IH" "1.prems" have "hd (nat_bytes (x div 256)) \<noteq> 0" by simp
    moreover have "nat_bytes (x div 256) \<noteq> []" using \<open>0 < x div 256\<close> by simp
    moreover have "nat_bytes x = nat_bytes (x div 256) @ [of_nat (x mod 256)]"
      using "1.prems" by (rule nat_bytes_pos)
    ultimately show ?thesis by (simp only: hd_append2 not_False_eq_True)
  qed
qed

lemma be_val_hd_pos:
  assumes "bs \<noteq> []" and "hd bs \<noteq> 0"
  shows "256 ^ (length bs - 1) \<le> be_val bs"
proof -
  from assms(1) obtain b bs' where bs: "bs = b # bs'" by (cases bs) auto
  have "unat b \<ge> 1" using assms(2) bs by (simp add: Suc_leI unat_gt_0)
  then have "1 * 256 ^ length bs' \<le> unat b * 256 ^ length bs'" by (rule mult_right_mono) simp
  then have "256 ^ length bs' \<le> unat b * 256 ^ length bs' + be_val bs'" by linarith
  then show ?thesis by (simp add: bs be_val_Cons)
qed

text \<open>A byte slice without a leading zero is the shortest representation of its value.\<close>

lemma nat_bytes_be_val:
  "(bs \<noteq> [] \<Longrightarrow> hd bs \<noteq> 0) \<Longrightarrow> nat_bytes (be_val bs) = bs"
proof (induction bs rule: rev_induct)
  case Nil
  then show ?case by simp
next
  case (snoc b bs)
  have split: "(be_val bs * 256 + unat b) div 256 = be_val bs"
      "(be_val bs * 256 + unat b) mod 256 = unat b"
    using unat_byte_less [of b] by simp_all
  have pos: "0 < be_val bs * 256 + unat b"
  proof (cases "bs = []")
    case True
    with snoc.prems show ?thesis by (simp add: unat_gt_0)
  next
    case False
    then have "hd bs \<noteq> 0" using snoc.prems by simp
    from be_val_hd_pos [OF False this] show ?thesis
      by (metis add_gr_0 mult_pos_pos zero_less_numeral zero_less_power order_less_le_trans)
  qed
  have "nat_bytes (be_val bs) = bs"
    using snoc by (cases "bs = []") auto
  with pos split show ?case by (simp add: nat_bytes_pos)
qed

lemma length_nat_bytes_le: "x < 256 ^ n \<Longrightarrow> length (nat_bytes x) \<le> n"
proof (induction n arbitrary: x)
  case 0
  then show ?case by simp
next
  case (Suc n)
  show ?case
  proof (cases "x = 0")
    case True
    then show ?thesis by simp
  next
    case False
    have "x div 256 < 256 ^ n"
      using Suc.prems by (simp add: less_mult_imp_div_less)
    from Suc.IH [OF this] show ?thesis using False by (simp add: nat_bytes_pos)
  qed
qed

lemma length_be_bytes [simp, be_simps]: "length (be_bytes n x) = n"
  by (induction n arbitrary: x) auto

lemma be_val_be_bytes: "x < 256 ^ n \<Longrightarrow> be_val (be_bytes n x) = x"
proof (induction n arbitrary: x)
  case 0
  then show ?case by simp
next
  case (Suc n)
  then have "x div 256 < 256 ^ n" by (simp add: less_mult_imp_div_less)
  with Suc.IH show ?case by simp
qed

lemma be_bytes_be_val: "be_bytes (length bs) (be_val bs) = bs"
proof (induction bs rule: rev_induct)
  case Nil
  then show ?case by simp
next
  case (snoc b bs)
  have "(be_val bs * 256 + unat b) div 256 = be_val bs"
      "(be_val bs * 256 + unat b) mod 256 = unat b"
    using unat_byte_less [of b] by simp_all
  then show ?case using snoc by simp
qed

section \<open>Fixed-size arrays as words\<close>

text \<open>\<^verbatim>\<open>Address.Bytes\<close>/\<^verbatim>\<open>Hash.Bytes\<close> and the copy of a 20- or 32-byte slice back.\<close>

definition addr_bytes :: "address \<Rightarrow> bytes" where
  "addr_bytes a = be_bytes 20 (unat a)"

definition bytes_addr :: "bytes \<Rightarrow> address" where
  "bytes_addr bs = of_nat (be_val bs)"

definition hash_bytes :: "hash \<Rightarrow> bytes" where
  "hash_bytes h = be_bytes 32 (unat h)"

definition bytes_hash :: "bytes \<Rightarrow> hash" where
  "bytes_hash bs = of_nat (be_val bs)"

lemma length_addr_bytes [simp, be_simps]: "length (addr_bytes a) = 20"
  by (simp add: addr_bytes_def)

lemma length_hash_bytes [simp, be_simps]: "length (hash_bytes h) = 32"
  by (simp add: hash_bytes_def)

lemma bytes_addr_bytes [simp, be_simps]: "bytes_addr (addr_bytes a) = a"
proof -
  have "unat a < 256 ^ 20" using unsigned_less [of a] by simp
  then show ?thesis by (simp add: bytes_addr_def addr_bytes_def be_val_be_bytes)
qed

lemma bytes_hash_bytes [simp, be_simps]: "bytes_hash (hash_bytes h) = h"
proof -
  have "unat h < 256 ^ 32" using unsigned_less [of h] by simp
  then show ?thesis by (simp add: bytes_hash_def hash_bytes_def be_val_be_bytes)
qed

lemma addr_bytes_bytes: "length bs = 20 \<Longrightarrow> addr_bytes (bytes_addr bs) = bs"
proof -
  assume len: "length bs = 20"
  have "be_val bs < 2 ^ 160" using be_val_less [of bs] len by simp
  then have "unat (of_nat (be_val bs) :: address) = be_val bs" by (simp add: unat_of_nat)
  with len show ?thesis
    by (metis addr_bytes_def bytes_addr_def be_bytes_be_val)
qed

lemma hash_bytes_bytes: "length bs = 32 \<Longrightarrow> hash_bytes (bytes_hash bs) = bs"
proof -
  assume len: "length bs = 32"
  have "be_val bs < 2 ^ 256" using be_val_less [of bs] len by simp
  then have "unat (of_nat (be_val bs) :: hash) = be_val bs" by (simp add: unat_of_nat)
  with len show ?thesis
    by (metis hash_bytes_def bytes_hash_def be_bytes_be_val)
qed

lemma addr_bytes_inject [simp]: "addr_bytes a = addr_bytes b \<longleftrightarrow> a = b"
  by (metis bytes_addr_bytes)

section \<open>Conversions of big integers\<close>

text \<open>\<^verbatim>\<open>big.Int.Uint64\<close> returns the low 64 bits of the absolute value, \<^verbatim>\<open>big.Int.Int64\<close>
  the same value negated for a negative number, and \<^verbatim>\<open>big.Int.Cmp\<close> a sign.\<close>

definition big_Uint64 :: "int \<Rightarrow> u64" where
  "big_Uint64 x = word_of_int \<bar>x\<bar>"

definition big_Int64 :: "int \<Rightarrow> int" where
  "big_Int64 x = (let v = word_of_int \<bar>x\<bar> :: 64 word in sint (if x < 0 then - v else v))"

definition big_Cmp :: "int \<Rightarrow> int \<Rightarrow> int" where
  "big_Cmp x y = (if x < y then -1 else if x > y then 1 else 0)"

lemma big_Cmp_simps [simp, go_simps]:
  "big_Cmp x y = 0 \<longleftrightarrow> x = y"
  "big_Cmp x y < 0 \<longleftrightarrow> x < y"
  "big_Cmp x y > 0 \<longleftrightarrow> x > y"
  "big_Cmp x y \<ge> 0 \<longleftrightarrow> x \<ge> y"
  by (auto simp: big_Cmp_def)

lemma uint_big_Uint64: "0 \<le> x \<Longrightarrow> x < 2 ^ 64 \<Longrightarrow> uint (big_Uint64 x) = x"
  by (simp add: big_Uint64_def uint_word_of_int)

lemma big_Int64_small: "0 \<le> x \<Longrightarrow> x < 2 ^ 63 \<Longrightarrow> big_Int64 x = x"
  by (simp add: big_Int64_def sint_uint uint_word_of_int signed_take_bit_int_eq_self)

text \<open>\<^verbatim>\<open>math.Ceil(float64(a)/b)\<close> for the small non-negative integers the sources apply it to:
  the quotient of exactly representable integers is an integer when \<open>b\<close> divides \<open>a\<close>, and
  otherwise lies at least \<open>1/b\<close> away from one, far above the rounding error of a
  \<^verbatim>\<open>float64\<close> below \<open>2^50\<close>.\<close>

definition ceil_div :: "int \<Rightarrow> int \<Rightarrow> int" where
  "ceil_div a b = (a + b - 1) div b"

section \<open>Words as numbers\<close>

lemma unat_drop_bit [simp]: "unat (drop_bit n (i :: 'a::len word)) = unat i div 2 ^ n"
  by (subst unat_drop_bit_eq) (simp add: drop_bit_eq_div)

lemma unat_ucast_mod: "unat (ucast (w :: 'a::len word) :: 'b::len word) = unat w mod 2 ^ LENGTH('b)"
  by (simp add: unsigned_ucast_eq take_bit_eq_mod)

lemma unat_u64_less: "unat (w :: u64) < 2 ^ 64"
  using unsigned_less [of w] by simp

lemma unat_minus_1: "unat (- 1 :: u64) = 2 ^ 64 - 1"
  by (simp add: unsigned_minus_1_eq_mask mask_eq_exp_minus_1)

section \<open>Generic lemmas\<close>

lemma bind_eq_Some: "Option.bind m f = Some y \<longleftrightarrow> (\<exists>x. m = Some x \<and> f x = Some y)"
  by (cases m) auto

lemma bind_eq_None: "Option.bind m f = None \<longleftrightarrow> m = None \<or> (\<exists>x. m = Some x \<and> f x = None)"
  by (cases m) auto

lemma card_inter_gt:
  assumes "finite V" and "A \<subseteq> V" and "B \<subseteq> V"
    and "card V + f < card A + card B"
  shows "f < card (A \<inter> B)"
proof -
  have fin: "finite A" "finite B" using assms finite_subset by auto
  have "card (A \<union> B) \<le> card V" using assms by (intro card_mono) auto
  moreover have "card A + card B = card (A \<union> B) + card (A \<inter> B)"
    by (rule card_Un_Int [OF fin])
  ultimately show ?thesis using assms(4) by simp
qed

end
