(* ===== verification/Prque.thy ===== *)
theory Prque
  imports Prelude
begin

text \<open>
  The priority queue of \<^verbatim>\<open>src/common/prque\<close>: \<^verbatim>\<open>sstack\<close>, a stack stored in blocks of 4096
  slots, and \<^verbatim>\<open>Prque\<close>, a binary max-heap over it driven by Go's \<^verbatim>\<open>container/heap\<close>.
  The locale \<open>heap_container\<close> states what \<^verbatim>\<open>container/heap\<close> needs of its container and
  proves the sift-up and sift-down loops once; \<open>sstack\<close> interprets it. The locale
  \<open>prio_queue\<close> is the contract the consensus engine relies on, interpreted on \<open>Prque\<close>.
\<close>

section \<open>The block stack\<close>

definition blockSize :: nat where
  "blockSize = 4096"

record 'v item =
  item_value :: 'v
  item_priority :: "64 word"

text \<open>The slices \<^verbatim>\<open>blocks\<close> are an array store indexed by block and slot, \<open>None\<close> for a nil
  slot; \<^verbatim>\<open>active\<close>, an alias of one of the blocks, is the index of that block. The callback
  \<^verbatim>\<open>setIndex\<close> is present or not; its calls are logged in order.\<close>

record 'v sstack =
  setIndex :: bool
  indexCalls :: "('v \<times> int) list"
  ss_size :: nat
  capacity :: nat
  offset :: nat
  blocks :: "nat \<Rightarrow> nat \<Rightarrow> 'v item option"
  nblocks :: nat
  active :: nat

definition newSstack :: "bool \<Rightarrow> 'v sstack" where
  "newSstack cb = \<lparr>setIndex = cb, indexCalls = [], ss_size = 0, capacity = blockSize, offset = 0,
     blocks = (\<lambda>_ _. None), nblocks = 1, active = 0\<rparr>"

definition setSlot :: "(nat \<Rightarrow> nat \<Rightarrow> 'v item option) \<Rightarrow> nat \<Rightarrow> nat \<Rightarrow> 'v item option
    \<Rightarrow> nat \<Rightarrow> nat \<Rightarrow> 'v item option" where
  "setSlot bl b k x = bl(b := (bl b)(k := x))"

definition callIndex :: "'v \<Rightarrow> int \<Rightarrow> 'v sstack \<Rightarrow> 'v sstack" where
  "callIndex v i s = (if setIndex s then s\<lparr>indexCalls := indexCalls s @ [(v, i)]\<rparr> else s)"

definition sstack_Push :: "'v item \<Rightarrow> 'v sstack \<Rightarrow> 'v sstack" where
  "sstack_Push x s =
     (let s1 =
        (if ss_size s = capacity s then
           s\<lparr>active := nblocks s, nblocks := nblocks s + 1,
             blocks := (blocks s)(nblocks s := (\<lambda>_. None)),
             capacity := capacity s + blockSize, offset := 0\<rparr>
         else if offset s = blockSize then
           s\<lparr>active := ss_size s div blockSize, offset := 0\<rparr>
         else s);
       s2 = callIndex (item_value x) (int (ss_size s1)) s1
      in s2\<lparr>blocks := setSlot (blocks s2) (active s2) (offset s2) (Some x),
            offset := offset s2 + 1, ss_size := ss_size s2 + 1\<rparr>)"

definition sstack_Pop :: "'v sstack \<Rightarrow> ('v item \<times> 'v sstack) option" where
  "sstack_Pop s =
     (if ss_size s = 0 then None
      else
        (let size' = ss_size s - 1;
             s1 = (if offset s = 0
                   then s\<lparr>ss_size := size', offset := blockSize - 1, active := size' div blockSize\<rparr>
                   else s\<lparr>ss_size := size', offset := offset s - 1\<rparr>)
         in case blocks s1 (active s1) (offset s1) of
              None \<Rightarrow> None
            | Some x \<Rightarrow>
                Some (x, callIndex (item_value x) (-1)
                  (s1\<lparr>blocks := setSlot (blocks s1) (active s1) (offset s1) None\<rparr>))))"

definition sstack_Len :: "'v sstack \<Rightarrow> nat" where
  "sstack_Len s = ss_size s"

definition slot :: "'v sstack \<Rightarrow> nat \<Rightarrow> 'v item option" where
  "slot s i = blocks s (i div blockSize) (i mod blockSize)"

text \<open>\<^verbatim>\<open>Less\<close> subtracts two \<^verbatim>\<open>int64\<close> priorities and tests the sign of the wrapped difference.\<close>

definition prio_less :: "64 word \<Rightarrow> 64 word \<Rightarrow> bool" where
  "prio_less p q \<longleftrightarrow> sint (p - q) > 0"

definition sstack_Less :: "'v sstack \<Rightarrow> nat \<Rightarrow> nat \<Rightarrow> bool" where
  "sstack_Less s i j =
     (case (slot s i, slot s j) of
        (Some a, Some b) \<Rightarrow> prio_less (item_priority a) (item_priority b)
      | _ \<Rightarrow> False)"

definition sstack_Swap :: "'v sstack \<Rightarrow> nat \<Rightarrow> nat \<Rightarrow> 'v sstack" where
  "sstack_Swap s i j =
     (case (slot s j, slot s i) of
        (Some a, Some b) \<Rightarrow>
          (let s1 = callIndex (item_value b) (int j) (callIndex (item_value a) (int i) s)
           in s1\<lparr>blocks :=
                setSlot (setSlot (blocks s1) (i div blockSize) (i mod blockSize) (Some a))
                  (j div blockSize) (j mod blockSize) (Some b)\<rparr>)
      | _ \<Rightarrow> s)"

definition sstack_Reset :: "'v sstack \<Rightarrow> 'v sstack" where
  "sstack_Reset s = newSstack (setIndex s)"

section \<open>The loops of container/heap\<close>

text \<open>The standard library's \<^verbatim>\<open>up\<close> and \<^verbatim>\<open>down\<close>, over the \<^verbatim>\<open>Less\<close> and \<^verbatim>\<open>Swap\<close> of any
  container. \<open>heap_down\<close> also returns the index where it stopped.\<close>

function heap_up :: "('h \<Rightarrow> nat \<Rightarrow> nat \<Rightarrow> bool) \<Rightarrow> ('h \<Rightarrow> nat \<Rightarrow> nat \<Rightarrow> 'h) \<Rightarrow> 'h \<Rightarrow> nat \<Rightarrow> 'h" where
  "heap_up lt sw h j =
     (let i = (j - 1) div 2 in
      if i = j \<or> \<not> lt h j i then h else heap_up lt sw (sw h i j) i)"
  by pat_completeness auto
termination
  by (relation "measure (\<lambda>(_, _, _, j). j)") auto

function heap_down :: "('h \<Rightarrow> nat \<Rightarrow> nat \<Rightarrow> bool) \<Rightarrow> ('h \<Rightarrow> nat \<Rightarrow> nat \<Rightarrow> 'h) \<Rightarrow> 'h \<Rightarrow> nat \<Rightarrow> nat
    \<Rightarrow> 'h \<times> nat" where
  "heap_down lt sw h i n =
     (let j1 = 2 * i + 1 in
      if n \<le> j1 then (h, i)
      else
        (let j = (if j1 + 1 < n \<and> lt h (j1 + 1) j1 then j1 + 1 else j1) in
         if \<not> lt h j i then (h, i) else heap_down lt sw (sw h i j) j n))"
  by pat_completeness auto
termination
  by (relation "measure (\<lambda>(_, _, _, i, n). n - i)") (auto split: if_splits)

declare heap_up.simps [simp del] heap_down.simps [simp del]

section \<open>The priority queue\<close>

definition Prque_New :: "bool \<Rightarrow> 'v sstack" where
  "Prque_New cb = newSstack cb"

definition Prque_Push :: "'v \<Rightarrow> 64 word \<Rightarrow> 'v sstack \<Rightarrow> 'v sstack" where
  "Prque_Push v p s =
     (let s' = sstack_Push \<lparr>item_value = v, item_priority = p\<rparr> s
      in heap_up sstack_Less sstack_Swap s' (sstack_Len s' - 1))"

definition Prque_Peek :: "'v sstack \<Rightarrow> ('v \<times> 64 word) option" where
  "Prque_Peek s = map_option (\<lambda>x. (item_value x, item_priority x)) (blocks s 0 0)"

definition Prque_Pop :: "'v sstack \<Rightarrow> (('v \<times> 64 word) \<times> 'v sstack) option" where
  "Prque_Pop s =
     (if sstack_Len s = 0 then None
      else
        (let n = sstack_Len s - 1;
             s1 = sstack_Swap s 0 n;
             s2 = fst (heap_down sstack_Less sstack_Swap s1 0 n)
         in map_option (\<lambda>(x, s3). ((item_value x, item_priority x), s3)) (sstack_Pop s2)))"

definition Prque_PopItem :: "'v sstack \<Rightarrow> ('v \<times> 'v sstack) option" where
  "Prque_PopItem s = map_option (\<lambda>((v, _), s'). (v, s')) (Prque_Pop s)"

definition Prque_Empty :: "'v sstack \<Rightarrow> bool" where
  "Prque_Empty s \<longleftrightarrow> sstack_Len s = 0"

definition Prque_Size :: "'v sstack \<Rightarrow> nat" where
  "Prque_Size s = sstack_Len s"

definition Prque_Reset :: "'v sstack \<Rightarrow> 'v sstack" where
  "Prque_Reset s = newSstack (setIndex s)"

section \<open>Heap order\<close>

text \<open>What \<^verbatim>\<open>container/heap\<close> asks of a container, over its abstraction \<open>lst\<close> as a list of
  elements: \<^verbatim>\<open>Swap\<close> exchanges two positions and \<^verbatim>\<open>Less\<close> compares keys. Keys are compared only
  between elements of the container, so the law for \<^verbatim>\<open>Less\<close> may assume \<open>ok\<close> of them.\<close>

definition heap_ordered :: "('a \<Rightarrow> int) \<Rightarrow> 'a list \<Rightarrow> nat \<Rightarrow> bool" where
  "heap_ordered key xs n \<longleftrightarrow> (\<forall>k. 0 < k \<and> k < n \<longrightarrow> key (xs ! k) \<le> key (xs ! ((k - 1) div 2)))"

definition swap_list :: "'a list \<Rightarrow> nat \<Rightarrow> nat \<Rightarrow> 'a list" where
  "swap_list xs i j = xs[i := xs ! j, j := xs ! i]"

lemma length_swap_list [simp]: "length (swap_list xs i j) = length xs"
  by (simp add: swap_list_def)

lemma nth_swap_list:
  "i < length xs \<Longrightarrow> j < length xs \<Longrightarrow> k < length xs \<Longrightarrow>
     swap_list xs i j ! k = (if k = i then xs ! j else if k = j then xs ! i else xs ! k)"
  by (auto simp: swap_list_def nth_list_update)

lemma mset_swap_list [simp]:
  "i < length xs \<Longrightarrow> j < length xs \<Longrightarrow> mset (swap_list xs i j) = mset xs"
  by (simp add: swap_list_def mset_swap)

lemma heap_ordered_root: "heap_ordered key xs n \<Longrightarrow> k < n \<Longrightarrow> key (xs ! k) \<le> key (xs ! 0)"
proof (induction k rule: less_induct)
  case (less k)
  show ?case
  proof (cases "k = 0")
    case True
    then show ?thesis by simp
  next
    case False
    then have "(k - 1) div 2 < k" by simp
    moreover from this have "key (xs ! ((k - 1) div 2)) \<le> key (xs ! 0)"
      using less.IH [of "(k - 1) div 2"] less.prems by simp
    moreover have "key (xs ! k) \<le> key (xs ! ((k - 1) div 2))"
      using less.prems False by (simp add: heap_ordered_def)
    ultimately show ?thesis by linarith
  qed
qed

text \<open>Heap order except between \<open>j\<close> and its parent, and except between \<open>i\<close> and its
  children: the loop invariants of \<^verbatim>\<open>up\<close> and \<^verbatim>\<open>down\<close>.\<close>

definition heap_but_up :: "('a \<Rightarrow> int) \<Rightarrow> 'a list \<Rightarrow> nat \<Rightarrow> nat \<Rightarrow> bool" where
  "heap_but_up key xs n j \<longleftrightarrow>
     (\<forall>k. 0 < k \<and> k < n \<and> k \<noteq> j \<longrightarrow> key (xs ! k) \<le> key (xs ! ((k - 1) div 2))) \<and>
     (\<forall>k. 0 < k \<and> k < n \<and> 0 < j \<and> (k - 1) div 2 = j \<longrightarrow> key (xs ! k) \<le> key (xs ! ((j - 1) div 2)))"

definition heap_but_down :: "('a \<Rightarrow> int) \<Rightarrow> 'a list \<Rightarrow> nat \<Rightarrow> nat \<Rightarrow> bool" where
  "heap_but_down key xs n i \<longleftrightarrow>
     (\<forall>k. 0 < k \<and> k < n \<and> (k - 1) div 2 \<noteq> i \<longrightarrow> key (xs ! k) \<le> key (xs ! ((k - 1) div 2))) \<and>
     (\<forall>k. 0 < k \<and> k < n \<and> 0 < i \<and> (k - 1) div 2 = i \<longrightarrow> key (xs ! k) \<le> key (xs ! ((i - 1) div 2)))"

lemma heap_but_up_swap:
  assumes inv: "heap_but_up key xs n j" and j: "j < n" "n \<le> length xs" "0 < j"
    and gt: "key (xs ! ((j - 1) div 2)) < key (xs ! j)"
  shows "heap_but_up key (swap_list xs ((j - 1) div 2) j) n ((j - 1) div 2)"
proof -
  define i where "i = (j - 1) div 2"
  define ys where "ys = swap_list xs i j"
  have ij: "i < j" using j by (simp add: i_def)
  have ys: "ys ! k = (if k = i then xs ! j else if k = j then xs ! i else xs ! k)" if "k < n" for k
    using that j ij by (simp add: ys_def nth_swap_list)
  have up: "key (xs ! k) \<le> key (xs ! ((k - 1) div 2))" if "0 < k" "k < n" "k \<noteq> j" for k
    using inv that by (simp add: heap_but_up_def)
  have gp: "key (xs ! k) \<le> key (xs ! i)" if "0 < k" "k < n" "(k - 1) div 2 = j" for k
    using inv that j by (simp add: heap_but_up_def i_def)
  have gt': "key (xs ! i) < key (xs ! j)" using gt by (simp add: i_def)
  have 1: "key (ys ! k) \<le> key (ys ! ((k - 1) div 2))" if k: "0 < k" "k < n" "k \<noteq> i" for k
  proof -
    let ?p = "(k - 1) div 2"
    have p: "?p < n" "?p < k" using k by auto
    show ?thesis
    proof (cases "k = j")
      case True
      then have "?p = i" by (simp add: i_def)
      with True show ?thesis using ys [of k] ys [of ?p] k p gt' ij by simp
    next
      case False
      then have "ys ! k = xs ! k" using ys k by simp
      moreover have "key (xs ! k) \<le> key (ys ! ?p)"
        using ys [OF p(1)] up [of k] gp [of k] gt' k False by fastforce
      ultimately show ?thesis by simp
    qed
  qed
  have 2: "key (ys ! k) \<le> key (ys ! ((i - 1) div 2))"
    if k: "0 < k" "k < n" "0 < i" "(k - 1) div 2 = i" for k
  proof -
    have pi: "(i - 1) div 2 < i" using k by simp
    then have q: "ys ! ((i - 1) div 2) = xs ! ((i - 1) div 2)" using ys ij j by simp
    have i_le: "key (xs ! i) \<le> key (xs ! ((i - 1) div 2))" using up [of i] k ij j by simp
    show ?thesis
    proof (cases "k = j")
      case True
      then show ?thesis using ys [of k] k i_le q by auto
    next
      case False
      have "i < k" using k by auto
      with False have "ys ! k = xs ! k" using ys k by simp
      moreover have "key (xs ! k) \<le> key (xs ! i)" using up [of k] k False by simp
      ultimately show ?thesis using i_le q by simp
    qed
  qed
  show ?thesis using 1 2 unfolding heap_but_up_def ys_def i_def by blast
qed

lemma heap_but_down_swap:
  assumes inv: "heap_but_down key xs n i" and j: "j < n" "n \<le> length xs" "0 < j" "(j - 1) div 2 = i"
    and gt: "key (xs ! i) < key (xs ! j)"
    and mx: "\<And>k. 0 < k \<Longrightarrow> k < n \<Longrightarrow> (k - 1) div 2 = i \<Longrightarrow> key (xs ! k) \<le> key (xs ! j)"
  shows "heap_but_down key (swap_list xs i j) n j"
proof -
  define ys where "ys = swap_list xs i j"
  have ij: "i < j" using j by auto
  have ys: "ys ! k = (if k = i then xs ! j else if k = j then xs ! i else xs ! k)" if "k < n" for k
    using that j ij by (simp add: ys_def nth_swap_list)
  have up: "key (xs ! k) \<le> key (xs ! ((k - 1) div 2))" if "0 < k" "k < n" "(k - 1) div 2 \<noteq> i" for k
    using inv that by (simp add: heap_but_down_def)
  have gp: "key (xs ! k) \<le> key (xs ! ((i - 1) div 2))" if "0 < k" "k < n" "0 < i" "(k - 1) div 2 = i" for k
    using inv that by (simp add: heap_but_down_def)
  have 1: "key (ys ! k) \<le> key (ys ! ((k - 1) div 2))" if k: "0 < k" "k < n" "(k - 1) div 2 \<noteq> j" for k
  proof -
    let ?p = "(k - 1) div 2"
    have p: "?p < n" "?p < k" using k by auto
    consider "k = j" | "k = i" | "k \<noteq> i" "k \<noteq> j" by blast
    then show ?thesis
    proof cases
      case 1
      then show ?thesis using ys [of k] ys [OF p(1)] k p j gt ij by auto
    next
      case 2
      then have "key (xs ! j) \<le> key (xs ! ?p)" using gp [of j] j k by simp
      with 2 show ?thesis using ys [of k] ys [OF p(1)] k p ij by auto
    next
      case 3
      then show ?thesis using ys [of k] ys [OF p(1)] k mx [of k] up [of k] by auto
    qed
  qed
  have 2: "key (ys ! k) \<le> key (ys ! ((j - 1) div 2))"
    if k: "0 < k" "k < n" "(k - 1) div 2 = j" for k
  proof -
    have "j < k" using k by auto
    then have "ys ! k = xs ! k" using ys k ij by simp
    moreover have "ys ! ((j - 1) div 2) = xs ! j" using ys [of i] j ij by simp
    moreover have "key (xs ! k) \<le> key (xs ! j)" using up [of k] k ij by auto
    ultimately show ?thesis by simp
  qed
  show ?thesis using 1 2 unfolding heap_but_down_def ys_def by blast
qed

section \<open>The contract of a heap container\<close>

locale heap_container =
  fixes lt :: "'h \<Rightarrow> nat \<Rightarrow> nat \<Rightarrow> bool"
    and sw :: "'h \<Rightarrow> nat \<Rightarrow> nat \<Rightarrow> 'h"
    and lst :: "'h \<Rightarrow> 'a list"
    and wf :: "'h \<Rightarrow> bool"
    and key :: "'a \<Rightarrow> int"
    and ok :: "'a multiset \<Rightarrow> bool"
  assumes lt_key: "wf h \<Longrightarrow> ok (mset (lst h)) \<Longrightarrow> i < length (lst h) \<Longrightarrow> j < length (lst h) \<Longrightarrow>
      lt h i j \<longleftrightarrow> key (lst h ! j) < key (lst h ! i)"
    and sw_lst: "wf h \<Longrightarrow> i < length (lst h) \<Longrightarrow> j < length (lst h) \<Longrightarrow>
      lst (sw h i j) = swap_list (lst h) i j"
    and sw_wf: "wf h \<Longrightarrow> i < length (lst h) \<Longrightarrow> j < length (lst h) \<Longrightarrow> wf (sw h i j)"
begin

lemma heap_up_correct:
  assumes "wf h" and "ok (mset (lst h))" and "heap_but_up key (lst h) (length (lst h)) j"
    and "j < length (lst h)"
  shows "wf (heap_up lt sw h j) \<and> mset (lst (heap_up lt sw h j)) = mset (lst h) \<and>
    heap_ordered key (lst (heap_up lt sw h j)) (length (lst h))"
  using assms
proof (induction j arbitrary: h rule: less_induct)
  case (less j)
  define i where "i = (j - 1) div 2"
  have eq: "heap_up lt sw h j = (if i = j \<or> \<not> lt h j i then h else heap_up lt sw (sw h i j) i)"
    by (simp add: heap_up.simps [of lt sw h j] i_def Let_def)
  have i: "i < length (lst h)" using less.prems by (auto simp: i_def)
  show ?case
  proof (cases "i = j \<or> \<not> lt h j i")
    case True
    have "key (lst h ! k) \<le> key (lst h ! ((k - 1) div 2))" if "0 < k" "k < length (lst h)" for k
    proof (cases "k = j")
      case kj: True
      then have "i \<noteq> j" using that by (auto simp: i_def)
      with True kj less.prems i that show ?thesis by (auto simp: lt_key i_def)
    next
      case False
      then show ?thesis using less.prems(3) that by (simp add: heap_but_up_def)
    qed
    then show ?thesis using eq True less.prems by (simp add: heap_ordered_def)
  next
    case False
    then have j: "0 < j" "i < j" by (auto simp: i_def)
    have lt: "key (lst h ! i) < key (lst h ! j)" using False less.prems i by (simp add: lt_key)
    let ?h = "sw h i j"
    have l: "lst ?h = swap_list (lst h) i j" and w: "wf ?h"
      using less.prems i by (simp_all add: sw_lst sw_wf)
    have "heap_but_up key (lst ?h) (length (lst ?h)) i"
      using heap_but_up_swap [OF less.prems(3)] less.prems(4) j lt l by (simp add: i_def)
    then show ?thesis using less.IH [OF j(2), of ?h] less.prems i w l eq False by simp
  qed
qed

lemma heap_down_correct:
  assumes "wf h" and "ok (mset (lst h))" and "heap_but_down key (lst h) n i"
    and "n \<le> length (lst h)" and "n \<noteq> 0 \<Longrightarrow> i < n"
  shows "wf (fst (heap_down lt sw h i n)) \<and> mset (lst (fst (heap_down lt sw h i n))) = mset (lst h) \<and>
    heap_ordered key (lst (fst (heap_down lt sw h i n))) n \<and>
    (\<forall>k. n \<le> k \<longrightarrow> k < length (lst h) \<longrightarrow> lst (fst (heap_down lt sw h i n)) ! k = lst h ! k)"
  using assms
proof (induction "n - i" arbitrary: h i rule: less_induct)
  case less
  define j where "j = (if 2 * i + 2 < n \<and> lt h (2 * i + 2) (2 * i + 1) then 2 * i + 2 else 2 * i + 1)"
  have eq: "heap_down lt sw h i n =
     (if n \<le> 2 * i + 1 then (h, i) else if \<not> lt h j i then (h, i) else heap_down lt sw (sw h i j) j n)"
    by (simp add: heap_down.simps [of lt sw h i n] j_def Let_def)
  have child: "k = 2 * i + 1 \<or> k = 2 * i + 2" if "0 < k" "(k - 1) div 2 = i" for k
    using that by auto
  have base: "?case" if e: "heap_down lt sw h i n = (h, i)"
    and c: "\<And>k. 0 < k \<Longrightarrow> k < n \<Longrightarrow> (k - 1) div 2 = i \<Longrightarrow> key (lst h ! k) \<le> key (lst h ! i)"
    using less.prems e c by (auto simp: heap_ordered_def heap_but_down_def)
  show ?case
  proof (cases "n \<le> 2 * i + 1")
    case True
    show ?thesis
    proof (rule base)
      show "heap_down lt sw h i n = (h, i)" using eq True by simp
      show "key (lst h ! k) \<le> key (lst h ! i)" if "0 < k" "k < n" "(k - 1) div 2 = i" for k
        using child [OF that(1,3)] that True by auto
    qed
  next
    case False
    then have jn: "j < n" "0 < j" "(j - 1) div 2 = i" "i < j" by (auto simp: j_def)
    have mx: "key (lst h ! k) \<le> key (lst h ! j)" if "0 < k" "k < n" "(k - 1) div 2 = i" for k
      using child [OF that(1,3)] that less.prems False by (auto simp: j_def lt_key)
    show ?thesis
    proof (cases "lt h j i")
      case nl: False
      then have "key (lst h ! j) \<le> key (lst h ! i)" using less.prems jn by (simp add: lt_key)
      then have "key (lst h ! k) \<le> key (lst h ! i)" if "0 < k" "k < n" "(k - 1) div 2 = i" for k
        using mx [OF that] that by linarith
      moreover have "heap_down lt sw h i n = (h, i)" using eq nl by simp
      ultimately show ?thesis by (intro base)
    next
      case True
      then have gt: "key (lst h ! i) < key (lst h ! j)" using less.prems jn by (simp add: lt_key)
      let ?h = "sw h i j"
      have l: "lst ?h = swap_list (lst h) i j" and w: "wf ?h"
        using less.prems jn by (simp_all add: sw_lst sw_wf)
      have "heap_but_down key (lst ?h) n j"
        using heap_but_down_swap [OF less.prems(3) jn(1) less.prems(4) jn(2,3) gt mx] l by simp
      moreover have "n - j < n - i" using jn by simp
      ultimately have "wf (fst (heap_down lt sw ?h j n)) \<and>
          mset (lst (fst (heap_down lt sw ?h j n))) = mset (lst ?h) \<and>
          heap_ordered key (lst (fst (heap_down lt sw ?h j n))) n \<and>
          (\<forall>k. n \<le> k \<longrightarrow> k < length (lst ?h) \<longrightarrow> lst (fst (heap_down lt sw ?h j n)) ! k = lst ?h ! k)"
        using less.hyps [of j ?h] less.prems jn w l by simp
      moreover have "lst ?h ! k = lst h ! k" if "n \<le> k" "k < length (lst h)" for k
        using that jn less.prems by (simp add: l nth_swap_list)
      ultimately show ?thesis using eq True False less.prems jn l by simp
    qed
  qed
qed

end

section \<open>sstack as a heap container\<close>

definition sstack_list :: "'v sstack \<Rightarrow> 'v item list" where
  "sstack_list s = map (\<lambda>i. the (slot s i)) [0..<ss_size s]"

text \<open>The representation invariant: filled slots are exactly those below \<open>ss_size\<close>, and the
  write position (\<open>active\<close>, \<open>offset\<close>) is either the next slot or just past a full block.\<close>

definition sstack_wf :: "'v sstack \<Rightarrow> bool" where
  "sstack_wf s \<longleftrightarrow>
     (\<forall>i < ss_size s. slot s i \<noteq> None) \<and>
     capacity s = nblocks s * blockSize \<and> ss_size s \<le> capacity s \<and>
     (ss_size s < capacity s \<and> offset s = ss_size s mod blockSize \<and> active s = ss_size s div blockSize \<or>
      offset s = blockSize \<and> 0 < ss_size s \<and> ss_size s mod blockSize = 0 \<and>
        active s = ss_size s div blockSize - 1)"

definition prio_spread :: "'v item multiset \<Rightarrow> bool" where
  "prio_spread M \<longleftrightarrow>
     (\<forall>x \<in># M. \<forall>y \<in># M. sint (item_priority x) - sint (item_priority y) < 2 ^ 63)"

abbreviation prio_key :: "'v item \<Rightarrow> int" where
  "prio_key x \<equiv> sint (item_priority x)"

lemma blockSize_pos [simp]: "0 < blockSize"
  by (simp add: blockSize_def)

lemma callIndex_simps [simp]:
  "blocks (callIndex v i s) = blocks s" "ss_size (callIndex v i s) = ss_size s"
  "capacity (callIndex v i s) = capacity s" "offset (callIndex v i s) = offset s"
  "nblocks (callIndex v i s) = nblocks s" "active (callIndex v i s) = active s"
  "slot (callIndex v i s) k = slot s k"
  by (simp_all add: callIndex_def slot_def)

lemma div_mod_inject:
  "(i div blockSize = j div blockSize \<and> i mod blockSize = j mod blockSize) \<longleftrightarrow> i = j"
  by (metis div_mult_mod_eq)

lemma slot_setSlot:
  "slot (s\<lparr>blocks := setSlot (blocks s) (i div blockSize) (i mod blockSize) x\<rparr>) k =
     (if k = i then x else slot s k)"
  using div_mod_inject [of i k] by (auto simp: slot_def setSlot_def)

lemma length_sstack_list [simp]: "length (sstack_list s) = ss_size s"
  by (simp add: sstack_list_def)

lemma nth_sstack_list [simp]: "i < ss_size s \<Longrightarrow> sstack_list s ! i = the (slot s i)"
  by (simp add: sstack_list_def)

lemma prio_less_spread:
  assumes "sint p - sint q < 2 ^ 63" and "sint q - sint p < 2 ^ 63"
  shows "prio_less p q \<longleftrightarrow> sint q < sint p"
proof -
  have "sint (p - q) = signed_take_bit 63 (sint p - sint q)"
    by (simp add: sint_word_ariths)
  moreover have "signed_take_bit 63 (sint p - sint q) = sint p - sint q"
    using assms by (intro signed_take_bit_int_eq_self) auto
  ultimately show ?thesis by (simp add: prio_less_def)
qed

lemma sstack_wf_slot: "sstack_wf s \<Longrightarrow> i < ss_size s \<Longrightarrow> \<exists>x. slot s i = Some x"
  by (auto simp: sstack_wf_def)

lemma sstack_Less_key:
  assumes "sstack_wf s" and "prio_spread (mset (sstack_list s))" and "i < ss_size s" and "j < ss_size s"
  shows "sstack_Less s i j \<longleftrightarrow> prio_key (sstack_list s ! j) < prio_key (sstack_list s ! i)"
proof -
  obtain a b where ab: "slot s i = Some a" "slot s j = Some b"
    using assms sstack_wf_slot by metis
  then have "a \<in># mset (sstack_list s)" "b \<in># mset (sstack_list s)"
    using assms nth_mem [of i "sstack_list s"] nth_mem [of j "sstack_list s"] by auto
  then have "sint (item_priority a) - sint (item_priority b) < 2 ^ 63"
      "sint (item_priority b) - sint (item_priority a) < 2 ^ 63"
    using assms(2) unfolding prio_spread_def by blast+
  with prio_less_spread ab assms show ?thesis by (simp add: sstack_Less_def)
qed

lemma sstack_Swap_slot:
  assumes "sstack_wf s" and "i < ss_size s" and "j < ss_size s"
  shows "slot (sstack_Swap s i j) k = (if k = i then slot s j else if k = j then slot s i else slot s k)"
proof -
  obtain a b where ab: "slot s i = Some a" "slot s j = Some b"
    using assms sstack_wf_slot by metis
  define s1 where "s1 = callIndex (item_value a) (int j) (callIndex (item_value b) (int i) s)"
  define s2 where "s2 = s1\<lparr>blocks := setSlot (blocks s1) (i div blockSize) (i mod blockSize) (Some b)\<rparr>"
  have "sstack_Swap s i j =
      s2\<lparr>blocks := setSlot (blocks s2) (j div blockSize) (j mod blockSize) (Some a)\<rparr>"
    using ab by (simp add: sstack_Swap_def s1_def s2_def Let_def)
  then have "slot (sstack_Swap s i j) k = (if k = j then Some a else slot s2 k)"
    by (simp only: slot_setSlot)
  also have "slot s2 k = (if k = i then Some b else slot s k)"
    by (simp only: s2_def slot_setSlot) (simp add: s1_def)
  finally show ?thesis using ab by auto
qed

lemma sstack_Swap_fields [simp]:
  "ss_size (sstack_Swap s i j) = ss_size s" "capacity (sstack_Swap s i j) = capacity s"
  "offset (sstack_Swap s i j) = offset s" "nblocks (sstack_Swap s i j) = nblocks s"
  "active (sstack_Swap s i j) = active s"
  by (auto simp: sstack_Swap_def Let_def split: option.splits)

lemma sstack_Swap_list:
  assumes "sstack_wf s" and "i < ss_size s" and "j < ss_size s"
  shows "sstack_list (sstack_Swap s i j) = swap_list (sstack_list s) i j"
  by (rule nth_equalityI)
    (use assms in \<open>auto simp: sstack_Swap_slot nth_swap_list\<close>)

lemma sstack_Swap_wf:
  assumes "sstack_wf s" and "i < ss_size s" and "j < ss_size s"
  shows "sstack_wf (sstack_Swap s i j)"
  using assms by (auto simp: sstack_wf_def sstack_Swap_slot [OF assms])

interpretation sstack_heap: heap_container sstack_Less sstack_Swap sstack_list sstack_wf prio_key prio_spread
  by unfold_locales (simp_all add: sstack_Less_key sstack_Swap_list sstack_Swap_wf)

text \<open>\<^verbatim>\<open>Push\<close> appends and \<^verbatim>\<open>Pop\<close> removes the last slot, across block boundaries.\<close>

lemma sstack_Push_slot:
  assumes "sstack_wf s"
  shows "sstack_wf (sstack_Push x s) \<and> sstack_list (sstack_Push x s) = sstack_list s @ [x]"
proof -
  define s1 where "s1 =
    (if ss_size s = capacity s then
       s\<lparr>active := nblocks s, nblocks := nblocks s + 1, blocks := (blocks s)(nblocks s := (\<lambda>_. None)),
         capacity := capacity s + blockSize, offset := 0\<rparr>
     else if offset s = blockSize then s\<lparr>active := ss_size s div blockSize, offset := 0\<rparr> else s)"
  define s2 where "s2 = callIndex (item_value x) (int (ss_size s1)) s1"
  have wf: "capacity s = nblocks s * blockSize" "ss_size s \<le> capacity s"
    using assms by (auto simp: sstack_wf_def)
  have pos: "active s2 = ss_size s div blockSize" "offset s2 = ss_size s mod blockSize"
    using assms wf mod_less_divisor [OF blockSize_pos, of "ss_size s"]
    by (auto simp: sstack_wf_def s1_def s2_def simp del: mod_less_divisor)
  have keep: "slot s2 k = slot s k" if "k < ss_size s" for k
  proof (cases "ss_size s = capacity s")
    case True
    then have "k div blockSize < nblocks s"
      using that wf by (simp add: less_mult_imp_div_less)
    then show ?thesis using True by (simp add: s1_def s2_def slot_def)
  next
    case False
    then show ?thesis by (simp add: s1_def s2_def slot_def)
  qed
  have cap: "capacity s2 = nblocks s2 * blockSize" "ss_size s2 = ss_size s" "ss_size s < capacity s2"
    using wf by (auto simp: s1_def s2_def)
  have push: "sstack_Push x s = s2\<lparr>blocks := setSlot (blocks s2) (active s2) (offset s2) (Some x),
      offset := offset s2 + 1, ss_size := ss_size s2 + 1\<rparr>"
    by (simp add: sstack_Push_def s1_def s2_def Let_def)
  have "slot (sstack_Push x s) k = (if k = ss_size s then Some x else slot s2 k)" for k
    using div_mod_inject [of "ss_size s" k]
    by (auto simp: push slot_def setSlot_def pos)
  note sl = this
  have szp: "ss_size (sstack_Push x s) = Suc (ss_size s)" by (simp add: push cap)
  have "sstack_list (sstack_Push x s) = sstack_list s @ [x]"
  proof (rule nth_equalityI)
    fix k
    assume "k < length (sstack_list (sstack_Push x s))"
    then have "k < Suc (ss_size s)" by (simp add: szp)
    then show "sstack_list (sstack_Push x s) ! k = (sstack_list s @ [x]) ! k"
      by (auto simp: nth_append sl keep szp less_Suc_eq)
  qed (simp add: szp)
  moreover have "sstack_wf (sstack_Push x s)"
  proof -
    let ?n = "ss_size s" and ?t = "sstack_Push x s"
    have fields: "ss_size ?t = Suc ?n" "capacity ?t = capacity s2" "nblocks ?t = nblocks s2"
        "offset ?t = Suc (?n mod blockSize)" "active ?t = ?n div blockSize"
      by (simp_all add: push cap pos)
    have "\<forall>i < ss_size ?t. slot ?t i \<noteq> None"
      using assms sstack_wf_slot [OF assms] keep by (auto simp: fields sl less_Suc_eq)
    moreover have "(Suc ?n < capacity s2 \<and> Suc (?n mod blockSize) = Suc ?n mod blockSize \<and>
          ?n div blockSize = Suc ?n div blockSize) \<or>
        (Suc (?n mod blockSize) = blockSize \<and> Suc ?n mod blockSize = 0 \<and>
          ?n div blockSize = Suc ?n div blockSize - 1)"
    proof (cases "Suc (?n mod blockSize) = blockSize")
      case True
      then show ?thesis by (simp add: mod_Suc div_Suc)
    next
      case False
      then have md: "Suc ?n mod blockSize = Suc (?n mod blockSize)" by (simp add: mod_Suc)
      have "Suc ?n \<noteq> capacity s2"
      proof
        assume "Suc ?n = capacity s2"
        then have "Suc ?n mod blockSize = 0" by (simp add: cap)
        with md show False by simp
      qed
      moreover have "Suc ?n div blockSize = ?n div blockSize" using md by (simp add: div_Suc)
      ultimately show ?thesis using md cap by auto
    qed
    ultimately show ?thesis using cap by (auto simp: sstack_wf_def fields)
  qed
  ultimately show ?thesis by blast
qed

lemma sstack_Pop_slot:
  assumes "sstack_wf s" and "0 < ss_size s"
  shows "\<exists>t. sstack_Pop s = Some (last (sstack_list s), t) \<and> sstack_wf t \<and>
    sstack_list t = butlast (sstack_list s)"
proof -
  define n where "n = ss_size s - 1"
  have n: "ss_size s = Suc n" using assms by (simp add: n_def)
  define s1 where "s1 = (if offset s = 0
     then s\<lparr>ss_size := n, offset := blockSize - 1, active := n div blockSize\<rparr>
     else s\<lparr>ss_size := n, offset := offset s - 1\<rparr>)"
  have pos: "active s1 = n div blockSize" "offset s1 = n mod blockSize"
    using assms(1) by (auto simp: sstack_wf_def s1_def n mod_Suc div_Suc split: if_splits)
  obtain x where x: "slot s n = Some x" using sstack_wf_slot [OF assms(1), of n] n by auto
  define t where "t = callIndex (item_value x) (-1)
    (s1\<lparr>blocks := setSlot (blocks s1) (active s1) (offset s1) None\<rparr>)"
  have bl: "blocks s1 = blocks s" by (simp add: s1_def)
  have "sstack_Pop s = (case blocks s1 (active s1) (offset s1) of None \<Rightarrow> None
      | Some x \<Rightarrow> Some (x, callIndex (item_value x) (-1)
          (s1\<lparr>blocks := setSlot (blocks s1) (active s1) (offset s1) None\<rparr>)))"
    by (simp only: sstack_Pop_def n s1_def Let_def diff_Suc_1 nat.distinct if_False)
  also have "\<dots> = Some (x, t)" using x by (simp add: slot_def pos bl t_def)
  finally have "sstack_Pop s = Some (x, t)" .
  moreover have "last (sstack_list s) = x"
    using x n by (metis diff_Suc_1 last_conv_nth length_sstack_list lessI list.size(3) nat.distinct(1)
        nth_sstack_list option.sel)
  moreover have slt: "slot t k = (if k = n then None else slot s k)" for k
    using div_mod_inject [of n k] by (auto simp: t_def slot_def setSlot_def pos bl)
  moreover have sz: "ss_size t = n" by (simp add: t_def s1_def)
  moreover have "sstack_list t = butlast (sstack_list s)"
    by (rule nth_equalityI) (auto simp: sz n slt nth_butlast)
  moreover have "sstack_wf t"
  proof -
    have "\<forall>i < n. slot t i \<noteq> None" using sstack_wf_slot [OF assms(1)] n by (auto simp: slt)
    moreover have "capacity t = capacity s" "nblocks t = nblocks s" "offset t = n mod blockSize"
        "active t = n div blockSize"
      by (simp_all add: t_def pos) (simp_all add: s1_def)
    ultimately show ?thesis using assms(1) n by (auto simp: sstack_wf_def sz)
  qed
  ultimately show ?thesis by blast
qed

section \<open>The contract of a priority queue\<close>

text \<open>What the consensus engine relies on: the queue holds a multiset of (value, priority)
  pairs, \<^verbatim>\<open>Pop\<close> on a non-empty queue returns one of highest priority and removes it, and
  nothing else changes the contents. \<open>fit\<close> is the condition on the contents under which the
  wrapped \<^verbatim>\<open>int64\<close> comparison is an order.\<close>

locale prio_queue =
  fixes new :: 'q
    and push :: "'v \<Rightarrow> 64 word \<Rightarrow> 'q \<Rightarrow> 'q"
    and pop :: "'q \<Rightarrow> (('v \<times> 64 word) \<times> 'q) option"
    and empty :: "'q \<Rightarrow> bool"
    and conts :: "'q \<Rightarrow> ('v \<times> 64 word) multiset"
    and invar :: "'q \<Rightarrow> bool"
    and fit :: "('v \<times> 64 word) multiset \<Rightarrow> bool"
  assumes new_invar: "invar new" and new_conts: "conts new = {#}"
    and push_invar: "invar q \<Longrightarrow> fit (add_mset (v, p) (conts q)) \<Longrightarrow> invar (push v p q)"
    and push_conts: "invar q \<Longrightarrow> fit (add_mset (v, p) (conts q)) \<Longrightarrow>
      conts (push v p q) = add_mset (v, p) (conts q)"
    and empty_conts: "invar q \<Longrightarrow> empty q \<longleftrightarrow> conts q = {#}"
    and pop_empty: "invar q \<Longrightarrow> conts q = {#} \<Longrightarrow> pop q = None"
    and pop_nonempty: "invar q \<Longrightarrow> fit (conts q) \<Longrightarrow> conts q \<noteq> {#} \<Longrightarrow>
      \<exists>v p q'. pop q = Some ((v, p), q') \<and> invar q' \<and> conts q = add_mset (v, p) (conts q') \<and>
        (\<forall>(w, r) \<in># conts q. sint r \<le> sint p)"
    and fit_mono: "fit M \<Longrightarrow> N \<subseteq># M \<Longrightarrow> fit N"
begin

lemma pop_cases:
  assumes "invar q" and "fit (conts q)"
  obtains (Empty) "pop q = None" "conts q = {#}"
    | (Item) v p q' where "pop q = Some ((v, p), q')" "invar q'" "fit (conts q')"
        "conts q = add_mset (v, p) (conts q')" "\<And>w r. (w, r) \<in># conts q \<Longrightarrow> sint r \<le> sint p"
proof (cases "conts q = {#}")
  case True
  with assms that(1) show ?thesis by (simp add: pop_empty)
next
  case False
  from pop_nonempty [OF assms False] obtain v p q' where
    q': "pop q = Some ((v, p), q')" "invar q'" "conts q = add_mset (v, p) (conts q')"
      "\<forall>(w, r) \<in># conts q. sint r \<le> sint p"
    by blast
  moreover have "fit (conts q')" by (rule fit_mono [OF assms(2)]) (simp add: q'(3))
  ultimately show ?thesis using that(2) by blast
qed

text \<open>Popping until the queue is empty lists the whole contents in descending priority.\<close>

fun drain :: "nat \<Rightarrow> 'q \<Rightarrow> ('v \<times> 64 word) list" where
  "drain 0 q = []"
| "drain (Suc n) q = (case pop q of None \<Rightarrow> [] | Some (x, q') \<Rightarrow> x # drain n q')"

lemma drain_correct:
  assumes "invar q" and "fit (conts q)" and "size (conts q) \<le> n"
  shows "mset (drain n q) = conts q \<and> sorted_wrt (\<lambda>x y. sint (snd y) \<le> sint (snd x)) (drain n q)"
  using assms
proof (induction n arbitrary: q)
  case 0
  then show ?case by simp
next
  case (Suc n)
  show ?case
    using Suc.prems(1,2)
  proof (cases rule: pop_cases)
    case Empty
    then show ?thesis by simp
  next
    case (Item v p q')
    then have "mset (drain n q') = conts q'"
        "sorted_wrt (\<lambda>x y. sint (snd y) \<le> sint (snd x)) (drain n q')"
      using Suc.IH [of q'] Suc.prems(3) by simp_all
    moreover have "sint r \<le> sint p" if "(w, r) \<in> set (drain n q')" for w r
    proof -
      have "(w, r) \<in># mset (drain n q')" using that by simp
      then have "(w, r) \<in># conts q" using Item(4) \<open>mset (drain n q') = conts q'\<close> by simp
      then show ?thesis by (rule Item(5))
    qed
    ultimately show ?thesis using Item by auto
  qed
qed

end

definition prque_conts :: "'v sstack \<Rightarrow> ('v \<times> 64 word) multiset" where
  "prque_conts s = image_mset (\<lambda>x. (item_value x, item_priority x)) (mset (sstack_list s))"

definition prque_invar :: "'v sstack \<Rightarrow> bool" where
  "prque_invar s \<longleftrightarrow> sstack_wf s \<and> heap_ordered prio_key (sstack_list s) (ss_size s)"

definition prque_fit :: "('v \<times> 64 word) multiset \<Rightarrow> bool" where
  "prque_fit M \<longleftrightarrow> (\<forall>x \<in># M. \<forall>y \<in># M. sint (snd x) - sint (snd y) < 2 ^ 63)"

lemma prque_fit_spread [simp]: "prque_fit (prque_conts s) \<longleftrightarrow> prio_spread (mset (sstack_list s))"
  by (auto simp: prque_fit_def prio_spread_def prque_conts_def)

lemma size_prque_conts [simp]: "size (prque_conts s) = ss_size s"
  by (simp add: prque_conts_def)

lemma prque_conts_empty: "prque_conts s = {#} \<longleftrightarrow> ss_size s = 0"
  by (metis size_prque_conts size_eq_0_iff_empty)

lemma Prque_Push_correct:
  assumes "prque_invar s" and "prque_fit (add_mset (v, p) (prque_conts s))"
  shows "prque_invar (Prque_Push v p s) \<and> prque_conts (Prque_Push v p s) = add_mset (v, p) (prque_conts s)"
proof -
  define x where "x = \<lparr>item_value = v, item_priority = p\<rparr>"
  define t where "t = sstack_Push x s"
  have t: "sstack_wf t" "sstack_list t = sstack_list s @ [x]"
    using sstack_Push_slot [of s x] assms by (simp_all add: prque_invar_def t_def)
  have len: "ss_size t = Suc (ss_size s)" using arg_cong [OF t(2), of length] by simp
  have "prio_spread (mset (sstack_list t))"
    using assms(2) by (auto simp: prque_fit_def prio_spread_def prque_conts_def t x_def)
  moreover have "heap_but_up prio_key (sstack_list t) (length (sstack_list t)) (ss_size s)"
    using assms(1) by (auto simp: prque_invar_def heap_ordered_def heap_but_up_def t nth_append)
  ultimately have r: "sstack_wf (Prque_Push v p s)"
      "mset (sstack_list (Prque_Push v p s)) = mset (sstack_list t)"
      "heap_ordered prio_key (sstack_list (Prque_Push v p s)) (length (sstack_list t))"
    using sstack_heap.heap_up_correct [of t "ss_size s"] t(1)
    by (simp_all add: Prque_Push_def t_def [symmetric] x_def [symmetric] sstack_Len_def len)
  then have "ss_size (Prque_Push v p s) = length (sstack_list t)"
    using mset_eq_length [OF r(2)] by simp
  with r show ?thesis by (simp add: prque_invar_def prque_conts_def t x_def)
qed

lemma Prque_Pop_correct:
  assumes "prque_invar s" and "prque_fit (prque_conts s)" and "prque_conts s \<noteq> {#}"
  shows "\<exists>v p s'. Prque_Pop s = Some ((v, p), s') \<and> prque_invar s' \<and>
    prque_conts s = add_mset (v, p) (prque_conts s') \<and> (\<forall>(w, r) \<in># prque_conts s. sint r \<le> sint p)"
proof -
  define n where "n = ss_size s - 1"
  have pos: "0 < ss_size s" using assms(3) size_prque_conts [of s] by (metis gr0I size_eq_0_iff_empty)
  then have n: "ss_size s = Suc n" by (simp add: n_def)
  have wf: "sstack_wf s" and ho: "heap_ordered prio_key (sstack_list s) (ss_size s)"
    and sp: "prio_spread (mset (sstack_list s))"
    using assms by (simp_all add: prque_invar_def)
  define s1 where "s1 = sstack_Swap s 0 n"
  have s1: "sstack_wf s1" "sstack_list s1 = swap_list (sstack_list s) 0 n" "ss_size s1 = Suc n"
    using wf n by (simp_all add: s1_def sstack_Swap_wf sstack_Swap_list)
  have "heap_but_down prio_key (sstack_list s1) n 0"
    unfolding heap_but_down_def
  proof (intro conjI allI impI)
    fix k
    assume k: "0 < k \<and> k < n \<and> (k - 1) div 2 \<noteq> 0"
    then have "(k - 1) div 2 < n" by auto
    with k have "sstack_list s1 ! k = sstack_list s ! k"
        "sstack_list s1 ! ((k - 1) div 2) = sstack_list s ! ((k - 1) div 2)"
      unfolding s1(2) using n by (simp_all add: nth_swap_list del: nth_sstack_list)
    moreover have "prio_key (sstack_list s ! k) \<le> prio_key (sstack_list s ! ((k - 1) div 2))"
      using ho k n by (simp add: heap_ordered_def)
    ultimately show "prio_key (sstack_list s1 ! k) \<le> prio_key (sstack_list s1 ! ((k - 1) div 2))"
      by simp
  qed simp
  then have d: "sstack_wf (fst (heap_down sstack_Less sstack_Swap s1 0 n))"
      "mset (sstack_list (fst (heap_down sstack_Less sstack_Swap s1 0 n))) = mset (sstack_list s1)"
      "heap_ordered prio_key (sstack_list (fst (heap_down sstack_Less sstack_Swap s1 0 n))) n"
      "\<forall>k. n \<le> k \<longrightarrow> k < length (sstack_list s1) \<longrightarrow>
        sstack_list (fst (heap_down sstack_Less sstack_Swap s1 0 n)) ! k = sstack_list s1 ! k"
    using sstack_heap.heap_down_correct [of s1 n 0] s1 sp n by simp_all
  define s2 where "s2 = fst (heap_down sstack_Less sstack_Swap s1 0 n)"
  note d = d [folded s2_def]
  have m: "mset (sstack_list s2) = mset (sstack_list s)" using d(2) s1 n by simp
  then have sz: "ss_size s2 = Suc n" using mset_eq_length [OF m] n by simp
  obtain t where t: "sstack_Pop s2 = Some (last (sstack_list s2), t)" "sstack_wf t"
      "sstack_list t = butlast (sstack_list s2)"
    using sstack_Pop_slot [OF d(1)] sz by auto
  have "last (sstack_list s2) = sstack_list s2 ! n"
    using sz by (metis diff_Suc_1 last_conv_nth length_sstack_list list.size(3) nat.distinct(1))
  also have "\<dots> = sstack_list s ! 0" using d(4) s1 n by (simp add: nth_swap_list)
  finally have lst: "last (sstack_list s2) = sstack_list s ! 0" .
  define x where "x = sstack_list s ! 0"
  have ne: "sstack_list s2 \<noteq> []" using sz by (metis length_sstack_list list.size(3) nat.distinct(1))
  have "mset (sstack_list s) = add_mset x (mset (sstack_list t))"
  proof -
    have "sstack_list s2 = sstack_list t @ [x]"
      using append_butlast_last_id [OF ne] t(3) lst by (simp add: x_def)
    then show ?thesis using m by simp
  qed
  moreover have "ss_size t = n" using arg_cong [OF t(3), of length] sz by simp
  moreover have "heap_ordered prio_key (sstack_list t) n"
    using d(3) by (auto simp: heap_ordered_def t(3) nth_butlast sz)
  moreover have "\<forall>y \<in># mset (sstack_list s). prio_key y \<le> prio_key x"
    using heap_ordered_root [OF ho] by (auto simp: in_set_conv_nth x_def)
  moreover have "Prque_Pop s = Some ((item_value x, item_priority x), t)"
    using n t lst by (simp add: Prque_Pop_def sstack_Len_def Let_def s1_def [symmetric] s2_def [symmetric] x_def)
  ultimately show ?thesis using t(2) by (auto simp: prque_invar_def prque_conts_def)
qed

lemma Prque_New_correct: "prque_invar (Prque_New cb)" "prque_conts (Prque_New cb) = {#}"
  by (simp add: prque_invar_def Prque_New_def newSstack_def sstack_wf_def heap_ordered_def)
    (simp add: prque_conts_empty Prque_New_def newSstack_def)

lemma Prque_Empty_correct: "Prque_Empty s \<longleftrightarrow> prque_conts s = {#}"
  by (simp add: Prque_Empty_def sstack_Len_def prque_conts_empty)

lemma Prque_Pop_empty: "prque_conts s = {#} \<Longrightarrow> Prque_Pop s = None"
  by (simp add: Prque_Pop_def sstack_Len_def prque_conts_empty)

lemma prque_fit_mono: "prque_fit M \<Longrightarrow> N \<subseteq># M \<Longrightarrow> prque_fit N"
  unfolding prque_fit_def by (meson mset_subset_eqD)

lemmas Prque_correct = Prque_New_correct Prque_Push_correct [THEN conjunct1]
  Prque_Push_correct [THEN conjunct2] Prque_Empty_correct Prque_Pop_empty Prque_Pop_correct prque_fit_mono

interpretation prque: prio_queue "Prque_New cb" Prque_Push Prque_Pop Prque_Empty prque_conts prque_invar prque_fit
  by unfold_locales (rule Prque_correct; assumption?)+

section \<open>Without a bound on priorities\<close>

text \<open>Wrapped comparisons may misplace elements, but they never lose one.\<close>

lemma heap_up_wf:
  assumes "sstack_wf s" and "j < ss_size s"
  shows "sstack_wf (heap_up sstack_Less sstack_Swap s j) \<and>
    mset (sstack_list (heap_up sstack_Less sstack_Swap s j)) = mset (sstack_list s)"
  using assms
proof (induction j arbitrary: s rule: less_induct)
  case (less j)
  let ?i = "(j - 1) div 2"
  show ?case
  proof (cases "?i = j \<or> \<not> sstack_Less s j ?i")
    case True
    then show ?thesis using less.prems by (subst (1 2) heap_up.simps) (simp add: Let_def)
  next
    case False
    then have i: "?i < j" by (cases j) auto
    let ?t = "sstack_Swap s ?i j"
    have "sstack_wf ?t" "ss_size ?t = ss_size s" "mset (sstack_list ?t) = mset (sstack_list s)"
      using less.prems i by (simp_all add: sstack_Swap_wf sstack_Swap_list)
    moreover have "heap_up sstack_Less sstack_Swap s j = heap_up sstack_Less sstack_Swap ?t ?i"
      using False by (subst heap_up.simps) (simp add: Let_def)
    ultimately show ?thesis using less.IH [OF i, of ?t] less.prems i by simp
  qed
qed

lemma heap_down_wf:
  assumes "sstack_wf s" and "n \<le> ss_size s" and "i < ss_size s"
  shows "sstack_wf (fst (heap_down sstack_Less sstack_Swap s i n)) \<and>
    mset (sstack_list (fst (heap_down sstack_Less sstack_Swap s i n))) = mset (sstack_list s)"
  using assms
proof (induction "n - i" arbitrary: s i rule: less_induct)
  case less
  let ?j = "if 2 * i + 1 + 1 < n \<and> sstack_Less s (2 * i + 1 + 1) (2 * i + 1) then 2 * i + 1 + 1 else 2 * i + 1"
  show ?case
  proof (cases "n \<le> 2 * i + 1 \<or> \<not> sstack_Less s ?j i")
    case True
    then show ?thesis using less.prems by (subst (1 2) heap_down.simps) (auto simp: Let_def)
  next
    case False
    then have j: "?j < n" "i < ?j" by auto
    let ?t = "sstack_Swap s i ?j"
    have t: "sstack_wf ?t" "ss_size ?t = ss_size s" "mset (sstack_list ?t) = mset (sstack_list s)"
      using less.prems j by (simp_all only: sstack_Swap_wf sstack_Swap_list sstack_Swap_fields)
        (simp_all add: order.strict_trans2 mset_swap_list)
    have "heap_down sstack_Less sstack_Swap s i n = heap_down sstack_Less sstack_Swap ?t ?j n"
      using False unfolding heap_down.simps [of sstack_Less sstack_Swap s i n] Let_def
      by (simp only: de_Morgan_disj not_not not_True_eq_False if_False if_True)
    moreover have "sstack_wf (fst (heap_down sstack_Less sstack_Swap ?t ?j n)) \<and>
        mset (sstack_list (fst (heap_down sstack_Less sstack_Swap ?t ?j n))) = mset (sstack_list ?t)"
      by (rule less.hyps) (use less.prems j t in linarith)+
    ultimately show ?thesis using t(3) by simp
  qed
qed

lemma Prque_Push_wf:
  assumes "sstack_wf s"
  shows "sstack_wf (Prque_Push v p s)" "prque_conts (Prque_Push v p s) = add_mset (v, p) (prque_conts s)"
proof -
  define t where "t = sstack_Push \<lparr>item_value = v, item_priority = p\<rparr> s"
  have t: "sstack_wf t" "sstack_list t = sstack_list s @ [\<lparr>item_value = v, item_priority = p\<rparr>]"
    using sstack_Push_slot [OF assms] by (simp_all add: t_def)
  have len: "ss_size t = Suc (ss_size s)" using arg_cong [OF t(2), of length] by simp
  from heap_up_wf [OF t(1), of "ss_size s"] len t(2)
  show "sstack_wf (Prque_Push v p s)" "prque_conts (Prque_Push v p s) = add_mset (v, p) (prque_conts s)"
    by (simp_all add: Prque_Push_def t_def [symmetric] sstack_Len_def prque_conts_def)
qed

lemma Prque_Pop_wf:
  assumes "sstack_wf s" and "0 < ss_size s"
  shows "\<exists>x s'. Prque_Pop s = Some (x, s') \<and> sstack_wf s' \<and> prque_conts s = add_mset x (prque_conts s')"
proof -
  define n where "n = ss_size s - 1"
  have n: "ss_size s = Suc n" using assms(2) by (simp add: n_def)
  define s1 where "s1 = sstack_Swap s 0 n"
  have s1: "sstack_wf s1" "mset (sstack_list s1) = mset (sstack_list s)" "ss_size s1 = Suc n"
    using assms n by (simp_all add: s1_def sstack_Swap_wf sstack_Swap_list)
  define s2 where "s2 = fst (heap_down sstack_Less sstack_Swap s1 0 n)"
  have s2: "sstack_wf s2" "mset (sstack_list s2) = mset (sstack_list s)"
    using heap_down_wf [OF s1(1), of n 0] s1 by (simp_all add: s2_def)
  have sz: "ss_size s2 = Suc n" using mset_eq_length [OF s2(2)] n by simp
  obtain t where t: "sstack_Pop s2 = Some (last (sstack_list s2), t)" "sstack_wf t"
      "sstack_list t = butlast (sstack_list s2)"
    using sstack_Pop_slot [OF s2(1)] sz by auto
  have ne: "sstack_list s2 \<noteq> []" using sz by (metis length_sstack_list list.size(3) nat.distinct(1))
  have "mset (sstack_list s) = add_mset (last (sstack_list s2)) (mset (sstack_list t))"
    using append_butlast_last_id [OF ne] t(3) s2(2) by (metis add_mset_add_single mset_append mset_single_iff_right
        mset.simps(1) mset.simps(2) union_mset_add_mset_right)
  then show ?thesis using t n
    by (simp add: Prque_Pop_def sstack_Len_def Let_def s1_def [symmetric] s2_def [symmetric] prque_conts_def)
qed

section \<open>What the queue promises\<close>

text \<open>C19: the priority queue pops its elements in order of priority and loses none. As long as the
  queued priorities lie within \<open>2^63\<close> of each other (the queue compares wrapped differences),
  \<^verbatim>\<open>Pop\<close> on a non-empty queue returns, removes exactly the element it returns, and that element has
  the highest priority; \<^verbatim>\<open>Push\<close> adds exactly one element; and both keep the queue well formed, across
  the block boundaries of the stack.\<close>

theorem Prque_contract:
  assumes "prque_invar s" and "prque_fit (add_mset (v, p) (prque_conts s))"
  shows "prque_invar (Prque_Push v p s) \<and> prque_conts (Prque_Push v p s) = add_mset (v, p) (prque_conts s) \<and>
    (\<exists>w r s'. Prque_Pop (Prque_Push v p s) = Some ((w, r), s') \<and> prque_invar s' \<and>
       add_mset (v, p) (prque_conts s) = add_mset (w, r) (prque_conts s') \<and>
       (\<forall>(x, y) \<in># add_mset (v, p) (prque_conts s). sint y \<le> sint r))"
proof -
  note P = Prque_Push_correct [OF assms]
  have "prque_fit (prque_conts (Prque_Push v p s))" "prque_conts (Prque_Push v p s) \<noteq> {#}"
    using P assms(2) by simp_all
  from Prque_Pop_correct [OF conjunct1 [OF P] this] show ?thesis using P by simp
qed

theorem Prque_contract_witness:
  "\<exists>w r s'. Prque_Pop (Prque_Push ''a'' 3 (Prque_New False)) = Some ((w, r), s') \<and> w = ''a'' \<and> r = 3"
proof -
  have "prque_fit (add_mset (''a'', 3) (prque_conts (Prque_New False)))"
    by (simp add: Prque_New_correct prque_fit_def)
  from Prque_contract [OF Prque_New_correct(1) this] show ?thesis
    by (auto simp: Prque_New_correct)
qed

end
