(* ===== verification/Rlp_Encode.thy ===== *)
theory Rlp_Encode
  imports Prelude
begin

text \<open>
  The encoder of \<^verbatim>\<open>src/rlp/encode.go\<close>. Values of dynamic type \<^verbatim>\<open>[]byte\<close> and
  \<^verbatim>\<open>[]interface{}\<close> are RLP items; \<open>rlp_enc\<close> is the reference encoding of the Yellow Paper
  (a byte string or a list, each behind the shortest possible header), and \<open>EncodeToBytes\<close> is
  the code's two-pass encoder: one pass collects the string data and a list of list headers in
  an \<^verbatim>\<open>encbuf\<close>, a second one (\<^verbatim>\<open>toBytes\<close>) interleaves them. Both agree (\<open>encbuf_correct\<close>).
\<close>

section \<open>Items and the reference encoding\<close>

datatype rlp_item = Str bytes | Lst "rlp_item list"

definition rlp_head :: "nat \<Rightarrow> nat \<Rightarrow> nat \<Rightarrow> bytes" where
  "rlp_head small large n =
     (if n < 56 then [of_nat (small + n)]
      else of_nat (large + length (nat_bytes n)) # nat_bytes n)"

fun rlp_enc :: "rlp_item \<Rightarrow> bytes" where
  "rlp_enc (Str b) =
     (if length b = 1 \<and> hd b < 128 then b else rlp_head 0x80 0xB7 (length b) @ b)"
| "rlp_enc (Lst xs) =
     (let p = concat (map rlp_enc xs) in rlp_head 0xC0 0xF7 (length p) @ p)"

section \<open>Integers and headers\<close>

definition u64_byte :: "nat \<Rightarrow> u64 \<Rightarrow> byte" where
  "u64_byte n i = ucast (drop_bit n i)"

definition putint :: "u64 \<Rightarrow> bytes" where
  "putint i =
     (if i < 2 ^ 8 then [u64_byte 0 i]
      else if i < 2 ^ 16 then [u64_byte 8 i, u64_byte 0 i]
      else if i < 2 ^ 24 then [u64_byte 16 i, u64_byte 8 i, u64_byte 0 i]
      else if i < 2 ^ 32 then [u64_byte 24 i, u64_byte 16 i, u64_byte 8 i, u64_byte 0 i]
      else if i < 2 ^ 40 then
        [u64_byte 32 i, u64_byte 24 i, u64_byte 16 i, u64_byte 8 i, u64_byte 0 i]
      else if i < 2 ^ 48 then
        [u64_byte 40 i, u64_byte 32 i, u64_byte 24 i, u64_byte 16 i, u64_byte 8 i, u64_byte 0 i]
      else if i < 2 ^ 56 then
        [u64_byte 48 i, u64_byte 40 i, u64_byte 32 i, u64_byte 24 i, u64_byte 16 i, u64_byte 8 i,
         u64_byte 0 i]
      else
        [u64_byte 56 i, u64_byte 48 i, u64_byte 40 i, u64_byte 32 i, u64_byte 24 i, u64_byte 16 i,
         u64_byte 8 i, u64_byte 0 i])"

text \<open>\<^verbatim>\<open>intsize\<close> shifts until nothing is left; at most eight rounds are needed for 64 bits.\<close>

function intsize_loop :: "u64 \<Rightarrow> nat \<Rightarrow> nat" where
  "intsize_loop i sz =
     (let i' = drop_bit 8 i in if i' = 0 then sz else intsize_loop i' (sz + 1))"
  by pat_completeness auto
termination
proof (relation "measure (\<lambda>(i, _). unat i)")
  fix i :: u64 and sz :: nat and x
  assume x: "x = drop_bit 8 i" "x \<noteq> 0"
  have ux: "unat x = unat i div 256" using unat_drop_bit [of 8 i] x(1) by simp
  then have "0 < unat i div 256" using x(2) by (simp add: unat_gt_0 flip: ux)
  then have "unat x < unat i" unfolding ux by (cases "unat i") auto
  then show "((x, sz + 1), (i, sz)) \<in> measure (\<lambda>(i, _). unat i)"
    using x by simp
qed simp

declare intsize_loop.simps [simp del]

definition intsize :: "u64 \<Rightarrow> nat" where
  "intsize i = intsize_loop i 1"

definition headsize :: "u64 \<Rightarrow> nat" where
  "headsize sz = (if sz < 56 then 1 else 1 + intsize sz)"

definition puthead :: "byte \<Rightarrow> byte \<Rightarrow> u64 \<Rightarrow> bytes" where
  "puthead smalltag largetag sz =
     (if sz < 56 then [smalltag + ucast sz]
      else (let sb = putint sz in (largetag + of_nat (length sb)) # sb))"

definition ListSize :: "u64 \<Rightarrow> u64" where
  "ListSize contentSize = of_nat (headsize contentSize) + contentSize"

section \<open>The encoding buffer\<close>

record listhead =
  lh_offset :: int
  lh_size :: int

record encbuf =
  str :: bytes
  lheads :: "listhead list"
  lhsize :: int

definition head_encode :: "listhead \<Rightarrow> bytes" where
  "head_encode h = puthead 0xC0 0xF7 (word_of_int (lh_size h))"

definition encbuf_empty :: encbuf where
  "encbuf_empty = \<lparr>str = [], lheads = [], lhsize = 0\<rparr>"

definition encbuf_size :: "encbuf \<Rightarrow> int" where
  "encbuf_size w = int (length (str w)) + lhsize w"

definition encodeStringHeader :: "nat \<Rightarrow> encbuf \<Rightarrow> encbuf" where
  "encodeStringHeader sz w =
     (if sz < 56 then w\<lparr>str := str w @ [0x80 + of_nat sz]\<rparr>
      else (let sb = putint (of_nat sz) in
            w\<lparr>str := str w @ (0xB7 + of_nat (length sb)) # sb\<rparr>))"

definition encodeString :: "bytes \<Rightarrow> encbuf \<Rightarrow> encbuf" where
  "encodeString b w =
     (if length b = 1 \<and> hd b \<le> 0x7F then w\<lparr>str := str w @ [hd b]\<rparr>
      else (let w' = encodeStringHeader (length b) w in w'\<lparr>str := str w' @ b\<rparr>))"

text \<open>\<^verbatim>\<open>list\<close> appends a header whose \<^verbatim>\<open>size\<close> field first holds the header bytes counted so far
  and returns a pointer to it (its index); \<^verbatim>\<open>listEnd\<close> completes it.\<close>

definition encbuf_list :: "encbuf \<Rightarrow> nat \<times> encbuf" where
  "encbuf_list w =
     (length (lheads w),
      w\<lparr>lheads := lheads w @ [\<lparr>lh_offset = int (length (str w)), lh_size = lhsize w\<rparr>]\<rparr>)"

definition encbuf_listEnd :: "nat \<Rightarrow> encbuf \<Rightarrow> encbuf" where
  "encbuf_listEnd lh w =
     (let h = lheads w ! lh;
          sz = encbuf_size w - lh_offset h - lh_size h;
          w' = w\<lparr>lheads := (lheads w)[lh := h\<lparr>lh_size := sz\<rparr>]\<rparr>
      in if sz < 56 then w'\<lparr>lhsize := lhsize w' + 1\<rparr>
         else w'\<lparr>lhsize := lhsize w' + (1 + int (intsize (word_of_int sz)))\<rparr>)"

fun encodeItem :: "rlp_item \<Rightarrow> encbuf \<Rightarrow> encbuf"
  and encodeItems :: "rlp_item list \<Rightarrow> encbuf \<Rightarrow> encbuf" where
  "encodeItem (Str b) w = encodeString b w"
| "encodeItem (Lst xs) w =
     (let (lh, w1) = encbuf_list w in encbuf_listEnd lh (encodeItems xs w1))"
| "encodeItems [] w = w"
| "encodeItems (x # xs) w = encodeItems xs (encodeItem x w)"

fun toBytes_loop :: "bytes \<Rightarrow> listhead list \<Rightarrow> nat \<Rightarrow> bytes" where
  "toBytes_loop s [] strpos = drop strpos s"
| "toBytes_loop s (h # hs) strpos =
     (let piece = take (nat (lh_offset h) - strpos) (drop strpos s) in
      piece @ head_encode h @ toBytes_loop s hs (strpos + length piece))"

definition toBytes :: "encbuf \<Rightarrow> bytes" where
  "toBytes w = toBytes_loop (str w) (lheads w) 0"

definition EncodeToBytes :: "rlp_item \<Rightarrow> bytes" where
  "EncodeToBytes x = toBytes (encodeItem x encbuf_empty)"

section \<open>Integers and headers against the reference\<close>

lemma u64_byte_eq: "u64_byte n i = of_nat (unat i div 2 ^ n mod 256)"
proof -
  have "u64_byte n i = of_nat (unat i div 2 ^ n)"
    by (simp add: u64_byte_def word_unat_eq_iff unat_ucast_mod unat_of_nat)
  then show ?thesis by (simp add: word_unat_eq_iff unat_of_nat)
qed

lemma nat_bytes_be_bytes_aux:
  "256 ^ n \<le> x \<Longrightarrow> x < 256 ^ Suc n \<Longrightarrow> nat_bytes x = be_bytes (Suc n) x"
proof (induction n arbitrary: x)
  case 0
  then show ?case by (simp add: nat_bytes_pos)
next
  case (Suc n)
  have "256 ^ n \<le> x div 256" using div_le_mono [OF Suc.prems(1), of 256] by simp
  moreover have "x div 256 < 256 ^ Suc n" using Suc.prems(2) by (simp add: less_mult_imp_div_less)
  moreover have "0 < (256 :: nat) ^ Suc n" by simp
  then have "0 < x" using Suc.prems(1) by (rule less_le_trans)
  ultimately show ?case using Suc.IH [of "x div 256"] by (simp add: nat_bytes_pos)
qed

lemma nat_bytes_be_bytes:
  "n = Suc m \<Longrightarrow> 256 ^ m \<le> x \<Longrightarrow> x < 256 ^ n \<Longrightarrow> nat_bytes x = be_bytes n x"
  using nat_bytes_be_bytes_aux by simp

lemma be_bytes_front_aux: "be_bytes (Suc n) x = of_nat (x div 256 ^ n mod 256) # be_bytes n x"
proof (induction n arbitrary: x)
  case 0
  then show ?case by simp
next
  case (Suc n)
  have "be_bytes (Suc (Suc n)) x = be_bytes (Suc n) (x div 256) @ [of_nat (x mod 256)]" by simp
  also have "\<dots> = of_nat (x div 256 div 256 ^ n mod 256) # be_bytes n (x div 256) @ [of_nat (x mod 256)]"
    by (simp only: Suc.IH append_Cons)
  finally show ?case by (simp add: div_mult2_eq)
qed

lemma be_bytes_front: "n = Suc m \<Longrightarrow> be_bytes n x = of_nat (x div 256 ^ m mod 256) # be_bytes m x"
  using be_bytes_front_aux by simp

lemma be_bytes_u64:
  "be_bytes 1 (unat i) = [u64_byte 0 i]"
  "be_bytes 2 (unat i) = u64_byte 8 i # be_bytes 1 (unat i)"
  "be_bytes 3 (unat i) = u64_byte 16 i # be_bytes 2 (unat i)"
  "be_bytes 4 (unat i) = u64_byte 24 i # be_bytes 3 (unat i)"
  "be_bytes 5 (unat i) = u64_byte 32 i # be_bytes 4 (unat i)"
  "be_bytes 6 (unat i) = u64_byte 40 i # be_bytes 5 (unat i)"
  "be_bytes 7 (unat i) = u64_byte 48 i # be_bytes 6 (unat i)"
  "be_bytes 8 (unat i) = u64_byte 56 i # be_bytes 7 (unat i)"
  by (simp_all add: be_bytes_front [of 8 7] be_bytes_front [of 7 6] be_bytes_front [of 6 5]
      be_bytes_front [of 5 4] be_bytes_front [of 4 3] be_bytes_front [of 3 2]
      be_bytes_front [OF numeral_2_eq_2] u64_byte_eq)

lemma u64_less_pow: "n < 64 \<Longrightarrow> (i :: u64) < 2 ^ n \<longleftrightarrow> unat i < 2 ^ n"
proof -
  assume "n < 64"
  then have "(2 :: nat) ^ n < 2 ^ 64" by (intro power_strict_increasing) auto
  then have "unat (2 ^ n :: u64) = 2 ^ n"
    using unat_of_nat [of "2 ^ n", where 'a = 64] by simp
  then show ?thesis by (simp add: word_less_nat_alt)
qed

lemma putint_eq: "putint i = (if i = 0 then [0] else nat_bytes (unat i))"
proof (cases "i = 0")
  case True
  then show ?thesis by (simp add: putint_def u64_byte_def)
next
  case False
  define x where "x = unat i"
  have x: "0 < x" "x < 2 ^ 64" using False unsigned_less [of i] by (simp_all add: x_def unat_gt_0)
  have l: "putint i =
    (if x < 2 ^ 8 then be_bytes 1 x else if x < 2 ^ 16 then be_bytes 2 x
     else if x < 2 ^ 24 then be_bytes 3 x else if x < 2 ^ 32 then be_bytes 4 x
     else if x < 2 ^ 40 then be_bytes 5 x else if x < 2 ^ 48 then be_bytes 6 x
     else if x < 2 ^ 56 then be_bytes 7 x else be_bytes 8 x)"
    unfolding putint_def x_def be_bytes_u64
    by (simp only: u64_less_pow numeral_less_iff semiring_norm)
  have "putint i = nat_bytes x"
    unfolding l using x
    by (auto simp: nat_bytes_be_bytes [of 1 0] nat_bytes_be_bytes [OF numeral_2_eq_2]
        nat_bytes_be_bytes [of 3 2] nat_bytes_be_bytes [of 4 3] nat_bytes_be_bytes [of 5 4]
        nat_bytes_be_bytes [of 6 5] nat_bytes_be_bytes [of 7 6] nat_bytes_be_bytes [of 8 7]
        simp del: be_bytes.simps)
  with False show ?thesis by (simp add: x_def)
qed

lemma intsize_loop_eq: "intsize_loop i sz = sz + length (nat_bytes (unat i div 256))"
proof (induction i sz rule: intsize_loop.induct)
  case (1 i sz)
  define i' where "i' = drop_bit 8 i"
  have u: "unat i' = unat i div 256" using unat_drop_bit [of 8 i] by (simp add: i'_def)
  show ?case
  proof (cases "i' = 0")
    case True
    then show ?thesis using u by (simp add: intsize_loop.simps [of i sz] flip: i'_def)
  next
    case False
    then have "0 < unat i div 256" using u by (metis gr0I unat_eq_zero)
    then have "length (nat_bytes (unat i div 256)) = Suc (length (nat_bytes (unat i' div 256)))"
      using u by (simp add: nat_bytes_pos)
    moreover have "intsize_loop i' (sz + 1) = sz + 1 + length (nat_bytes (unat i' div 256))"
      using "1.IH" [OF i'_def False] .
    ultimately show ?thesis
      using False by (simp add: intsize_loop.simps [of i sz] flip: i'_def)
  qed
qed

lemma intsize_putint: "intsize i = length (putint i)"
proof (cases "i = 0")
  case False
  then have "0 < unat i" by (simp add: unat_gt_0)
  with False show ?thesis
    by (simp add: intsize_def intsize_loop_eq putint_eq nat_bytes_pos [of "unat i"])
qed (simp add: intsize_def intsize_loop_eq putint_eq)

lemma u64_less_56: "n < 2 ^ 64 \<Longrightarrow> (of_nat n :: u64) < 56 \<longleftrightarrow> n < 56"
  by (simp add: word_less_nat_alt unat_of_nat)

lemma headsize_puthead: "headsize sz = length (puthead s l sz)"
  by (simp add: headsize_def puthead_def Let_def intsize_putint)

lemma puthead_head:
  assumes "n < 2 ^ 64"
  shows "puthead s l (of_nat n) = rlp_head (unat s) (unat l) n"
proof -
  have u: "unat (of_nat n :: u64) = n" using assms by (simp add: unat_of_nat)
  show ?thesis
  proof (cases "n < 56")
    case True
    have "ucast (of_nat n :: u64) = (of_nat n :: byte)"
      using True u by (simp add: word_unat_eq_iff unat_ucast_mod unat_of_nat)
    then show ?thesis using True assms by (simp add: puthead_def rlp_head_def u64_less_56)
  next
    case False
    then have "(of_nat n :: u64) \<noteq> 0" using u by (metis not_less_iff_gr_or_eq unat_0 zero_less_numeral)
    then show ?thesis using False assms u
      by (simp add: puthead_def rlp_head_def u64_less_56 putint_eq Let_def)
  qed
qed

lemma length_rlp_head_pos [simp]: "rlp_head s l n \<noteq> []"
  by (simp add: rlp_head_def)

section \<open>The encoding buffer against the reference\<close>

definition hd_bytes :: "listhead list \<Rightarrow> nat" where
  "hd_bytes hs = sum_list (map (length \<circ> head_encode) hs)"

text \<open>\<open>adds b w w'\<close>: going from \<open>w\<close> to \<open>w'\<close> has appended string data and completed headers
  that \<^verbatim>\<open>toBytes\<close> renders as \<open>b\<close>, whatever is appended later.\<close>

definition adds :: "bytes \<Rightarrow> encbuf \<Rightarrow> encbuf \<Rightarrow> bool" where
  "adds b w w' \<longleftrightarrow> (\<exists>s hs.
     str w' = str w @ s \<and> lheads w' = lheads w @ hs \<and> lhsize w' = lhsize w + int (hd_bytes hs) \<and>
     length b = length s + hd_bytes hs \<and> (\<forall>h \<in> set hs. int (length (str w)) \<le> lh_offset h) \<and>
     (\<forall>rest H. (\<forall>h \<in> set H. int (length (str w')) \<le> lh_offset h) \<longrightarrow>
        toBytes_loop (str w' @ rest) (hs @ H) (length (str w)) =
        b @ toBytes_loop (str w' @ rest) H (length (str w'))))"

lemma hd_bytes_append [simp]: "hd_bytes (xs @ ys) = hd_bytes xs + hd_bytes ys"
  by (simp add: hd_bytes_def)

lemma toBytes_loop_skip:
  assumes "\<forall>h \<in> set H. int (length s + length t) \<le> lh_offset h"
  shows "toBytes_loop (s @ t @ rest) H (length s) = t @ toBytes_loop (s @ t @ rest) H (length s + length t)"
proof (cases H)
  case Nil
  then show ?thesis by simp
next
  case (Cons h hs)
  then have o: "length s + length t \<le> nat (lh_offset h)" using assms by auto
  have "take (nat (lh_offset h) - length s) (t @ rest) =
      t @ take (nat (lh_offset h) - (length s + length t)) rest"
    using o by (simp add: diff_diff_left)
  then show ?thesis using Cons o by (simp add: Let_def add.assoc)
qed

lemma adds_str:
  assumes "w' = w\<lparr>str := str w @ t\<rparr>"
  shows "adds t w w'"
  unfolding adds_def
  by (rule exI [of _ t], rule exI [of _ "[]"])
    (use toBytes_loop_skip [of _ "str w" t] in \<open>simp add: assms hd_bytes_def\<close>)

lemma adds_trans:
  assumes "adds a w w1" and "adds b w1 w2"
  shows "adds (a @ b) w w2"
proof -
  from assms(1) obtain s1 h1 where 1: "str w1 = str w @ s1" "lheads w1 = lheads w @ h1"
    "lhsize w1 = lhsize w + int (hd_bytes h1)" "length a = length s1 + hd_bytes h1"
    "\<forall>h \<in> set h1. int (length (str w)) \<le> lh_offset h"
    "\<And>rest H. \<forall>h \<in> set H. int (length (str w1)) \<le> lh_offset h \<Longrightarrow>
        toBytes_loop (str w1 @ rest) (h1 @ H) (length (str w)) =
        a @ toBytes_loop (str w1 @ rest) H (length (str w1))"
    unfolding adds_def by blast
  from assms(2) obtain s2 h2 where 2: "str w2 = str w1 @ s2" "lheads w2 = lheads w1 @ h2"
    "lhsize w2 = lhsize w1 + int (hd_bytes h2)" "length b = length s2 + hd_bytes h2"
    "\<forall>h \<in> set h2. int (length (str w1)) \<le> lh_offset h"
    "\<And>rest H. \<forall>h \<in> set H. int (length (str w2)) \<le> lh_offset h \<Longrightarrow>
        toBytes_loop (str w2 @ rest) (h2 @ H) (length (str w1)) =
        b @ toBytes_loop (str w2 @ rest) H (length (str w2))"
    unfolding adds_def by blast
  have "toBytes_loop (str w2 @ rest) ((h1 @ h2) @ H) (length (str w)) =
      (a @ b) @ toBytes_loop (str w2 @ rest) H (length (str w2))"
    if H: "\<forall>h \<in> set H. int (length (str w2)) \<le> lh_offset h" for rest H
  proof -
    have "\<forall>h \<in> set (h2 @ H). int (length (str w1)) \<le> lh_offset h"
      using H 2(1,5) by fastforce
    from 1(6) [OF this, of "s2 @ rest"] 2(6) [OF H, of rest] 2(1) show ?thesis by simp
  qed
  moreover have "\<forall>h \<in> set (h1 @ h2). int (length (str w)) \<le> lh_offset h"
    using 1(1,5) 2(5) by fastforce
  ultimately show ?thesis unfolding adds_def
    by (intro exI [of _ "s1 @ s2"] exI [of _ "h1 @ h2"]) (simp add: 1 2)
qed

lemma adds_list:
  assumes w1: "(lh, w1) = encbuf_list w" and p: "adds p w1 w2" and len: "length p < 2 ^ 64"
  shows "adds (rlp_head 0xC0 0xF7 (length p) @ p) w (encbuf_listEnd lh w2)"
proof -
  have w1': "str w1 = str w" "lheads w1 = lheads w @ [\<lparr>lh_offset = int (length (str w)), lh_size = lhsize w\<rparr>]"
      "lhsize w1 = lhsize w" "lh = length (lheads w)"
    using w1 by (simp_all add: encbuf_list_def)
  from p obtain s hs where 1: "str w2 = str w @ s"
    "lheads w2 = lheads w @ [\<lparr>lh_offset = int (length (str w)), lh_size = lhsize w\<rparr>] @ hs"
    "lhsize w2 = lhsize w + int (hd_bytes hs)" "length p = length s + hd_bytes hs"
    "\<forall>h \<in> set hs. int (length (str w)) \<le> lh_offset h"
    "\<And>rest H. \<forall>h \<in> set H. int (length (str w2)) \<le> lh_offset h \<Longrightarrow>
        toBytes_loop (str w2 @ rest) (hs @ H) (length (str w)) =
        p @ toBytes_loop (str w2 @ rest) H (length (str w2))"
    unfolding adds_def w1' by auto
  define h where "h = \<lparr>lh_offset = int (length (str w)), lh_size = int (length p)\<rparr>"
  have he: "head_encode h = rlp_head 0xC0 0xF7 (length p)"
    using puthead_head [OF len, of "0xC0" "0xF7"] by (simp add: head_encode_def h_def)
  have sz: "encbuf_size w2 - int (length (str w)) - lhsize w = int (length p)"
    by (simp add: encbuf_size_def 1)
  have hl: "length (head_encode h) = (if length p < 56 then 1 else 1 + intsize (of_nat (length p)))"
    using headsize_puthead [of "of_nat (length p)" "0xC0" "0xF7"] len
    by (simp add: head_encode_def h_def headsize_def u64_less_56)
  let ?w3 = "encbuf_listEnd lh w2"
  have w3: "str ?w3 = str w @ s" "lheads ?w3 = lheads w @ h # hs"
      "lhsize ?w3 = lhsize w + int (hd_bytes (h # hs))"
    using sz hl by (simp_all add: encbuf_listEnd_def Let_def w1' 1 h_def hd_bytes_def)
  have "toBytes_loop (str ?w3 @ rest) ((h # hs) @ H) (length (str w)) =
      (rlp_head 0xC0 0xF7 (length p) @ p) @ toBytes_loop (str ?w3 @ rest) H (length (str ?w3))"
    if "\<forall>x \<in> set H. int (length (str ?w3)) \<le> lh_offset x" for rest H
    using 1(6) [of H rest] that by (simp add: w3 1(1) he) (simp add: h_def)
  moreover have "length (rlp_head 0xC0 0xF7 (length p) @ p) = length s + hd_bytes (h # hs)"
    by (simp add: 1(4) hd_bytes_def he)
  moreover have "\<forall>x \<in> set (h # hs). int (length (str w)) \<le> lh_offset x"
    using 1(5) by (simp add: h_def)
  ultimately show ?thesis unfolding adds_def using w3 by blast
qed

lemma encodeStringHeader_str:
  assumes "n < 2 ^ 64"
  shows "encodeStringHeader n w = w\<lparr>str := str w @ rlp_head 0x80 0xB7 n\<rparr>"
  using puthead_head [OF assms, of "0x80" "0xB7"] assms
  by (auto simp: encodeStringHeader_def puthead_def Let_def u64_less_56 rlp_head_def split: if_splits)

lemma encodeString_str:
  assumes "length b < 2 ^ 64"
  shows "encodeString b w = w\<lparr>str := str w @ rlp_enc (Str b)\<rparr>"
proof -
  have "hd b \<le> 0x7F \<longleftrightarrow> hd b < 128" by (auto simp: word_le_nat_alt word_less_nat_alt)
  moreover have "b = [hd b]" if "length b = 1" using that by (cases b) auto
  ultimately show ?thesis using encodeStringHeader_str [OF assms]
    by (auto simp: encodeString_def)
qed

lemma encode_adds:
  "length (rlp_enc x) < 2 ^ 64 \<Longrightarrow> adds (rlp_enc x) w (encodeItem x w)"
  "length (concat (map rlp_enc xs)) < 2 ^ 64 \<Longrightarrow> adds (concat (map rlp_enc xs)) w (encodeItems xs w)"
proof (induction x w and xs w rule: encodeItem_encodeItems.induct)
  case (1 b w)
  then have "length b < 2 ^ 64" by (auto split: if_splits)
  then have "encodeItem (Str b) w = w\<lparr>str := str w @ rlp_enc (Str b)\<rparr>" by (simp only: encodeItem.simps encodeString_str)
  then show ?case by (rule adds_str)
next
  case (2 xs w)
  obtain lh w1 where w1: "(lh, w1) = encbuf_list w" by (metis surj_pair)
  have len: "length (concat (map rlp_enc xs)) < 2 ^ 64" using 2(2) by (simp add: Let_def)
  from adds_list [OF w1 2(1) [OF w1 refl len] len] show ?case
    by (simp add: Let_def flip: w1)
next
  case (3 w)
  show ?case using adds_str [of w w "[]"] by simp
next
  case (4 x xs w)
  from adds_trans [OF 4(1) 4(2)] 4(3) show ?case by simp
qed

lemma EncodeToBytes_size:
  assumes "length (rlp_enc x) < 2 ^ 63"
  shows "EncodeToBytes x = rlp_enc x \<and>
    encbuf_size (encodeItem x encbuf_empty) = int (length (rlp_enc x))"
proof -
  have "length (rlp_enc x) < 2 ^ 64" using assms by simp
  from encode_adds(1) [OF this, of encbuf_empty] obtain s hs where
    s: "str (encodeItem x encbuf_empty) = s" "lheads (encodeItem x encbuf_empty) = hs"
      "lhsize (encodeItem x encbuf_empty) = int (hd_bytes hs)"
      "length (rlp_enc x) = length s + hd_bytes hs"
      "\<And>rest H. \<forall>h \<in> set H. int (length s) \<le> lh_offset h \<Longrightarrow>
         toBytes_loop (s @ rest) (hs @ H) 0 = rlp_enc x @ toBytes_loop (s @ rest) H (length s)"
    by (auto simp: adds_def encbuf_empty_def)
  from s(5) [of "[]" "[]"] s show ?thesis
    by (simp add: EncodeToBytes_def toBytes_def encbuf_size_def)
qed

lemma EncodeToBytes_eq: "length (rlp_enc x) < 2 ^ 63 \<Longrightarrow> EncodeToBytes x = rlp_enc x"
  using EncodeToBytes_size by blast

text \<open>C17: the two-pass encoder produces the reference encoding. For every item whose encoding
  fits in memory, \<^verbatim>\<open>EncodeToBytes\<close>, which collects string data and list headers in one pass
  over the value and interleaves them afterwards, returns exactly the Yellow Paper encoding, and
  the size it computes before writing (\<^verbatim>\<open>encbuf.size\<close>) is the length of what it writes.\<close>

theorem encbuf_correct:
  assumes "length (rlp_enc x) < 2 ^ 63"
  shows "EncodeToBytes x = rlp_enc x \<and>
    encbuf_size (encodeItem x encbuf_empty) = int (length (rlp_enc x))"
  using EncodeToBytes_size [OF assms] .

theorem encbuf_correct_witness:
  "EncodeToBytes (Lst [Str [0x7F], Str [1, 2], Lst []]) = [0xC5, 0x7F, 0x82, 1, 2, 0xC0]"
  using encbuf_correct [of "Lst [Str [0x7F], Str [1, 2], Lst []]"]
  by (simp add: rlp_head_def)

end
