(* ===== verification/Rlp_Raw.thy ===== *)
theory Rlp_Raw
  imports Rlp_Encode
begin

text \<open>
  The slice-based readers of \<^verbatim>\<open>src/rlp/raw.go\<close>: \<^verbatim>\<open>readKind\<close>, \<^verbatim>\<open>readSize\<close>, \<^verbatim>\<open>Split\<close>,
  \<^verbatim>\<open>SplitString\<close>, \<^verbatim>\<open>SplitList\<close> and \<^verbatim>\<open>CountValues\<close>. Splitting inverts the reference encoding, and
  whatever splits is canonically encoded.
\<close>

section \<open>Errors and kinds\<close>

datatype rlp_error =
    io_EOF | io_ErrUnexpectedEOF
  | ErrCanonSize | ErrCanonInt | ErrValueTooLarge | ErrElemTooLarge
  | ErrExpectedString | ErrExpectedList | ErrMoreThanOneValue
  | EOL | errNotInList | errNotAtEOL | errUintOverflow
  | errStringTooLong | errStringTooShort | errTooFewElements | errInvalidBool

datatype kind = Byte | String | List

section \<open>Reading headers\<close>

definition shl :: "byte \<Rightarrow> nat \<Rightarrow> u64" where
  "shl b n = push_bit n (ucast b)"

definition readSize :: "bytes \<Rightarrow> byte \<Rightarrow> rlp_error + u64" where
  "readSize b slen =
     (if length b < unat slen then Inl io_ErrUnexpectedEOF
      else
        (let s =
          (if slen = 1 then ucast (b ! 0)
           else if slen = 2 then shl (b ! 0) 8 OR ucast (b ! 1)
           else if slen = 3 then shl (b ! 0) 16 OR shl (b ! 1) 8 OR ucast (b ! 2)
           else if slen = 4 then shl (b ! 0) 24 OR shl (b ! 1) 16 OR shl (b ! 2) 8 OR ucast (b ! 3)
           else if slen = 5 then
             shl (b ! 0) 32 OR shl (b ! 1) 24 OR shl (b ! 2) 16 OR shl (b ! 3) 8 OR ucast (b ! 4)
           else if slen = 6 then
             shl (b ! 0) 40 OR shl (b ! 1) 32 OR shl (b ! 2) 24 OR shl (b ! 3) 16 OR shl (b ! 4) 8
               OR ucast (b ! 5)
           else if slen = 7 then
             shl (b ! 0) 48 OR shl (b ! 1) 40 OR shl (b ! 2) 32 OR shl (b ! 3) 24 OR shl (b ! 4) 16
               OR shl (b ! 5) 8 OR ucast (b ! 6)
           else if slen = 8 then
             shl (b ! 0) 56 OR shl (b ! 1) 48 OR shl (b ! 2) 40 OR shl (b ! 3) 32 OR shl (b ! 4) 24
               OR shl (b ! 5) 16 OR shl (b ! 6) 8 OR ucast (b ! 7)
           else 0)
         in if s < 56 \<or> b ! 0 = 0 then Inl ErrCanonSize else Inr s))"

text \<open>\<^verbatim>\<open>readKind\<close> returns the kind, the size of the header and the size of the content. The final
  check is \<^verbatim>\<open>contentsize > uint64(len(buf))-tagsize\<close>; the header never exceeds the buffer
  there, so the subtraction is exact.\<close>

definition readKind :: "bytes \<Rightarrow> rlp_error + (kind \<times> nat \<times> nat)" where
  "readKind buf =
     (case buf of
        [] \<Rightarrow> Inl io_ErrUnexpectedEOF
      | b # bs \<Rightarrow>
          (let r =
            (if b < 0x80 then Inr (Byte, 0, 1)
             else if b < 0xB8 then
               (let cs = unat (b - 0x80) in
                if cs = 1 \<and> bs \<noteq> [] \<and> hd bs < 128 then Inl ErrCanonSize else Inr (String, 1, cs))
             else if b < 0xC0 then
               (case readSize bs (b - 0xB7) of
                  Inl e \<Rightarrow> Inl e | Inr cs \<Rightarrow> Inr (String, unat (b - 0xB7) + 1, unat cs))
             else if b < 0xF8 then Inr (List, 1, unat (b - 0xC0))
             else
               (case readSize bs (b - 0xF7) of
                  Inl e \<Rightarrow> Inl e | Inr cs \<Rightarrow> Inr (List, unat (b - 0xF7) + 1, unat cs)))
           in case r of
                Inl e \<Rightarrow> Inl e
              | Inr (k, ts, cs) \<Rightarrow>
                  if cs > length buf - ts then Inl ErrValueTooLarge else Inr (k, ts, cs)))"

section \<open>Splitting\<close>

definition Split :: "bytes \<Rightarrow> rlp_error + (kind \<times> bytes \<times> bytes)" where
  "Split b =
     (case readKind b of
        Inl e \<Rightarrow> Inl e
      | Inr (k, ts, cs) \<Rightarrow> Inr (k, take cs (drop ts b), drop (ts + cs) b))"

definition SplitString :: "bytes \<Rightarrow> rlp_error + (bytes \<times> bytes)" where
  "SplitString b =
     (case Split b of
        Inl e \<Rightarrow> Inl e
      | Inr (k, content, rest) \<Rightarrow> if k = List then Inl ErrExpectedString else Inr (content, rest))"

definition SplitList :: "bytes \<Rightarrow> rlp_error + (bytes \<times> bytes)" where
  "SplitList b =
     (case Split b of
        Inl e \<Rightarrow> Inl e
      | Inr (k, content, rest) \<Rightarrow> if k \<noteq> List then Inl ErrExpectedList else Inr (content, rest))"

lemma readSize_length: "readSize b slen = Inr s \<Longrightarrow> unat slen \<le> length b"
  by (rule ccontr) (simp add: readSize_def)

lemma readKind_progress:
  assumes "readKind b = Inr (k, ts, cs)"
  shows "0 < ts + cs \<and> ts + cs \<le> length b"
proof -
  from assms have "b \<noteq> []" by (auto simp: readKind_def)
  then show ?thesis using assms
    by (auto simp: readKind_def Let_def split: list.splits if_splits sum.splits dest!: readSize_length)
qed

function CountValues_loop :: "bytes \<Rightarrow> nat \<Rightarrow> rlp_error + nat" where
  "CountValues_loop b i =
     (if b = [] then Inr i
      else
        (case readKind b of
           Inl e \<Rightarrow> Inl e
         | Inr (_, ts, cs) \<Rightarrow> CountValues_loop (drop (ts + cs) b) (i + 1)))"
  by pat_completeness auto
termination
  by (relation "measure (\<lambda>(b, _). length b)") (auto dest: readKind_progress)

declare CountValues_loop.simps [simp del]

definition CountValues :: "bytes \<Rightarrow> rlp_error + nat" where
  "CountValues b = CountValues_loop b 0"

section \<open>Sizes are big-endian numbers\<close>

definition rd :: "bytes \<Rightarrow> u64" where
  "rd bs = foldl (\<lambda>s b. push_bit 8 s OR ucast b) 0 bs"

lemma or_ucast_byte: "push_bit 8 s OR ucast (b :: byte) = s * 256 + (ucast b :: u64)"
proof -
  have "push_bit 8 s + (ucast b :: u64) = push_bit 8 s OR ucast b"
    by (rule disjunctive_add) (auto simp: bit_simps dest: bit_imp_le_length)
  then show ?thesis by (simp add: push_bit_eq_mult mult.commute)
qed

lemma ucast_byte_of_nat: "(ucast (b :: byte) :: u64) = of_nat (unat b)"
  by (simp add: word_unat_eq_iff unat_ucast_mod unat_of_nat)

lemma rd_be_val: "rd bs = of_nat (be_val bs)"
proof (induction bs rule: rev_induct)
  case (snoc b bs)
  then show ?case by (simp add: rd_def or_ucast_byte)
qed (simp add: rd_def)

lemma take_nth: "n \<le> length xs \<Longrightarrow> take n xs = map ((!) xs) [0..<n]"
  by (rule nth_equalityI) auto

lemma unat_be_val_take:
  assumes "n \<le> 8"
  shows "unat (of_nat (be_val (take n bs)) :: u64) = be_val (take n bs)"
proof -
  have "be_val (take n bs) < 256 ^ length (take n bs)" by (rule be_val_less)
  also have "(256 :: nat) ^ length (take n bs) \<le> 256 ^ 8" using assms by (intro power_increasing) auto
  finally have "be_val (take n bs) < 2 ^ 64" by simp
  then show ?thesis by (simp add: unat_of_nat)
qed

lemma rd_unroll:
  "rd [a] = ucast a"
  "rd [a, b] = shl a 8 OR ucast b"
  "rd [a, b, c] = shl a 16 OR shl b 8 OR ucast c"
  "rd [a, b, c, d] = shl a 24 OR shl b 16 OR shl c 8 OR ucast d"
  "rd [a, b, c, d, e] = shl a 32 OR shl b 24 OR shl c 16 OR shl d 8 OR ucast e"
  "rd [a, b, c, d, e, f] = shl a 40 OR shl b 32 OR shl c 24 OR shl d 16 OR shl e 8 OR ucast f"
  "rd [a, b, c, d, e, f, g] =
     shl a 48 OR shl b 40 OR shl c 32 OR shl d 24 OR shl e 16 OR shl f 8 OR ucast g"
  "rd [a, b, c, d, e, f, g, h] =
     shl a 56 OR shl b 48 OR shl c 40 OR shl d 32 OR shl e 24 OR shl f 16 OR shl g 8 OR ucast h"
  by (simp_all add: rd_def shl_def or.assoc)

lemma upt_unroll:
  "[0..<2] = [0, 1]" "[0..<3] = [0, 1, 2]" "[0..<4] = [0, 1, 2, 3]" "[0..<5] = [0, 1, 2, 3, 4]"
  "[0..<6] = [0, 1, 2, 3, 4, 5]" "[0..<7] = [0, 1, 2, 3, 4, 5, 6]" "[0..<8] = [0, 1, 2, 3, 4, 5, 6, 7]"
  by code_simp+

lemma readSize_rd:
  assumes "slen \<in> {1, 2, 3, 4, 5, 6, 7, 8}" and "unat slen \<le> length b"
  shows "readSize b slen =
    (if rd (take (unat slen) b) < 56 \<or> b ! 0 = 0 then Inl ErrCanonSize
     else Inr (rd (take (unat slen) b)))"
  using assms list.size(3) [where 'a = byte]
  by (elim insertE emptyE; cases "b = []")
    (simp_all add: readSize_def take_nth upt_unroll rd_unroll Let_def)

lemma readSize_eq:
  assumes "slen \<in> {1, 2, 3, 4, 5, 6, 7, 8}"
  shows "readSize b slen =
    (if length b < unat slen then Inl io_ErrUnexpectedEOF
     else if be_val (take (unat slen) b) < 56 \<or> b ! 0 = 0 then Inl ErrCanonSize
     else Inr (of_nat (be_val (take (unat slen) b))))"
proof (cases "length b < unat slen")
  case True
  then show ?thesis by (simp add: readSize_def)
next
  case False
  have "unat slen \<le> 8" using assms by auto
  then have "rd (take (unat slen) b) < 56 \<longleftrightarrow> be_val (take (unat slen) b) < 56"
    using unat_be_val_take [of "unat slen" b] by (simp add: rd_be_val word_less_nat_alt)
  with False show ?thesis using readSize_rd [OF assms, of b] by (simp add: rd_be_val)
qed

section \<open>Splitting inverts the encoding\<close>

fun item_kind :: "rlp_item \<Rightarrow> kind" where
  "item_kind (Str b) = (if length b = 1 \<and> hd b < 128 then Byte else String)"
| "item_kind (Lst _) = List"

fun item_content :: "rlp_item \<Rightarrow> bytes" where
  "item_content (Str b) = b"
| "item_content (Lst xs) = concat (map rlp_enc xs)"

lemma of_nat_small_byte: "n < 256 \<Longrightarrow> unat (of_nat n :: byte) = n"
  by (simp add: unat_of_nat)

lemma nat_bytes_size:
  assumes "56 \<le> n" and "n < 2 ^ 64"
  shows "length (nat_bytes n) \<in> {1, 2, 3, 4, 5, 6, 7, 8}"
proof -
  have "length (nat_bytes n) \<le> 8" using length_nat_bytes_le [of n 8] assms by simp
  moreover have "length (nat_bytes n) \<noteq> 0" using assms by simp
  ultimately show ?thesis unfolding insert_iff empty_iff by linarith
qed

lemma readSize_nat_bytes:
  assumes "56 \<le> n" and "n < 2 ^ 64"
  shows "readSize (nat_bytes n @ t) (of_nat (length (nat_bytes n))) = Inr (of_nat n)"
proof -
  let ?L = "length (nat_bytes n)"
  have L: "?L \<in> {1, 2, 3, 4, 5, 6, 7, 8}" by (rule nat_bytes_size [OF assms])
  then have s: "(of_nat ?L :: byte) \<in> {1, 2, 3, 4, 5, 6, 7, 8}" by (elim insertE emptyE) simp_all
  have u: "unat (of_nat ?L :: byte) = ?L" using L by (intro of_nat_small_byte) auto
  have "(nat_bytes n @ t) ! 0 \<noteq> 0"
    using hd_nat_bytes [of n] assms L by (cases "nat_bytes n") auto
  with assms show ?thesis unfolding readSize_eq [OF s] u by simp
qed

lemma readKind_head:
  assumes n: "n = length c" "n < 2 ^ 64"
    and canon: "k = String \<Longrightarrow> \<not> (length c = 1 \<and> hd c < 128)"
    and tag: "(k, small, large) \<in> {(String, 0x80, 0xB7), (List, 0xC0, 0xF7)}"
  shows "readKind (rlp_head small large n @ c @ rest) = Inr (k, length (rlp_head small large n), n)"
proof (cases "n < 56")
  case True
  have u: "unat (of_nat (small + n) :: byte) = small + n"
    using True tag by (intro of_nat_small_byte) auto
  have "(of_nat (small + n) :: byte) - of_nat small = of_nat n" by simp
  moreover have "unat (of_nat n :: byte) = n" using True by (intro of_nat_small_byte) auto
  moreover have "\<not> (n = 1 \<and> c @ rest \<noteq> [] \<and> hd (c @ rest) < 128)" if "k = String"
    using canon [OF that] n by (cases c) auto
  ultimately show ?thesis using True tag n u
    by (auto simp: readKind_def rlp_head_def word_less_nat_alt Let_def)
next
  case False
  let ?L = "length (nat_bytes n)"
  have L: "?L \<in> {1, 2, 3, 4, 5, 6, 7, 8}" using False n by (intro nat_bytes_size) auto
  have u: "unat (of_nat (large + ?L) :: byte) = large + ?L"
    using L tag by (intro of_nat_small_byte) auto
  have uL: "unat (of_nat ?L :: byte) = ?L" using L by (intro of_nat_small_byte) auto
  have un: "unat (of_nat n :: u64) = n" using n by (simp add: unat_of_nat)
  have d: "(of_nat (large + ?L) :: byte) - of_nat large = of_nat ?L" by simp
  have rs: "readSize (nat_bytes n @ c @ rest) (of_nat ?L) = Inr (of_nat n)"
    using False n by (intro readSize_nat_bytes) auto
  have b1: "\<not> large + ?L < 0x80" "\<not> large + ?L < 0xB8" using tag L by auto
  have b2: "k = String \<Longrightarrow> large + ?L < 0xC0" "k = List \<Longrightarrow> \<not> large + ?L < 0xF8"
    using tag L False by auto
  show ?thesis using False tag n u uL un rs d b1 b2
    by (auto simp: readKind_def rlp_head_def word_less_nat_alt Let_def)
qed

lemma Split_enc:
  assumes "length (rlp_enc x) < 2 ^ 64"
  shows "Split (rlp_enc x @ rest) = Inr (item_kind x, item_content x, rest)"
proof (cases x)
  case (Str b)
  show ?thesis
  proof (cases "length b = 1 \<and> hd b < 128")
    case True
    then obtain c where "b = [c]" "c < 128" by (cases b) auto
    then show ?thesis using Str by (simp add: Split_def readKind_def)
  next
    case False
    have "length b < 2 ^ 64" using assms Str by (auto split: if_splits)
    then have "readKind (rlp_head 0x80 0xB7 (length b) @ b @ rest) =
        Inr (String, length (rlp_head 0x80 0xB7 (length b)), length b)"
      using False by (intro readKind_head) auto
    moreover have "rlp_enc x = rlp_head 0x80 0xB7 (length b) @ b" "item_kind x = String"
      using Str False by auto
    ultimately show ?thesis using Str by (simp add: Split_def)
  qed
next
  case (Lst xs)
  let ?p = "concat (map rlp_enc xs)"
  have "length ?p < 2 ^ 64" using assms Lst by (simp add: Let_def)
  then have "readKind (rlp_head 0xC0 0xF7 (length ?p) @ ?p @ rest) =
      Inr (List, length (rlp_head 0xC0 0xF7 (length ?p)), length ?p)"
    by (intro readKind_head) auto
  then show ?thesis using Lst by (simp add: Split_def Let_def)
qed

section \<open>Whatever splits is canonical\<close>

lemma byte_diff: "c \<le> b \<Longrightarrow> unat (b - c) = unat b - unat (c :: byte)"
  by (rule unat_sub)

lemma byte_of_unat: "n = unat b \<Longrightarrow> (of_nat n :: byte) = b"
  by simp

lemma readSize_canonical:
  assumes rs: "readSize bs s = Inr cs" and s: "s \<in> {1, 2, 3, 4, 5, 6, 7, 8}"
  shows "\<exists>t. bs = nat_bytes (unat cs) @ t \<and> length (nat_bytes (unat cs)) = unat s \<and> 56 \<le> unat cs"
proof -
  let ?p = "take (unat s) bs"
  from rs have len: "unat s \<le> length bs" by (rule readSize_length)
  from s have us: "unat s \<in> {1, 2, 3, 4, 5, 6, 7, 8}" by (elim insertE emptyE) simp_all
  then have s8: "1 \<le> unat s" "unat s \<le> 8" by auto
  from rs have v: "56 \<le> be_val ?p" "bs ! 0 \<noteq> 0" "cs = of_nat (be_val ?p)"
    using len unfolding readSize_eq [OF s] by (auto split: if_splits)
  have "be_val ?p < 256 ^ unat s" using be_val_less [of ?p] len by simp
  also have "\<dots> \<le> 256 ^ 8" by (rule power_increasing) (use s8 in auto)
  finally have ucs: "unat cs = be_val ?p" using v(3) by (simp add: unat_of_nat)
  have "?p \<noteq> []" using s8 len by (cases bs) auto
  moreover have "hd ?p \<noteq> 0" using v(2) s8 len by (cases bs) (auto simp: take_Cons')
  ultimately have "nat_bytes (unat cs) = ?p" unfolding ucs by (intro nat_bytes_be_val) auto
  then show ?thesis using v(1) ucs len
    by (intro exI [of _ "drop (unat s) bs"]) simp
qed

lemma readKind_canonical:
  assumes rk: "readKind b = Inr (k, ts, cs)"
  shows "ts + cs \<le> length b \<and>
    (case k of
       Byte \<Rightarrow> ts = 0 \<and> cs = 1 \<and> hd b < 128
     | String \<Rightarrow> take ts b = rlp_head 0x80 0xB7 cs \<and> \<not> (cs = 1 \<and> b ! ts < 128)
     | List \<Rightarrow> take ts b = rlp_head 0xC0 0xF7 cs)"
proof -
  have len: "ts + cs \<le> length b" using readKind_progress [OF rk] by simp
  from rk obtain h bs where b: "b = h # bs" by (auto simp: readKind_def split: list.splits)
  have long: "take (unat (h - t) + 1) b = rlp_head small (unat t) (unat cs') \<and> 56 \<le> unat cs'"
    if "readSize bs (h - t) = Inr cs'" and t: "t < h" "unat h \<le> unat t + 8"
    for t :: byte and cs' small
  proof -
    have u: "unat (h - t) = unat h - unat t" using t(1) by (intro byte_diff) simp
    then have "unat (h - t) \<in> {1, 2, 3, 4, 5, 6, 7, 8}"
      using t unfolding insert_iff empty_iff word_less_nat_alt by linarith
    then have "h - t \<in> {1, 2, 3, 4, 5, 6, 7, 8}"
      by (elim insertE emptyE) (simp_all add: word_unat_eq_iff)
    from readSize_canonical [OF that(1) this] obtain r where
      r: "bs = nat_bytes (unat cs') @ r" "length (nat_bytes (unat cs')) = unat (h - t)"
        "56 \<le> unat cs'" by blast
    moreover have "(of_nat (unat t + unat (h - t)) :: byte) = h"
      by (rule byte_of_unat) (use u t in \<open>simp add: word_less_nat_alt\<close>)
    ultimately show ?thesis using b by (simp add: rlp_head_def)
  qed
  have short: "take 1 b = rlp_head (unat t) large (unat (h - t))"
    if "t \<le> h" and "unat h < unat t + 56" for t :: byte and large
  proof -
    have "unat (h - t) = unat h - unat t" using that(1) by (rule byte_diff)
    moreover have "unat t \<le> unat h" using that(1) by (simp add: word_le_nat_alt)
    moreover have "unat h - unat t < 56" using that(2) by linarith
    ultimately show ?thesis using b by (simp add: rlp_head_def)
  qed
  consider "h < 0x80" | "\<not> h < 0x80" "h < 0xB8" | "\<not> h < 0xB8" "h < 0xC0"
    | "\<not> h < 0xC0" "h < 0xF8" | "\<not> h < 0xF8" by blast
  then show ?thesis
  proof cases
    case 1
    then show ?thesis using rk b len by (auto simp: readKind_def split: if_splits)
  next
    case 2
    then have k: "k = String" "ts = 1" "cs = unat (h - 0x80)"
      and c: "\<not> (cs = 1 \<and> bs \<noteq> [] \<and> hd bs < 128)"
      using rk b by (auto simp: readKind_def Let_def split: if_splits)
    have "take 1 b = rlp_head (unat (0x80 :: byte)) 0xB7 cs"
      unfolding k(3) using 2 by (intro short) (auto simp: word_less_nat_alt word_le_nat_alt)
    moreover have "\<not> (cs = 1 \<and> b ! ts < 128)"
      using c len k b by (cases bs) auto
    ultimately show ?thesis using k len by simp
  next
    case 3
    then have n: "\<not> h < 0x80" by (auto simp: word_less_nat_alt)
    with 3 rk b obtain cs' where k: "k = String" "ts = unat (h - 0xB7) + 1" "cs = unat cs'"
      and r: "readSize bs (h - 0xB7) = Inr cs'"
      by (auto simp: readKind_def Let_def split: if_splits sum.splits)
    have "take ts b = rlp_head 0x80 (unat (0xB7 :: byte)) (unat cs') \<and> 56 \<le> unat cs'"
      unfolding k(2) by (rule long [OF r]) (use 3 in \<open>auto simp: word_less_nat_alt\<close>)
    then show ?thesis using k len by simp
  next
    case 4
    then have n: "\<not> h < 0x80" "\<not> h < 0xB8" by (auto simp: word_less_nat_alt)
    with 4 have k: "k = List" "ts = 1" "cs = unat (h - 0xC0)"
      using rk b by (auto simp: readKind_def Let_def split: if_splits)
    have "take 1 b = rlp_head (unat (0xC0 :: byte)) 0xF7 cs"
      unfolding k(3) using 4 by (intro short) (auto simp: word_less_nat_alt word_le_nat_alt)
    then show ?thesis using k len by simp
  next
    case 5
    then have n: "\<not> h < 0x80" "\<not> h < 0xB8" "\<not> h < 0xC0" by (auto simp: word_less_nat_alt)
    with 5 rk b obtain cs' where k: "k = List" "ts = unat (h - 0xF7) + 1" "cs = unat cs'"
      and r: "readSize bs (h - 0xF7) = Inr cs'"
      by (auto simp: readKind_def Let_def split: if_splits sum.splits)
    have h: "unat h \<le> 255" using unat_byte_less [of h] by linarith
    have "take ts b = rlp_head 0xC0 (unat (0xF7 :: byte)) (unat cs') \<and> 56 \<le> unat cs'"
      unfolding k(2) by (rule long [OF r]) (use 5 h in \<open>simp_all add: word_less_nat_alt del: unsigned_less\<close>)
    then show ?thesis using k len by simp
  qed
qed

lemma Split_canonical:
  assumes "Split b = Inr (k, c, rest)"
  shows "if k = List then b = rlp_head 0xC0 0xF7 (length c) @ c @ rest
         else b = rlp_enc (Str c) @ rest \<and> k = item_kind (Str c)"
proof -
  from assms obtain ts cs where rk: "readKind b = Inr (k, ts, cs)"
    and c: "c = take cs (drop ts b)" and r: "rest = drop (ts + cs) b"
    by (auto simp: Split_def split: sum.splits)
  note K = readKind_canonical [OF rk]
  have b: "b = take ts b @ c @ rest" unfolding c r
    by (metis append_take_drop_id drop_drop add.commute)
  have len: "length c = cs" using conjunct1 [OF K] unfolding c by simp
  show ?thesis
  proof (cases k)
    case Byte
    then have ts: "ts = 0" "length c = 1" "hd b < 128" using K len by auto
    then have "b = c @ rest" using b by simp
    then show ?thesis using Byte ts(2,3) by (cases c) auto
  next
    case String
    then have "take ts b = rlp_head 0x80 0xB7 cs" and n: "\<not> (cs = 1 \<and> b ! ts < 128)" using K by auto
    moreover have "hd c = b ! ts" if "cs = 1"
      using that K c by (simp add: hd_drop_conv_nth hd_take)
    ultimately show ?thesis using String b len n by (metis append.assoc item_kind.simps(1) kind.distinct(5) rlp_enc.simps(1))
  next
    case List
    then have "take ts b = rlp_head 0xC0 0xF7 cs" using K by simp
    then show ?thesis using List b len by metis
  qed
qed

section \<open>Counting values\<close>

lemma Split_readKind:
  assumes "Split b = Inr (k, c, rest)"
  shows "\<exists>ts cs. readKind b = Inr (k, ts, cs) \<and> drop (ts + cs) b = rest"
  using assms by (auto simp: Split_def split: sum.splits)

lemma rlp_head_nonempty [simp]: "rlp_head s l n \<noteq> []"
  by (simp add: rlp_head_def)

lemma rlp_enc_nonempty [simp]: "rlp_enc x \<noteq> []"
  by (cases x) (auto simp: Let_def)

lemma CountValues_loop_enc:
  assumes "\<forall>x \<in> set xs. length (rlp_enc x) < 2 ^ 64"
  shows "CountValues_loop (concat (map rlp_enc xs)) i = Inr (i + length xs)"
  using assms
proof (induction xs arbitrary: i)
  case Nil
  show ?case by (subst CountValues_loop.simps) simp
next
  case (Cons x xs)
  let ?rest = "concat (map rlp_enc xs)"
  have "length (rlp_enc x) < 2 ^ 64" using Cons.prems by simp
  from Split_readKind [OF Split_enc [OF this]] obtain ts cs where
    rk: "readKind (rlp_enc x @ ?rest) = Inr (item_kind x, ts, cs)"
      "drop (ts + cs) (rlp_enc x @ ?rest) = ?rest" by blast
  have "CountValues_loop (rlp_enc x @ ?rest) i = CountValues_loop ?rest (i + 1)"
    by (subst CountValues_loop.simps) (simp add: rk del: drop_append)
  with Cons show ?case by simp
qed

lemma Split_kind_content:
  assumes "Split b = Inr (k, c, rest)" and "k \<noteq> List"
  shows "b = rlp_enc (Str c) @ rest"
  using Split_canonical [OF assms(1)] assms(2) by simp

text \<open>C26: \<^verbatim>\<open>SplitString\<close> accepts exactly the canonical encodings of strings. On a buffer that fits in
  memory it returns content \<open>c\<close> and remainder \<open>rest\<close> if and only if the buffer is the encoding of
  the string \<open>c\<close> followed by \<open>rest\<close>: it inverts the encoder and no second encoding of the same
  string (a long header for a short string, leading zeros in a size, a wrapped single byte) is
  accepted.\<close>

theorem SplitString_iff:
  assumes "length b < 2 ^ 64"
  shows "SplitString b = Inr (c, rest) \<longleftrightarrow> b = rlp_enc (Str c) @ rest"
proof
  assume "SplitString b = Inr (c, rest)"
  then obtain k where "Split b = Inr (k, c, rest)" "k \<noteq> List"
    by (auto simp: SplitString_def split: sum.splits if_splits)
  then show "b = rlp_enc (Str c) @ rest" by (rule Split_kind_content)
next
  assume b: "b = rlp_enc (Str c) @ rest"
  then have "length (rlp_enc (Str c)) < 2 ^ 64" using assms by (simp del: rlp_enc.simps)
  from Split_enc [OF this, of rest] b show "SplitString b = Inr (c, rest)"
    by (simp add: SplitString_def del: rlp_enc.simps)
qed

theorem SplitString_iff_witness:
  "SplitString [0x82, 1, 2, 9] = Inr ([1, 2], [9]) \<and> SplitString [0x81, 5] \<noteq> Inr ([5], [])"
  using SplitString_iff [of "[0x82, 1, 2, 9]" "[1, 2]" "[9]"] SplitString_iff [of "[0x81, 5]" "[5]" "[]"]
  by (simp add: rlp_head_def)

text \<open>C27: \<^verbatim>\<open>SplitList\<close> followed by \<^verbatim>\<open>CountValues\<close> sees the structure of an encoded list. On the
  encoding of a list of items followed by anything, \<^verbatim>\<open>SplitList\<close> returns the concatenated encodings
  of the items and leaves the rest, and \<^verbatim>\<open>CountValues\<close> on that content returns the number of items
  (its loop ends and reports no error).\<close>

theorem SplitList_CountValues:
  assumes "length (rlp_enc (Lst xs)) < 2 ^ 64"
  shows "SplitList (rlp_enc (Lst xs) @ rest) = Inr (concat (map rlp_enc xs), rest) \<and>
    CountValues (concat (map rlp_enc xs)) = Inr (length xs)"
proof
  show "SplitList (rlp_enc (Lst xs) @ rest) = Inr (concat (map rlp_enc xs), rest)"
    using Split_enc [OF assms, of rest] by (simp add: SplitList_def del: rlp_enc.simps)
  have "length (rlp_enc x) < 2 ^ 64" if "x \<in> set xs" for x
  proof -
    have "length (rlp_enc x) \<le> length (concat (map rlp_enc xs))"
      using that by (induction xs) auto
    also have "\<dots> \<le> length (rlp_enc (Lst xs))" by (simp add: Let_def)
    finally show ?thesis using assms by simp
  qed
  then show "CountValues (concat (map rlp_enc xs)) = Inr (length xs)"
    using CountValues_loop_enc [of xs 0] by (simp add: CountValues_def)
qed

theorem SplitList_CountValues_witness:
  "SplitList [0xC4, 0x82, 1, 2, 0xC0, 7] = Inr ([0x82, 1, 2, 0xC0], [7]) \<and>
   CountValues [0x82, 1, 2, 0xC0] = Inr 2"
  using SplitList_CountValues [of "[Str [1, 2], Lst []]" "[7]"]
  by (simp add: rlp_head_def)

end
