(* ===== verification/Rlp_Stream.thy ===== *)
theory Rlp_Stream
  imports Rlp_Raw
begin

text \<open>
  The streaming decoder of \<^verbatim>\<open>src/rlp/decode.go\<close> over a byte reader: \<^verbatim>\<open>Stream\<close> with its limit,
  its cached kind and its stack of open lists, the primitive reads, and the decoders that
  \<^verbatim>\<open>typecache\<close> selects for the types the consensus messages use (\<^verbatim>\<open>[]byte\<close>, \<^verbatim>\<open>uint64\<close>,
  \<^verbatim>\<open>*big.Int\<close>, byte arrays, slices, structs, \<^verbatim>\<open>interface{}\<close>). The stack keeps the innermost list
  first. A decoder maps a stream to a result and the stream afterwards; \<open>None\<close> is reserved for a
  fuelled loop that ran out of fuel, and the totality lemmas show that this never happens.
  Positions and sizes are natural numbers: every addition in the code is guarded by a comparison
  with the space left, so the \<^verbatim>\<open>uint64\<close> arithmetic never wraps.
\<close>

section \<open>Streams\<close>

record stream =
  s_r :: bytes
  s_remaining :: nat
  s_limited :: bool
  s_kind :: "kind option"
  s_size :: nat
  s_byteval :: byte
  s_kinderr :: "rlp_error option"
  s_stack :: "(nat \<times> nat) list"

type_synonym 'a dec = "stream \<Rightarrow> ((rlp_error + 'a) \<times> stream) option"

definition Stream_Reset :: "bytes \<Rightarrow> nat \<Rightarrow> stream" where
  "Stream_Reset r inputLimit =
     \<lparr>s_r = r, s_remaining = (if inputLimit > 0 then inputLimit else length r), s_limited = True,
      s_kind = None, s_size = 0, s_byteval = 0, s_kinderr = None, s_stack = []\<rparr>"

section \<open>Primitive reads\<close>

definition willRead :: "nat \<Rightarrow> stream \<Rightarrow> (rlp_error + unit) \<times> stream" where
  "willRead n s0 =
     (let s = s0\<lparr>s_kind := None\<rparr>;
          limit = (\<lambda>s. if s_limited s
                       then (if n > s_remaining s then (Inl ErrValueTooLarge, s)
                             else (Inr (), s\<lparr>s_remaining := s_remaining s - n\<rparr>))
                       else (Inr (), s))
      in case s_stack s of
           [] \<Rightarrow> limit s
         | (pos, sz) # st \<Rightarrow>
             if n > sz - pos then (Inl ErrElemTooLarge, s)
             else limit (s\<lparr>s_stack := (pos + n, sz) # st\<rparr>))"

definition readFull :: "nat \<Rightarrow> stream \<Rightarrow> (rlp_error + bytes) \<times> stream" where
  "readFull n s =
     (case willRead n s of
        (Inl e, s1) \<Rightarrow> (Inl e, s1)
      | (Inr _, s1) \<Rightarrow>
          if length (s_r s1) < n then (Inl io_ErrUnexpectedEOF, s1\<lparr>s_r := []\<rparr>)
          else (Inr (take n (s_r s1)), s1\<lparr>s_r := drop n (s_r s1)\<rparr>))"

definition readByte :: "stream \<Rightarrow> (rlp_error + byte) \<times> stream" where
  "readByte s =
     (case willRead 1 s of
        (Inl e, s1) \<Rightarrow> (Inl e, s1)
      | (Inr _, s1) \<Rightarrow>
          (case s_r s1 of
             [] \<Rightarrow> (Inl io_ErrUnexpectedEOF, s1)
           | b # bs \<Rightarrow> (Inr b, s1\<lparr>s_r := bs\<rparr>)))"

definition readUint :: "nat \<Rightarrow> stream \<Rightarrow> (rlp_error + nat) \<times> stream" where
  "readUint sz s =
     (if sz = 0 then (Inr 0, s\<lparr>s_kind := None\<rparr>)
      else if sz = 1 then
        (case readByte s of (Inl e, s1) \<Rightarrow> (Inl e, s1) | (Inr b, s1) \<Rightarrow> (Inr (unat b), s1))
      else
        (case readFull sz s of
           (Inl e, s1) \<Rightarrow> (Inl e, s1)
         | (Inr buf, s1) \<Rightarrow> if hd buf = 0 then (Inl ErrCanonSize, s1) else (Inr (be_val buf), s1)))"

text \<open>\<^verbatim>\<open>readKind\<close> returns a kind and a size even together with an error.\<close>

definition stream_readKind :: "stream \<Rightarrow> (kind \<times> nat \<times> rlp_error option) \<times> stream" where
  "stream_readKind s =
     (let long = (\<lambda>k n s. case readUint n s of
                    (Inl e, s1) \<Rightarrow> ((k, 0, Some e), s1)
                  | (Inr sz, s1) \<Rightarrow> ((k, sz, if sz < 56 then Some ErrCanonSize else None), s1))
      in case readByte s of
           (Inl e, s1) \<Rightarrow>
             ((Byte, 0,
               Some (if s_stack s1 = [] \<and> (e = io_ErrUnexpectedEOF \<or> e = ErrValueTooLarge)
                     then io_EOF else e)), s1)
         | (Inr b, s1) \<Rightarrow>
             (let s2 = s1\<lparr>s_byteval := 0\<rparr> in
              if b < 0x80 then ((Byte, 0, None), s2\<lparr>s_byteval := b\<rparr>)
              else if b < 0xB8 then ((String, unat (b - 0x80), None), s2)
              else if b < 0xC0 then long String (unat (b - 0xB7)) s2
              else if b < 0xF8 then ((List, unat (b - 0xC0), None), s2)
              else long List (unat (b - 0xF7)) s2))"

definition stream_Kind :: "stream \<Rightarrow> (rlp_error + kind \<times> nat) \<times> stream" where
  "stream_Kind s =
     (let result = (\<lambda>s. (case s_kinderr s of
                          Some e \<Rightarrow> Inl e
                        | None \<Rightarrow> Inr (the (s_kind s), s_size s), s))
      in case s_kind s of
           Some _ \<Rightarrow> result s
         | None \<Rightarrow>
             (let s0 = s\<lparr>s_kinderr := None\<rparr> in
              if (case s_stack s0 of (pos, sz) # _ \<Rightarrow> pos = sz | [] \<Rightarrow> False) then (Inl EOL, s0)
              else
                (case stream_readKind s0 of
                   ((k, sz, err), s1) \<Rightarrow>
                     (let err' =
                        (case err of
                           Some e \<Rightarrow> Some e
                         | None \<Rightarrow>
                             (case s_stack s1 of
                                [] \<Rightarrow> if s_limited s1 \<and> sz > s_remaining s1
                                      then Some ErrValueTooLarge else None
                              | (pos, lsz) # _ \<Rightarrow>
                                  if sz > lsz - pos then Some ErrElemTooLarge else None))
                      in result (s1\<lparr>s_kind := Some k, s_size := sz, s_kinderr := err'\<rparr>)))))"

section \<open>Values\<close>

definition Stream_Bytes :: "bytes dec" where
  "Stream_Bytes s = Some
     (case stream_Kind s of
        (Inl e, s1) \<Rightarrow> (Inl e, s1)
      | (Inr (Byte, _), s1) \<Rightarrow> (Inr [s_byteval s1], s1\<lparr>s_kind := None\<rparr>)
      | (Inr (String, sz), s1) \<Rightarrow>
          (case readFull sz s1 of
             (Inl e, s2) \<Rightarrow> (Inl e, s2)
           | (Inr b, s2) \<Rightarrow>
               if sz = 1 \<and> hd b < 128 then (Inl ErrCanonSize, s2) else (Inr b, s2))
      | (Inr (List, _), s1) \<Rightarrow> (Inl ErrExpectedString, s1))"

definition Stream_Raw :: "bytes dec" where
  "Stream_Raw s = Some
     (case stream_Kind s of
        (Inl e, s1) \<Rightarrow> (Inl e, s1)
      | (Inr (k, sz), s1) \<Rightarrow>
          if k = Byte then (Inr [s_byteval s1], s1\<lparr>s_kind := None\<rparr>)
          else
            (case readFull sz s1 of
               (Inl e, s2) \<Rightarrow> (Inl e, s2)
             | (Inr b, s2) \<Rightarrow>
                 (Inr ((if k = String then puthead 0x80 0xB7 (of_nat sz)
                        else puthead 0xC0 0xF7 (of_nat sz)) @ b), s2)))"

definition Stream_uint :: "nat \<Rightarrow> u64 dec" where
  "Stream_uint maxbits s = Some
     (case stream_Kind s of
        (Inl e, s1) \<Rightarrow> (Inl e, s1)
      | (Inr (Byte, _), s1) \<Rightarrow>
          if s_byteval s1 = 0 then (Inl ErrCanonInt, s1)
          else (Inr (ucast (s_byteval s1)), s1\<lparr>s_kind := None\<rparr>)
      | (Inr (String, sz), s1) \<Rightarrow>
          if sz > maxbits div 8 then (Inl errUintOverflow, s1)
          else
            (case readUint sz s1 of
               (Inl e, s2) \<Rightarrow> (Inl (if e = ErrCanonSize then ErrCanonInt else e), s2)
             | (Inr v, s2) \<Rightarrow>
                 if sz > 0 \<and> v < 128 then (Inl ErrCanonSize, s2) else (Inr (of_nat v), s2))
      | (Inr (List, _), s1) \<Rightarrow> (Inl ErrExpectedString, s1))"

definition Stream_Bool :: "bool dec" where
  "Stream_Bool s =
     (case Stream_uint 8 s of
        None \<Rightarrow> None
      | Some (Inl e, s1) \<Rightarrow> Some (Inl e, s1)
      | Some (Inr n, s1) \<Rightarrow>
          Some (if n = 0 then Inr False else if n = 1 then Inr True else Inl errInvalidBool, s1))"

definition Stream_List :: "stream \<Rightarrow> (rlp_error + nat) \<times> stream" where
  "Stream_List s =
     (case stream_Kind s of
        (Inl e, s1) \<Rightarrow> (Inl e, s1)
      | (Inr (k, sz), s1) \<Rightarrow>
          if k \<noteq> List then (Inl ErrExpectedList, s1)
          else (Inr sz, s1\<lparr>s_stack := (0, sz) # s_stack s1, s_kind := None, s_size := 0\<rparr>))"

definition Stream_ListEnd :: "stream \<Rightarrow> (rlp_error + unit) \<times> stream" where
  "Stream_ListEnd s =
     (case s_stack s of
        [] \<Rightarrow> (Inl errNotInList, s)
      | (pos, sz) # st \<Rightarrow>
          if pos \<noteq> sz then (Inl errNotAtEOL, s)
          else
            (Inr (),
             s\<lparr>s_stack := (case st of [] \<Rightarrow> [] | (p, z) # st' \<Rightarrow> (p + sz, z) # st'),
               s_kind := None, s_size := 0\<rparr>))"

section \<open>Decoders\<close>

definition dec_map :: "('a \<Rightarrow> rlp_error + 'b) \<Rightarrow> 'a dec \<Rightarrow> 'b dec" where
  "dec_map f d s =
     (case d s of
        None \<Rightarrow> None
      | Some (Inl e, s1) \<Rightarrow> Some (Inl e, s1)
      | Some (Inr x, s1) \<Rightarrow> Some (f x, s1))"

definition decodeUint :: "nat \<Rightarrow> u64 dec" where
  "decodeUint bits = Stream_uint bits"

definition decodeBigInt :: "nat dec" where
  "decodeBigInt =
     dec_map (\<lambda>b. if b \<noteq> [] \<and> hd b = 0 then Inl ErrCanonInt else Inr (be_val b)) Stream_Bytes"

definition decodeByteSlice :: "bytes dec" where
  "decodeByteSlice = Stream_Bytes"

definition decodeByteArray :: "nat \<Rightarrow> bytes dec" where
  "decodeByteArray vlen s = Some
     (case stream_Kind s of
        (Inl e, s1) \<Rightarrow> (Inl e, s1)
      | (Inr (Byte, _), s1) \<Rightarrow>
          if vlen = 0 then (Inl errStringTooLong, s1)
          else if vlen > 1 then (Inl errStringTooShort, s1)
          else
            (case Stream_uint 64 s1 of
               Some (Inr bv, s2) \<Rightarrow> (Inr [ucast bv], s2)
             | Some (Inl _, s2) \<Rightarrow> (Inr [0], s2)
             | None \<Rightarrow> (Inr [0], s1))
      | (Inr (String, sz), s1) \<Rightarrow>
          if vlen < sz then (Inl errStringTooLong, s1)
          else if vlen > sz then (Inl errStringTooShort, s1)
          else
            (case readFull vlen s1 of
               (Inl e, s2) \<Rightarrow> (Inl e, s2)
             | (Inr b, s2) \<Rightarrow>
                 if sz = 1 \<and> hd b < 128 then (Inl ErrCanonSize, s2) else (Inr b, s2))
      | (Inr (List, _), s1) \<Rightarrow> (Inl ErrExpectedString, s1))"

text \<open>The element loop of slices runs until the element decoder reports \<^verbatim>\<open>EOL\<close>.\<close>

fun decodeSliceElems :: "nat \<Rightarrow> 'a dec \<Rightarrow> 'a list dec" where
  "decodeSliceElems 0 elemdec s = None"
| "decodeSliceElems (Suc fuel) elemdec s =
     (case elemdec s of
        None \<Rightarrow> None
      | Some (Inl e, s1) \<Rightarrow> if e = EOL then Some (Inr [], s1) else Some (Inl e, s1)
      | Some (Inr x, s1) \<Rightarrow>
          (case decodeSliceElems fuel elemdec s1 of
             None \<Rightarrow> None
           | Some (Inl e, s2) \<Rightarrow> Some (Inl e, s2)
           | Some (Inr xs, s2) \<Rightarrow> Some (Inr (x # xs), s2)))"

definition dec_ListEnd :: "'a \<Rightarrow> 'a dec" where
  "dec_ListEnd x s =
     Some (case Stream_ListEnd s of (Inl e, s1) \<Rightarrow> (Inl e, s1) | (Inr _, s1) \<Rightarrow> (Inr x, s1))"

definition dec_then :: "'a dec \<Rightarrow> ('a \<Rightarrow> 'b dec) \<Rightarrow> 'b dec" where
  "dec_then d f s =
     (case d s of
        None \<Rightarrow> None
      | Some (Inl e, s1) \<Rightarrow> Some (Inl e, s1)
      | Some (Inr x, s1) \<Rightarrow> f x s1)"

definition decodeListSlice :: "'a dec \<Rightarrow> 'a list dec" where
  "decodeListSlice elemdec s =
     (case Stream_List s of
        (Inl e, s1) \<Rightarrow> Some (Inl e, s1)
      | (Inr sz, s1) \<Rightarrow>
          if sz = 0 then dec_ListEnd [] s1
          else dec_then (decodeSliceElems (length (s_r s1) + 1) elemdec) dec_ListEnd s1)"

primrec decodeInterface :: "nat \<Rightarrow> rlp_item dec" where
  "decodeInterface 0 s = None"
| "decodeInterface (Suc fuel) s =
     (case stream_Kind s of
        (Inl e, s1) \<Rightarrow> Some (Inl e, s1)
      | (Inr (k, _), s1) \<Rightarrow>
          if k = List then dec_map (\<lambda>xs. Inr (Lst xs)) (decodeListSlice (decodeInterface fuel)) s1
          else dec_map (\<lambda>b. Inr (Str b)) Stream_Bytes s1)"

text \<open>A struct field that reports \<^verbatim>\<open>EOL\<close> means that the list was too short.\<close>

definition dec_field :: "'a dec \<Rightarrow> 'a dec" where
  "dec_field d s =
     (case d s of
        Some (Inl e, s1) \<Rightarrow> Some (Inl (if e = EOL then errTooFewElements else e), s1)
      | r \<Rightarrow> r)"

definition dec_struct :: "'a dec \<Rightarrow> 'a dec" where
  "dec_struct flds s =
     (case Stream_List s of
        (Inl e, s1) \<Rightarrow> Some (Inl e, s1)
      | (Inr _, s1) \<Rightarrow> dec_then flds dec_ListEnd s1)"

definition dec_pair :: "'a dec \<Rightarrow> 'b dec \<Rightarrow> ('a \<times> 'b) dec" where
  "dec_pair d ds = dec_then (dec_field d) (\<lambda>x. dec_then ds (\<lambda>y s. Some (Inr (x, y), s)))"

definition DecodeBytes :: "'a dec \<Rightarrow> bytes \<Rightarrow> (rlp_error + 'a) option" where
  "DecodeBytes d b =
     (case d (Stream_Reset b (length b)) of
        None \<Rightarrow> None
      | Some (Inl e, _) \<Rightarrow> Some (Inl e)
      | Some (Inr x, s) \<Rightarrow> Some (if s_r s \<noteq> [] then Inl ErrMoreThanOneValue else Inr x))"

section \<open>Consuming input\<close>

fun bump :: "nat \<Rightarrow> (nat \<times> nat) list \<Rightarrow> (nat \<times> nat) list" where
  "bump n [] = []"
| "bump n ((p, z) # st) = (p + n, z) # st"

definition room :: "nat \<Rightarrow> stream \<Rightarrow> bool" where
  "room n s \<longleftrightarrow> (s_limited s \<longrightarrow> n \<le> s_remaining s) \<and>
     (case s_stack s of [] \<Rightarrow> True | (p, z) # _ \<Rightarrow> p + n \<le> z)"

definition pos_ok :: "stream \<Rightarrow> bool" where
  "pos_ok s \<longleftrightarrow> (\<forall>(p, z) \<in> set (s_stack s). p \<le> z)"

definition consume :: "nat \<Rightarrow> stream \<Rightarrow> stream" where
  "consume n s = s\<lparr>s_kind := None, s_stack := bump n (s_stack s),
     s_remaining := (if s_limited s then s_remaining s - n else s_remaining s),
     s_r := drop n (s_r s)\<rparr>"

text \<open>The cached size, byte and error are irrelevant once the kind is rearmed.\<close>

definition same_view :: "stream \<Rightarrow> stream \<Rightarrow> bool" where
  "same_view s s' \<longleftrightarrow> s_kind s = s_kind s' \<and> s_r s = s_r s' \<and> s_remaining s = s_remaining s' \<and>
     s_limited s = s_limited s' \<and> s_stack s = s_stack s'"

lemma bump_bump [simp]: "bump m (bump n st) = bump (n + m) st"
  by (cases st) auto

lemma bump_0 [simp]: "bump 0 st = st"
  by (cases st) auto

lemma bump_Nil [simp]: "bump n st = [] \<longleftrightarrow> st = []"
  by (cases st) auto

lemma consume_simps [simp]:
  "s_kind (consume n s) = None" "s_stack (consume n s) = bump n (s_stack s)"
  "s_limited (consume n s) = s_limited s" "s_r (consume n s) = drop n (s_r s)"
  "s_remaining (consume n s) = (if s_limited s then s_remaining s - n else s_remaining s)"
  by (simp_all add: consume_def)

lemma room_add: "room (n + m) s \<longleftrightarrow> room n s \<and> room m (consume n s)"
  by (auto simp: room_def split: list.splits prod.splits)

lemma room_le: "room n s \<Longrightarrow> m \<le> n \<Longrightarrow> room m s"
  by (auto simp: room_def split: list.splits)

lemma room_view: "same_view s s' \<Longrightarrow> room n s = room n s'"
  by (simp add: room_def same_view_def)

lemma pos_ok_consume: "pos_ok s \<Longrightarrow> room n s \<Longrightarrow> pos_ok (consume n s)"
  by (cases "s_stack s") (auto simp: pos_ok_def room_def)

lemma pos_ok_view: "same_view s s' \<Longrightarrow> pos_ok s = pos_ok s'"
  by (simp add: pos_ok_def same_view_def)

lemma same_view_refl [simp]: "same_view s s"
  by (simp add: same_view_def)

lemma same_view_trans: "same_view a b \<Longrightarrow> same_view b c \<Longrightarrow> same_view a c"
  by (simp add: same_view_def)

lemma same_view_sym: "same_view a b \<Longrightarrow> same_view b a"
  by (simp add: same_view_def)

lemma same_view_consume: "same_view a b \<Longrightarrow> same_view (consume n a) (consume n b)"
  by (simp add: same_view_def)

lemma willRead_iff:
  assumes "pos_ok s"
  shows "willRead n s = (Inr u, s') \<longleftrightarrow>
    room n s \<and> s' = (consume n s)\<lparr>s_r := s_r s\<rparr>"
  using assms
  by (cases "s_stack s")
    (auto simp: willRead_def room_def pos_ok_def consume_def Let_def split: if_splits)

lemma willRead_room: "room n s \<Longrightarrow> willRead n s = (Inr (), (consume n s)\<lparr>s_r := s_r s\<rparr>)"
  by (cases "s_stack s") (auto simp: willRead_def room_def consume_def Let_def)

lemma willRead_no_room:
  assumes "pos_ok s" and "\<not> room n s"
  shows "\<exists>e s'. willRead n s = (Inl e, s')"
proof (cases "willRead n s")
  case (Pair r s1)
  then show ?thesis using willRead_iff [OF assms(1), of n] assms(2) by (cases r) auto
qed

lemma readFull_iff:
  assumes "pos_ok s"
  shows "readFull n s = (Inr b, s') \<longleftrightarrow>
    room n s \<and> n \<le> length (s_r s) \<and> b = take n (s_r s) \<and> s' = consume n s"
proof (cases "room n s")
  case True
  then show ?thesis by (auto simp: readFull_def willRead_room consume_def)
next
  case False
  then show ?thesis using willRead_no_room [OF assms False] by (auto simp: readFull_def)
qed

lemma readByte_iff:
  assumes "pos_ok s"
  shows "readByte s = (Inr b, s') \<longleftrightarrow>
    room 1 s \<and> s_r s \<noteq> [] \<and> b = hd (s_r s) \<and> s' = consume 1 s"
proof (cases "room 1 s")
  case True
  then show ?thesis by (auto simp: readByte_def willRead_room consume_def split: list.splits)
next
  case False
  then show ?thesis using willRead_no_room [OF assms False] by (auto simp: readByte_def)
qed

lemma readByte_room: "room 1 s \<Longrightarrow> s_r s = b # bs \<Longrightarrow> readByte s = (Inr b, consume 1 s)"
  by (simp add: readByte_def willRead_room consume_def)

lemma readFull_room: "room n s \<Longrightarrow> n \<le> length (s_r s) \<Longrightarrow> readFull n s = (Inr (take n (s_r s)), consume n s)"
  by (simp add: readFull_def willRead_room consume_def)

section \<open>Headers\<close>

definition is_head :: "kind \<Rightarrow> nat \<Rightarrow> byte \<Rightarrow> bytes \<Rightarrow> bool" where
  "is_head k n bv h \<longleftrightarrow>
     (case k of
        Byte \<Rightarrow> n = 0 \<and> bv < 0x80 \<and> h = [bv]
      | String \<Rightarrow> n < 2 ^ 64 \<and> bv = 0 \<and> h = rlp_head 0x80 0xB7 n
      | List \<Rightarrow> n < 2 ^ 64 \<and> bv = 0 \<and> h = rlp_head 0xC0 0xF7 n)"

lemma is_head_nonempty: "is_head k n bv h \<Longrightarrow> h \<noteq> []"
  by (auto simp: is_head_def split: kind.splits)

lemma readUint_nat_bytes:
  assumes "56 \<le> n" and "s_r s = nat_bytes n @ rest" and "room (length (nat_bytes n)) s"
  shows "readUint (length (nat_bytes n)) s = (Inr n, consume (length (nat_bytes n)) s)"
proof -
  have ne: "nat_bytes n \<noteq> []" using assms by simp
  then have hd: "hd (nat_bytes n) \<noteq> 0" using hd_nat_bytes [of n] assms(1) by simp
  show ?thesis
  proof (cases "length (nat_bytes n) = 1")
    case True
    then obtain b where b: "nat_bytes n = [b]" by (cases "nat_bytes n") auto
    then have "unat b = n" using be_val_nat_bytes [of n] by (simp add: be_val_Cons)
    moreover have "readByte s = (Inr b, consume 1 s)" using assms b by (intro readByte_room) auto
    ultimately show ?thesis by (simp add: readUint_def b)
  next
    case False
    have "readFull (length (nat_bytes n)) s =
        (Inr (nat_bytes n), consume (length (nat_bytes n)) s)"
      using assms readFull_room [of "length (nat_bytes n)" s] by simp
    then show ?thesis using False ne hd by (simp add: readUint_def)
  qed
qed

lemma readUint_sound:
  assumes "readUint sz s = (Inr n, s')" and "pos_ok s" and "56 \<le> n" and "sz \<le> 8"
  shows "\<exists>rest. s_r s = nat_bytes n @ rest \<and> length (nat_bytes n) = sz \<and> room sz s \<and>
    s' = consume sz s \<and> n < 2 ^ 64"
proof -
  have sz: "sz \<noteq> 0" using assms(1,3) by (cases "sz = 0") (simp_all add: readUint_def)
  have B: "be_val p < 2 ^ 64" if "length p = sz" for p
  proof -
    have "be_val p < 256 ^ sz" using be_val_less [of p] that by simp
    also have "\<dots> \<le> 256 ^ 8" using assms(4) by (rule power_increasing) simp
    finally show ?thesis by simp
  qed
  have "room sz s \<and> sz \<le> length (s_r s) \<and> n = be_val (take sz (s_r s)) \<and> s' = consume sz s \<and>
      hd (take sz (s_r s)) \<noteq> 0"
  proof (cases "sz = 1")
    case True
    then obtain b where "readByte s = (Inr b, s')" "n = unat b"
      using assms(1) by (auto simp: readUint_def split: prod.splits sum.splits)
    then show ?thesis using readByte_iff [OF assms(2)] assms(3) True
      by (cases "s_r s") (auto simp: be_val_Cons)
  next
    case False
    then obtain buf where "readFull sz s = (Inr buf, s')" "n = be_val buf" "hd buf \<noteq> 0"
      using assms(1) sz by (auto simp: readUint_def split: prod.splits sum.splits if_splits)
    then show ?thesis using readFull_iff [OF assms(2)] by auto
  qed
  note R = this
  then have "nat_bytes n = take sz (s_r s)" using sz by (auto intro!: nat_bytes_be_val)
  moreover have "n < 2 ^ 64" using R B [of "take sz (s_r s)"] by simp
  ultimately show ?thesis using R by (intro exI [of _ "drop sz (s_r s)"]) auto
qed

lemma stream_readKind_head:
  assumes h: "is_head k n bv h" and r: "s_r s = h @ rest" and room: "room (length h) s"
  shows "stream_readKind s = ((k, n, None), (consume (length h) s)\<lparr>s_byteval := bv\<rparr>)"
proof -
  obtain c hs where hc: "h = c # hs" using is_head_nonempty [OF h] by (cases h) auto
  have room1: "room 1 s" "room (length hs) (consume 1 s)"
    using room room_add [of 1 "length hs" s] hc by auto
  have rb: "readByte s = (Inr c, consume 1 s)" using r hc room1 by (intro readByte_room) auto
  show ?thesis
  proof (cases "k = Byte")
    case True
    then show ?thesis using h hc rb by (auto simp: is_head_def stream_readKind_def)
  next
    case False
    then obtain small large where tag: "(k, small, large) \<in> {(String, 0x80, 0xB7), (List, 0xC0, 0xF7)}"
      and hh: "h = rlp_head small large n" "n < 2 ^ 64" "bv = 0"
      using h by (cases k) (auto simp: is_head_def)
    show ?thesis
    proof (cases "n < 56")
      case True
      have u: "unat c = small + n"
        using True tag hh hc of_nat_small_byte [of "small + n"] by (auto simp: rlp_head_def)
      moreover have d: "unat (c - of_nat small) = n"
        using True hh hc of_nat_small_byte [of n] by (auto simp: rlp_head_def)
      moreover have "hs = []" using True hh hc by (auto simp: rlp_head_def)
      ultimately show ?thesis using True tag rb hh hc
        by (auto simp: stream_readKind_def word_less_nat_alt Let_def rlp_head_def)
    next
      case False
      let ?L = "length (nat_bytes n)"
      have L: "?L \<in> {1, 2, 3, 4, 5, 6, 7, 8}" using False hh by (intro nat_bytes_size) auto
      have c: "c = of_nat (large + ?L)" "hs = nat_bytes n" using False hh hc by (auto simp: rlp_head_def)
      have u: "unat c = large + ?L"
        unfolding c(1) using L tag by (intro of_nat_small_byte) auto
      have d: "unat (c - of_nat large) = ?L"
        using c(1) L of_nat_small_byte [of ?L] by auto
      have b: "\<not> large + ?L < 0x80" "\<not> large + ?L < 0xB8" "k = String \<Longrightarrow> large + ?L < 0xC0"
        "k = List \<Longrightarrow> \<not> large + ?L < 0xF8" using tag L False by auto
      define s2 where "s2 = (consume (Suc 0) s)\<lparr>s_byteval := 0\<rparr>"
      have "readUint ?L s2 = (Inr n, consume ?L s2)"
        using False room1(2) c(2) r hc
        by (intro readUint_nat_bytes [of n s2 rest]) (auto simp: s2_def room_def)
      moreover have "consume ?L s2 = (consume (1 + ?L) s)\<lparr>s_byteval := 0\<rparr>"
        by (simp add: s2_def consume_def)
      ultimately show ?thesis using False tag rb hh(3) hc c(2) u d b
        by (auto simp: stream_readKind_def word_less_nat_alt Let_def s2_def [symmetric])
    qed
  qed
qed

lemma stream_readKind_long:
  assumes ru: "readUint (unat (c - t)) s2 = (Inr n, s')" and "56 \<le> n" and "pos_ok s2"
    and t: "t < c" "unat c \<le> unat t + 8"
  shows "\<exists>rest. c # s_r s2 = rlp_head small (unat t) n @ rest \<and>
    length (rlp_head small (unat t) n) = Suc (unat (c - t)) \<and> n < 2 ^ 64 \<and>
    room (unat (c - t)) s2 \<and> s' = consume (unat (c - t)) s2"
proof -
  have u: "unat (c - t) = unat c - unat t" using t(1) by (intro byte_diff) simp
  then have "unat (c - t) \<le> 8" using t(2) by simp
  from readUint_sound [OF ru assms(3,2) this] obtain rest where
    r: "s_r s2 = nat_bytes n @ rest" "length (nat_bytes n) = unat (c - t)" "room (unat (c - t)) s2"
      "s' = consume (unat (c - t)) s2" "n < 2 ^ 64" by blast
  moreover have "(of_nat (unat t + unat (c - t)) :: byte) = c"
    by (rule byte_of_unat) (use u t in \<open>simp add: word_less_nat_alt\<close>)
  ultimately show ?thesis using assms(2) by (simp add: rlp_head_def)
qed

lemma stream_readKind_sound:
  assumes rk: "stream_readKind s = ((k, n, None), s')" and ok: "pos_ok s"
  shows "\<exists>h rest bv. is_head k n bv h \<and> s_r s = h @ rest \<and> room (length h) s \<and>
    s' = (consume (length h) s)\<lparr>s_byteval := bv\<rparr>"
proof -
  obtain c where rb: "readByte s = (Inr c, consume 1 s)"
    using rk readByte_iff [OF ok]
    by (cases "readByte s"; cases "fst (readByte s)") (auto simp: stream_readKind_def)
  then have room: "room 1 s" and r: "s_r s = c # drop 1 (s_r s)"
    using readByte_iff [OF ok, of c] by (cases "s_r s"; auto)+
  define s2 where "s2 = (consume (Suc 0) s)\<lparr>s_byteval := 0\<rparr>"
  have ok2: "pos_ok s2" using pos_ok_consume [OF ok room] by (simp add: s2_def pos_ok_def)
  have short: "[c] = rlp_head (unat t) large (unat (c - t))"
    if "t \<le> c" and "unat c < unat t + 56" for t :: byte and large
  proof -
    have "unat (c - t) = unat c - unat t" using that(1) by (rule byte_diff)
    moreover have "unat t \<le> unat c" using that(1) by (simp add: word_le_nat_alt)
    moreover have "unat c - unat t < 56" using that(2) by linarith
    ultimately show ?thesis by (simp add: rlp_head_def)
  qed
  have long: "\<exists>h rest. h = rlp_head small (unat t) n \<and> n < 2 ^ 64 \<and> s_r s = h @ rest \<and>
      room (length h) s \<and> s' = (consume (length h) s)\<lparr>s_byteval := 0\<rparr>"
    if "readUint (unat (c - t)) s2 = (Inr n, s')" and "56 \<le> n"
      and t: "t < c" "unat c \<le> unat t + 8" for t small
  proof -
    from stream_readKind_long [OF that(1,2) ok2 t, of small] obtain rest where
      q: "c # s_r s2 = rlp_head small (unat t) n @ rest" "n < 2 ^ 64"
        "length (rlp_head small (unat t) n) = Suc (unat (c - t))"
        "room (unat (c - t)) s2" "s' = consume (unat (c - t)) s2" by blast
    have "room (1 + unat (c - t)) s"
      using room q(4) unfolding room_add by (simp add: s2_def room_def)
    moreover have "s' = (consume (1 + unat (c - t)) s)\<lparr>s_byteval := 0\<rparr>"
      using q(5) by (simp add: s2_def consume_def)
    ultimately show ?thesis using q r by (auto simp: s2_def)
  qed
  have head1: "\<exists>h rest bv. is_head k n bv h \<and> s_r s = h @ rest \<and> room (length h) s \<and>
      s' = (consume (length h) s)\<lparr>s_byteval := bv\<rparr>"
    if "is_head k n bv [c]" and "s' = (consume (Suc 0) s)\<lparr>s_byteval := bv\<rparr>" for k n bv
    using that room r by (metis One_nat_def append_Cons append_Nil length_Cons list.size(3))
  consider "c < 0x80" | "\<not> c < 0x80" "c < 0xB8" | "\<not> c < 0xB8" "c < 0xC0"
    | "\<not> c < 0xC0" "c < 0xF8" | "\<not> c < 0xF8" by blast
  then show ?thesis
  proof cases
    case 1
    then show ?thesis using rk rb room r
      by (intro head1 [of _ _ c]) (auto simp: stream_readKind_def is_head_def Let_def)
  next
    case 2
    then have k: "k = String" "n = unat (c - 0x80)" "s' = s2"
      using rk rb by (auto simp: stream_readKind_def Let_def s2_def split: if_splits)
    have "[c] = rlp_head (unat (0x80 :: byte)) 0xB7 n"
      unfolding k(2) using 2 by (intro short) (auto simp: word_less_nat_alt word_le_nat_alt)
    moreover have "n < 2 ^ 64" unfolding k(2) by (rule order.strict_trans [OF unat_byte_less]) simp
    ultimately show ?thesis using k room r
      by (intro head1 [of _ _ 0]) (auto simp: is_head_def s2_def)
  next
    case 3
    then have "\<not> c < 0x80" by (auto simp: word_less_nat_alt)
    with 3 rk rb have k: "k = String" "56 \<le> n" "readUint (unat (c - 0xB7)) s2 = (Inr n, s')"
      by (auto simp: stream_readKind_def Let_def s2_def split: if_splits sum.splits prod.splits)
    from long [of "0xB7" "0x80", OF k(3,2)] 3 show ?thesis
      unfolding k(1) by (auto simp: word_less_nat_alt is_head_def)
  next
    case 4
    then have "\<not> c < 0x80" "\<not> c < 0xB8" by (auto simp: word_less_nat_alt)
    with 4 have k: "k = List" "n = unat (c - 0xC0)" "s' = s2"
      using rk rb by (auto simp: stream_readKind_def Let_def s2_def split: if_splits)
    have "[c] = rlp_head (unat (0xC0 :: byte)) 0xF7 n"
      unfolding k(2) using 4 by (intro short) (auto simp: word_less_nat_alt word_le_nat_alt)
    moreover have "n < 2 ^ 64" unfolding k(2) by (rule order.strict_trans [OF unat_byte_less]) simp
    ultimately show ?thesis using k room r
      by (intro head1 [of _ _ 0]) (auto simp: is_head_def s2_def)
  next
    case 5
    then have "\<not> c < 0x80" "\<not> c < 0xB8" "\<not> c < 0xC0" by (auto simp: word_less_nat_alt)
    with 5 rk rb have k: "k = List" "56 \<le> n" "readUint (unat (c - 0xF7)) s2 = (Inr n, s')"
      by (auto simp: stream_readKind_def Let_def s2_def split: if_splits sum.splits prod.splits)
    have "unat c \<le> 255" using unat_byte_less [of c] by linarith
    with long [of "0xF7" "0xC0", OF k(3,2)] 5 show ?thesis
      unfolding k(1) by (auto simp: word_less_nat_alt is_head_def)
  qed
qed

section \<open>Peeking at the next value\<close>

definition peeked :: "kind \<Rightarrow> nat \<Rightarrow> byte \<Rightarrow> bytes \<Rightarrow> stream \<Rightarrow> stream" where
  "peeked k n bv h s =
     (consume (length h) s)\<lparr>s_byteval := bv, s_kind := Some k, s_size := n, s_kinderr := None\<rparr>"

lemma peeked_simps [simp]:
  "s_kind (peeked k n bv h s) = Some k" "s_size (peeked k n bv h s) = n"
  "s_byteval (peeked k n bv h s) = bv" "s_kinderr (peeked k n bv h s) = None"
  "s_stack (peeked k n bv h s) = bump (length h) (s_stack s)"
  "s_r (peeked k n bv h s) = drop (length h) (s_r s)" "s_limited (peeked k n bv h s) = s_limited s"
  "s_remaining (peeked k n bv h s) = s_remaining (consume (length h) s)"
  by (simp_all add: peeked_def)

lemma peeked_view: "same_view ((peeked k n bv h s)\<lparr>s_kind := None\<rparr>) (consume (length h) s)"
  by (simp add: same_view_def)

lemma room_peeked: "room m (peeked k n bv h s) \<longleftrightarrow> room m (consume (length h) s)"
  by (simp add: room_def)

lemma pos_ok_peeked: "pos_ok (peeked k n bv h s) \<longleftrightarrow> pos_ok (consume (length h) s)"
  by (simp add: pos_ok_def)

lemma consume_peeked: "same_view (consume m (peeked k n bv h s)) (consume (length h + m) s)"
  by (simp add: same_view_def add.commute)

lemma Kind_peeked [simp]: "stream_Kind (peeked k n bv h s) = (Inr (k, n), peeked k n bv h s)"
  by (simp add: stream_Kind_def)

definition at_end :: "stream \<Rightarrow> bool" where
  "at_end s \<longleftrightarrow> (case s_stack s of (pos, sz) # _ \<Rightarrow> pos = sz | [] \<Rightarrow> False)"

lemma Kind_at_end: "s_kind s = None \<Longrightarrow> at_end s \<Longrightarrow> stream_Kind s = (Inl EOL, s\<lparr>s_kinderr := None\<rparr>)"
  by (simp add: stream_Kind_def at_end_def)

lemma same_view_kinderr [simp]: "same_view (s\<lparr>s_kinderr := x\<rparr>) s"
  by (simp add: same_view_def)

lemma at_end_no_room: "at_end s \<Longrightarrow> room n s \<Longrightarrow> n = 0"
  by (auto simp: at_end_def room_def split: list.splits)

lemma Kind_head:
  assumes "s_kind s = None" and h: "is_head k n bv h" and r: "s_r s = h @ rest"
    and room: "room (length h + n) s"
  shows "stream_Kind s = (Inr (k, n), peeked k n bv h s)"
proof -
  let ?s0 = "s\<lparr>s_kinderr := None\<rparr>"
  have ne: "length h \<noteq> 0" using is_head_nonempty [OF h] by simp
  have "\<not> at_end s" using at_end_no_room [OF _ room] ne by auto
  then have ae: "\<not> (case s_stack ?s0 of (pos, sz) # _ \<Rightarrow> pos = sz | [] \<Rightarrow> False)"
    by (simp add: at_end_def)
  have "room (length h) ?s0" using room_le [OF room] by (simp add: room_def)
  then have rk: "stream_readKind ?s0 = ((k, n, None), (consume (length h) ?s0)\<lparr>s_byteval := bv\<rparr>)"
    using r by (intro stream_readKind_head [OF h]) auto
  from assms(1) ae rk room show ?thesis
    by (cases "s_stack s") (auto simp: stream_Kind_def Let_def room_def peeked_def consume_def)
qed

lemma Kind_sound:
  assumes "s_kind s = None" and ok: "pos_ok s" and K: "stream_Kind s = (Inr (k, n), s')"
  shows "\<exists>h rest bv. is_head k n bv h \<and> s_r s = h @ rest \<and> room (length h) s \<and>
    s' = peeked k n bv h s \<and>
    (case s_stack s of [] \<Rightarrow> s_limited s \<longrightarrow> length h + n \<le> s_remaining s
     | (p, z) # _ \<Rightarrow> p + length h + n \<le> z)"
proof -
  let ?s0 = "s\<lparr>s_kinderr := None\<rparr>"
  obtain k' n' err s1 where rk: "stream_readKind ?s0 = ((k', n', err), s1)"
    by (cases "stream_readKind ?s0"; cases "fst (stream_readKind ?s0)") auto
  have ne: "\<not> at_end s" using K assms(1) Kind_at_end by fastforce
  then have ae: "\<not> (case s_stack ?s0 of (pos, sz) # _ \<Rightarrow> pos = sz | [] \<Rightarrow> False)"
    by (simp add: at_end_def)
  from K ae rk assms(1) have e: "err = None" and kn: "k' = k" "n' = n"
    and s': "s' = s1\<lparr>s_kind := Some k, s_size := n, s_kinderr := None\<rparr>"
    and fit: "case s_stack s1 of [] \<Rightarrow> \<not> (s_limited s1 \<and> n > s_remaining s1)
      | (pos, lsz) # _ \<Rightarrow> n \<le> lsz - pos"
    by (auto simp: stream_Kind_def Let_def split: option.splits list.splits if_splits)
  have "pos_ok ?s0" using ok by (simp add: pos_ok_def)
  from stream_readKind_sound [OF rk [unfolded e kn] this] obtain h rest bv where
    h: "is_head k n bv h" "s_r s = h @ rest" "room (length h) ?s0"
      "s1 = (consume (length h) ?s0)\<lparr>s_byteval := bv\<rparr>" by auto
  have room: "room (length h) s" using h(3) by (simp add: room_def)
  have "s' = peeked k n bv h s" unfolding s' h(4) by (simp add: peeked_def consume_def)
  moreover have "case s_stack s of [] \<Rightarrow> s_limited s \<longrightarrow> length h + n \<le> s_remaining s
     | (p, z) # _ \<Rightarrow> p + length h + n \<le> z"
    using fit room unfolding h(4) by (cases "s_stack s") (auto simp: room_def split: if_splits)
  ultimately show ?thesis using h(1,2) room by blast
qed

lemma no_EOL:
  "willRead n s = (Inl EOL, s') \<Longrightarrow> False" "readByte s = (Inl EOL, s') \<Longrightarrow> False"
  "readFull n s = (Inl EOL, s') \<Longrightarrow> False" "readUint n s = (Inl EOL, s') \<Longrightarrow> False"
  "stream_readKind s = ((k, n, Some EOL), s') \<Longrightarrow> False"
proof -
  show w: "willRead n s = (Inl EOL, s') \<Longrightarrow> False" for n s s'
    by (auto simp: willRead_def Let_def split: list.splits if_splits)
  show b: "readByte s = (Inl EOL, s') \<Longrightarrow> False" for s s'
    by (auto simp: readByte_def dest: w split: prod.splits sum.splits list.splits)
  show f: "readFull n s = (Inl EOL, s') \<Longrightarrow> False" for n s s'
    by (auto simp: readFull_def dest: w split: prod.splits sum.splits if_splits)
  show u: "readUint n s = (Inl EOL, s') \<Longrightarrow> False" for n s s'
    by (auto simp: readUint_def dest: b f split: prod.splits sum.splits if_splits)
  show "stream_readKind s = ((k, n, Some EOL), s') \<Longrightarrow> False"
    by (auto simp: stream_readKind_def Let_def dest: b u split: prod.splits sum.splits if_splits)
qed

lemma Kind_EOL:
  assumes "s_kind s = None" and K: "stream_Kind s = (Inl EOL, s')"
  shows "at_end s \<and> same_view s' s"
proof (cases "at_end s")
  case True
  then show ?thesis using assms Kind_at_end by auto
next
  case False
  let ?s0 = "s\<lparr>s_kinderr := None\<rparr>"
  obtain k n err s1 where rk: "stream_readKind ?s0 = ((k, n, err), s1)"
    by (cases "stream_readKind ?s0"; cases "fst (stream_readKind ?s0)") auto
  have "err \<noteq> Some EOL" using rk no_EOL(5) by auto
  with False K assms(1) rk show ?thesis
    by (auto simp: stream_Kind_def Let_def at_end_def split: option.splits list.splits if_splits)
qed

section \<open>Codecs\<close>

text \<open>What an encoder and a decoder of one type promise each other. The decoder, started on an
  encoded value with nothing cached and with room for it, returns the value and consumes exactly
  its encoding; conversely, whatever it returns was canonically encoded in the input; it reports
  \<^verbatim>\<open>EOL\<close> exactly at the end of the innermost list; and it returns at all, on every input shorter
  than \<open>N\<close> (fuelled decoders need the bound, for the others it is arbitrary).\<close>

locale rlp_codec =
  fixes enc :: "'a \<Rightarrow> bytes" and dec :: "'a dec" and valid :: "'a \<Rightarrow> bool" and N :: nat
  assumes nonempty: "enc x \<noteq> []"
    and complete: "\<lbrakk>valid x; s_kind s = None; s_r s = enc x @ rest; room (length (enc x)) s;
      length (s_r s) < N\<rbrakk> \<Longrightarrow> \<exists>s'. dec s = Some (Inr x, s') \<and> same_view s' (consume (length (enc x)) s)"
    and sound: "\<lbrakk>s_kind s = None; pos_ok s; dec s = Some (Inr x, s')\<rbrakk> \<Longrightarrow>
      valid x \<and> (\<exists>rest. s_r s = enc x @ rest) \<and> room (length (enc x)) s \<and>
      same_view s' (consume (length (enc x)) s)"
    and at_end: "\<lbrakk>s_kind s = None; at_end s; length (s_r s) < N\<rbrakk> \<Longrightarrow>
      \<exists>s'. dec s = Some (Inl EOL, s') \<and> same_view s' s"
    and eol: "\<lbrakk>s_kind s = None; pos_ok s; dec s = Some (Inl EOL, s')\<rbrakk> \<Longrightarrow> at_end s \<and> same_view s' s"
    and total: "\<lbrakk>s_kind s = None; pos_ok s; length (s_r s) < N\<rbrakk> \<Longrightarrow> dec s \<noteq> None"
begin

lemma DecodeBytes_codec_iff:
  assumes "length b < N"
  shows "DecodeBytes dec b = Some (Inr x) \<longleftrightarrow> valid x \<and> b = enc x"
proof
  let ?s = "Stream_Reset b (length b)"
  have ok: "pos_ok ?s" "s_kind ?s = None" "s_r ?s = b" by (simp_all add: Stream_Reset_def pos_ok_def)
  {
    assume "DecodeBytes dec b = Some (Inr x)"
    then obtain s' where d: "dec ?s = Some (Inr x, s')" and r: "s_r s' = []"
      by (auto simp: DecodeBytes_def split: option.splits sum.splits if_splits)
    from sound [OF ok(2,1) d] obtain rest where "valid x" "b = enc x @ rest" "s_r s' = drop (length (enc x)) b"
      using ok(3) by (auto simp: same_view_def)
    with r show "valid x \<and> b = enc x" by simp
  }
  assume x: "valid x \<and> b = enc x"
  then have "room (length (enc x)) ?s" by (simp add: room_def Stream_Reset_def)
  then obtain s' where "dec ?s = Some (Inr x, s')" "same_view s' (consume (length (enc x)) ?s)"
    using complete [of x ?s "[]"] x ok assms by auto
  then show "DecodeBytes dec b = Some (Inr x)"
    using x ok by (simp add: DecodeBytes_def same_view_def)
qed

lemma DecodeBytes_total:
  assumes "length b < N"
  shows "DecodeBytes dec b \<noteq> None"
proof -
  let ?s = "Stream_Reset b (length b)"
  have "dec ?s \<noteq> None" using assms
    by (intro total) (simp_all add: Stream_Reset_def pos_ok_def)
  then show ?thesis by (auto simp: DecodeBytes_def split: option.splits sum.splits prod.splits)
qed

lemma sound_shorter:
  assumes "s_kind s = None" "pos_ok s" "dec s = Some (Inr x, s')"
  shows "length (s_r s') < length (s_r s) \<and> pos_ok s' \<and> s_kind s' = None"
proof -
  from sound [OF assms] obtain rest where r: "s_r s = enc x @ rest" "room (length (enc x)) s"
    "same_view s' (consume (length (enc x)) s)" by blast
  moreover have "enc x \<noteq> []" by (rule nonempty)
  ultimately show ?thesis using pos_ok_consume [OF assms(2) r(2)] pos_ok_view [OF r(3)]
    by (auto simp: same_view_def)
qed

lemma elems_complete:
  assumes "\<forall>x \<in> set xs. valid x" and "s_kind s = None" and "s_r s = concat (map enc xs) @ rest"
    and "s_stack s = (p, p + length (concat (map enc xs))) # st"
    and "s_limited s \<longrightarrow> length (concat (map enc xs)) \<le> s_remaining s"
    and "length (s_r s) < N" and "length xs < fuel"
  shows "\<exists>s'. decodeSliceElems fuel dec s = Some (Inr xs, s') \<and>
    same_view s' (consume (length (concat (map enc xs))) s)"
  using assms
proof (induction xs arbitrary: s p fuel)
  case Nil
  then obtain f where f: "fuel = Suc f" by (cases fuel) auto
  from Nil have "at_end s" by (simp add: at_end_def)
  with at_end [of s] Nil obtain s' where "dec s = Some (Inl EOL, s')" "same_view s' s" by auto
  moreover have "same_view s (consume 0 s)" using Nil by (simp add: same_view_def)
  ultimately show ?case unfolding f by (auto intro: same_view_trans)
next
  case (Cons x xs)
  obtain f where f: "fuel = Suc f" using Cons.prems by (cases fuel) auto
  let ?t = "concat (map enc xs)" and ?n = "length (enc x)"
  have "room ?n s" using Cons.prems(4,5) by (auto simp: room_def)
  with complete [of x s "?t @ rest"] Cons.prems obtain s1 where
    s1: "dec s = Some (Inr x, s1)" "same_view s1 (consume ?n s)" by auto
  have "\<exists>s'. decodeSliceElems f dec s1 = Some (Inr xs, s') \<and> same_view s' (consume (length ?t) s1)"
    by (rule Cons.IH [where p = "p + ?n"]) (use Cons.prems s1 f in \<open>auto simp: same_view_def\<close>)
  then obtain s2 where s2: "decodeSliceElems f dec s1 = Some (Inr xs, s2)"
    "same_view s2 (consume (length ?t) s1)" by blast
  from same_view_trans [OF s2(2) same_view_consume [OF s1(2)]]
  have "same_view s2 (consume (?n + length ?t) s)"
    by (simp add: same_view_def add.commute)
  with s1 s2 show ?case unfolding f by simp
qed

lemma elems_sound:
  assumes "s_kind s = None" and "pos_ok s" and "decodeSliceElems fuel dec s = Some (Inr xs, s')"
  shows "(\<forall>x \<in> set xs. valid x) \<and> (\<exists>rest. s_r s = concat (map enc xs) @ rest) \<and>
    room (length (concat (map enc xs))) s \<and> same_view s' (consume (length (concat (map enc xs))) s)"
  using assms
proof (induction fuel arbitrary: s xs)
  case 0
  then show ?case by simp
next
  case (Suc fuel)
  obtain r s1 where d: "dec s = Some (r, s1)" using Suc.prems(3) by (auto split: option.splits)
  show ?case
  proof (cases r)
    case (Inl e)
    with Suc.prems(3) d have "e = EOL" "xs = []" "s' = s1" by (auto split: if_splits)
    moreover have "room 0 s" using Suc.prems(2) by (auto simp: room_def pos_ok_def split: list.splits)
    ultimately show ?thesis using eol [OF Suc.prems(1,2)] d Inl Suc.prems(1)
      by (auto simp: same_view_def)
  next
    case (Inr x)
    with Suc.prems(3) d obtain ys where rec: "decodeSliceElems fuel dec s1 = Some (Inr ys, s')"
      and xs: "xs = x # ys" by (auto split: option.splits sum.splits)
    from sound [OF Suc.prems(1,2) d [unfolded Inr]] obtain rest where
      h: "valid x" "s_r s = enc x @ rest" "room (length (enc x)) s"
        "same_view s1 (consume (length (enc x)) s)" by blast
    from sound_shorter [OF Suc.prems(1,2) d [unfolded Inr]] have ok: "pos_ok s1" "s_kind s1 = None" by auto
    from Suc.IH [OF ok(2,1) rec] obtain rest' where
      t: "\<forall>x \<in> set ys. valid x" "s_r s1 = concat (map enc ys) @ rest'"
        "room (length (concat (map enc ys))) s1"
        "same_view s' (consume (length (concat (map enc ys))) s1)" by blast
    have "rest = s_r s1" using h by (simp add: same_view_def)
    moreover have "room (length (enc x) + length (concat (map enc ys))) s"
      using h(3) t(3) room_view [OF h(4)] by (simp add: room_add)
    moreover have "same_view s' (consume (length (enc x) + length (concat (map enc ys))) s)"
      using same_view_trans [OF t(4) same_view_consume [OF h(4)]]
      by (simp add: same_view_def add.commute)
    ultimately show ?thesis using h t xs by auto
  qed
qed

lemma elems_total:
  assumes "s_kind s = None" and "pos_ok s" and "length (s_r s) < N" and "length (s_r s) < fuel"
  shows "decodeSliceElems fuel dec s \<noteq> None"
  using assms
proof (induction fuel arbitrary: s)
  case 0
  then show ?case by simp
next
  case (Suc fuel)
  obtain r s1 where d: "dec s = Some (r, s1)" using total [of s] Suc.prems by auto
  show ?case
  proof (cases r)
    case (Inr x)
    from sound_shorter [OF Suc.prems(1,2) d [unfolded Inr]] Suc.prems
    have "decodeSliceElems fuel dec s1 \<noteq> None" by (intro Suc.IH) auto
    then show ?thesis using d Inr by (auto split: sum.splits)
  qed (use d in simp)
qed

lemma elems_no_EOL: "decodeSliceElems fuel dec s \<noteq> Some (Inl EOL, s')"
  by (induction fuel arbitrary: s) (auto split: option.splits sum.splits prod.splits)

end

section \<open>Lists\<close>

definition enc_list :: "bytes \<Rightarrow> bytes" where
  "enc_list p = rlp_head 0xC0 0xF7 (length p) @ p"

definition opened :: "nat \<Rightarrow> nat \<Rightarrow> stream \<Rightarrow> stream" where
  "opened n hl s = (consume hl s)\<lparr>s_stack := (0, n) # bump hl (s_stack s)\<rparr>"

lemma rlp_enc_Lst: "rlp_enc (Lst xs) = enc_list (concat (map rlp_enc xs))"
  by (simp add: enc_list_def Let_def)

lemma enc_list_nonempty [simp]: "enc_list p \<noteq> []"
  by (simp add: enc_list_def)

lemma List_complete:
  assumes "s_kind s = None" and r: "s_r s = enc_list p @ rest" and room: "room (length (enc_list p)) s"
    and "length p < 2 ^ 64"
  shows "\<exists>s1. Stream_List s = (Inr (length p), s1) \<and>
    same_view s1 (opened (length p) (length (rlp_head 0xC0 0xF7 (length p))) s)"
proof -
  let ?h = "rlp_head 0xC0 0xF7 (length p)"
  have "stream_Kind s = (Inr (List, length p), peeked List (length p) 0 ?h s)"
    using assms by (intro Kind_head) (auto simp: is_head_def enc_list_def)
  then show ?thesis by (simp add: Stream_List_def opened_def same_view_def)
qed

lemma ListEnd_complete:
  assumes "same_view s2 (consume n (opened n hl s))"
  shows "\<exists>s3. Stream_ListEnd s2 = (Inr (), s3) \<and> same_view s3 (consume (hl + n) s)"
  using assms
  by (cases "s_stack s") (auto simp: Stream_ListEnd_def opened_def same_view_def add.commute add.left_commute)

lemma List_sound:
  assumes "s_kind s = None" and "pos_ok s" and L: "Stream_List s = (Inr n, s1)"
  shows "\<exists>rest. s_r s = rlp_head 0xC0 0xF7 n @ rest \<and> n < 2 ^ 64 \<and>
    same_view s1 (opened n (length (rlp_head 0xC0 0xF7 n)) s) \<and>
    room (length (rlp_head 0xC0 0xF7 n)) s \<and> pos_ok s1 \<and>
    (case s_stack s of [] \<Rightarrow> True | (p, z) # _ \<Rightarrow> p + length (rlp_head 0xC0 0xF7 n) + n \<le> z)"
proof -
  from L obtain s' where K: "stream_Kind s = (Inr (List, n), s')"
    and s1: "s1 = s'\<lparr>s_stack := (0, n) # s_stack s', s_kind := None, s_size := 0\<rparr>"
    by (auto simp: Stream_List_def split: prod.splits sum.splits if_splits)
  from Kind_sound [OF assms(1,2) K] obtain h rest bv where
    h: "is_head List n bv h" "s_r s = h @ rest" "room (length h) s" "s' = peeked List n bv h s"
      "case s_stack s of [] \<Rightarrow> s_limited s \<longrightarrow> length h + n \<le> s_remaining s
       | (p, z) # _ \<Rightarrow> p + length h + n \<le> z" by blast
  have hh: "h = rlp_head 0xC0 0xF7 n" "n < 2 ^ 64" using h(1) by (auto simp: is_head_def)
  have "same_view s1 (opened n (length h) s)" unfolding s1 h(4) by (simp add: opened_def same_view_def)
  moreover have "pos_ok s1"
    using pos_ok_consume [OF assms(2) h(3)] unfolding s1 h(4) by (simp add: pos_ok_def)
  ultimately show ?thesis using h(2,3,5) hh by (cases "s_stack s") auto
qed

lemma ListEnd_sound:
  assumes v: "same_view s2 (consume m (opened n hl s))" and room: "room m (opened n hl s)" "room hl s"
    and fit: "case s_stack s of [] \<Rightarrow> True | (p, z) # _ \<Rightarrow> p + hl + n \<le> z"
    and E: "Stream_ListEnd s2 = (Inr u, s3)"
  shows "m = n \<and> same_view s3 (consume (hl + n) s) \<and> room (hl + n) s"
proof -
  have m: "m = n" using E v by (auto simp: Stream_ListEnd_def opened_def same_view_def split: if_splits)
  from ListEnd_complete [OF v [unfolded m]] E have "same_view s3 (consume (hl + n) s)" by auto
  moreover have "room (hl + n) s"
    using room fit m by (auto simp: room_def opened_def split: list.splits)
  ultimately show ?thesis using m by simp
qed

lemma List_EOL:
  assumes "s_kind s = None"
  shows "at_end s \<Longrightarrow> \<exists>s'. Stream_List s = (Inl EOL, s') \<and> same_view s' s"
    and "Stream_List s = (Inl EOL, s') \<Longrightarrow> at_end s \<and> same_view s' s"
  using Kind_at_end [OF assms] Kind_EOL [OF assms]
  by (auto simp: Stream_List_def split: prod.splits sum.splits if_splits)

text \<open>The body of a list: the fields of a struct or the elements of a slice.\<close>

locale rlp_fields =
  fixes encf :: "'a \<Rightarrow> bytes" and decf :: "'a dec" and validf :: "'a \<Rightarrow> bool" and N :: nat
  assumes complete_body: "\<lbrakk>validf x; s_kind s = None; s_r s = encf x @ rest;
      s_stack s = (p, p + length (encf x)) # st; s_limited s \<longrightarrow> length (encf x) \<le> s_remaining s;
      length (s_r s) < N\<rbrakk> \<Longrightarrow>
      \<exists>s'. decf s = Some (Inr x, s') \<and> same_view s' (consume (length (encf x)) s)"
    and sound_body: "\<lbrakk>s_kind s = None; pos_ok s; decf s = Some (Inr x, s')\<rbrakk> \<Longrightarrow>
      validf x \<and> (\<exists>rest. s_r s = encf x @ rest) \<and> room (length (encf x)) s \<and>
      same_view s' (consume (length (encf x)) s)"
    and no_eol: "s_kind s = None \<Longrightarrow> pos_ok s \<Longrightarrow> decf s \<noteq> Some (Inl EOL, s')"
    and total_body: "\<lbrakk>s_kind s = None; pos_ok s; length (s_r s) < N\<rbrakk> \<Longrightarrow> decf s \<noteq> None"
begin

lemma struct_complete:
  assumes "validf x" and p: "length (encf x) < 2 ^ 64" and "s_kind s = None"
    and r: "s_r s = enc_list (encf x) @ rest" and room: "room (length (enc_list (encf x))) s"
    and "length (s_r s) < Suc N"
  shows "\<exists>s'. dec_struct decf s = Some (Inr x, s') \<and>
    same_view s' (consume (length (enc_list (encf x))) s)"
proof -
  let ?h = "rlp_head 0xC0 0xF7 (length (encf x))" and ?n = "length (encf x)"
  from List_complete [OF assms(3) r room p] obtain s1 where
    s1: "Stream_List s = (Inr ?n, s1)" "same_view s1 (opened ?n (length ?h) s)" by blast
  have "1 \<le> length ?h" by (simp add: rlp_head_def)
  moreover have "length (s_r s1) + length ?h = length (s_r s)"
    using s1(2) unfolding r by (simp add: same_view_def opened_def enc_list_def r)
  ultimately have "length (s_r s1) < N" using assms(6) by linarith
  then have "\<exists>s2. decf s1 = Some (Inr x, s2) \<and> same_view s2 (consume ?n s1)"
    by (intro complete_body [where p = 0])
      (use assms(1,3-5) s1 in \<open>auto simp: same_view_def opened_def enc_list_def room_def\<close>)
  then obtain s2 where s2: "decf s1 = Some (Inr x, s2)" "same_view s2 (consume ?n s1)" by blast
  from ListEnd_complete [OF same_view_trans [OF s2(2) same_view_consume [OF s1(2)]]] obtain s3 where
    "Stream_ListEnd s2 = (Inr (), s3)" "same_view s3 (consume (length ?h + ?n) s)" by blast
  with s1(1) s2(1) show ?thesis
    by (simp add: dec_struct_def dec_then_def dec_ListEnd_def enc_list_def)
qed

lemma struct_sound:
  assumes "s_kind s = None" and "pos_ok s" and D: "dec_struct decf s = Some (Inr x, s')"
  shows "(validf x \<and> length (encf x) < 2 ^ 64) \<and> (\<exists>rest. s_r s = enc_list (encf x) @ rest) \<and>
    room (length (enc_list (encf x))) s \<and> same_view s' (consume (length (enc_list (encf x))) s)"
proof -
  from D obtain n s1 s2 u where L: "Stream_List s = (Inr n, s1)" and d: "decf s1 = Some (Inr x, s2)"
    and E: "Stream_ListEnd s2 = (Inr u, s')"
    by (auto simp: dec_struct_def dec_then_def dec_ListEnd_def split: prod.splits sum.splits option.splits)
  let ?h = "rlp_head 0xC0 0xF7 n" and ?m = "length (encf x)"
  from List_sound [OF assms(1,2) L] obtain rest where
    l: "s_r s = ?h @ rest" "n < 2 ^ 64" "same_view s1 (opened n (length ?h) s)" "room (length ?h) s"
      "pos_ok s1" "case s_stack s of [] \<Rightarrow> True | (p, z) # _ \<Rightarrow> p + length ?h + n \<le> z" by blast
  have "s_kind s1 = None" using l(3) by (simp add: same_view_def opened_def)
  from sound_body [OF this l(5) d] obtain rest' where
    b: "validf x" "s_r s1 = encf x @ rest'" "room ?m s1" "same_view s2 (consume ?m s1)" by blast
  have "room ?m (opened n (length ?h) s)" using b(3) room_view [OF l(3)] by simp
  from ListEnd_sound [OF same_view_trans [OF b(4) same_view_consume [OF l(3)]] this l(4,6) E]
  have m: "?m = n" "same_view s' (consume (length ?h + n) s)" "room (length ?h + n) s" by auto
  have "rest = s_r s1" using l(1,3) by (simp add: same_view_def opened_def)
  then show ?thesis using m l(1,2) b(1,2) by (auto simp: enc_list_def)
qed

lemma struct_codec:
  "rlp_codec (\<lambda>x. enc_list (encf x)) (dec_struct decf)
     (\<lambda>x. validf x \<and> length (encf x) < 2 ^ 64) (Suc N)"
proof
  show "\<exists>s'. dec_struct decf s = Some (Inl EOL, s') \<and> same_view s' s"
    if "s_kind s = None" "at_end s" for s
    using List_EOL(1) [OF that] by (auto simp: dec_struct_def)
  show "at_end s \<and> same_view s' s"
    if "s_kind s = None" "pos_ok s" "dec_struct decf s = Some (Inl EOL, s')" for s s'
  proof (cases "Stream_List s")
    case (Pair r s1)
    have "s_kind s1 = None \<and> pos_ok s1" if "r = Inr n" for n
      using List_sound [OF \<open>s_kind s = None\<close> \<open>pos_ok s\<close> Pair [unfolded that]]
      by (auto simp: same_view_def opened_def)
    with Pair that show ?thesis using List_EOL(2) [OF that(1)] no_eol
      by (cases r) (auto simp: dec_struct_def dec_then_def dec_ListEnd_def Stream_ListEnd_def
          split: prod.splits sum.splits option.splits list.splits if_splits)
  qed
  show "dec_struct decf s \<noteq> None" if "s_kind s = None" "pos_ok s" "length (s_r s) < Suc N" for s
  proof (cases "Stream_List s")
    case (Pair r s1)
    have "decf s1 \<noteq> None" if "r = Inr n" for n
    proof -
      let ?h = "rlp_head 0xC0 0xF7 n"
      from List_sound [OF \<open>s_kind s = None\<close> \<open>pos_ok s\<close> Pair [unfolded that]] obtain rest where
        l: "s_r s = ?h @ rest" "same_view s1 (opened n (length ?h) s)" "pos_ok s1" by auto
      have "1 \<le> length ?h" by (simp add: rlp_head_def)
      then have "length (s_r s1) < N"
        using \<open>length (s_r s) < Suc N\<close> l by (simp add: same_view_def opened_def)
      then show ?thesis using l by (intro total_body) (auto simp: same_view_def opened_def)
    qed
    with Pair show ?thesis
      by (cases r) (auto simp: dec_struct_def dec_then_def dec_ListEnd_def
          split: prod.splits sum.splits option.splits)
  qed
qed (use struct_complete struct_sound in \<open>auto intro: enc_list_nonempty\<close>)

end

section \<open>Combining codecs\<close>

lemma dec_field_iff:
  "dec_field d s = Some (Inr x, s') \<longleftrightarrow> d s = Some (Inr x, s')"
  "dec_field d s = None \<longleftrightarrow> d s = None"
  "dec_field d s \<noteq> Some (Inl EOL, s')"
  by (auto simp: dec_field_def split: option.splits sum.splits)

lemma codec_last_field:
  assumes "rlp_codec enc dec valid N"
  shows "rlp_fields enc (dec_field dec) valid N"
proof
  fix x rest p st and s :: stream
  assume "valid x" "s_kind s = None" "s_r s = enc x @ rest" "s_stack s = (p, p + length (enc x)) # st"
    "s_limited s \<longrightarrow> length (enc x) \<le> s_remaining s" "length (s_r s) < N"
  moreover from this have "room (length (enc x)) s" by (simp add: room_def)
  ultimately show "\<exists>s'. dec_field dec s = Some (Inr x, s') \<and> same_view s' (consume (length (enc x)) s)"
    unfolding dec_field_iff by (intro rlp_codec.complete [OF assms])
next
  fix s x s'
  assume "s_kind s = None" "pos_ok s" "dec_field dec s = Some (Inr x, s')"
  then show "valid x \<and> (\<exists>rest. s_r s = enc x @ rest) \<and> room (length (enc x)) s \<and>
      same_view s' (consume (length (enc x)) s)"
    unfolding dec_field_iff by (intro rlp_codec.sound [OF assms])
next
  fix s s'
  show "dec_field dec s \<noteq> Some (Inl EOL, s')" by (simp add: dec_field_iff)
next
  fix s
  assume "s_kind s = None" "pos_ok s" "length (s_r s) < N"
  then show "dec_field dec s \<noteq> None" using rlp_codec.total [OF assms] by (auto simp: dec_field_iff)
qed

lemma dec_pair_Inr:
  "dec_pair d ds s = Some (Inr (x, y), s') \<longleftrightarrow>
     (\<exists>s1. d s = Some (Inr x, s1) \<and> ds s1 = Some (Inr y, s'))"
  by (auto simp: dec_pair_def dec_then_def dec_field_iff split: option.splits sum.splits)
    (auto simp: dec_field_def)

lemma codec_cons_fields:
  assumes c: "rlp_codec enc dec valid N" and f: "rlp_fields encf decf validf N"
  shows "rlp_fields (\<lambda>(x, y). enc x @ encf y) (dec_pair dec decf) (\<lambda>(x, y). valid x \<and> validf y) N"
proof
  fix z rest p st and s :: stream
  let ?e = "case z of (x, y) \<Rightarrow> enc x @ encf y"
  assume A: "case z of (x, y) \<Rightarrow> valid x \<and> validf y" "s_kind s = None"
    "s_r s = (case z of (x, y) \<Rightarrow> enc x @ encf y) @ rest"
    "s_stack s = (p, p + length ?e) # st" "s_limited s \<longrightarrow> length ?e \<le> s_remaining s"
    "length (s_r s) < N"
  obtain x y where z: "z = (x, y)" by (cases z)
  have "\<exists>s1. dec s = Some (Inr x, s1) \<and> same_view s1 (consume (length (enc x)) s)"
    by (rule rlp_codec.complete [OF c, where rest = "encf y @ rest"])
      (use A z in \<open>auto simp: room_def\<close>)
  then obtain s1 where s1: "dec s = Some (Inr x, s1)" "same_view s1 (consume (length (enc x)) s)"
    by blast
  have "\<exists>s2. decf s1 = Some (Inr y, s2) \<and> same_view s2 (consume (length (encf y)) s1)"
    by (rule rlp_fields.complete_body [OF f, where rest = rest and p = "p + length (enc x)"])
      (use A z s1 in \<open>auto simp: same_view_def\<close>)
  then obtain s2 where s2: "decf s1 = Some (Inr y, s2)" "same_view s2 (consume (length (encf y)) s1)"
    by blast
  from same_view_trans [OF s2(2) same_view_consume [OF s1(2)]]
  have "same_view s2 (consume (length (enc x) + length (encf y)) s)"
    by (simp add: same_view_def add.commute)
  with s1 s2 z show "\<exists>s'. dec_pair dec decf s = Some (Inr z, s') \<and> same_view s' (consume (length ?e) s)"
    by (auto simp: dec_pair_Inr)
next
  fix s z s'
  assume s: "s_kind s = None" "pos_ok s" and D: "dec_pair dec decf s = Some (Inr z, s')"
  obtain x y where z: "z = (x, y)" by (cases z)
  from D z obtain s1 where d: "dec s = Some (Inr x, s1)" "decf s1 = Some (Inr y, s')"
    by (auto simp: dec_pair_Inr)
  from rlp_codec.sound [OF c s d(1)] obtain rest where
    h: "valid x" "s_r s = enc x @ rest" "room (length (enc x)) s"
      "same_view s1 (consume (length (enc x)) s)" by blast
  from rlp_codec.sound_shorter [OF c s d(1)] have ok: "pos_ok s1" "s_kind s1 = None" by auto
  from rlp_fields.sound_body [OF f ok(2,1) d(2)] obtain rest' where
    t: "validf y" "s_r s1 = encf y @ rest'" "room (length (encf y)) s1"
      "same_view s' (consume (length (encf y)) s1)" by blast
  have "rest = s_r s1" using h by (simp add: same_view_def)
  moreover have "room (length (enc x) + length (encf y)) s"
    using h(3) t(3) room_view [OF h(4)] by (simp add: room_add)
  moreover have "same_view s' (consume (length (enc x) + length (encf y)) s)"
    using same_view_trans [OF t(4) same_view_consume [OF h(4)]]
    by (simp add: same_view_def add.commute)
  ultimately show "(case z of (x, y) \<Rightarrow> valid x \<and> validf y) \<and>
      (\<exists>rest. s_r s = (case z of (x, y) \<Rightarrow> enc x @ encf y) @ rest) \<and>
      room (length (case z of (x, y) \<Rightarrow> enc x @ encf y)) s \<and>
      same_view s' (consume (length (case z of (x, y) \<Rightarrow> enc x @ encf y)) s)"
    using h t z by auto
next
  fix s s'
  assume s: "s_kind s = None" "pos_ok s"
  have "dec_field dec s \<noteq> Some (Inl EOL, s')" by (simp add: dec_field_iff)
  moreover have "decf s1 \<noteq> Some (Inl EOL, s')" if "dec_field dec s = Some (Inr x, s1)" for x s1
    using rlp_codec.sound_shorter [OF c s that [unfolded dec_field_iff]]
    by (intro rlp_fields.no_eol [OF f]) auto
  ultimately show "dec_pair dec decf s \<noteq> Some (Inl EOL, s')"
    by (auto simp: dec_pair_def dec_then_def split: option.splits sum.splits prod.splits)
next
  fix s
  assume s: "s_kind s = None" "pos_ok s" "length (s_r s) < N"
  have "dec_field dec s \<noteq> None" using rlp_codec.total [OF c s] by (simp add: dec_field_iff)
  moreover have "decf s1 \<noteq> None" if "dec_field dec s = Some (Inr x, s1)" for x s1
    using rlp_codec.sound_shorter [OF c s(1,2) that [unfolded dec_field_iff]] s(3)
    by (intro rlp_fields.total_body [OF f]) auto
  ultimately show "dec_pair dec decf s \<noteq> None"
    by (auto simp: dec_pair_def dec_then_def split: option.splits sum.splits prod.splits)
qed

context rlp_codec
begin

lemma elems_fields:
  "rlp_fields (\<lambda>xs. concat (map enc xs)) (\<lambda>s. decodeSliceElems (length (s_r s) + 1) dec s)
     (\<lambda>xs. \<forall>x \<in> set xs. valid x) N"
proof
  fix xs rest p st and s :: stream
  assume A: "\<forall>x \<in> set xs. valid x" "s_kind s = None" "s_r s = concat (map enc xs) @ rest"
    "s_stack s = (p, p + length (concat (map enc xs))) # st"
    "s_limited s \<longrightarrow> length (concat (map enc xs)) \<le> s_remaining s" "length (s_r s) < N"
  have "length xs \<le> length (concat (map enc xs))"
  proof (induction xs)
    case (Cons x xs)
    moreover have "1 \<le> length (enc x)" using nonempty [of x] by (cases "enc x") auto
    ultimately show ?case by simp
  qed simp
  then have "length xs < length (s_r s) + 1" using A(3) by simp
  from elems_complete [OF A this] show "\<exists>s'. decodeSliceElems (length (s_r s) + 1) dec s = Some (Inr xs, s') \<and>
      same_view s' (consume (length (concat (map enc xs))) s)" .
next
  show "decodeSliceElems (length (s_r s) + 1) dec s \<noteq> None"
    if "s_kind s = None" "pos_ok s" "length (s_r s) < N" for s
    by (rule elems_total [OF that]) simp
qed (rule elems_no_EOL | erule (2) elems_sound)+

lemma slice_unfold:
  assumes "Stream_List s = (Inr n, s1)" and "n \<noteq> 0"
  shows "decodeListSlice dec s = dec_struct (\<lambda>s. decodeSliceElems (length (s_r s) + 1) dec s) s"
  using assms by (simp add: decodeListSlice_def dec_struct_def dec_then_def)

lemma slice_codec:
  "rlp_codec (\<lambda>xs. enc_list (concat (map enc xs))) (decodeListSlice dec)
     (\<lambda>xs. (\<forall>x \<in> set xs. valid x) \<and> length (concat (map enc xs)) < 2 ^ 64) (Suc N)"
proof
  note F = rlp_fields.struct_codec [OF elems_fields]
  fix xs rest and s :: stream
  let ?p = "concat (map enc xs)"
  assume A: "(\<forall>x \<in> set xs. valid x) \<and> length ?p < 2 ^ 64" "s_kind s = None"
    "s_r s = enc_list ?p @ rest" "room (length (enc_list ?p)) s" "length (s_r s) < Suc N"
  from List_complete [OF A(2-4)] A(1) obtain s1 where
    s1: "Stream_List s = (Inr (length ?p), s1)"
      "same_view s1 (opened (length ?p) (length (rlp_head 0xC0 0xF7 (length ?p))) s)" by blast
  show "\<exists>s'. decodeListSlice dec s = Some (Inr xs, s') \<and> same_view s' (consume (length (enc_list ?p)) s)"
  proof (cases "?p = []")
    case True
    have "xs = []" using True nonempty by (cases xs) auto
    have "same_view s1 (consume 0 (opened 0 (length (rlp_head 0xC0 0xF7 0)) s))"
      using s1(2) True by (simp add: same_view_def opened_def)
    from ListEnd_complete [OF this] show ?thesis using s1(1) True \<open>xs = []\<close>
      by (auto simp: decodeListSlice_def dec_ListEnd_def enc_list_def)
  next
    case False
    then show ?thesis using slice_unfold [OF s1(1)] rlp_codec.complete [OF F A] by simp
  qed
next
  note F = rlp_fields.struct_codec [OF elems_fields]
  fix s xs s'
  assume s: "s_kind s = None" "pos_ok s" and D: "decodeListSlice dec s = Some (Inr xs, s')"
  then obtain n s1 where L: "Stream_List s = (Inr n, s1)"
    by (auto simp: decodeListSlice_def split: prod.splits sum.splits)
  let ?p = "concat (map enc xs)"
  show "((\<forall>x \<in> set xs. valid x) \<and> length ?p < 2 ^ 64) \<and> (\<exists>rest. s_r s = enc_list ?p @ rest) \<and>
      room (length (enc_list ?p)) s \<and> same_view s' (consume (length (enc_list ?p)) s)"
  proof (cases "n = 0")
    case True
    let ?h = "rlp_head 0xC0 0xF7 0"
    from D L True obtain u where E: "Stream_ListEnd s1 = (Inr u, s')" and xs: "xs = []"
      by (auto simp: decodeListSlice_def dec_ListEnd_def split: prod.splits sum.splits)
    from List_sound [OF s L] True obtain rest where
      l: "s_r s = ?h @ rest" "same_view s1 (opened 0 (length ?h) s)" "room (length ?h) s"
        "case s_stack s of [] \<Rightarrow> True | (p, z) # _ \<Rightarrow> p + length ?h + 0 \<le> z" by auto
    have "same_view s1 (consume 0 (opened 0 (length ?h) s))" "room 0 (opened 0 (length ?h) s)"
      using l(2) by (simp_all add: same_view_def opened_def room_def)
    from ListEnd_sound [OF this l(3,4) E] l(1) xs show ?thesis by (simp add: enc_list_def)
  next
    case False
    then show ?thesis using D slice_unfold [OF L] rlp_codec.sound [OF F s] by simp
  qed
next
  fix s :: stream
  assume "s_kind s = None" "at_end s"
  from List_EOL(1) [OF this] show "\<exists>s'. decodeListSlice dec s = Some (Inl EOL, s') \<and> same_view s' s"
    by (auto simp: decodeListSlice_def)
next
  note F = rlp_fields.struct_codec [OF elems_fields]
  fix s s'
  assume s: "s_kind s = None" "pos_ok s" and D: "decodeListSlice dec s = Some (Inl EOL, s')"
  obtain r s1 where L: "Stream_List s = (r, s1)" by fastforce
  show "at_end s \<and> same_view s' s"
  proof (cases r)
    case (Inl e)
    then show ?thesis using D L List_EOL(2) [OF s(1)] by (auto simp: decodeListSlice_def)
  next
    case (Inr n)
    show ?thesis
    proof (cases "n = 0")
      case True
      then show ?thesis using D L Inr
        by (auto simp: decodeListSlice_def dec_ListEnd_def Stream_ListEnd_def
            split: prod.splits sum.splits list.splits if_splits)
    next
      case False
      then show ?thesis using D slice_unfold [OF L [unfolded Inr]] rlp_codec.eol [OF F s] by simp
    qed
  qed
next
  note F = rlp_fields.struct_codec [OF elems_fields]
  fix s :: stream
  assume s: "s_kind s = None" "pos_ok s" "length (s_r s) < Suc N"
  obtain r s1 where L: "Stream_List s = (r, s1)" by fastforce
  show "decodeListSlice dec s \<noteq> None"
  proof (cases r)
    case (Inr n)
    then show ?thesis using slice_unfold [OF L [unfolded Inr]] rlp_codec.total [OF F s] L
      by (cases "n = 0") (auto simp: decodeListSlice_def dec_ListEnd_def)
  qed (use L in \<open>simp add: decodeListSlice_def\<close>)
qed simp

end

lemma codec_map:
  assumes c: "rlp_codec enc dec valid N"
    and inv1: "\<And>x y. valid x \<Longrightarrow> f x = Inr y \<Longrightarrow> x = h y \<and> valid' y"
    and inv2: "\<And>y. valid' y \<Longrightarrow> valid (h y) \<and> f (h y) = Inr y"
    and err: "\<And>x. f x \<noteq> Inl EOL"
  shows "rlp_codec (\<lambda>y. enc (h y)) (dec_map f dec) valid' N"
proof
  fix y
  show "enc (h y) \<noteq> []" by (rule rlp_codec.nonempty [OF c])
next
  fix y rest and s :: stream
  assume A: "valid' y" "s_kind s = None" "s_r s = enc (h y) @ rest" "room (length (enc (h y))) s"
    "length (s_r s) < N"
  from rlp_codec.complete [OF c _ A(2-5)] inv2 [OF A(1)]
  show "\<exists>s'. dec_map f dec s = Some (Inr y, s') \<and> same_view s' (consume (length (enc (h y))) s)"
    by (auto simp: dec_map_def)
next
  fix s y s'
  assume s: "s_kind s = None" "pos_ok s" and D: "dec_map f dec s = Some (Inr y, s')"
  then obtain x where d: "dec s = Some (Inr x, s')" "f x = Inr y"
    by (auto simp: dec_map_def split: option.splits sum.splits)
  from rlp_codec.sound [OF c s d(1)] inv1 [OF _ d(2)]
  show "valid' y \<and> (\<exists>rest. s_r s = enc (h y) @ rest) \<and> room (length (enc (h y))) s \<and>
      same_view s' (consume (length (enc (h y))) s)" by auto
next
  fix s :: stream
  assume "s_kind s = None" "at_end s" "length (s_r s) < N"
  from rlp_codec.at_end [OF c this] show "\<exists>s'. dec_map f dec s = Some (Inl EOL, s') \<and> same_view s' s"
    by (auto simp: dec_map_def)
next
  fix s s'
  assume s: "s_kind s = None" "pos_ok s" and D: "dec_map f dec s = Some (Inl EOL, s')"
  then have "dec s = Some (Inl EOL, s')"
    using err by (auto simp: dec_map_def split: option.splits sum.splits)
  from rlp_codec.eol [OF c s this] show "at_end s \<and> same_view s' s" .
next
  fix s :: stream
  assume "s_kind s = None" "pos_ok s" "length (s_r s) < N"
  from rlp_codec.total [OF c this] show "dec_map f dec s \<noteq> None"
    by (auto simp: dec_map_def split: sum.splits)
qed
section \<open>Byte strings and integers\<close>

lemma Kind_Str:
  assumes "length b < 2 ^ 64" and "s_kind s = None" and r: "s_r s = rlp_enc (Str b) @ rest"
    and room: "room (length (rlp_enc (Str b))) s"
  shows "(\<exists>bv. b = [bv] \<and> bv < 128 \<and> stream_Kind s = (Inr (Byte, 0), peeked Byte 0 bv [bv] s) \<and>
      rlp_enc (Str b) = [bv]) \<or>
    (\<not> (length b = 1 \<and> hd b < 128) \<and> (let h = rlp_head 0x80 0xB7 (length b) in
      stream_Kind s = (Inr (String, length b), peeked String (length b) 0 h s) \<and>
      rlp_enc (Str b) = h @ b \<and> room (length b) (peeked String (length b) 0 h s)))"
proof (cases "length b = 1 \<and> hd b < 128")
  case True
  then obtain c where c: "b = [c]" "c < 128" by (cases b) auto
  have "stream_Kind s = (Inr (Byte, 0), peeked Byte 0 c [c] s)"
    by (rule Kind_head [where rest = rest]) (use c assms in \<open>auto simp: is_head_def\<close>)
  then show ?thesis using c by auto
next
  case False
  let ?h = "rlp_head 0x80 0xB7 (length b)"
  have e: "rlp_enc (Str b) = ?h @ b" using False by simp
  have "stream_Kind s = (Inr (String, length b), peeked String (length b) 0 ?h s)"
    by (rule Kind_head [where rest = "b @ rest"]) (use e assms in \<open>auto simp: is_head_def simp del: rlp_enc.simps\<close>)
  moreover have "room (length b) (peeked String (length b) 0 ?h s)"
    using room e room_add [of "length ?h" "length b" s] by (simp add: room_peeked del: rlp_enc.simps)
  ultimately show ?thesis using e False by (simp del: rlp_enc.simps)
qed

lemma readFull_peeked:
  assumes "room n (peeked k m bv h s)" and "s_r s = h @ b @ rest" and "n = length b"
  shows "readFull n (peeked k m bv h s) = (Inr b, consume n (peeked k m bv h s))"
  using readFull_room [OF assms(1)] assms(2,3) by simp

lemma Bytes_complete:
  assumes "length b < 2 ^ 64" "s_kind s = None" "s_r s = rlp_enc (Str b) @ rest"
    "room (length (rlp_enc (Str b))) s"
  shows "\<exists>s'. Stream_Bytes s = Some (Inr b, s') \<and> same_view s' (consume (length (rlp_enc (Str b))) s)"
  using Kind_Str [OF assms]
proof (elim disjE exE conjE)
  fix bv
  assume "b = [bv]" "stream_Kind s = (Inr (Byte, 0), peeked Byte 0 bv [bv] s)" "rlp_enc (Str b) = [bv]"
  then show ?thesis using peeked_view [of Byte 0 bv "[bv]" s] by (simp add: Stream_Bytes_def)
next
  let ?h = "rlp_head 0x80 0xB7 (length b)" let ?s = "peeked String (length b) 0 ?h s"
  assume n: "\<not> (length b = 1 \<and> hd b < 128)"
    and "let h = ?h in stream_Kind s = (Inr (String, length b), peeked String (length b) 0 h s) \<and>
      rlp_enc (Str b) = h @ b \<and> room (length b) (peeked String (length b) 0 h s)"
  then have K: "stream_Kind s = (Inr (String, length b), ?s)" "rlp_enc (Str b) = ?h @ b"
    "room (length b) ?s" by (simp_all add: Let_def)
  have "readFull (length b) ?s = (Inr b, consume (length b) ?s)"
    using K assms(3) by (intro readFull_peeked [where rest = rest]) auto
  then show ?thesis using K(1,2) n consume_peeked [of "length b" String "length b" 0 ?h s]
    by (simp add: Stream_Bytes_def del: rlp_enc.simps)
qed

lemma Str_sound:
  assumes s: "s_kind s = None" "pos_ok s" and K: "stream_Kind s = (Inr (String, n), s1)"
    and R: "readFull n s1 = (Inr b, s2)" and c: "\<not> (n = 1 \<and> hd b < 128)"
  shows "length b < 2 ^ 64 \<and> (\<exists>rest. s_r s = rlp_enc (Str b) @ rest) \<and>
    room (length (rlp_enc (Str b))) s \<and> same_view s2 (consume (length (rlp_enc (Str b))) s) \<and> length b = n"
proof -
  from Kind_sound [OF s K] obtain h rest bv where
    h: "is_head String n bv h" "s_r s = h @ rest" "room (length h) s" "s1 = peeked String n bv h s" by blast
  have hh: "h = rlp_head 0x80 0xB7 n" "n < 2 ^ 64" using h(1) by (auto simp: is_head_def)
  have "pos_ok s1" unfolding h(4) pos_ok_peeked by (rule pos_ok_consume [OF s(2) h(3)])
  from readFull_iff [OF this] R have
    r: "room n s1" "n \<le> length rest" "b = take n rest" "s2 = consume n s1" using h by auto
  then have len: "length b = n" by simp
  then have e: "rlp_enc (Str b) = h @ b" using c hh by auto
  have "room (length h + n) s" using r(1) h(3,4) by (simp add: room_add room_peeked)
  moreover have "s_r s = (h @ b) @ drop n rest" using h(2) r(3) by simp
  moreover have "same_view s2 (consume (length h + n) s)" unfolding r(4) h(4) by (rule consume_peeked)
  ultimately show ?thesis unfolding e using len hh(2) by auto
qed

lemma Byte_sound:
  assumes s: "s_kind s = None" "pos_ok s" and K: "stream_Kind s = (Inr (Byte, n), s1)"
  shows "rlp_enc (Str [s_byteval s1]) = [s_byteval s1] \<and> (\<exists>rest. s_r s = [s_byteval s1] @ rest) \<and>
    room 1 s \<and> same_view (s1\<lparr>s_kind := None\<rparr>) (consume 1 s) \<and> s_byteval s1 < 128"
proof -
  from Kind_sound [OF s K] obtain h rest bv where
    h: "is_head Byte n bv h" "s_r s = h @ rest" "room (length h) s" "s1 = peeked Byte n bv h s" by blast
  then have "h = [bv]" "bv < 128" by (auto simp: is_head_def)
  with h show ?thesis using peeked_view [of Byte n bv h s] by simp
qed

lemma Bytes_sound:
  assumes s: "s_kind s = None" "pos_ok s" and D: "Stream_Bytes s = Some (Inr b, s')"
  shows "length b < 2 ^ 64 \<and> (\<exists>rest. s_r s = rlp_enc (Str b) @ rest) \<and>
    room (length (rlp_enc (Str b))) s \<and> same_view s' (consume (length (rlp_enc (Str b))) s)"
proof -
  from D obtain k n s1 where K: "stream_Kind s = (Inr (k, n), s1)"
    by (auto simp: Stream_Bytes_def split: prod.splits sum.splits)
  show ?thesis
  proof (cases k)
    case Byte
    then have "b = [s_byteval s1]" "s' = s1\<lparr>s_kind := None\<rparr>" using D K by (auto simp: Stream_Bytes_def)
    with Byte_sound [OF s K [unfolded Byte]] show ?thesis by (simp del: rlp_enc.simps)
  next
    case String
    then have "readFull n s1 = (Inr b, s')" "\<not> (n = 1 \<and> hd b < 128)"
      using D K by (auto simp: Stream_Bytes_def split: prod.splits sum.splits if_splits)
    from Str_sound [OF s K [unfolded String] this] show ?thesis by blast
  next
    case List
    then show ?thesis using D K by (simp add: Stream_Bytes_def)
  qed
qed

lemma Bytes_EOL:
  assumes "s_kind s = None"
  shows "at_end s \<Longrightarrow> \<exists>s'. Stream_Bytes s = Some (Inl EOL, s') \<and> same_view s' s"
    and "Stream_Bytes s = Some (Inl EOL, s') \<Longrightarrow> at_end s \<and> same_view s' s"
  using Kind_at_end [OF assms] Kind_EOL [OF assms] no_EOL(3)
  by (auto simp: Stream_Bytes_def split: prod.splits sum.splits if_splits kind.splits)

interpretation bytes_codec: rlp_codec "\<lambda>b. rlp_enc (Str b)" Stream_Bytes "\<lambda>b. length b < 2 ^ 64" N
proof
  show "Stream_Bytes s \<noteq> None" for s by (simp add: Stream_Bytes_def)
qed (use Bytes_complete Bytes_sound Bytes_EOL rlp_enc_nonempty in blast)+

definition enc_uint :: "u64 \<Rightarrow> bytes" where
  "enc_uint n = rlp_enc (Str (nat_bytes (unat n)))"

lemma nat_bytes_single: "(b :: byte) \<noteq> 0 \<Longrightarrow> nat_bytes (unat b) = [b]"
  using nat_bytes_be_val [of "[b]"] by (simp add: be_val_Cons)

lemma u64_bytes_length: "length (nat_bytes (unat (n :: u64))) \<le> 8"
proof -
  have "unat n < 2 ^ LENGTH(64)" by (rule unsigned_less)
  then have "unat n < 256 ^ 8" by simp
  then show ?thesis by (rule length_nat_bytes_le)
qed

lemma uint_complete:
  assumes "s_kind s = None" "s_r s = enc_uint n @ rest" "room (length (enc_uint n)) s"
  shows "\<exists>s'. Stream_uint 64 s = Some (Inr n, s') \<and> same_view s' (consume (length (enc_uint n)) s)"
proof -
  let ?b = "nat_bytes (unat n)"
  have len: "length ?b \<le> 8" by (rule u64_bytes_length)
  then have "length ?b < 2 ^ 64" by (rule order.strict_trans1) simp
  from Kind_Str [OF this assms(1) assms(2,3) [unfolded enc_uint_def]] show ?thesis
  proof (elim disjE exE conjE)
    fix bv
    assume b: "?b = [bv]" "bv < 128" "rlp_enc (Str ?b) = [bv]"
      and K: "stream_Kind s = (Inr (Byte, 0), peeked Byte 0 bv [bv] s)"
    have u: "unat bv = unat n" using be_val_nat_bytes [of "unat n"] b by (simp add: be_val_Cons)
    then have "(ucast bv :: u64) = n" by (simp add: ucast_byte_of_nat)
    moreover have "bv \<noteq> 0" using b(1) u by (cases "unat n = 0") auto
    ultimately show ?thesis using K b peeked_view [of Byte 0 bv "[bv]" s]
      by (simp add: Stream_uint_def enc_uint_def)
  next
    let ?h = "rlp_head 0x80 0xB7 (length ?b)"
    let ?s = "peeked String (length ?b) 0 ?h s"
    assume ns: "\<not> (length ?b = 1 \<and> hd ?b < 128)" and
      "let h = ?h in stream_Kind s = (Inr (String, length ?b), peeked String (length ?b) 0 h s) \<and>
        rlp_enc (Str ?b) = h @ ?b \<and> room (length ?b) (peeked String (length ?b) 0 h s)"
    then have K: "stream_Kind s = (Inr (String, length ?b), ?s)" "enc_uint n = ?h @ ?b"
      "room (length ?b) ?s" by (simp_all add: Let_def enc_uint_def del: rlp_enc.simps)
    show ?thesis
    proof (cases "n = 0")
      case True
      then show ?thesis using K peeked_view [of String 0 0 "rlp_head 0x80 0xB7 0" s]
        by (simp add: Stream_uint_def readUint_def)
    next
      case False
      have big: "128 \<le> unat n"
      proof (rule ccontr)
        assume "\<not> 128 \<le> unat n"
        then have small: "unat (of_nat (unat n) :: byte) = unat n" by (intro of_nat_small_byte) simp
        then have ne: "(of_nat (unat n) :: byte) \<noteq> 0" using False by (auto simp: unat_eq_0)
        have "?b = [of_nat (unat n)]" using nat_bytes_single [OF ne] unfolding small .
        moreover have "(of_nat (unat n) :: byte) < 128"
          using small \<open>\<not> 128 \<le> unat n\<close> by (simp add: word_less_nat_alt)
        ultimately show False using ns by simp
      qed
      have "readUint (length ?b) ?s = (Inr (unat n), consume (length ?b) ?s)"
        using K big assms(2) by (intro readUint_nat_bytes [where rest = rest]) auto
      then show ?thesis using K(1,2) len big consume_peeked [of "length ?b" String "length ?b" 0 ?h s]
        by (simp add: Stream_uint_def)
    qed
  qed
qed

lemma uint_sound:
  assumes s: "s_kind s = None" "pos_ok s" and D: "Stream_uint 64 s = Some (Inr x, s')"
  shows "(\<exists>rest. s_r s = enc_uint x @ rest) \<and> room (length (enc_uint x)) s \<and>
    same_view s' (consume (length (enc_uint x)) s)"
proof -
  from D obtain k n s1 where K: "stream_Kind s = (Inr (k, n), s1)"
    by (auto simp: Stream_uint_def split: prod.splits sum.splits)
  show ?thesis
  proof (cases k)
    case Byte
    let ?v = "s_byteval s1"
    have x: "?v \<noteq> 0" "x = ucast ?v" "s' = s1\<lparr>s_kind := None\<rparr>"
      using D K Byte by (auto simp: Stream_uint_def split: if_splits)
    have "unat x = unat ?v" unfolding x(2) by (simp add: unat_ucast_mod order.strict_trans [OF unat_byte_less])
    then have "enc_uint x = [?v]"
      using nat_bytes_single [OF x(1)] Byte_sound [OF s K [unfolded Byte]] by (simp add: enc_uint_def)
    with Byte_sound [OF s K [unfolded Byte]] x(3) show ?thesis by simp
  next
    case String
    then obtain v where R: "readUint n s1 = (Inr v, s')" "n \<le> 8" "x = of_nat v" "n > 0 \<longrightarrow> 128 \<le> v"
      using D K by (auto simp: Stream_uint_def split: prod.splits sum.splits if_splits)
    from Kind_sound [OF s K] obtain h rest bv where
      h: "is_head String n bv h" "s_r s = h @ rest" "room (length h) s" "s1 = peeked String n bv h s"
      using String by blast
    have hh: "h = rlp_head 0x80 0xB7 n" using h(1) by (auto simp: is_head_def)
    have ok: "pos_ok s1" unfolding h(4) pos_ok_peeked by (rule pos_ok_consume [OF s(2) h(3)])
    show ?thesis
    proof (cases "n = 0")
      case True
      then have "v = 0" "s' = s1\<lparr>s_kind := None\<rparr>" using R(1) by (auto simp: readUint_def)
      moreover have "enc_uint 0 = h" using hh True by (simp add: enc_uint_def)
      ultimately show ?thesis using R(3) h peeked_view [of String n bv h s] by simp
    next
      case False
      from readUint_sound [OF R(1) ok _ R(2)] R(4) False obtain rest' where
        r: "s_r s1 = nat_bytes v @ rest'" "length (nat_bytes v) = n" "room n s1" "s' = consume n s1"
          "v < 2 ^ 64" by auto
      have ux: "unat x = v" using R(3) r(5) by (simp add: unat_of_nat)
      have "\<not> (length (nat_bytes v) = 1 \<and> hd (nat_bytes v) < 128)"
      proof
        assume "length (nat_bytes v) = 1 \<and> hd (nat_bytes v) < 128"
        then obtain c where "nat_bytes v = [c]" "c < 128" by (cases "nat_bytes v") auto
        then have "v < 128" using be_val_nat_bytes [of v] by (simp add: be_val_Cons word_less_nat_alt)
        with R(4) False show False by simp
      qed
      then have e: "enc_uint x = h @ nat_bytes v" using hh r(2) ux by (simp add: enc_uint_def)
      have "rest = s_r s1" using h(2,4) by simp
      moreover have "room (length h + n) s" using r(3) h(3,4) by (simp add: room_add room_peeked)
      moreover have "same_view s' (consume (length h + n) s)" unfolding r(4) h(4) by (rule consume_peeked)
      ultimately show ?thesis unfolding e using h(2) r(1,2) by auto
    qed
  next
    case List
    then show ?thesis using D K by (simp add: Stream_uint_def)
  qed
qed

lemma uint_EOL:
  assumes "s_kind s = None"
  shows "at_end s \<Longrightarrow> \<exists>s'. Stream_uint m s = Some (Inl EOL, s') \<and> same_view s' s"
    and "Stream_uint m s = Some (Inl EOL, s') \<Longrightarrow> at_end s \<and> same_view s' s"
  using Kind_at_end [OF assms] Kind_EOL [OF assms] no_EOL(4)
  by (auto simp: Stream_uint_def split: prod.splits sum.splits if_splits kind.splits)

interpretation uint_codec: rlp_codec enc_uint "decodeUint 64" "\<lambda>_. True" N
  unfolding decodeUint_def
proof
  show "Stream_uint 64 s \<noteq> None" for s by (simp add: Stream_uint_def)
  show "enc_uint x \<noteq> []" for x by (simp add: enc_uint_def del: rlp_enc.simps)
qed (use uint_complete uint_sound uint_EOL in blast)+

definition enc_big :: "nat \<Rightarrow> bytes" where
  "enc_big n = rlp_enc (Str (nat_bytes n))"

interpretation big_codec: rlp_codec enc_big decodeBigInt "\<lambda>n. length (nat_bytes n) < 2 ^ 64" N
  unfolding enc_big_def decodeBigInt_def
proof (rule codec_map [OF bytes_codec.rlp_codec_axioms])
  fix x :: bytes and y
  assume "(if x \<noteq> [] \<and> hd x = 0 then Inl ErrCanonInt else Inr (be_val x)) = Inr y" and "length x < 2 ^ 64"
  then show "x = nat_bytes y \<and> length (nat_bytes y) < 2 ^ 64"
    by (cases "x = []") (auto simp: nat_bytes_be_val split: if_splits)
next
  fix y
  assume "length (nat_bytes y) < 2 ^ 64"
  then show "length (nat_bytes y) < 2 ^ 64 \<and>
      (if nat_bytes y \<noteq> [] \<and> hd (nat_bytes y) = 0 then Inl ErrCanonInt else Inr (be_val (nat_bytes y))) = Inr y"
    using hd_nat_bytes [of y] by (cases "y = 0") auto
qed simp

text \<open>Fixed-size byte arrays of at least two bytes (addresses and hashes).\<close>

lemma array_codec:
  assumes "2 \<le> n" and "n < 2 ^ 64"
  shows "rlp_codec (\<lambda>b. rlp_enc (Str b)) (decodeByteArray n) (\<lambda>b. length b = n) N"
proof
  fix x rest and s :: stream
  assume A: "length x = n" "s_kind s = None" "s_r s = rlp_enc (Str x) @ rest"
    "room (length (rlp_enc (Str x))) s"
  have "length x < 2 ^ 64" using A(1) assms(2) by simp
  from Kind_Str [OF this A(2-4)] have K: "stream_Kind s =
      (Inr (String, n), peeked String n 0 (rlp_head 0x80 0xB7 n) s)"
    "rlp_enc (Str x) = rlp_head 0x80 0xB7 n @ x" "room n (peeked String n 0 (rlp_head 0x80 0xB7 n) s)"
    using A(1) assms(1) by (auto simp: Let_def)
  let ?h = "rlp_head 0x80 0xB7 n"
  have "readFull n (peeked String n 0 ?h s) = (Inr x, consume n (peeked String n 0 ?h s))"
    using K A by (intro readFull_peeked [where rest = rest]) auto
  then show "\<exists>s'. decodeByteArray n s = Some (Inr x, s') \<and>
      same_view s' (consume (length (rlp_enc (Str x))) s)"
    using K A(1) assms(1) consume_peeked [of n String n 0 ?h s]
    by (simp add: decodeByteArray_def del: rlp_enc.simps)
next
  fix s x s'
  assume s: "s_kind s = None" "pos_ok s" and D: "decodeByteArray n s = Some (Inr x, s')"
  then obtain s1 where K: "stream_Kind s = (Inr (String, n), s1)" "readFull n s1 = (Inr x, s')"
    using assms(1) by (auto simp: decodeByteArray_def split: prod.splits sum.splits if_splits kind.splits)
  from Str_sound [OF s K] assms(1)
  show "length x = n \<and> (\<exists>rest. s_r s = rlp_enc (Str x) @ rest) \<and> room (length (rlp_enc (Str x))) s \<and>
      same_view s' (consume (length (rlp_enc (Str x))) s)" by auto
next
  fix s :: stream
  assume "s_kind s = None" "at_end s"
  from Kind_at_end [OF this] show "\<exists>s'. decodeByteArray n s = Some (Inl EOL, s') \<and> same_view s' s"
    by (simp add: decodeByteArray_def)
next
  fix s s'
  assume "s_kind s = None" "decodeByteArray n s = Some (Inl EOL, s')"
  then show "at_end s \<and> same_view s' s" using Kind_EOL [of s s'] no_EOL(3) assms(1)
    by (auto simp: decodeByteArray_def split: prod.splits sum.splits if_splits kind.splits)
qed (simp_all add: decodeByteArray_def del: rlp_enc.simps)

section \<open>Items\<close>

lemma decodeInterface_peeked:
  assumes "stream_Kind s = (Inr (k, n), peeked k n bv h s)"
  shows "decodeInterface (Suc fuel) s =
    (if k = List then dec_map (\<lambda>xs. Inr (Lst xs)) (decodeListSlice (decodeInterface fuel)) s
     else dec_map (\<lambda>b. Inr (Str b)) Stream_Bytes s)"
  using assms by (simp add: dec_map_def Stream_Bytes_def decodeListSlice_def Stream_List_def)

lemma dec_map_Inr:
  "dec_map (\<lambda>x. Inr (f x)) d s = Some (Inr y, s') \<longleftrightarrow> (\<exists>x. y = f x \<and> d s = Some (Inr x, s'))"
  "dec_map (\<lambda>x. Inr (f x)) d s = Some (Inl e, s') \<longleftrightarrow> d s = Some (Inl e, s')"
  "dec_map g d s = None \<longleftrightarrow> d s = None"
  by (auto simp: dec_map_def split: option.splits sum.splits)

lemma Kind_Str_not_List:
  assumes "length b < 2 ^ 64" "s_kind s = None" "s_r s = rlp_enc (Str b) @ rest"
    "room (length (rlp_enc (Str b))) s"
  shows "\<exists>k n bv h. k \<noteq> List \<and> stream_Kind s = (Inr (k, n), peeked k n bv h s)"
  using Kind_Str [OF assms] unfolding Let_def by (elim disjE exE conjE) blast+

fun valid_item :: "rlp_item \<Rightarrow> bool" where
  "valid_item (Str b) = (length b < 2 ^ 64)"
| "valid_item (Lst xs) = ((\<forall>x \<in> set xs. valid_item x) \<and> length (concat (map rlp_enc xs)) < 2 ^ 64)"

lemma valid_item_fits: "length (rlp_enc x) < 2 ^ 64 \<Longrightarrow> valid_item x"
proof (induction x)
  case (Str b)
  then show ?case by (auto split: if_splits)
next
  case (Lst xs)
  have "length (rlp_enc x) \<le> length (concat (map rlp_enc xs))" if "x \<in> set xs" for x
    using that by (induction xs) auto
  moreover have "length (concat (map rlp_enc xs)) \<le> length (rlp_enc (Lst xs))" by (simp add: Let_def)
  then have "length (concat (map rlp_enc xs)) < 2 ^ 64" using Lst.prems by (rule le_less_trans)
  ultimately show ?case using Lst.IH by (auto intro: le_less_trans)
qed

lemma decodeInterface_codec: "rlp_codec rlp_enc (decodeInterface N) valid_item N"
proof (induction N)
  case 0
  show ?case by unfold_locales auto
next
  case (Suc N)
  have L: "rlp_codec (\<lambda>xs. rlp_enc (Lst xs)) (decodeListSlice (decodeInterface N))
      (\<lambda>xs. valid_item (Lst xs)) (Suc N)"
    using rlp_codec.slice_codec [OF Suc.IH] by (simp add: rlp_enc_Lst del: rlp_enc.simps)
  note B = bytes_codec.rlp_codec_axioms [of "Suc N"]
  show ?case
  proof
    fix x rest and s :: stream
    assume A: "valid_item x" "s_kind s = None" "s_r s = rlp_enc x @ rest" "room (length (rlp_enc x)) s"
      "length (s_r s) < Suc N"
    show "\<exists>s'. decodeInterface (Suc N) s = Some (Inr x, s') \<and> same_view s' (consume (length (rlp_enc x)) s)"
    proof (cases x)
      case (Str b)
      have "length b < 2 ^ 64" using A(1) Str by simp
      from Kind_Str_not_List [OF this A(2) A(3,4) [unfolded Str]]
      obtain k n bv h where "k \<noteq> List" "stream_Kind s = (Inr (k, n), peeked k n bv h s)" by blast
      then have D: "decodeInterface (Suc N) s = dec_map (\<lambda>b. Inr (Str b)) Stream_Bytes s"
        by (simp add: decodeInterface_peeked del: decodeInterface.simps)
      have "\<exists>s'. Stream_Bytes s = Some (Inr b, s') \<and> same_view s' (consume (length (rlp_enc (Str b))) s)"
        by (rule rlp_codec.complete [OF B, where rest = rest]) (use A Str in \<open>auto simp del: rlp_enc.simps\<close>)
      then show ?thesis unfolding D Str dec_map_Inr by blast
    next
      case (Lst xs)
      let ?p = "concat (map rlp_enc xs)"
      let ?h = "rlp_head 0xC0 0xF7 (length ?p)"
      have "stream_Kind s = (Inr (List, length ?p), peeked List (length ?p) 0 ?h s)"
        using A Lst by (intro Kind_head) (auto simp: is_head_def enc_list_def Let_def)
      note D = decodeInterface_peeked [OF this, of N]
      have "\<exists>s'. decodeListSlice (decodeInterface N) s = Some (Inr xs, s') \<and>
          same_view s' (consume (length (rlp_enc (Lst xs))) s)"
        by (rule rlp_codec.complete [OF L, where rest = rest])
          (use A Lst in \<open>simp_all del: rlp_enc.simps\<close>)
      then show ?thesis unfolding Lst by (simp add: D dec_map_Inr del: rlp_enc.simps decodeInterface.simps)
    qed
  next
    fix s x s'
    assume s: "s_kind s = None" "pos_ok s" and D: "decodeInterface (Suc N) s = Some (Inr x, s')"
    then obtain k n s1 where K: "stream_Kind s = (Inr (k, n), s1)"
      by (auto split: prod.splits sum.splits)
    then obtain bv h where "s1 = peeked k n bv h s" using Kind_sound [OF s K] by blast
    note D' = decodeInterface_peeked [OF K [unfolded this], of N]
    show "valid_item x \<and> (\<exists>rest. s_r s = rlp_enc x @ rest) \<and> room (length (rlp_enc x)) s \<and>
        same_view s' (consume (length (rlp_enc x)) s)"
    proof (cases "k = List")
      case True
      then obtain xs where "x = Lst xs" "decodeListSlice (decodeInterface N) s = Some (Inr xs, s')"
        using D unfolding D' by (auto simp: dec_map_Inr)
      then show ?thesis using rlp_codec.sound [OF L s] by blast
    next
      case False
      then obtain b where "x = Str b" "Stream_Bytes s = Some (Inr b, s')"
        using D unfolding D' by (auto simp: dec_map_Inr)
      then show ?thesis using rlp_codec.sound [OF B s] by (metis valid_item.simps(1))
    qed
  next
    fix s :: stream
    assume "s_kind s = None" "at_end s"
    from Kind_at_end [OF this] show "\<exists>s'. decodeInterface (Suc N) s = Some (Inl EOL, s') \<and> same_view s' s"
      by simp
  next
    fix s s'
    assume s: "s_kind s = None" "pos_ok s" and D: "decodeInterface (Suc N) s = Some (Inl EOL, s')"
    obtain r s1 where K: "stream_Kind s = (r, s1)" by fastforce
    show "at_end s \<and> same_view s' s"
    proof (cases r)
      case (Inl e)
      then show ?thesis using D K Kind_EOL [OF s(1)] by auto
    next
      case (Inr kn)
      obtain k n where kn: "kn = (k, n)" by fastforce
      obtain bv h where "s1 = peeked k n bv h s" using Kind_sound [OF s K [unfolded Inr kn]] by blast
      note D' = decodeInterface_peeked [OF K [unfolded Inr kn this], of N]
      show ?thesis using D rlp_codec.eol [OF L s] rlp_codec.eol [OF B s] unfolding D'
        by (cases "k = List") (auto simp: dec_map_Inr)
    qed
  next
    fix s :: stream
    assume s: "s_kind s = None" "pos_ok s" "length (s_r s) < Suc N"
    obtain r s1 where K: "stream_Kind s = (r, s1)" by fastforce
    show "decodeInterface (Suc N) s \<noteq> None"
    proof (cases r)
      case (Inl e)
      then show ?thesis using K by simp
    next
      case (Inr kn)
      obtain k n where kn: "kn = (k, n)" by fastforce
      obtain bv h where "s1 = peeked k n bv h s" using Kind_sound [OF s(1,2) K [unfolded Inr kn]] by blast
      note D' = decodeInterface_peeked [OF K [unfolded Inr kn this], of N]
      show ?thesis using rlp_codec.total [OF L s] rlp_codec.total [OF B s] unfolding D'
        by (cases "k = List") (auto simp: dec_map_Inr(3))
    qed
  qed simp
qed

interpretation item_codec: rlp_codec rlp_enc "decodeInterface N" valid_item N
  by (rule decodeInterface_codec)

lemma Raw_complete:
  assumes "length (rlp_enc x) < 2 ^ 64" "s_kind s = None" "s_r s = rlp_enc x @ rest"
    "room (length (rlp_enc x)) s"
  shows "\<exists>s'. Stream_Raw s = Some (Inr (rlp_enc x), s') \<and> same_view s' (consume (length (rlp_enc x)) s)"
proof (cases x)
  case (Str b)
  have len: "length b < 2 ^ 64" using valid_item_fits [OF assms(1)] Str by simp
  from Kind_Str [OF len assms(2) assms(3,4) [unfolded Str]] show ?thesis
  proof (elim disjE exE conjE)
    fix bv
    assume "b = [bv]" "stream_Kind s = (Inr (Byte, 0), peeked Byte 0 bv [bv] s)" "rlp_enc (Str b) = [bv]"
    then show ?thesis using peeked_view [of Byte 0 bv "[bv]" s] Str by (simp add: Stream_Raw_def)
  next
    let ?h = "rlp_head 0x80 0xB7 (length b)" let ?s = "peeked String (length b) 0 ?h s"
    assume "let h = ?h in stream_Kind s = (Inr (String, length b), peeked String (length b) 0 h s) \<and>
        rlp_enc (Str b) = h @ b \<and> room (length b) (peeked String (length b) 0 h s)"
    then have K: "stream_Kind s = (Inr (String, length b), ?s)" "rlp_enc (Str b) = ?h @ b"
      "room (length b) ?s" by (simp_all add: Let_def)
    have "readFull (length b) ?s = (Inr b, consume (length b) ?s)"
      using K assms(3) Str by (intro readFull_peeked [where rest = rest]) auto
    moreover have "puthead 0x80 0xB7 (of_nat (length b)) = ?h"
      using puthead_head [of "length b" "0x80" "0xB7"] len by simp
    ultimately show ?thesis using K(1,2) Str consume_peeked [of "length b" String "length b" 0 ?h s]
      by (simp add: Stream_Raw_def del: rlp_enc.simps)
  qed
next
  case (Lst xs)
  let ?p = "concat (map rlp_enc xs)"
  let ?h = "rlp_head 0xC0 0xF7 (length ?p)"
  let ?s = "peeked List (length ?p) 0 ?h s"
  have e: "rlp_enc x = ?h @ ?p" using Lst by (simp add: Let_def)
  have len: "length ?p < 2 ^ 64" using valid_item_fits [OF assms(1)] Lst by simp
  have K: "stream_Kind s = (Inr (List, length ?p), ?s)"
    using assms e len by (intro Kind_head [where rest = "?p @ rest"]) (auto simp: is_head_def)
  have "room (length ?p) ?s" using assms(4) e by (simp add: room_peeked room_add)
  then have "readFull (length ?p) ?s = (Inr ?p, consume (length ?p) ?s)"
    using assms(3) e by (intro readFull_peeked [where rest = rest]) auto
  moreover have "puthead 0xC0 0xF7 (of_nat (length ?p)) = ?h"
    using puthead_head [of "length ?p" "0xC0" "0xF7"] len by simp
  ultimately show ?thesis using K e consume_peeked [of "length ?p" List "length ?p" 0 ?h s]
    by (simp add: Stream_Raw_def)
qed

section \<open>What the decoder promises\<close>

text \<open>C15: the decoder accepts exactly the canonical encodings. For every input that fits in memory,
  \<^verbatim>\<open>DecodeBytes\<close> into an \<^verbatim>\<open>interface{}\<close> returns (it does not run forever, whatever the nesting),
  and it returns the item \<open>x\<close> without an error if and only if the input is the encoding of \<open>x\<close>,
  with no trailing data, no list that is too long or too short for its elements and no second
  encoding of the same item. The fuel is any bound above the length of the input.\<close>

theorem DecodeBytes_iff:
  assumes "length b < 2 ^ 64" and "length b < fuel"
  shows "DecodeBytes (decodeInterface fuel) b \<noteq> None \<and>
    (DecodeBytes (decodeInterface fuel) b = Some (Inr x) \<longleftrightarrow> b = rlp_enc x)"
  using item_codec.DecodeBytes_codec_iff [OF assms(2), of x] item_codec.DecodeBytes_total [OF assms(2)]
    valid_item_fits [of x] assms(1) by auto

theorem DecodeBytes_iff_witness:
  "DecodeBytes (decodeInterface 7) [0xC5, 0x7F, 0x82, 1, 2, 0xC0] =
     Some (Inr (Lst [Str [0x7F], Str [1, 2], Lst []]))"
  using DecodeBytes_iff [of "[0xC5, 0x7F, 0x82, 1, 2, 0xC0]" 7 "Lst [Str [0x7F], Str [1, 2], Lst []]"]
  by (simp add: rlp_head_def)

text \<open>C28: \<^verbatim>\<open>Raw\<close> gives back the bytes it consumed. On a stream positioned before an encoded item,
  \<^verbatim>\<open>Stream.Raw\<close> (which has already lost the header and writes a new one in front of the content)
  returns exactly the encoding of that item and leaves the stream behind it, inside the same list
  and with the limits reduced by the length of the encoding.\<close>

theorem Stream_Raw_enc:
  assumes "length (rlp_enc x) < 2 ^ 64" and "s_kind s = None" and "s_r s = rlp_enc x @ rest"
    and "room (length (rlp_enc x)) s"
  shows "\<exists>s'. Stream_Raw s = Some (Inr (rlp_enc x), s') \<and> s_r s' = rest \<and> s_kind s' = None \<and>
    s_stack s' = bump (length (rlp_enc x)) (s_stack s)"
  using Raw_complete [OF assms] assms(3) by (auto simp: same_view_def)

theorem Stream_Raw_enc_witness:
  "\<exists>s'. Stream_Raw (Stream_Reset [0x82, 1, 2, 9] 4) = Some (Inr [0x82, 1, 2], s') \<and> s_r s' = [9]"
  using Stream_Raw_enc [of "Str [1, 2]" "Stream_Reset [0x82, 1, 2, 9] 4" "[9]"]
  by (auto simp: rlp_head_def Stream_Reset_def room_def)


end
