(* ===== verification/Common_Types.thy ===== *)
theory Common_Types
  imports Prelude
begin

text \<open>
  Hex strings, hashes and addresses: \<^verbatim>\<open>src/common/bytes.go\<close> and the conversions of
  \<^verbatim>\<open>src/common/types.go\<close>. A Go string is its sequence of bytes. The checksummed form of an address
  depends on Keccak-256, which is a parameter; whatever that function is, the string of an address
  parses back to the address, so that sorting validators by their strings is a sort by an
  injective key.
\<close>

section \<open>Hex strings\<close>

text \<open>\<^verbatim>\<open>encoding/hex\<close>: two lower-case digits per byte; decoding keeps what it had decoded when it
  meets a bad digit or an odd end, and \<^verbatim>\<open>Hex2Bytes\<close> drops the error.\<close>

definition hexChar :: "byte \<Rightarrow> byte" where
  "hexChar n = (if n < 10 then 0x30 + n else 0x57 + n)"

definition fromHexChar :: "byte \<Rightarrow> byte option" where
  "fromHexChar c =
     (if 0x30 \<le> c \<and> c \<le> 0x39 then Some (c - 0x30)
      else if 0x61 \<le> c \<and> c \<le> 0x66 then Some (c - 0x61 + 10)
      else if 0x41 \<le> c \<and> c \<le> 0x46 then Some (c - 0x41 + 10)
      else None)"

definition Bytes2Hex :: "bytes \<Rightarrow> bytes" where
  "Bytes2Hex d = concat (map (\<lambda>b. [hexChar (drop_bit 4 b), hexChar (b AND 0xF)]) d)"

fun Hex2Bytes :: "bytes \<Rightarrow> bytes" where
  "Hex2Bytes (c1 # c2 # cs) =
     (case (fromHexChar c1, fromHexChar c2) of
        (Some a, Some b) \<Rightarrow> (push_bit 4 a OR b) # Hex2Bytes cs
      | _ \<Rightarrow> [])"
| "Hex2Bytes _ = []"

definition has0xPrefix :: "bytes \<Rightarrow> bool" where
  "has0xPrefix s \<longleftrightarrow> length s \<ge> 2 \<and> s ! 0 = 0x30 \<and> (s ! 1 = 0x78 \<or> s ! 1 = 0x58)"

definition isHexCharacter :: "byte \<Rightarrow> bool" where
  "isHexCharacter c \<longleftrightarrow>
     (0x30 \<le> c \<and> c \<le> 0x39) \<or> (0x61 \<le> c \<and> c \<le> 0x66) \<or> (0x41 \<le> c \<and> c \<le> 0x46)"

definition isHex :: "bytes \<Rightarrow> bool" where
  "isHex s \<longleftrightarrow> length s mod 2 = 0 \<and> list_all isHexCharacter s"

definition ToHex :: "bytes \<Rightarrow> bytes" where
  "ToHex b = (let h = Bytes2Hex b in [0x30, 0x78] @ (if h = [] then [0x30] else h))"

definition FromHex :: "bytes \<Rightarrow> bytes" where
  "FromHex s =
     (let s1 = (if has0xPrefix s then drop 2 s else s);
          s2 = (if length s1 mod 2 = 1 then 0x30 # s1 else s1)
      in Hex2Bytes s2)"

definition Hex2BytesFixed :: "bytes \<Rightarrow> nat \<Rightarrow> bytes" where
  "Hex2BytesFixed s flen =
     (let h = Hex2Bytes s in
      if length h = flen then h
      else if length h > flen then drop (length h - flen) h
      else replicate (flen - length h) 0 @ h)"

definition RightPadBytes :: "bytes \<Rightarrow> nat \<Rightarrow> bytes" where
  "RightPadBytes s l = (if l \<le> length s then s else s @ replicate (l - length s) 0)"

definition LeftPadBytes :: "bytes \<Rightarrow> nat \<Rightarrow> bytes" where
  "LeftPadBytes s l = (if l \<le> length s then s else replicate (l - length s) 0 @ s)"

fun TrimLeftZeroes :: "bytes \<Rightarrow> bytes" where
  "TrimLeftZeroes [] = []"
| "TrimLeftZeroes (b # bs) = (if b \<noteq> 0 then b # bs else TrimLeftZeroes bs)"

section \<open>Hashes and addresses\<close>

text \<open>\<^verbatim>\<open>SetBytes\<close> crops from the left and right-aligns what is left in a zero array.\<close>

definition setBytes :: "nat \<Rightarrow> bytes \<Rightarrow> bytes" where
  "setBytes len b =
     (let b' = (if length b > len then drop (length b - len) b else b)
      in replicate (len - length b') 0 @ b')"

definition BytesToHash :: "bytes \<Rightarrow> hash" where
  "BytesToHash b = bytes_hash (setBytes 32 b)"

definition BytesToAddress :: "bytes \<Rightarrow> address" where
  "BytesToAddress b = bytes_addr (setBytes 20 b)"

definition HexToHash :: "bytes \<Rightarrow> hash" where
  "HexToHash s = BytesToHash (FromHex s)"

definition HexToAddress :: "bytes \<Rightarrow> address" where
  "HexToAddress s = BytesToAddress (FromHex s)"

definition IsHexAddress :: "bytes \<Rightarrow> bool" where
  "IsHexAddress s =
     (let s' = (if has0xPrefix s then drop 2 s else s) in length s' = 40 \<and> isHex s')"

definition Address_Hex :: "(bytes \<Rightarrow> hash) \<Rightarrow> address \<Rightarrow> bytes" where
  "Address_Hex keccak a =
     (let u = Bytes2Hex (addr_bytes a);
          h = hash_bytes (keccak u);
          result = map (\<lambda>i. let hb = (if i mod 2 = 0 then drop_bit 4 (h ! (i div 2))
                                      else h ! (i div 2) AND 0xF)
                            in if u ! i > 0x39 \<and> hb > 7 then u ! i - 32 else u ! i) [0..<length u]
      in [0x30, 0x78] @ result)"

section \<open>Digits\<close>

lemma nibble_cases:
  assumes "(n :: byte) < 16"
  shows "fromHexChar (hexChar n) = Some n" and "isHexCharacter (hexChar n)"
    and "hexChar n > 0x39 \<Longrightarrow> fromHexChar (hexChar n - 32) = Some n \<and> isHexCharacter (hexChar n - 32)"
proof -
  have "unat n < 16" using assms by (simp add: word_less_nat_alt)
  moreover have "n = of_nat (unat n)" by simp
  moreover have "\<forall>k \<in> set [0..<16]. fromHexChar (hexChar (of_nat k)) = Some (of_nat k) \<and>
      isHexCharacter (hexChar (of_nat k)) \<and>
      (hexChar (of_nat k) > 0x39 \<longrightarrow> fromHexChar (hexChar (of_nat k) - 32) = Some (of_nat k) \<and>
        isHexCharacter (hexChar (of_nat k) - 32))"
    by code_simp
  ultimately have *: "fromHexChar (hexChar n) = Some n \<and> isHexCharacter (hexChar n) \<and>
      (hexChar n > 0x39 \<longrightarrow> fromHexChar (hexChar n - 32) = Some n \<and> isHexCharacter (hexChar n - 32))"
    by (metis atLeastLessThan_iff set_upt zero_le)
  from * show "fromHexChar (hexChar n) = Some n" "isHexCharacter (hexChar n)" by auto
  from * show "hexChar n > 0x39 \<Longrightarrow> fromHexChar (hexChar n - 32) = Some n \<and> isHexCharacter (hexChar n - 32)"
    by auto
qed

lemma high_nibble: "drop_bit 4 (b :: byte) < 16"
proof -
  have "unat (drop_bit 4 b) = unat b div 16" by (subst unat_drop_bit_eq) (simp add: drop_bit_eq_div)
  also have "\<dots> < 16" using unat_byte_less [of b] by (simp add: less_mult_imp_div_less)
  finally show ?thesis by (simp add: word_less_nat_alt)
qed

lemma low_nibble: "(b :: byte) AND 0xF < 16"
proof -
  have "b AND 0xF \<le> 0xF" by (rule word_and_le1)
  then show ?thesis by (rule order.strict_trans1) simp
qed

lemma nibbles_join: "push_bit 4 (drop_bit 4 (b :: byte)) OR (b AND 0xF) = b"
proof -
  have m: "(0xF :: byte) = mask 4" by (simp add: mask_eq_exp_minus_1)
  have "push_bit 4 (drop_bit 4 b) OR (b AND mask 4) = b"
    by (rule bit_eqI) (auto simp: bit_simps)
  then show ?thesis unfolding m .
qed

section \<open>Round trips\<close>

lemma Hex2Bytes_Bytes2Hex: "Hex2Bytes (Bytes2Hex b) = b"
  by (induction b)
    (simp_all add: Bytes2Hex_def nibble_cases high_nibble low_nibble nibbles_join)

lemma Bytes2Hex_length [simp]: "length (Bytes2Hex b) = 2 * length b"
  by (induction b) (simp_all add: Bytes2Hex_def)

lemma Bytes2Hex_chars: "c \<in> set (Bytes2Hex b) \<Longrightarrow> \<exists>n < 16. c = hexChar n"
  by (auto simp: Bytes2Hex_def intro: high_nibble low_nibble)

text \<open>Decoding reads digits only through \<open>fromHexChar\<close>, so it does not see their case.\<close>

lemma Hex2Bytes_cong: "map fromHexChar u = map fromHexChar v \<Longrightarrow> Hex2Bytes u = Hex2Bytes v"
proof (induction u arbitrary: v rule: Hex2Bytes.induct)
  case (1 c1 c2 cs)
  then obtain d1 d2 ds where v: "v = d1 # d2 # ds" "fromHexChar c1 = fromHexChar d1"
    "fromHexChar c2 = fromHexChar d2" "map fromHexChar cs = map fromHexChar ds"
    by (auto simp: Cons_eq_map_conv)
  then show ?case using 1(1) by (auto split: option.splits)
qed (auto simp: Cons_eq_map_conv)

lemma setBytes_length [simp]: "length (setBytes n b) = n"
  by (simp add: setBytes_def Let_def)

lemma setBytes_exact: "length b = n \<Longrightarrow> setBytes n b = b"
  by (simp add: setBytes_def)

definition hex_case :: "bytes \<Rightarrow> bytes \<Rightarrow> bool" where
  "hex_case u v \<longleftrightarrow> map fromHexChar u = map fromHexChar v \<and> list_all isHexCharacter v"

lemma Address_Hex_shape:
  "\<exists>v. Address_Hex keccak a = [0x30, 0x78] @ v \<and> hex_case (Bytes2Hex (addr_bytes a)) v"
proof -
  let ?u = "Bytes2Hex (addr_bytes a)"
  let ?h = "hash_bytes (keccak ?u)"
  define f where "f i = (let hb = (if i mod 2 = 0 then drop_bit 4 (?h ! (i div 2)) else ?h ! (i div 2) AND 0xF)
      in if ?u ! i > 0x39 \<and> hb > 7 then ?u ! i - 32 else ?u ! i)" for i
  have "fromHexChar (f i) = fromHexChar (?u ! i) \<and> isHexCharacter (f i)" if i: "i < length ?u" for i
  proof -
    obtain n where "n < 16" "?u ! i = hexChar n" using Bytes2Hex_chars [OF nth_mem [OF i]] by blast
    then show ?thesis using nibble_cases [of n] by (simp add: f_def Let_def)
  qed
  then have "hex_case ?u (map f [0..<length ?u])"
    by (auto simp: hex_case_def list_all_length intro!: nth_equalityI)
  moreover have "Address_Hex keccak a = [0x30, 0x78] @ map f [0..<length ?u]"
    by (simp add: Address_Hex_def f_def Let_def)
  ultimately show ?thesis by blast
qed

lemma HexToAddress_Hex: "HexToAddress (Address_Hex keccak a) = a \<and> IsHexAddress (Address_Hex keccak a)"
proof -
  obtain v where v: "Address_Hex keccak a = [0x30, 0x78] @ v"
    and c: "map fromHexChar (Bytes2Hex (addr_bytes a)) = map fromHexChar v" "list_all isHexCharacter v"
    using Address_Hex_shape [of keccak a] unfolding hex_case_def by blast
  have len: "length v = 40" using arg_cong [OF c(1), of length] by simp
  have "Hex2Bytes v = addr_bytes a"
    using Hex2Bytes_cong [OF c(1)] Hex2Bytes_Bytes2Hex by simp
  then show ?thesis using len c(2)
    by (simp add: v HexToAddress_def FromHex_def has0xPrefix_def BytesToAddress_def setBytes_exact
        IsHexAddress_def isHex_def)
qed

lemma Address_Hex_inj: "inj (Address_Hex keccak)"
  by (rule inj_on_inverseI [of _ HexToAddress]) (simp add: HexToAddress_Hex)


text \<open>\<^verbatim>\<open>SetBytes\<close> crops what does not fit.\<close>

lemma BytesToAddress_crop: "length b = 20 \<Longrightarrow> BytesToAddress (p @ b) = bytes_addr b"
  by (simp add: BytesToAddress_def setBytes_def Let_def)

lemma TrimLeftZeroes_LeftPad:
  "be_val (TrimLeftZeroes b) = be_val b \<and> be_val (LeftPadBytes b n) = be_val b"
proof
  show "be_val (TrimLeftZeroes b) = be_val b" by (induction b) (auto simp: be_val_Cons)
  have "be_val (replicate k 0 @ b) = be_val b" for k
    by (induction k) (simp_all add: be_val_Cons)
  then show "be_val (LeftPadBytes b n) = be_val b" by (simp add: LeftPadBytes_def)
qed

end
