(* ===== verification/Istanbul_Validator.thy ===== *)
theory Istanbul_Validator
  imports Common_Types
begin

text \<open>
  Validator sets: \<^verbatim>\<open>src/consensus/istanbul/validator/default.go\<close>, \<^verbatim>\<open>validator/validator.go\<close> and the
  interface \<^verbatim>\<open>src/consensus/istanbul/validator.go\<close>. A validator is its address. The set is a slice
  kept sorted by the checksummed hex string of the addresses, a policy (which fixes the proposer
  selector) and the current proposer, absent for an empty set. The mutex is not modelled: each
  operation is one step.
\<close>

section \<open>The set and its operations\<close>

definition RoundRobin :: u64 where
  "RoundRobin = 0"

definition Sticky :: u64 where
  "Sticky = 1"

record defaultSet =
  validators :: "address list"
  policy :: u64
  proposer :: "address option"

text \<open>\<^verbatim>\<open>sort.Sort\<close> with \<^verbatim>\<open>Less\<close> comparing strings: keys are injective, so the sorted slice is
  unique (\<open>sort_validators_unique\<close>) and any sorting algorithm returns it.\<close>

definition sort_validators :: "(bytes \<Rightarrow> hash) \<Rightarrow> address list \<Rightarrow> address list" where
  "sort_validators keccak vs = sort_key (Address_Hex keccak) vs"

definition Set_Size :: "defaultSet \<Rightarrow> nat" where
  "Set_Size v = length (validators v)"

definition GetByIndex :: "defaultSet \<Rightarrow> u64 \<Rightarrow> address option" where
  "GetByIndex v i = (if i < of_nat (Set_Size v) then Some (validators v ! unat i) else None)"

fun find_addr :: "address \<Rightarrow> nat \<Rightarrow> address list \<Rightarrow> int \<times> address option" where
  "find_addr a i [] = (-1, None)"
| "find_addr a i (v # vs) = (if a = v then (int i, Some v) else find_addr a (i + 1) vs)"

definition GetByAddress :: "defaultSet \<Rightarrow> address \<Rightarrow> int \<times> address option" where
  "GetByAddress v a = find_addr a 0 (validators v)"

definition GetProposer :: "defaultSet \<Rightarrow> address option" where
  "GetProposer v = proposer v"

definition IsProposer :: "defaultSet \<Rightarrow> address \<Rightarrow> bool" where
  "IsProposer v a = (GetProposer v = snd (GetByAddress v a))"

definition newDefaultSet :: "(bytes \<Rightarrow> hash) \<Rightarrow> address list \<Rightarrow> u64 \<Rightarrow> defaultSet" where
  "newDefaultSet keccak addrs p =
     (let v = \<lparr>validators = sort_validators keccak addrs, policy = p, proposer = None\<rparr>
      in if Set_Size v > 0 then v\<lparr>proposer := GetByIndex v 0\<rparr> else v)"

definition calcSeed :: "defaultSet \<Rightarrow> address \<Rightarrow> u64 \<Rightarrow> u64" where
  "calcSeed v a round =
     (let offset = (case GetByAddress v a of (idx, Some _) \<Rightarrow> idx | (_, None) \<Rightarrow> 0)
      in word_of_int offset + round)"

definition emptyAddress :: "address \<Rightarrow> bool" where
  "emptyAddress a \<longleftrightarrow> a = 0"

definition roundRobinProposer :: "defaultSet \<Rightarrow> address \<Rightarrow> u64 \<Rightarrow> address option" where
  "roundRobinProposer v a round =
     (if Set_Size v = 0 then None
      else
        (let seed = (if emptyAddress a then round else calcSeed v a round + 1);
             pick = seed mod of_nat (Set_Size v)
         in GetByIndex v pick))"

definition stickyProposer :: "defaultSet \<Rightarrow> address \<Rightarrow> u64 \<Rightarrow> address option" where
  "stickyProposer v a round =
     (if Set_Size v = 0 then None
      else
        (let seed = (if emptyAddress a then round else calcSeed v a round);
             pick = seed mod of_nat (Set_Size v)
         in GetByIndex v pick))"

definition CalcProposer :: "address \<Rightarrow> u64 \<Rightarrow> defaultSet \<Rightarrow> defaultSet" where
  "CalcProposer a round v =
     v\<lparr>proposer := (if policy v = Sticky then stickyProposer v a round
                    else roundRobinProposer v a round)\<rparr>"

definition AddValidator :: "(bytes \<Rightarrow> hash) \<Rightarrow> address \<Rightarrow> defaultSet \<Rightarrow> bool \<times> defaultSet" where
  "AddValidator keccak a v =
     (if a \<in> set (validators v) then (False, v)
      else (True, v\<lparr>validators := sort_validators keccak (validators v @ [a])\<rparr>))"

fun remove_addr :: "address \<Rightarrow> address list \<Rightarrow> address list option" where
  "remove_addr a [] = None"
| "remove_addr a (v # vs) =
     (if v = a then Some vs else map_option (\<lambda>r. v # r) (remove_addr a vs))"

definition RemoveValidator :: "address \<Rightarrow> defaultSet \<Rightarrow> bool \<times> defaultSet" where
  "RemoveValidator a v =
     (case remove_addr a (validators v) of
        Some vs \<Rightarrow> (True, v\<lparr>validators := vs\<rparr>)
      | None \<Rightarrow> (False, v))"

definition Set_Copy :: "(bytes \<Rightarrow> hash) \<Rightarrow> defaultSet \<Rightarrow> defaultSet" where
  "Set_Copy keccak v = newDefaultSet keccak (validators v) (policy v)"

definition Set_F :: "defaultSet \<Rightarrow> int" where
  "Set_F v = ceil_div (int (Set_Size v)) 3 - 1"

text \<open>\<^verbatim>\<open>ExtractValidators\<close> cuts a slice of whole addresses.\<close>

definition ExtractValidators :: "bytes \<Rightarrow> address list" where
  "ExtractValidators extraData =
     map (\<lambda>i. bytes_addr (take 20 (drop (i * 20) extraData))) [0..<length extraData div 20]"

definition ValidExtraData :: "bytes \<Rightarrow> bool" where
  "ValidExtraData extraData \<longleftrightarrow> length extraData mod 20 = 0"

section \<open>Sorting\<close>

lemma sort_validators_mset [simp]: "mset (sort_validators k vs) = mset vs"
  by (simp add: sort_validators_def)

lemma sort_validators_set [simp]: "set (sort_validators k vs) = set vs"
  by (simp add: sort_validators_def)

lemma sort_validators_length [simp]: "length (sort_validators k vs) = length vs"
  by (simp add: sort_validators_def)

lemma sort_validators_distinct [simp]: "distinct (sort_validators k vs) = distinct vs"
  by (simp add: sort_validators_def)

lemma sort_validators_sorted: "sorted (map (Address_Hex k) (sort_validators k vs))"
  by (simp add: sort_validators_def)

lemma sort_validators_unique:
  assumes "mset ys = mset vs" and "sorted (map (Address_Hex k) ys)"
  shows "ys = sort_validators k vs"
proof -
  let ?s = "map (Address_Hex k) (sort_validators k vs)"
  have "mset (map (Address_Hex k) ys) = mset ?s" using assms(1) by simp
  then have "sort ?s = map (Address_Hex k) ys" using assms(2) by (rule properties_for_sort)
  moreover have "sort ?s = ?s" by (rule sorted_sort_id) (rule sort_validators_sorted)
  ultimately have "map (Address_Hex k) ys = ?s" by simp
  then show ?thesis using Address_Hex_inj inj_map_eq_map by blast
qed

lemma sort_validators_perm: "mset xs = mset ys \<Longrightarrow> sort_validators k xs = sort_validators k ys"
  by (rule sort_validators_unique) (simp_all add: sort_validators_sorted)

lemma sort_validators_id: "sorted (map (Address_Hex k) vs) \<Longrightarrow> sort_validators k vs = vs"
  using sort_validators_unique [of vs vs k] by simp

section \<open>Lookup\<close>

lemma find_addr_Some:
  "a \<in> set vs \<Longrightarrow> \<exists>j < length vs. find_addr a i vs = (int (i + j), Some a) \<and> vs ! j = a"
proof (induction vs arbitrary: i)
  case (Cons v vs)
  show ?case
  proof (cases "a = v")
    case True
    then show ?thesis by (intro exI [of _ 0]) simp
  next
    case False
    with Cons.prems have "a \<in> set vs" by simp
    from Cons.IH [OF this, of "i + 1"] obtain j where
      "j < length vs" "find_addr a (i + 1) vs = (int (i + 1 + j), Some a)" "vs ! j = a" by blast
    then show ?thesis using False by (intro exI [of _ "Suc j"]) simp
  qed
qed simp

lemma find_addr_None: "a \<notin> set vs \<Longrightarrow> find_addr a i vs = (-1, None)"
  by (induction vs arbitrary: i) auto

lemma GetByAddress_snd: "snd (GetByAddress v a) = (if a \<in> set (validators v) then Some a else None)"
  using find_addr_Some [of a "validators v" 0] find_addr_None [of a "validators v" 0]
  by (auto simp: GetByAddress_def)

lemma GetByAddress_cases:
  "(\<exists>j < Set_Size v. GetByAddress v a = (int j, Some a) \<and> validators v ! j = a) \<or>
   (a \<notin> set (validators v) \<and> GetByAddress v a = (-1, None))"
  using find_addr_Some [of a "validators v" 0] find_addr_None [of a "validators v" 0]
  by (auto simp: GetByAddress_def Set_Size_def)

lemma GetByAddress_index:
  assumes "distinct (validators v)" and "j < Set_Size v"
  shows "GetByAddress v (validators v ! j) = (int j, Some (validators v ! j))"
  using GetByAddress_cases [of v "validators v ! j"] assms
  by (auto simp: Set_Size_def nth_eq_iff_index_eq)

lemma remove_addr_None: "remove_addr a vs = None \<longleftrightarrow> a \<notin> set vs"
  by (induction vs) auto

lemma remove_addr_Some: "remove_addr a vs = Some r \<Longrightarrow> r = remove1 a vs"
  by (induction vs arbitrary: r) (auto split: if_splits)

lemma RemoveValidator_eq:
  "RemoveValidator a v = (a \<in> set (validators v), v\<lparr>validators := remove1 a (validators v)\<rparr>)"
proof (cases "remove_addr a (validators v)")
  case None
  then show ?thesis using remove_addr_None [of a "validators v"]
    by (simp add: RemoveValidator_def remove1_idem)
next
  case (Some r)
  then have "a \<in> set (validators v)" using remove_addr_None [of a "validators v"] by auto
  then show ?thesis using Some remove_addr_Some [OF Some] by (simp add: RemoveValidator_def)
qed

section \<open>The invariant and the abstract set\<close>

definition valset_invar :: "(bytes \<Rightarrow> hash) \<Rightarrow> defaultSet \<Rightarrow> bool" where
  "valset_invar k v \<longleftrightarrow> distinct (validators v) \<and> sorted (map (Address_Hex k) (validators v))"

definition members :: "defaultSet \<Rightarrow> address set" where
  "members v = set (validators v)"

lemma validators_newDefaultSet [simp]:
  "validators (newDefaultSet k addrs p) = sort_validators k addrs"
  "policy (newDefaultSet k addrs p) = p"
  by (auto simp: newDefaultSet_def Let_def)

lemma newDefaultSet_correct:
  "distinct addrs \<Longrightarrow> valset_invar k (newDefaultSet k addrs p) \<and> members (newDefaultSet k addrs p) = set addrs"
  by (simp add: valset_invar_def members_def sort_validators_sorted)

lemma AddValidator_correct:
  assumes "valset_invar k v"
  shows "fst (AddValidator k a v) = (a \<notin> members v)"
    "members (snd (AddValidator k a v)) = insert a (members v)"
    "valset_invar k (snd (AddValidator k a v))"
  using assms by (auto simp: AddValidator_def members_def valset_invar_def sort_validators_sorted)

lemma RemoveValidator_correct:
  assumes "valset_invar k v"
  shows "fst (RemoveValidator a v) = (a \<in> members v)"
    "members (snd (RemoveValidator a v)) = members v - {a}"
    "valset_invar k (snd (RemoveValidator a v))"
  using assms by (auto simp: RemoveValidator_eq members_def valset_invar_def sorted_map_remove1)

lemma Set_Copy_correct:
  assumes "valset_invar k v"
  shows "valset_invar k (Set_Copy k v)" "members (Set_Copy k v) = members v"
    "validators (Set_Copy k v) = validators v"
  using assms by (auto simp: Set_Copy_def valset_invar_def members_def sort_validators_id)

text \<open>The contract of \<^verbatim>\<open>istanbul.ValidatorSet\<close> that snapshots rely on.\<close>

locale validator_set =
  fixes create :: "address list \<Rightarrow> 'v" and add :: "address \<Rightarrow> 'v \<Rightarrow> bool \<times> 'v"
    and remove :: "address \<Rightarrow> 'v \<Rightarrow> bool \<times> 'v" and copy :: "'v \<Rightarrow> 'v" and sz :: "'v \<Rightarrow> nat"
    and invar :: "'v \<Rightarrow> bool" and mem :: "'v \<Rightarrow> address set"
  assumes create: "distinct as \<Longrightarrow> invar (create as) \<and> mem (create as) = set as"
    and add: "invar v \<Longrightarrow> invar (snd (add a v)) \<and> mem (snd (add a v)) = insert a (mem v) \<and>
      fst (add a v) = (a \<notin> mem v)"
    and remove: "invar v \<Longrightarrow> invar (snd (remove a v)) \<and> mem (snd (remove a v)) = mem v - {a} \<and>
      fst (remove a v) = (a \<in> mem v)"
    and copy: "invar v \<Longrightarrow> invar (copy v) \<and> mem (copy v) = mem v"
    and sz: "invar v \<Longrightarrow> sz v = card (mem v)"
begin

text \<open>Applying a sequence of passed votes, each of which adds or removes one validator.\<close>

definition apply_change :: "address \<times> bool \<Rightarrow> 'v \<Rightarrow> 'v" where
  "apply_change c v = snd (if snd c then add (fst c) v else remove (fst c) v)"

definition change_set :: "address \<times> bool \<Rightarrow> address set \<Rightarrow> address set" where
  "change_set c S = (if snd c then insert (fst c) S else S - {fst c})"

lemma apply_change_correct: "invar v \<Longrightarrow> invar (apply_change c v) \<and> mem (apply_change c v) = change_set c (mem v)"
  using add [of v "fst c"] remove [of v "fst c"] by (simp add: apply_change_def change_set_def)

lemma apply_changes_correct:
  "invar v \<Longrightarrow> invar (fold apply_change cs v) \<and> mem (fold apply_change cs v) = fold change_set cs (mem v)"
  by (induction cs arbitrary: v) (simp_all add: apply_change_correct)


end

interpretation istanbul_set: validator_set "\<lambda>as. newDefaultSet k as p" "AddValidator k" RemoveValidator
  "Set_Copy k" Set_Size "valset_invar k" members
proof
  show "Set_Size v = card (members v)" if "valset_invar k v" for v
    using that by (simp add: valset_invar_def members_def Set_Size_def distinct_card)
qed (simp_all add: newDefaultSet_correct AddValidator_correct RemoveValidator_correct Set_Copy_correct)

section \<open>Choosing the proposer\<close>

lemma GetByIndex_small:
  assumes "i < Set_Size v" and "Set_Size v < 2 ^ 64"
  shows "GetByIndex v (of_nat i) = Some (validators v ! i)"
  using assms by (simp add: GetByIndex_def word_less_nat_alt unat_of_nat)

lemma pick_index:
  assumes "0 < Set_Size v" and "Set_Size v < 2 ^ 64" and "seed < 2 ^ 64"
  shows "GetByIndex v (of_nat seed mod of_nat (Set_Size v)) = Some (validators v ! (seed mod Set_Size v))"
proof -
  have "(of_nat seed mod of_nat (Set_Size v) :: u64) = of_nat (seed mod Set_Size v)"
    using assms le_less_trans [OF mod_less_eq_dividend [of seed "Set_Size v"] assms(3)]
    by (simp add: word_unat_eq_iff unat_mod unat_of_nat)
  then show ?thesis using assms by (simp add: GetByIndex_small)
qed

lemma pick_member:
  assumes "0 < Set_Size v" and "Set_Size v < 2 ^ 64"
  shows "\<exists>a \<in> members v. GetByIndex v (seed mod of_nat (Set_Size v)) = Some a"
proof -
  have "unat seed < 2 ^ LENGTH(64)" by (rule unsigned_less)
  then have "GetByIndex v (of_nat (unat seed) mod of_nat (Set_Size v)) =
      Some (validators v ! (unat seed mod Set_Size v))"
    using assms by (intro pick_index) auto
  then show ?thesis using assms by (auto simp: members_def Set_Size_def)
qed

lemma calcSeed_index:
  assumes "distinct (validators v)" and "j < Set_Size v"
  shows "calcSeed v (validators v ! j) r = of_nat j + r"
  using GetByAddress_index [OF assms] by (simp add: calcSeed_def)

lemma rotate_covers:
  fixes n :: nat
  assumes "0 < n"
  shows "(\<lambda>r. (k + r) mod n) ` {..<n} = {..<n}"
proof
  show "{..<n} \<subseteq> (\<lambda>r. (k + r) mod n) ` {..<n}"
  proof
    fix i assume "i \<in> {..<n}"
    then have i: "i < n" by simp
    let ?r = "(i + (n - k mod n)) mod n"
    have "(k + ?r) mod n = (k mod n + (i + (n - k mod n))) mod n" by (simp add: mod_simps)
    also have "k mod n + (i + (n - k mod n)) = i + n"
      using mod_less_divisor [OF assms, of k] by simp
    finally have "(k + ?r) mod n = i" using i by simp
    moreover have "?r < n" using assms by simp
    ultimately show "i \<in> (\<lambda>r. (k + r) mod n) ` {..<n}" by (metis imageI lessThan_iff)
  qed
qed (use assms in auto)

text \<open>C20: the operations of a validator set implement a finite set. On a well-formed set (no
  duplicates, sorted by the hex strings) \<^verbatim>\<open>AddValidator\<close> and \<^verbatim>\<open>RemoveValidator\<close> insert and delete
  one address and report whether that changed anything, \<^verbatim>\<open>Copy\<close> keeps the validators and their
  order, \<^verbatim>\<open>GetByAddress\<close> finds exactly the members, and all of them keep the set well formed.\<close>

theorem validator_set_refines:
  assumes "valset_invar k v"
  shows "members (snd (AddValidator k a v)) = insert a (members v) \<and>
    fst (AddValidator k a v) = (a \<notin> members v) \<and> valset_invar k (snd (AddValidator k a v)) \<and>
    members (snd (RemoveValidator a v)) = members v - {a} \<and>
    fst (RemoveValidator a v) = (a \<in> members v) \<and> valset_invar k (snd (RemoveValidator a v)) \<and>
    validators (Set_Copy k v) = validators v \<and>
    (snd (GetByAddress v a) \<noteq> None) = (a \<in> members v) \<and> Set_Size v = card (members v)"
  using istanbul_set.add [OF assms, of a] istanbul_set.remove [OF assms, of a]
    Set_Copy_correct(3) [OF assms] istanbul_set.sz [OF assms]
  by (simp add: GetByAddress_snd members_def)

theorem validator_set_refines_witness:
  "members (snd (AddValidator (\<lambda>_. 0) 7 (newDefaultSet (\<lambda>_. 0) [3, 1] RoundRobin))) = {1, 3, 7}"
  using validator_set_refines [of "\<lambda>_. 0" "newDefaultSet (\<lambda>_. 0) [3, 1] RoundRobin" 7]
    newDefaultSet_correct [of "[3, 1]" "\<lambda>_. 0" RoundRobin] by auto

text \<open>C24: nodes agree on the order of validators. Two validator sets built from the same addresses
  in different orders are equal, including the initial proposer, and every slice that is sorted by
  \<^verbatim>\<open>Less\<close> and holds those addresses is the slice \<^verbatim>\<open>List\<close> returns, so the result does not depend on
  the sorting algorithm.\<close>

theorem newDefaultSet_order:
  assumes "mset xs = mset ys"
  shows "newDefaultSet k xs p = newDefaultSet k ys p \<and>
    (\<forall>zs. mset zs = mset xs \<and> sorted (map (Address_Hex k) zs) \<longrightarrow> validators (newDefaultSet k xs p) = zs)"
proof
  show "newDefaultSet k xs p = newDefaultSet k ys p"
    using sort_validators_perm [OF assms, of k] by (simp add: newDefaultSet_def Set_Size_def)
  show "\<forall>zs. mset zs = mset xs \<and> sorted (map (Address_Hex k) zs) \<longrightarrow> validators (newDefaultSet k xs p) = zs"
    using sort_validators_unique [of _ xs k] by auto
qed

theorem newDefaultSet_order_witness:
  "newDefaultSet (\<lambda>_. 0) [3, 1] RoundRobin = newDefaultSet (\<lambda>_. 0) [1, 3] RoundRobin"
  using newDefaultSet_order [of "[3, 1]" "[1, 3]" "\<lambda>_. 0" RoundRobin] by simp

text \<open>C25: round-robin selection is fair. When the last proposer is a validator, the proposer of
  round \<open>r\<close> is the validator \<open>r + 1\<close> places behind it, cyclically, and any window of as many
  consecutive rounds as there are validators makes every validator proposer once. (The seed is a
  \<^verbatim>\<open>uint64\<close>; the window must not run into its wrap-around.)\<close>

theorem roundRobin_fair:
  assumes "distinct (validators v)" and "j < Set_Size v" and "validators v ! j \<noteq> 0"
    and "policy v = RoundRobin" and "j + r0 + Set_Size v + 1 < 2 ^ 64"
  shows "(\<forall>r < Set_Size v. GetProposer (CalcProposer (validators v ! j) (of_nat (r0 + r)) v) =
      Some (validators v ! ((j + r0 + r + 1) mod Set_Size v))) \<and>
    (\<lambda>r. GetProposer (CalcProposer (validators v ! j) (of_nat (r0 + r)) v)) ` {..<Set_Size v} =
      Some ` members v"
proof -
  let ?n = "Set_Size v"
  have P: "GetProposer (CalcProposer (validators v ! j) (of_nat (r0 + r)) v) =
      Some (validators v ! ((j + r0 + 1 + r) mod ?n))" if "r < ?n" for r
  proof -
    have "calcSeed v (validators v ! j) (of_nat (r0 + r)) + 1 = of_nat (j + r0 + 1 + r)"
      using calcSeed_index [OF assms(1,2)] by simp
    then show ?thesis using pick_index [of v "j + r0 + 1 + r"] that assms
      by (simp add: GetProposer_def CalcProposer_def RoundRobin_def Sticky_def roundRobinProposer_def
          emptyAddress_def Let_def add.commute del: of_nat_add)
  qed
  have "(\<lambda>r. GetProposer (CalcProposer (validators v ! j) (of_nat (r0 + r)) v)) ` {..<?n} =
      (\<lambda>i. Some (validators v ! i)) ` ((\<lambda>r. (j + r0 + 1 + r) mod ?n) ` {..<?n})"
    unfolding image_image by (rule image_cong) (simp_all add: P del: of_nat_add)
  also have "\<dots> = (\<lambda>i. Some (validators v ! i)) ` {..<?n}"
    using assms(2) by (subst rotate_covers) auto
  also have "\<dots> = Some ` members v"
    by (auto simp: members_def Set_Size_def set_conv_nth)
  finally show ?thesis using P by (simp add: ac_simps del: of_nat_add)
qed

theorem roundRobin_fair_witness:
  "(\<lambda>r. GetProposer (CalcProposer 3 (of_nat (5 + r)) \<lparr>validators = [1, 3, 7], policy = RoundRobin, proposer = None\<rparr>))
     ` {..<3} = Some ` {1, 3, 7}"
proof -
  let ?v = "\<lparr>validators = [1, 3, 7], policy = RoundRobin, proposer = None\<rparr>"
  have n: "Set_Size ?v = 3" by (simp add: Set_Size_def)
  have "(\<lambda>r. GetProposer (CalcProposer (validators ?v ! 1) (of_nat (5 + r)) ?v)) ` {..<Set_Size ?v} =
      Some ` members ?v"
    by (rule roundRobin_fair [THEN conjunct2]) (simp_all only: n, simp_all)
  then show ?thesis unfolding n by (simp add: members_def)
qed



end
