(* ===== verification/Istanbul_Types.thy ===== *)
theory Istanbul_Types
  imports Rlp_Stream Istanbul_Validator
begin

text \<open>
  The messages of the Istanbul engine: \<^verbatim>\<open>src/consensus/istanbul/types.go\<close> (\<^verbatim>\<open>View\<close>, \<^verbatim>\<open>Preprepare\<close>,
  \<^verbatim>\<open>Subject\<close>) and \<^verbatim>\<open>src/consensus/istanbul/core/types.go\<close> (\<^verbatim>\<open>State\<close>, \<^verbatim>\<open>message\<close>), with the RLP
  encoders and decoders the code gives them. Round and sequence are natural numbers, the only
  values that RLP can carry. A proposal is an arbitrary type with an encoder into an item and a
  decoder (in the code \<^verbatim>\<open>types.Block\<close>); what the messages need of them is that they form a codec.
\<close>

section \<open>Views, subjects and messages\<close>

record view =
  Round :: nat
  Sequence :: nat

record subject =
  sub_View :: view
  Digest :: hash

record 'p preprepare =
  pp_View :: view
  Proposal :: 'p

datatype State = StateAcceptRequest | StatePreprepared | StatePrepared | StateCommitted

fun State_num :: "State \<Rightarrow> u64" where
  "State_num StateAcceptRequest = 0"
| "State_num StatePreprepared = 1"
| "State_num StatePrepared = 2"
| "State_num StateCommitted = 3"

definition State_Cmp :: "State \<Rightarrow> State \<Rightarrow> int" where
  "State_Cmp s y =
     (if State_num s < State_num y then -1 else if State_num s > State_num y then 1 else 0)"

definition View_Cmp :: "view \<Rightarrow> view \<Rightarrow> int" where
  "View_Cmp v y =
     (if big_Cmp (int (Sequence v)) (int (Sequence y)) \<noteq> 0
      then big_Cmp (int (Sequence v)) (int (Sequence y))
      else if big_Cmp (int (Round v)) (int (Round y)) \<noteq> 0
      then big_Cmp (int (Round v)) (int (Round y))
      else 0)"

definition msgPreprepare :: u64 where "msgPreprepare = 0"
definition msgPrepare :: u64 where "msgPrepare = 1"
definition msgCommit :: u64 where "msgCommit = 2"
definition msgRoundChange :: u64 where "msgRoundChange = 3"

record message =
  Code :: u64
  Msg :: bytes
  Address :: address
  Signature :: bytes
  CommittedSeal :: bytes

section \<open>Encoding\<close>

definition item_uint :: "u64 \<Rightarrow> rlp_item" where
  "item_uint n = Str (nat_bytes (unat n))"

definition item_big :: "nat \<Rightarrow> rlp_item" where
  "item_big n = Str (nat_bytes n)"

definition View_EncodeRLP :: "view \<Rightarrow> rlp_item" where
  "View_EncodeRLP v = Lst [item_big (Round v), item_big (Sequence v)]"

definition Preprepare_EncodeRLP :: "('p \<Rightarrow> rlp_item) \<Rightarrow> 'p preprepare \<Rightarrow> rlp_item" where
  "Preprepare_EncodeRLP enc_p b = Lst [View_EncodeRLP (pp_View b), enc_p (Proposal b)]"

definition Subject_EncodeRLP :: "subject \<Rightarrow> rlp_item" where
  "Subject_EncodeRLP b = Lst [View_EncodeRLP (sub_View b), Str (hash_bytes (Digest b))]"

definition message_EncodeRLP :: "message \<Rightarrow> rlp_item" where
  "message_EncodeRLP m =
     Lst [item_uint (Code m), Str (Msg m), Str (addr_bytes (Address m)), Str (Signature m),
          Str (CommittedSeal m)]"

definition message_Payload :: "message \<Rightarrow> bytes" where
  "message_Payload m = EncodeToBytes (message_EncodeRLP m)"

definition message_PayloadNoSig :: "message \<Rightarrow> bytes" where
  "message_PayloadNoSig m = EncodeToBytes (message_EncodeRLP (m\<lparr>Signature := []\<rparr>))"

section \<open>Decoding\<close>

definition dec_hash :: "hash dec" where
  "dec_hash = dec_map (\<lambda>b. Inr (bytes_hash b)) (decodeByteArray 32)"

definition dec_address :: "address dec" where
  "dec_address = dec_map (\<lambda>b. Inr (bytes_addr b)) (decodeByteArray 20)"

definition View_DecodeRLP :: "view dec" where
  "View_DecodeRLP =
     dec_map (\<lambda>(r, s). Inr \<lparr>Round = r, Sequence = s\<rparr>)
       (dec_struct (dec_pair decodeBigInt (dec_field decodeBigInt)))"

definition Preprepare_DecodeRLP :: "'p dec \<Rightarrow> 'p preprepare dec" where
  "Preprepare_DecodeRLP dec_p =
     dec_map (\<lambda>(v, p). Inr \<lparr>pp_View = v, Proposal = p\<rparr>)
       (dec_struct (dec_pair View_DecodeRLP (dec_field dec_p)))"

definition Subject_DecodeRLP :: "subject dec" where
  "Subject_DecodeRLP =
     dec_map (\<lambda>(v, d). Inr \<lparr>sub_View = v, Digest = d\<rparr>)
       (dec_struct (dec_pair View_DecodeRLP (dec_field dec_hash)))"

definition message_DecodeRLP :: "message dec" where
  "message_DecodeRLP =
     dec_map (\<lambda>(c, m, a, s, cs). Inr \<lparr>Code = c, Msg = m, Address = a, Signature = s, CommittedSeal = cs\<rparr>)
       (dec_struct (dec_pair (decodeUint 64) (dec_pair decodeByteSlice (dec_pair dec_address
          (dec_pair decodeByteSlice (dec_field decodeByteSlice))))))"

text \<open>\<^verbatim>\<open>message.Decode\<close> on the payload of a message.\<close>

definition message_Decode :: "'a dec \<Rightarrow> message \<Rightarrow> (rlp_error + 'a) option" where
  "message_Decode d m = DecodeBytes d (Msg m)"

datatype istanbul_error =
    errInconsistentSubject | errNotFromProposer | errIgnored | errFutureMessage | errOldMessage
  | errInvalidMessage | errFailedDecodePreprepare | errFailedDecodePrepare | errFailedDecodeCommit
  | errInvalidSigner | ErrUnauthorizedAddress | errRlp rlp_error | errSignature
  | ErrFutureBlock | errVerify

text \<open>\<^verbatim>\<open>FromPayload\<close>: the recovered signer must be the sender named in the message. The validation
  function is \<^verbatim>\<open>CheckValidatorSignature\<close> over the recovery of a signer from a signature, which is
  elliptic-curve code outside the model.\<close>

definition CheckValidatorSignature ::
    "(bytes \<Rightarrow> bytes \<Rightarrow> address option) \<Rightarrow> defaultSet \<Rightarrow> bytes \<Rightarrow> bytes \<Rightarrow> istanbul_error + address" where
  "CheckValidatorSignature sigAddr valSet data sig =
     (case sigAddr data sig of
        None \<Rightarrow> Inl errSignature
      | Some signer \<Rightarrow>
          (case snd (GetByAddress valSet signer) of
             Some val \<Rightarrow> Inr val
           | None \<Rightarrow> Inl ErrUnauthorizedAddress))"

definition FromPayload ::
    "bytes \<Rightarrow> (bytes \<Rightarrow> bytes \<Rightarrow> istanbul_error + address) \<Rightarrow> (istanbul_error + message) option" where
  "FromPayload b validateFn =
     (case DecodeBytes message_DecodeRLP b of
        None \<Rightarrow> None
      | Some (Inl e) \<Rightarrow> Some (Inl (errRlp e))
      | Some (Inr m) \<Rightarrow>
          Some
            (case validateFn (message_PayloadNoSig m) (Signature m) of
               Inl e \<Rightarrow> Inl e
             | Inr signerAdd \<Rightarrow>
                 if addr_bytes signerAdd \<noteq> addr_bytes (Address m) then Inl errInvalidSigner
                 else Inr m))"

section \<open>Messages round trip\<close>

lemma codec_iso:
  assumes "rlp_codec enc dec valid N" and "\<And>y. g (h y) = y" and "\<And>x. h (g x) = x"
  shows "rlp_codec (\<lambda>y. enc (h y)) (dec_map (\<lambda>x. Inr (g x)) dec) (\<lambda>y. valid (h y)) N"
  by (rule codec_map [OF assms(1)]) (use assms(2,3) in auto)

interpretation hash_codec: rlp_codec "\<lambda>h. rlp_enc (Str (hash_bytes h))" dec_hash "\<lambda>_. True" N
  unfolding dec_hash_def
  by (rule codec_map [OF array_codec]) (auto simp: hash_bytes_bytes)

interpretation address_codec: rlp_codec "\<lambda>a. rlp_enc (Str (addr_bytes a))" dec_address "\<lambda>_. True" N
  unfolding dec_address_def
  by (rule codec_map [OF array_codec]) (auto simp: addr_bytes_bytes)

definition big_ok :: "nat \<Rightarrow> bool" where
  "big_ok n \<longleftrightarrow> length (nat_bytes n) < 2 ^ 64"

definition view_ok :: "view \<Rightarrow> bool" where
  "view_ok v \<longleftrightarrow> (big_ok (Round v) \<and> big_ok (Sequence v)) \<and>
     length (enc_big (Round v) @ enc_big (Sequence v)) < 2 ^ 64"

interpretation view_fields: rlp_fields "\<lambda>(x, y). enc_big x @ enc_big y"
  "dec_pair decodeBigInt (dec_field decodeBigInt)"
  "\<lambda>(x, y). length (nat_bytes x) < 2 ^ 64 \<and> length (nat_bytes y) < 2 ^ 64" N
  by (rule codec_cons_fields [OF big_codec.rlp_codec_axioms codec_last_field [OF big_codec.rlp_codec_axioms]])

interpretation view_codec: rlp_codec "\<lambda>v. rlp_enc (View_EncodeRLP v)" View_DecodeRLP view_ok "Suc N"
proof -
  have "rlp_codec (\<lambda>v. enc_list ((\<lambda>(x, y). enc_big x @ enc_big y) ((\<lambda>v. (Round v, Sequence v)) v)))
      (dec_map (\<lambda>x. Inr ((\<lambda>(r, s). \<lparr>Round = r, Sequence = s\<rparr>) x))
        (dec_struct (dec_pair decodeBigInt (dec_field decodeBigInt))))
      (\<lambda>v. (\<lambda>x. (\<lambda>(x, y). length (nat_bytes x) < 2 ^ 64 \<and> length (nat_bytes y) < 2 ^ 64) x \<and>
         length ((\<lambda>(x, y). enc_big x @ enc_big y) x) < 2 ^ 64) ((\<lambda>v. (Round v, Sequence v)) v)) (Suc N)"
    by (rule codec_iso [OF view_fields.struct_codec]) auto
  then show "rlp_codec (\<lambda>v. rlp_enc (View_EncodeRLP v)) View_DecodeRLP view_ok (Suc N)"
    by (simp add: View_EncodeRLP_def View_DecodeRLP_def view_ok_def [abs_def] big_ok_def rlp_enc_Lst
        item_big_def enc_big_def case_prod_unfold del: rlp_enc.simps)
qed

definition subject_ok :: "subject \<Rightarrow> bool" where
  "subject_ok b \<longleftrightarrow> view_ok (sub_View b) \<and>
     length (rlp_enc (View_EncodeRLP (sub_View b)) @ rlp_enc (Str (hash_bytes (Digest b)))) < 2 ^ 64"

interpretation subject_fields: rlp_fields "\<lambda>(v, d). rlp_enc (View_EncodeRLP v) @ rlp_enc (Str (hash_bytes d))"
  "dec_pair View_DecodeRLP (dec_field dec_hash)" "\<lambda>(v, d). view_ok v \<and> True" "Suc N"
  by (rule codec_cons_fields [OF view_codec.rlp_codec_axioms codec_last_field [OF hash_codec.rlp_codec_axioms]])

interpretation subject_codec:
  rlp_codec "\<lambda>b. rlp_enc (Subject_EncodeRLP b)" Subject_DecodeRLP subject_ok "Suc (Suc N)"
proof -
  have "rlp_codec (\<lambda>b. enc_list ((\<lambda>(v, d). rlp_enc (View_EncodeRLP v) @ rlp_enc (Str (hash_bytes d)))
        ((\<lambda>b. (sub_View b, Digest b)) b)))
      (dec_map (\<lambda>x. Inr ((\<lambda>(v, d). \<lparr>sub_View = v, Digest = d\<rparr>) x))
        (dec_struct (dec_pair View_DecodeRLP (dec_field dec_hash))))
      (\<lambda>b. (\<lambda>x. (\<lambda>(v, d). view_ok v \<and> True) x \<and>
         length ((\<lambda>(v, d). rlp_enc (View_EncodeRLP v) @ rlp_enc (Str (hash_bytes d))) x) < 2 ^ 64)
         ((\<lambda>b. (sub_View b, Digest b)) b)) (Suc (Suc N))"
    by (rule codec_iso [OF subject_fields.struct_codec]) auto
  then show "rlp_codec (\<lambda>b. rlp_enc (Subject_EncodeRLP b)) Subject_DecodeRLP subject_ok (Suc (Suc N))"
    by (simp add: Subject_EncodeRLP_def Subject_DecodeRLP_def subject_ok_def [abs_def] rlp_enc_Lst
        case_prod_unfold del: rlp_enc.simps)
qed

lemma preprepare_codec:
  assumes "rlp_codec (\<lambda>p. rlp_enc (enc_p p)) dec_p ok_p (Suc N)"
  shows "rlp_codec (\<lambda>b. rlp_enc (Preprepare_EncodeRLP enc_p b)) (Preprepare_DecodeRLP dec_p)
    (\<lambda>b. (view_ok (pp_View b) \<and> ok_p (Proposal b)) \<and>
      length (rlp_enc (View_EncodeRLP (pp_View b)) @ rlp_enc (enc_p (Proposal b))) < 2 ^ 64) (Suc (Suc N))"
proof -
  have "rlp_codec (\<lambda>b. enc_list ((\<lambda>(v, p). rlp_enc (View_EncodeRLP v) @ rlp_enc (enc_p p))
        ((\<lambda>b. (pp_View b, Proposal b)) b)))
      (dec_map (\<lambda>x. Inr ((\<lambda>(v, p). \<lparr>pp_View = v, Proposal = p\<rparr>) x))
        (dec_struct (dec_pair View_DecodeRLP (dec_field dec_p))))
      (\<lambda>b. (\<lambda>x. (\<lambda>(v, p). view_ok v \<and> ok_p p) x \<and>
         length ((\<lambda>(v, p). rlp_enc (View_EncodeRLP v) @ rlp_enc (enc_p p)) x) < 2 ^ 64)
         ((\<lambda>b. (pp_View b, Proposal b)) b)) (Suc (Suc N))"
    by (rule codec_iso [OF rlp_fields.struct_codec [OF codec_cons_fields
          [OF view_codec.rlp_codec_axioms codec_last_field [OF assms]]]]) auto
  then show ?thesis
    by (simp add: Preprepare_EncodeRLP_def Preprepare_DecodeRLP_def rlp_enc_Lst case_prod_unfold
        del: rlp_enc.simps)
qed

definition message_ok :: "message \<Rightarrow> bool" where
  "message_ok m \<longleftrightarrow> (length (Msg m) < 2 ^ 64 \<and> length (Signature m) < 2 ^ 64 \<and>
     length (CommittedSeal m) < 2 ^ 64) \<and>
     length (enc_uint (Code m) @ rlp_enc (Str (Msg m)) @ rlp_enc (Str (addr_bytes (Address m))) @
       rlp_enc (Str (Signature m)) @ rlp_enc (Str (CommittedSeal m))) < 2 ^ 64"

interpretation message_codec:
  rlp_codec "\<lambda>m. rlp_enc (message_EncodeRLP m)" message_DecodeRLP message_ok "Suc N"
proof -
  note B = bytes_codec.rlp_codec_axioms [folded decodeByteSlice_def]
  have "rlp_codec (\<lambda>m. enc_list ((\<lambda>(c, x). enc_uint c @ (\<lambda>(b, x). rlp_enc (Str b) @
        (\<lambda>(a, x). rlp_enc (Str (addr_bytes a)) @ (\<lambda>(s, cs). rlp_enc (Str s) @ rlp_enc (Str cs)) x) x) x)
        ((\<lambda>m. (Code m, Msg m, Address m, Signature m, CommittedSeal m)) m)))
      (dec_map (\<lambda>x. Inr ((\<lambda>(c, m, a, s, cs).
          \<lparr>Code = c, Msg = m, Address = a, Signature = s, CommittedSeal = cs\<rparr>) x))
        (dec_struct (dec_pair (decodeUint 64) (dec_pair decodeByteSlice (dec_pair dec_address
          (dec_pair decodeByteSlice (dec_field decodeByteSlice)))))))
      (\<lambda>m. (\<lambda>x. (\<lambda>(c, x). True \<and> (\<lambda>(b, x). length b < 2 ^ 64 \<and> (\<lambda>(a, x). True \<and>
           (\<lambda>(s, cs). length s < 2 ^ 64 \<and> length cs < 2 ^ 64) x) x) x) x \<and>
         length ((\<lambda>(c, x). enc_uint c @ (\<lambda>(b, x). rlp_enc (Str b) @
          (\<lambda>(a, x). rlp_enc (Str (addr_bytes a)) @ (\<lambda>(s, cs). rlp_enc (Str s) @ rlp_enc (Str cs)) x) x) x)
           x) < 2 ^ 64)
         ((\<lambda>m. (Code m, Msg m, Address m, Signature m, CommittedSeal m)) m)) (Suc N)"
    by (rule codec_iso [OF rlp_fields.struct_codec [OF codec_cons_fields [OF uint_codec.rlp_codec_axioms
          codec_cons_fields [OF B codec_cons_fields [OF address_codec.rlp_codec_axioms
            codec_cons_fields [OF B codec_last_field [OF B]]]]]]]) auto
  then show "rlp_codec (\<lambda>m. rlp_enc (message_EncodeRLP m)) message_DecodeRLP message_ok (Suc N)"
    by (simp add: message_EncodeRLP_def message_DecodeRLP_def message_ok_def [abs_def] rlp_enc_Lst
        item_uint_def enc_uint_def case_prod_unfold del: rlp_enc.simps)
qed

text \<open>Everything that fits in memory is a valid value of these codecs.\<close>

lemma Str_len: "length b \<le> length (rlp_enc (Str b))"
  by auto

lemma view_ok_fits: "length (rlp_enc (View_EncodeRLP v)) < 2 ^ 64 \<Longrightarrow> view_ok v"
  using Str_len [of "nat_bytes (Round v)"] Str_len [of "nat_bytes (Sequence v)"]
  by (simp add: view_ok_def big_ok_def View_EncodeRLP_def rlp_enc_Lst enc_list_def item_big_def
      enc_big_def del: rlp_enc.simps)

lemma subject_ok_fits: "length (rlp_enc (Subject_EncodeRLP b)) < 2 ^ 64 \<Longrightarrow> subject_ok b"
  by (simp add: subject_ok_def Subject_EncodeRLP_def rlp_enc_Lst enc_list_def view_ok_fits
      del: rlp_enc.simps)

lemma message_ok_fits: "length (rlp_enc (message_EncodeRLP m)) < 2 ^ 64 \<Longrightarrow> message_ok m"
  using Str_len [of "Msg m"] Str_len [of "Signature m"] Str_len [of "CommittedSeal m"]
  by (simp add: message_ok_def message_EncodeRLP_def rlp_enc_Lst enc_list_def item_uint_def
      enc_uint_def del: rlp_enc.simps)

lemma DecodeBytes_message:
  assumes "length b < 2 ^ 64"
  shows "DecodeBytes message_DecodeRLP b \<noteq> None"
    and "DecodeBytes message_DecodeRLP b = Some (Inr m) \<longleftrightarrow> b = rlp_enc (message_EncodeRLP m)"
proof -
  have n: "length b < Suc (length b)" by simp
  show "DecodeBytes message_DecodeRLP b \<noteq> None" by (rule message_codec.DecodeBytes_total [OF n])
  show "DecodeBytes message_DecodeRLP b = Some (Inr m) \<longleftrightarrow> b = rlp_enc (message_EncodeRLP m)"
    unfolding message_codec.DecodeBytes_codec_iff [OF n] using message_ok_fits [of m] assms by auto
qed

lemma DecodeBytes_subject:
  assumes "length b < 2 ^ 64"
  shows "DecodeBytes Subject_DecodeRLP b \<noteq> None"
    and "DecodeBytes Subject_DecodeRLP b = Some (Inr m) \<longleftrightarrow> b = rlp_enc (Subject_EncodeRLP m)"
proof -
  have n: "length b < Suc (Suc (length b))" by simp
  show "DecodeBytes Subject_DecodeRLP b \<noteq> None" by (rule subject_codec.DecodeBytes_total [OF n])
  show "DecodeBytes Subject_DecodeRLP b = Some (Inr m) \<longleftrightarrow> b = rlp_enc (Subject_EncodeRLP m)"
    unfolding subject_codec.DecodeBytes_codec_iff [OF n] using subject_ok_fits [of m] assms by auto
qed

section \<open>Orders\<close>

instantiation State :: linorder
begin

definition less_eq_State :: "State \<Rightarrow> State \<Rightarrow> bool" where
  "less_eq_State s y \<longleftrightarrow> State_num s \<le> State_num y"

definition less_State :: "State \<Rightarrow> State \<Rightarrow> bool" where
  "less_State s y \<longleftrightarrow> State_num s < State_num y"

instance
proof
  fix x y :: State
  show "x \<le> y \<Longrightarrow> y \<le> x \<Longrightarrow> x = y"
    by (cases x; cases y) (simp_all add: less_eq_State_def word_le_nat_alt)
qed (auto simp: less_eq_State_def less_State_def)

end

lemma State_Cmp_less [simp]: "State_Cmp s y < 0 \<longleftrightarrow> s < y"
  by (simp add: State_Cmp_def less_State_def)

lemma State_less_simps [simp]:
  "s < StateAcceptRequest \<longleftrightarrow> False"
  "s < StatePrepared \<longleftrightarrow> s = StateAcceptRequest \<or> s = StatePreprepared"
  "s < StateCommitted \<longleftrightarrow> s \<noteq> StateCommitted"
  by (cases s; simp add: less_State_def)+

definition view_less :: "view \<Rightarrow> view \<Rightarrow> bool" where
  "view_less v y \<longleftrightarrow> Sequence v < Sequence y \<or> Sequence v = Sequence y \<and> Round v < Round y"

lemma View_Cmp_iff:
  "View_Cmp v y < 0 \<longleftrightarrow> view_less v y" "View_Cmp v y > 0 \<longleftrightarrow> view_less y v"
  "View_Cmp v y = 0 \<longleftrightarrow> v = y"
proof -
  show "View_Cmp v y < 0 \<longleftrightarrow> view_less v y" "View_Cmp v y > 0 \<longleftrightarrow> view_less y v"
    by (auto simp: View_Cmp_def view_less_def)
  show "View_Cmp v y = 0 \<longleftrightarrow> v = y"
    by (cases v; cases y) (auto simp: View_Cmp_def)
qed

lemma view_less_trans: "view_less a b \<Longrightarrow> view_less b c \<Longrightarrow> view_less a c"
  by (auto simp: view_less_def)

lemma view_less_irrefl [simp]: "\<not> view_less a a"
  by (simp add: view_less_def)

lemma view_cases: "view_less a b \<or> a = b \<or> view_less b a"
  using View_Cmp_iff [of a b] by linarith

section \<open>What a payload proves\<close>

text \<open>C18: \<^verbatim>\<open>FromPayload\<close> accepts exactly what a validator signed. A payload is accepted as the message
  \<open>m\<close> if and only if it is the encoding of \<open>m\<close>, the signer recovered from the signature over the
  encoding with an empty signature field is the sender named in \<open>m\<close>, and that sender is a
  validator; decoding always returns. In particular a message has one payload, and the payload of
  a correctly signed message of a validator is accepted and gives the message back.\<close>

theorem FromPayload_iff:
  assumes "length b < 2 ^ 63"
  shows "FromPayload b (CheckValidatorSignature sigAddr valSet) = Some (Inr m) \<longleftrightarrow>
    b = rlp_enc (message_EncodeRLP m) \<and> b = message_Payload m \<and>
    sigAddr (message_PayloadNoSig m) (Signature m) = Some (Address m) \<and> Address m \<in> members valSet"
proof -
  have "length b < 2 ^ 64" using assms by simp
  note D = DecodeBytes_message [OF this]
  have P: "b = rlp_enc (message_EncodeRLP m) \<Longrightarrow> message_Payload m = b"
    using EncodeToBytes_eq [of "message_EncodeRLP m"] assms by (simp add: message_Payload_def)
  have "FromPayload b (CheckValidatorSignature sigAddr valSet) = Some (Inr m) \<longleftrightarrow>
      DecodeBytes message_DecodeRLP b = Some (Inr m) \<and>
      CheckValidatorSignature sigAddr valSet (message_PayloadNoSig m) (Signature m) = Inr (Address m)"
    by (auto simp: FromPayload_def split: option.splits sum.splits)
  also have "CheckValidatorSignature sigAddr valSet (message_PayloadNoSig m) (Signature m) = Inr (Address m)
      \<longleftrightarrow> sigAddr (message_PayloadNoSig m) (Signature m) = Some (Address m) \<and> Address m \<in> members valSet"
    by (auto simp: CheckValidatorSignature_def GetByAddress_snd members_def split: option.splits)
  finally show ?thesis unfolding D(2) using P by auto
qed

theorem FromPayload_iff_witness:
  "FromPayload (message_Payload \<lparr>Code = 2, Msg = [], Address = 7, Signature = [9], CommittedSeal = []\<rparr>)
     (CheckValidatorSignature (\<lambda>_ sig. if sig = [9] then Some 7 else None)
       \<lparr>validators = [7], policy = 0, proposer = None\<rparr>) =
   Some (Inr \<lparr>Code = 2, Msg = [], Address = 7, Signature = [9], CommittedSeal = []\<rparr>)"
proof -
  let ?m = "\<lparr>Code = 2, Msg = [], Address = 7, Signature = [9], CommittedSeal = []\<rparr>"
  have len: "length (rlp_enc (message_EncodeRLP ?m)) < 2 ^ 63"
    by (simp add: message_EncodeRLP_def item_uint_def nat_bytes_pos Let_def rlp_head_def)
  then have p: "message_Payload ?m = rlp_enc (message_EncodeRLP ?m)"
    by (simp only: message_Payload_def EncodeToBytes_eq)
  from FromPayload_iff [OF len, of "\<lambda>_ sig. if sig = [9] then Some 7 else None"
      "\<lparr>validators = [7], policy = 0, proposer = None\<rparr>" ?m] show ?thesis
    unfolding p by (simp add: members_def)
qed

end
