(* ===== verification/Istanbul_Round.thy ===== *)
theory Istanbul_Round
  imports Istanbul_Types "HOL-Library.AList"
begin

text \<open>
  The state of one round: \<^verbatim>\<open>src/consensus/istanbul/core/message_set.go\<close>, \<^verbatim>\<open>roundstate.go\<close> and the
  round-change set of \<^verbatim>\<open>roundchange.go\<close>. A Go map is an association list with distinct keys; Go
  iterates over a map in an unspecified order, the model in insertion order, and no statement
  depends on which. Locks are not modelled: the engine handles one event at a time.
\<close>

section \<open>Message sets\<close>

record messageSet =
  ms_view :: view
  ms_valSet :: defaultSet
  messages :: "(address \<times> message) list"

definition newMessageSet :: "defaultSet \<Rightarrow> messageSet" where
  "newMessageSet valSet = \<lparr>ms_view = \<lparr>Round = 0, Sequence = 0\<rparr>, ms_valSet = valSet, messages = []\<rparr>"

definition messageSet_verify :: "message \<Rightarrow> messageSet \<Rightarrow> istanbul_error option" where
  "messageSet_verify msg ms =
     (case snd (GetByAddress (ms_valSet ms) (Address msg)) of
        None \<Rightarrow> Some ErrUnauthorizedAddress
      | Some _ \<Rightarrow> None)"

definition addVerifiedMessage :: "message \<Rightarrow> messageSet \<Rightarrow> messageSet" where
  "addVerifiedMessage msg ms = ms\<lparr>messages := AList.update (Address msg) msg (messages ms)\<rparr>"

definition messageSet_Add :: "message \<Rightarrow> messageSet \<Rightarrow> istanbul_error option \<times> messageSet" where
  "messageSet_Add msg ms =
     (case messageSet_verify msg ms of
        Some err \<Rightarrow> (Some err, ms)
      | None \<Rightarrow> (None, addVerifiedMessage msg ms))"

definition messageSet_Values :: "messageSet \<Rightarrow> message list" where
  "messageSet_Values ms = map snd (messages ms)"

definition messageSet_Size :: "messageSet \<Rightarrow> int" where
  "messageSet_Size ms = int (length (messages ms))"

definition messageSet_Get :: "messageSet \<Rightarrow> address \<Rightarrow> message option" where
  "messageSet_Get ms addr = map_of (messages ms) addr"

section \<open>Round state\<close>

record 'p roundState =
  rs_round :: nat
  rs_sequence :: nat
  Preprepare :: "'p preprepare option"
  Prepares :: messageSet
  Commits :: messageSet
  lockedHash :: hash
  pendingRequest :: "'p option"

definition newRoundState ::
    "view \<Rightarrow> defaultSet \<Rightarrow> hash \<Rightarrow> 'p preprepare option \<Rightarrow> 'p option \<Rightarrow> 'p roundState" where
  "newRoundState v valSet locked pp pending =
     \<lparr>rs_round = Round v, rs_sequence = Sequence v, Preprepare = pp,
      Prepares = newMessageSet valSet, Commits = newMessageSet valSet,
      lockedHash = locked, pendingRequest = pending\<rparr>"

definition GetPrepareOrCommitSize :: "'p roundState \<Rightarrow> int" where
  "GetPrepareOrCommitSize s =
     foldl (\<lambda>result m. if messageSet_Get (Commits s) (Address m) \<noteq> None then result - 1 else result)
       (messageSet_Size (Prepares s) + messageSet_Size (Commits s)) (messageSet_Values (Prepares s))"

definition roundState_Subject :: "('p \<Rightarrow> hash) \<Rightarrow> 'p roundState \<Rightarrow> subject option" where
  "roundState_Subject p_Hash s =
     (case Preprepare s of
        None \<Rightarrow> None
      | Some pp \<Rightarrow>
          Some \<lparr>sub_View = \<lparr>Round = rs_round s, Sequence = rs_sequence s\<rparr>,
                Digest = p_Hash (Proposal pp)\<rparr>)"

definition SetPreprepare :: "'p preprepare \<Rightarrow> 'p roundState \<Rightarrow> 'p roundState" where
  "SetPreprepare pp s = s\<lparr>Preprepare := Some pp\<rparr>"

definition roundState_Proposal :: "'p roundState \<Rightarrow> 'p option" where
  "roundState_Proposal s = map_option Proposal (Preprepare s)"

definition LockHash :: "('p \<Rightarrow> hash) \<Rightarrow> 'p roundState \<Rightarrow> 'p roundState" where
  "LockHash p_Hash s =
     (case Preprepare s of
        None \<Rightarrow> s
      | Some pp \<Rightarrow> s\<lparr>lockedHash := p_Hash (Proposal pp)\<rparr>)"

definition UnlockHash :: "'p roundState \<Rightarrow> 'p roundState" where
  "UnlockHash s = s\<lparr>lockedHash := 0\<rparr>"

definition IsHashLocked :: "(hash \<Rightarrow> bool) \<Rightarrow> 'p roundState \<Rightarrow> bool" where
  "IsHashLocked hasBadProposal s =
     (if lockedHash s = 0 then False else \<not> hasBadProposal (lockedHash s))"

section \<open>Round-change messages\<close>

record roundChangeSet =
  rcs_valSet :: defaultSet
  roundChanges :: "(u64 \<times> messageSet) list"

definition newRoundChangeSet :: "defaultSet \<Rightarrow> roundChangeSet" where
  "newRoundChangeSet valSet = \<lparr>rcs_valSet = valSet, roundChanges = []\<rparr>"

definition roundChangeSet_Add ::
    "nat \<Rightarrow> message \<Rightarrow> roundChangeSet \<Rightarrow> (istanbul_error + int) \<times> roundChangeSet" where
  "roundChangeSet_Add r msg rcs =
     (let round = of_nat r :: u64;
          ms = (case map_of (roundChanges rcs) round of
                  None \<Rightarrow> newMessageSet (rcs_valSet rcs) | Some ms \<Rightarrow> ms);
          rcs' = (\<lambda>ms'. rcs\<lparr>roundChanges := AList.update round ms' (roundChanges rcs)\<rparr>)
      in case messageSet_Add msg ms of
           (Some err, ms') \<Rightarrow> (Inl err, rcs' ms')
         | (None, ms') \<Rightarrow> (Inr (messageSet_Size ms'), rcs' ms'))"

definition roundChangeSet_Clear :: "nat \<Rightarrow> roundChangeSet \<Rightarrow> roundChangeSet" where
  "roundChangeSet_Clear round rcs =
     rcs\<lparr>roundChanges :=
       filter (\<lambda>(k, rms). \<not> (length (messageSet_Values rms) = 0 \<or> k < of_nat round)) (roundChanges rcs)\<rparr>"

fun maxRound_loop :: "int \<Rightarrow> (u64 \<times> messageSet) list \<Rightarrow> int option \<Rightarrow> int option" where
  "maxRound_loop num [] mr = mr"
| "maxRound_loop num ((k, rms) # rest) mr =
     (if messageSet_Size rms < num then maxRound_loop num rest mr
      else
        (let r = sint k in
         maxRound_loop num rest
           (case mr of
              None \<Rightarrow> Some r
            | Some m \<Rightarrow> if m < r then Some r else Some m)))"

definition MaxRound :: "int \<Rightarrow> roundChangeSet \<Rightarrow> int option" where
  "MaxRound num rcs = maxRound_loop num (roundChanges rcs) None"

section \<open>Senders\<close>

definition senders :: "messageSet \<Rightarrow> address set" where
  "senders ms = fst ` set (messages ms)"

text \<open>Every stored message is stored under its sender, once, and its sender is a validator.\<close>

definition ms_invar :: "messageSet \<Rightarrow> bool" where
  "ms_invar ms \<longleftrightarrow> distinct (map fst (messages ms)) \<and>
     (\<forall>(a, m) \<in> set (messages ms). Address m = a \<and> a \<in> members (ms_valSet ms))"

lemma newMessageSet_invar [simp]: "ms_invar (newMessageSet v)" "senders (newMessageSet v) = {}"
  "messages (newMessageSet v) = []" "ms_valSet (newMessageSet v) = v"
  by (simp_all add: newMessageSet_def ms_invar_def senders_def)

lemma messageSet_Add_eq:
  "messageSet_Add msg ms =
     (if Address msg \<in> members (ms_valSet ms) then (None, addVerifiedMessage msg ms)
      else (Some ErrUnauthorizedAddress, ms))"
  by (simp add: messageSet_Add_def messageSet_verify_def GetByAddress_snd members_def)

lemma set_update_distinct:
  "distinct (map fst al) \<Longrightarrow> set (AList.update k v al) = insert (k, v) {(a, x). (a, x) \<in> set al \<and> a \<noteq> k}"
  by (induction al) (auto simp: image_iff)

lemma addVerifiedMessage_invar:
  assumes "ms_invar ms" and "Address msg \<in> members (ms_valSet ms)"
  shows "ms_invar (addVerifiedMessage msg ms)"
    and "senders (addVerifiedMessage msg ms) = insert (Address msg) (senders ms)"
    and "ms_valSet (addVerifiedMessage msg ms) = ms_valSet ms"
  using assms
  by (auto simp: ms_invar_def addVerifiedMessage_def senders_def dom_update distinct_update set_update_distinct)

lemma messageSet_Add_invar:
  assumes "ms_invar ms"
  shows "ms_invar (snd (messageSet_Add msg ms))" "ms_valSet (snd (messageSet_Add msg ms)) = ms_valSet ms"
  using addVerifiedMessage_invar [OF assms, of msg] assms by (auto simp: messageSet_Add_eq)

lemma senders_finite [simp]: "finite (senders ms)"
  by (simp add: senders_def)

lemma senders_members: "ms_invar ms \<Longrightarrow> senders ms \<subseteq> members (ms_valSet ms)"
  by (auto simp: ms_invar_def senders_def)

lemma messageSet_Size_card: "ms_invar ms \<Longrightarrow> messageSet_Size ms = int (card (senders ms))"
  by (simp add: ms_invar_def messageSet_Size_def senders_def flip: set_map) (metis distinct_card length_map)

lemma messageSet_Get_None: "messageSet_Get ms a = None \<longleftrightarrow> a \<notin> senders ms"
  by (simp add: messageSet_Get_def map_of_eq_None_iff senders_def)

lemma count_down: "foldl (\<lambda>r m. if P m then r - 1 else r) (i :: int) xs = i - int (length (filter P xs))"
  by (induction xs arbitrary: i) auto

lemma messageSet_Values_senders:
  assumes "ms_invar ms"
  shows "length (filter (\<lambda>m. Address m \<in> S) (messageSet_Values ms)) = card (senders ms \<inter> S)"
proof -
  have "filter (\<lambda>m. Address m \<in> S) (messageSet_Values ms) =
      map snd (filter (\<lambda>(a, m). a \<in> S) (messages ms))"
    using assms
    by (auto simp: messageSet_Values_def filter_map ms_invar_def intro!: arg_cong [of _ _ "map snd"] filter_cong)
  moreover have "card (senders ms \<inter> S) = length (filter (\<lambda>(a, m). a \<in> S) (messages ms))"
  proof -
    have "distinct (map fst (filter (\<lambda>(a, m). a \<in> S) (messages ms)))"
      using assms by (simp add: ms_invar_def distinct_map_filter)
    moreover have "set (map fst (filter (\<lambda>(a, m). a \<in> S) (messages ms))) = senders ms \<inter> S"
      by (force simp: senders_def)
    ultimately show ?thesis by (metis distinct_card length_map)
  qed
  ultimately show ?thesis by simp
qed

lemma GetPrepareOrCommitSize_eq:
  assumes "ms_invar (Prepares s)" and "ms_invar (Commits s)"
  shows "GetPrepareOrCommitSize s = int (card (senders (Prepares s) \<union> senders (Commits s)))"
proof -
  have "GetPrepareOrCommitSize s = int (card (senders (Prepares s))) + int (card (senders (Commits s))) -
      int (card (senders (Prepares s) \<inter> senders (Commits s)))"
    using messageSet_Values_senders [OF assms(1), of "senders (Commits s)"]
    by (simp add: GetPrepareOrCommitSize_def count_down messageSet_Size_card assms messageSet_Get_None)
  moreover have "card (senders (Prepares s)) + card (senders (Commits s)) =
      card (senders (Prepares s) \<union> senders (Commits s)) + card (senders (Prepares s) \<inter> senders (Commits s))"
    by (rule card_Un_Int) simp_all
  ultimately show ?thesis by simp
qed

section \<open>The round-change set\<close>

definition rcs_invar :: "roundChangeSet \<Rightarrow> bool" where
  "rcs_invar rcs \<longleftrightarrow> distinct (map fst (roundChanges rcs)) \<and>
     (\<forall>(k, ms) \<in> set (roundChanges rcs). ms_invar ms \<and> ms_valSet ms = rcs_valSet rcs)"

definition rcs_senders :: "roundChangeSet \<Rightarrow> u64 \<Rightarrow> address set" where
  "rcs_senders rcs k = (case map_of (roundChanges rcs) k of None \<Rightarrow> {} | Some ms \<Rightarrow> senders ms)"

lemma newRoundChangeSet_invar [simp]: "rcs_invar (newRoundChangeSet v)" "rcs_senders (newRoundChangeSet v) k = {}"
  by (simp_all add: newRoundChangeSet_def rcs_invar_def rcs_senders_def)

lemma rcs_lookup:
  assumes "rcs_invar rcs" and "map_of (roundChanges rcs) k = Some ms"
  shows "ms_invar ms" "ms_valSet ms = rcs_valSet rcs"
  using assms map_of_SomeD [OF assms(2)] by (auto simp: rcs_invar_def)

lemma roundChangeSet_Add_correct:
  assumes "rcs_invar rcs" and "roundChangeSet_Add r msg rcs = (res, rcs')"
  shows "rcs_invar rcs' \<and> rcs_valSet rcs' = rcs_valSet rcs"
    and "Address msg \<in> members (rcs_valSet rcs) \<Longrightarrow>
      res = Inr (int (card (insert (Address msg) (rcs_senders rcs (of_nat r))))) \<and>
      rcs_senders rcs' k = (if k = of_nat r then insert (Address msg) (rcs_senders rcs k) else rcs_senders rcs k)"
    and "Address msg \<notin> members (rcs_valSet rcs) \<Longrightarrow>
      res = Inl ErrUnauthorizedAddress \<and> rcs_senders rcs' k = rcs_senders rcs k"
proof -
  let ?k = "of_nat r :: u64"
  define ms where "ms = (case map_of (roundChanges rcs) ?k of
      None \<Rightarrow> newMessageSet (rcs_valSet rcs) | Some ms \<Rightarrow> ms)"
  have ms: "ms_invar ms" "ms_valSet ms = rcs_valSet rcs" "senders ms = rcs_senders rcs ?k"
    using rcs_lookup [OF assms(1), of ?k] by (auto simp: ms_def rcs_senders_def split: option.splits)
  define ms' where "ms' = snd (messageSet_Add msg ms)"
  have r': "rcs' = rcs\<lparr>roundChanges := AList.update ?k ms' (roundChanges rcs)\<rparr>"
    "res = (if Address msg \<in> members (rcs_valSet rcs) then Inr (messageSet_Size ms') else Inl ErrUnauthorizedAddress)"
    using assms(2) ms(2) unfolding roundChangeSet_Add_def Let_def ms_def [symmetric] ms'_def
    by (auto simp: messageSet_Add_eq split: if_splits)
  have ms': "ms_invar ms'" "ms_valSet ms' = rcs_valSet rcs"
    using messageSet_Add_invar [OF ms(1)] ms(2) by (simp_all add: ms'_def)
  show "rcs_invar rcs' \<and> rcs_valSet rcs' = rcs_valSet rcs"
    using assms(1) ms' unfolding r' by (auto simp: rcs_invar_def distinct_update set_update_distinct)
  have s': "rcs_senders rcs' k = (if k = ?k then senders ms' else rcs_senders rcs k)"
    unfolding r' by (simp add: rcs_senders_def update_conv')
  show "res = Inr (int (card (insert (Address msg) (rcs_senders rcs ?k)))) \<and>
      rcs_senders rcs' k = (if k = ?k then insert (Address msg) (rcs_senders rcs k) else rcs_senders rcs k)"
    if "Address msg \<in> members (rcs_valSet rcs)"
  proof -
    have "senders ms' = insert (Address msg) (rcs_senders rcs ?k)"
      using that addVerifiedMessage_invar(2) [OF ms(1)] ms by (simp add: ms'_def messageSet_Add_eq)
    then show ?thesis using s' r'(2) that messageSet_Size_card [OF ms'(1)] by simp
  qed
  show "res = Inl ErrUnauthorizedAddress \<and> rcs_senders rcs' k = rcs_senders rcs k"
    if "Address msg \<notin> members (rcs_valSet rcs)"
    using that s' r'(2) ms by (simp add: ms'_def messageSet_Add_eq)
qed

lemma roundChangeSet_Clear_invar:
  "rcs_invar rcs \<Longrightarrow> rcs_invar (roundChangeSet_Clear r rcs) \<and> rcs_valSet (roundChangeSet_Clear r rcs) = rcs_valSet rcs"
  by (auto simp: rcs_invar_def roundChangeSet_Clear_def distinct_map_filter)

section \<open>Quorums\<close>

text \<open>\<^verbatim>\<open>Confirmations\<close> of \<^verbatim>\<open>core.go\<close>: \<open>ceil(2N/3)\<close>, kept next to \<^verbatim>\<open>F\<close> because the two are only right
  together.\<close>

definition Confirmations :: "defaultSet \<Rightarrow> int" where
  "Confirmations v = ceil_div (2 * int (Set_Size v)) 3"

text \<open>What voting needs of a threshold and a fault bound: two quorums share more members than can be
  faulty, and the correct members alone form a quorum.\<close>

locale quorum_system =
  fixes mem :: "'v \<Rightarrow> 'a set" and invar :: "'v \<Rightarrow> bool" and q :: "'v \<Rightarrow> nat" and f :: "'v \<Rightarrow> nat"
  assumes finite_mem: "invar v \<Longrightarrow> finite (mem v)"
    and overlap: "invar v \<Longrightarrow> mem v \<noteq> {} \<Longrightarrow> card (mem v) + f v < 2 * q v"
    and available: "invar v \<Longrightarrow> mem v \<noteq> {} \<Longrightarrow> q v + f v \<le> card (mem v)"
begin

lemma quorum_overlap:
  assumes "invar v" and "mem v \<noteq> {}" and "A \<subseteq> mem v" and "B \<subseteq> mem v" and "q v \<le> card A" and "q v \<le> card B"
  shows "f v < card (A \<inter> B)"
  using card_inter_gt [OF finite_mem [OF assms(1)] assms(3,4), of "f v"] overlap [OF assms(1,2)] assms(5,6)
  by linarith

lemma quorum_honest:
  assumes "invar v" and "mem v \<noteq> {}" and "A \<subseteq> mem v" and "B \<subseteq> mem v" and "q v \<le> card A" and "q v \<le> card B"
    and "card byz \<le> f v" and "finite byz"
  shows "\<exists>h. h \<in> A \<and> h \<in> B \<and> h \<notin> byz"
proof (rule ccontr)
  assume "\<not> ?thesis"
  then have "A \<inter> B \<subseteq> byz" by blast
  from card_mono [OF assms(8) this] quorum_overlap [OF assms(1-6)] assms(7) show False by linarith
qed

lemma honest_quorum:
  assumes "invar v" and "mem v \<noteq> {}" and "card (byz \<inter> mem v) \<le> f v"
  shows "q v \<le> card (mem v - byz)"
proof -
  have "card (mem v - byz) = card (mem v) - card (byz \<inter> mem v)"
    using finite_mem [OF assms(1)] by (metis card_Diff_subset_Int finite_Int inf.commute)
  then show ?thesis using available [OF assms(1,2)] assms(3) by linarith
qed

text \<open>One voter votes for at most one value, so two values cannot both reach a quorum.\<close>

lemma one_winner:
  assumes "invar v" and "mem v \<noteq> {}" and "A \<subseteq> mem v" and "B \<subseteq> mem v" and "q v \<le> card A" and "q v \<le> card B"
    and "card byz \<le> f v" and "finite byz"
    and "\<And>h. h \<in> A \<Longrightarrow> h \<notin> byz \<Longrightarrow> vote h = Some x" and "\<And>h. h \<in> B \<Longrightarrow> h \<notin> byz \<Longrightarrow> vote h = Some y"
  shows "x = y"
  using quorum_honest [OF assms(1-8)] assms(9,10) by force

end

lemma ceil_div_3: "ceil_div (int n) 3 = int ((n + 2) div 3)" "ceil_div (2 * int n) 3 = int ((2 * n + 2) div 3)"
  by (simp_all add: ceil_div_def zdiv_int)

lemma Confirmations_nat: "nat (Confirmations v) = (2 * Set_Size v + 2) div 3"
  by (simp only: Confirmations_def ceil_div_3 nat_int)

lemma F_nat: "nat (Set_F v) = (Set_Size v + 2) div 3 - 1"
  by (simp add: Set_F_def ceil_div_3 nat_diff_distrib)

interpretation ibft: quorum_system members "valset_invar k" "\<lambda>v. nat (Confirmations v)" "\<lambda>v. nat (Set_F v)"
proof
  fix v
  assume inv: "valset_invar k v"
  show "finite (members v)" by (simp add: members_def)
  assume "members v \<noteq> {}"
  then have pos: "0 < Set_Size v" by (simp add: members_def Set_Size_def)
  have n: "card (members v) = Set_Size v" using istanbul_set.sz [OF inv] by simp
  show "card (members v) + nat (Set_F v) < 2 * nat (Confirmations v)"
    unfolding Confirmations_nat F_nat n using pos by presburger
  show "nat (Confirmations v) + nat (Set_F v) \<le> card (members v)"
    unfolding Confirmations_nat F_nat n using pos by presburger
qed

end
