(* ===== verification/Istanbul_Core.thy ===== *)
theory Istanbul_Core
  imports Istanbul_Round Prque
begin

text \<open>
  The consensus engine of \<^verbatim>\<open>src/consensus/istanbul/core\<close>: the state of \<^verbatim>\<open>core.go\<close>, its event loop
  (\<^verbatim>\<open>handler.go\<close>) and every handler (\<^verbatim>\<open>request.go\<close>, \<^verbatim>\<open>preprepare.go\<close>, \<^verbatim>\<open>prepare.go\<close>, \<^verbatim>\<open>commit.go\<close>,
  \<^verbatim>\<open>roundchange.go\<close>, \<^verbatim>\<open>backlog.go\<close>, \<^verbatim>\<open>final_committed.go\<close>) as functions on that state. The backend is
  a record of functions, handed to each event: nothing about it is assumed between two events.
  What the engine asks of the outside (a broadcast, a commit, an event posted to itself) is
  appended to \<open>outbox\<close>. A function that can reach a nil dereference, or that runs a decoder of the
  backend that may not return, has an optional result, and \<open>None\<close> stands for that; the engine never
  gets there from a started state (\<open>Istanbul_Safety\<close>). Logging and metrics are left out, and so is
  the sharing of the validator set between the engine and its message sets, which only read its
  list of validators.
\<close>

section \<open>Backend and state\<close>

record 'p backend =
  be_LastProposal :: "'p option \<times> address"
  be_Validators :: "'p \<Rightarrow> defaultSet"
  be_ParentValidators :: "'p \<Rightarrow> defaultSet"
  be_GetProposer :: "u64 \<Rightarrow> address"
  be_HasPropsal :: "hash \<Rightarrow> nat \<Rightarrow> bool"
  be_HasBadProposal :: "hash \<Rightarrow> bool"
  be_Verify :: "'p \<Rightarrow> istanbul_error option"
  be_Commit :: "'p \<Rightarrow> bytes list \<Rightarrow> bool"
  be_Sign :: "bytes \<Rightarrow> bytes option"
  be_sigAddr :: "bytes \<Rightarrow> bytes \<Rightarrow> address option"
  be_keccak :: "bytes \<Rightarrow> hash"
  be_float_overflow :: "64 word"
  p_Number :: "'p \<Rightarrow> nat"
  p_Hash :: "'p \<Rightarrow> hash"
  p_item :: "'p \<Rightarrow> rlp_item"
  p_DecodeRLP :: "'p dec"

text \<open>A broadcast is recorded as the signed message whose payload is sent, together with the view the
  engine was in and, for messages that carry a subject, the subject their body encodes.\<close>

datatype 'p effect =
    Broadcast view "subject option" message
  | Gossip bytes
  | CommitProposal 'p "bytes list"
  | PostRequest 'p
  | PostBacklog message address

record 'p core =
  RequestTimeout :: u64
  c_address :: address
  c_state :: State
  futurePreprepareTimer :: "(message \<times> address) option"
  c_valSet :: defaultSet
  waitingForRoundChange :: bool
  backlogs :: "(address \<times> message sstack) list"
  current :: "'p roundState"
  c_roundChangeSet :: roundChangeSet
  roundChangeTimer :: "64 word option"
  pendingRequests :: "'p sstack"
  outbox :: "'p effect list"

definition emit :: "'p effect list \<Rightarrow> 'p core \<Rightarrow> 'p core" where
  "emit es c = c\<lparr>outbox := outbox c @ es\<rparr>"

section \<open>Sending messages\<close>

definition PrepareCommittedSeal :: "hash \<Rightarrow> bytes" where
  "PrepareCommittedSeal h = hash_bytes h @ [ucast msgCommit]"

text \<open>\<^verbatim>\<open>finalizeMessage\<close> completes the message in place and returns its payload; the model returns the
  completed message, whose payload is \<open>message_Payload\<close>.\<close>

definition finalizeMessage :: "'p backend \<Rightarrow> message \<Rightarrow> 'p core \<Rightarrow> message option" where
  "finalizeMessage b msg0 c =
     (let msg1 = msg0\<lparr>Address := c_address c, CommittedSeal := []\<rparr>;
          sealed =
            (case roundState_Proposal (current c) of
               Some p \<Rightarrow>
                 if Code msg1 = msgCommit
                 then map_option (\<lambda>s. msg1\<lparr>CommittedSeal := s\<rparr>) (be_Sign b (PrepareCommittedSeal (p_Hash b p)))
                 else Some msg1
             | None \<Rightarrow> Some msg1)
      in do {
        msg2 \<leftarrow> sealed;
        sig \<leftarrow> be_Sign b (message_PayloadNoSig msg2);
        Some (msg2\<lparr>Signature := sig\<rparr>)
      })"

definition currentView :: "'p core \<Rightarrow> view" where
  "currentView c = \<lparr>Round = rs_round (current c), Sequence = rs_sequence (current c)\<rparr>"

definition broadcast :: "'p backend \<Rightarrow> subject option \<Rightarrow> message \<Rightarrow> 'p core \<Rightarrow> 'p core" where
  "broadcast b sub msg c =
     (case finalizeMessage b msg c of
        None \<Rightarrow> c
      | Some msg1 \<Rightarrow> emit [Broadcast (currentView c) sub msg1] c)"

definition newMessage :: "u64 \<Rightarrow> bytes \<Rightarrow> message" where
  "newMessage code body = \<lparr>Code = code, Msg = body, Address = 0, Signature = [], CommittedSeal = []\<rparr>"

definition core_IsProposer :: "'p core \<Rightarrow> bool" where
  "core_IsProposer c = IsProposer (c_valSet c) (c_address c)"

definition IsCurrentProposal :: "'p backend \<Rightarrow> hash \<Rightarrow> 'p core \<Rightarrow> bool" where
  "IsCurrentProposal b blockHash c =
     (case pendingRequest (current c) of None \<Rightarrow> False | Some p \<Rightarrow> p_Hash b p = blockHash)"

text \<open>A nil subject is encoded as an empty list (\<^verbatim>\<open>makePtrWriter\<close>).\<close>

definition Encode_subject :: "subject option \<Rightarrow> bytes" where
  "Encode_subject sub =
     EncodeToBytes (case sub of None \<Rightarrow> Lst [] | Some s \<Rightarrow> Subject_EncodeRLP s)"

definition sendPreprepare :: "'p backend \<Rightarrow> 'p \<Rightarrow> 'p core \<Rightarrow> 'p core" where
  "sendPreprepare b p c =
     (if rs_sequence (current c) = p_Number b p \<and> core_IsProposer c
      then broadcast b None
             (newMessage msgPreprepare
                (EncodeToBytes (Preprepare_EncodeRLP (p_item b) \<lparr>pp_View = currentView c, Proposal = p\<rparr>))) c
      else c)"

definition sendPrepare :: "'p backend \<Rightarrow> 'p core \<Rightarrow> 'p core" where
  "sendPrepare b c =
     (let sub = roundState_Subject (p_Hash b) (current c)
      in broadcast b sub (newMessage msgPrepare (Encode_subject sub)) c)"

definition broadcastCommit :: "'p backend \<Rightarrow> subject option \<Rightarrow> 'p core \<Rightarrow> 'p core" where
  "broadcastCommit b sub c = broadcast b sub (newMessage msgCommit (Encode_subject sub)) c"

definition sendCommit :: "'p backend \<Rightarrow> 'p core \<Rightarrow> 'p core" where
  "sendCommit b c = broadcastCommit b (roundState_Subject (p_Hash b) (current c)) c"

definition sendCommitForOldBlock :: "'p backend \<Rightarrow> view \<Rightarrow> hash \<Rightarrow> 'p core \<Rightarrow> 'p core" where
  "sendCommitForOldBlock b v digest c = broadcastCommit b (Some \<lparr>sub_View = v, Digest = digest\<rparr>) c"

section \<open>Checking and queueing messages\<close>

definition checkMessage :: "u64 \<Rightarrow> view \<Rightarrow> 'p core \<Rightarrow> istanbul_error option" where
  "checkMessage msgCode v c =
     (if msgCode = msgRoundChange then
        (if big_Cmp (int (Sequence v)) (int (Sequence (currentView c))) > 0 then Some errFutureMessage
         else if View_Cmp v (currentView c) < 0 then Some errOldMessage
         else None)
      else if View_Cmp v (currentView c) > 0 then Some errFutureMessage
      else if View_Cmp v (currentView c) < 0 then Some errOldMessage
      else if waitingForRoundChange c then Some errFutureMessage
      else if c_state c = StateAcceptRequest then
        (if msgCode > msgPreprepare then Some errFutureMessage else None)
      else None)"

definition checkRequestMsg :: "'p backend \<Rightarrow> 'p \<Rightarrow> 'p core \<Rightarrow> istanbul_error option" where
  "checkRequestMsg b p c =
     (let cmp = big_Cmp (int (rs_sequence (current c))) (int (p_Number b p)) in
      if cmp > 0 then Some errOldMessage
      else if cmp < 0 then Some errFutureMessage
      else None)"

definition msgPriority :: "u64 \<Rightarrow> u64" where
  "msgPriority code =
     (if code = msgPreprepare then 1 else if code = msgCommit then 2
      else if code = msgPrepare then 3 else 0)"

definition toPriority :: "u64 \<Rightarrow> view \<Rightarrow> 64 word" where
  "toPriority msgCode v =
     (if msgCode = msgRoundChange then - (of_nat (Sequence v) * 1000)
      else - (of_nat (Sequence v) * 1000 + of_nat (Round v) * 10 + msgPriority msgCode))"

text \<open>The view of a queued message, inner \<open>None\<close> when its payload does not decode.\<close>

definition message_view :: "'p backend \<Rightarrow> message \<Rightarrow> view option option" where
  "message_view b msg =
     (if Code msg = msgPreprepare then
        map_option (\<lambda>r. case r of Inl _ \<Rightarrow> None | Inr pp \<Rightarrow> Some (pp_View pp))
          (message_Decode (Preprepare_DecodeRLP (p_DecodeRLP b)) msg)
      else
        map_option (\<lambda>r. case r of Inl _ \<Rightarrow> None | Inr sub \<Rightarrow> Some (sub_View sub))
          (message_Decode Subject_DecodeRLP msg))"

definition storeBacklog :: "'p backend \<Rightarrow> message \<Rightarrow> address \<Rightarrow> 'p core \<Rightarrow> 'p core option" where
  "storeBacklog b msg src c =
     (if src = c_address c then Some c
      else
        (let backlog = (case map_of (backlogs c) src of None \<Rightarrow> Prque_New False | Some q \<Rightarrow> q)
         in do {
           v \<leftarrow> message_view b msg;
           let q = (case v of None \<Rightarrow> backlog | Some w \<Rightarrow> Prque_Push msg (toPriority (Code msg) w) backlog);
           Some (c\<lparr>backlogs := AList.update src q (backlogs c)\<rparr>)
         }))"

fun backlog_loop ::
    "nat \<Rightarrow> 'p backend \<Rightarrow> 'p core \<Rightarrow> address \<Rightarrow> message sstack \<Rightarrow> 'p effect list
     \<Rightarrow> (message sstack \<times> 'p effect list) option" where
  "backlog_loop fuel b c src q out =
     (if Prque_Empty q then Some (q, out)
      else
        (case fuel of
           0 \<Rightarrow> None
         | Suc n \<Rightarrow>
             do {
               ((msg, prio), q1) \<leftarrow> Prque_Pop q;
               mv \<leftarrow> message_view b msg;
               (case mv of
                  None \<Rightarrow> backlog_loop n b c src q1 out
                | Some v \<Rightarrow>
                    (case checkMessage (Code msg) v c of
                       None \<Rightarrow> backlog_loop n b c src q1 (out @ [PostBacklog msg src])
                     | Some err \<Rightarrow>
                         if err = errFutureMessage then Some (Prque_Push msg prio q1, out)
                         else backlog_loop n b c src q1 out))
             }))"

declare backlog_loop.simps [simp del]

fun backlog_sweep ::
    "'p backend \<Rightarrow> 'p core \<Rightarrow> (address \<times> message sstack) list
     \<Rightarrow> ((address \<times> message sstack) list \<times> 'p effect list) option" where
  "backlog_sweep b c [] = Some ([], [])"
| "backlog_sweep b c ((srcAddress, backlog) # rest) =
     (case snd (GetByAddress (c_valSet c) srcAddress) of
        None \<Rightarrow> backlog_sweep b c rest
      | Some src \<Rightarrow>
          do {
            (q, out) \<leftarrow> backlog_loop (Prque_Size backlog) b c src backlog [];
            (rest', out') \<leftarrow> backlog_sweep b c rest;
            Some ((srcAddress, q) # rest', out @ out')
          })"

definition processBacklog :: "'p backend \<Rightarrow> 'p core \<Rightarrow> 'p core option" where
  "processBacklog b c =
     do {
       (bl, out) \<leftarrow> backlog_sweep b c (backlogs c);
       Some (emit out (c\<lparr>backlogs := bl\<rparr>))
     }"

definition storeRequestMsg :: "'p backend \<Rightarrow> 'p \<Rightarrow> 'p core \<Rightarrow> 'p core" where
  "storeRequestMsg b p c =
     c\<lparr>pendingRequests := Prque_Push p (- of_nat (p_Number b p)) (pendingRequests c)\<rparr>"

fun pending_loop ::
    "nat \<Rightarrow> 'p backend \<Rightarrow> 'p core \<Rightarrow> 'p sstack \<Rightarrow> 'p effect list \<Rightarrow> ('p sstack \<times> 'p effect list) option" where
  "pending_loop fuel b c q out =
     (if Prque_Empty q then Some (q, out)
      else
        (case fuel of
           0 \<Rightarrow> None
         | Suc n \<Rightarrow>
             do {
               ((r, prio), q1) \<leftarrow> Prque_Pop q;
               (case checkRequestMsg b r c of
                  None \<Rightarrow> pending_loop n b c q1 (out @ [PostRequest r])
                | Some err \<Rightarrow>
                    if err = errFutureMessage then Some (Prque_Push r prio q1, out)
                    else pending_loop n b c q1 out)
             }))"

declare pending_loop.simps [simp del]

definition processPendingRequests :: "'p backend \<Rightarrow> 'p core \<Rightarrow> 'p core option" where
  "processPendingRequests b c =
     do {
       (q, out) \<leftarrow> pending_loop (Prque_Size (pendingRequests c)) b c (pendingRequests c) [];
       Some (emit out (c\<lparr>pendingRequests := q\<rparr>))
     }"

definition setState :: "'p backend \<Rightarrow> State \<Rightarrow> 'p core \<Rightarrow> 'p core option" where
  "setState b st c =
     do {
       c1 \<leftarrow> (if st = StateAcceptRequest then processPendingRequests b (c\<lparr>c_state := st\<rparr>)
              else Some (c\<lparr>c_state := st\<rparr>));
       processBacklog b c1
     }"

section \<open>Rounds\<close>

text \<open>\<^verbatim>\<open>updateRoundState\<close> keeps the lock and the locked proposal across a round change.\<close>

definition updateRoundState :: "'p backend \<Rightarrow> view \<Rightarrow> defaultSet \<Rightarrow> bool \<Rightarrow> 'p core \<Rightarrow> 'p core" where
  "updateRoundState b v valSet roundChange c =
     c\<lparr>current :=
       (if roundChange then
          (if IsHashLocked (be_HasBadProposal b) (current c)
           then newRoundState v valSet (lockedHash (current c)) (Preprepare (current c))
                  (pendingRequest (current c))
           else newRoundState v valSet 0 None (pendingRequest (current c)))
        else newRoundState v valSet 0 None None)\<rparr>"

text \<open>\<^verbatim>\<open>newRoundChangeTimer\<close>: durations are \<^verbatim>\<open>int64\<close> nanoseconds and their products wrap; the conversion
  of \<^verbatim>\<open>math.Pow(2, round)\<close> to an integer is exact below \<open>2^63\<close> and depends on the platform above.\<close>

definition roundTimeout :: "'p backend \<Rightarrow> u64 \<Rightarrow> u64 \<Rightarrow> 64 word" where
  "roundTimeout b reqTimeout round =
     (let base = reqTimeout * 1000000 in
      if round > 0
      then base + (if round < 63 then 2 ^ unat round else be_float_overflow b) * 1000000000
      else base)"

definition stopTimer :: "'p core \<Rightarrow> 'p core" where
  "stopTimer c = c\<lparr>futurePreprepareTimer := None, roundChangeTimer := None\<rparr>"

definition newRoundChangeTimer :: "'p backend \<Rightarrow> 'p core \<Rightarrow> 'p core" where
  "newRoundChangeTimer b c =
     (stopTimer c)\<lparr>roundChangeTimer :=
        Some (roundTimeout b (RequestTimeout c) (of_nat (rs_round (current c))))\<rparr>"

definition catchUpRound :: "'p backend \<Rightarrow> view \<Rightarrow> 'p core \<Rightarrow> 'p core" where
  "catchUpRound b v c =
     (let c1 = updateRoundState b v (c_valSet c) True (c\<lparr>waitingForRoundChange := True\<rparr>);
          c2 = c1\<lparr>c_roundChangeSet := roundChangeSet_Clear (Round v) (c_roundChangeSet c1)\<rparr>
      in newRoundChangeTimer b c2)"

definition sendRoundChange :: "'p backend \<Rightarrow> nat \<Rightarrow> 'p core \<Rightarrow> 'p core" where
  "sendRoundChange b round c =
     (let cv = currentView c in
      if Round cv \<ge> round then c
      else
        (let c1 = catchUpRound b \<lparr>Round = round, Sequence = Sequence cv\<rparr> c;
             rc = Some \<lparr>sub_View = currentView c1, Digest = 0\<rparr>
         in broadcast b rc (newMessage msgRoundChange (Encode_subject rc)) c1))"

definition sendNextRoundChange :: "'p backend \<Rightarrow> 'p core \<Rightarrow> 'p core" where
  "sendNextRoundChange b c = sendRoundChange b (Round (currentView c) + 1) c"

text \<open>The part of \<^verbatim>\<open>startNewRound\<close> after the new view is known.\<close>

definition enterRound :: "'p backend \<Rightarrow> view \<Rightarrow> bool \<Rightarrow> address \<Rightarrow> 'p core \<Rightarrow> 'p core option" where
  "enterRound b newView roundChange lastProposer c =
     (let c1 = c\<lparr>c_roundChangeSet := newRoundChangeSet (c_valSet c)\<rparr>;
          c2 = updateRoundState b newView (c_valSet c1) roundChange c1;
          c3 = c2\<lparr>c_valSet := CalcProposer lastProposer (of_nat (Round newView)) (c_valSet c2),
                  waitingForRoundChange := False\<rparr>
      in do {
        c4 \<leftarrow> setState b StateAcceptRequest c3;
        c5 \<leftarrow> (if roundChange \<and> core_IsProposer c4 then
                 (if IsHashLocked (be_HasBadProposal b) (current c4)
                  then (case roundState_Proposal (current c4) of
                          None \<Rightarrow> None
                        | Some p \<Rightarrow> Some (sendPreprepare b p c4))
                  else (case pendingRequest (current c4) of
                          None \<Rightarrow> Some c4
                        | Some p \<Rightarrow> Some (sendPreprepare b p c4)))
               else Some c4);
        Some (newRoundChangeTimer b c5)
      })"

definition startNewRound :: "'p backend \<Rightarrow> nat \<Rightarrow> 'p core \<Rightarrow> 'p core option" where
  "startNewRound b round c =
     (case be_LastProposal b of
        (None, _) \<Rightarrow> None
      | (Some lastProposal, lastProposer) \<Rightarrow>
          (let seq = rs_sequence (current c); n = p_Number b lastProposal in
           if n \<ge> seq then
             enterRound b \<lparr>Round = 0, Sequence = n + 1\<rparr> False lastProposer
               (c\<lparr>c_valSet := be_Validators b lastProposal\<rparr>)
           else if int n = sint (of_nat seq - 1 :: 64 word) then
             (if round = 0 then Some c
              else if round < rs_round (current c) then Some c
              else enterRound b \<lparr>Round = round, Sequence = seq\<rparr> True lastProposer c)
           else Some c))"

text \<open>\<^verbatim>\<open>New\<close> followed by \<^verbatim>\<open>Start\<close>: the first call of \<^verbatim>\<open>startNewRound\<close> finds no current round.\<close>

definition core_Start :: "'p backend \<Rightarrow> u64 \<Rightarrow> address \<Rightarrow> 'p core option" where
  "core_Start b timeout addr =
     (case be_LastProposal b of
        (None, _) \<Rightarrow> None
      | (Some lastProposal, lastProposer) \<Rightarrow>
          (let newView = \<lparr>Round = 0, Sequence = p_Number b lastProposal + 1\<rparr>;
               valSet = be_Validators b lastProposal
           in enterRound b newView False lastProposer
                \<lparr>RequestTimeout = timeout, c_address = addr, c_state = StateAcceptRequest,
                 futurePreprepareTimer = None, c_valSet = valSet, waitingForRoundChange = False,
                 backlogs = [], current = newRoundState newView valSet 0 None None,
                 c_roundChangeSet = newRoundChangeSet valSet, roundChangeTimer = None,
                 pendingRequests = Prque_New False, outbox = []\<rparr>))"

section \<open>Handlers\<close>

definition handleRequest :: "'p backend \<Rightarrow> 'p \<Rightarrow> 'p core \<Rightarrow> istanbul_error option \<times> 'p core" where
  "handleRequest b p c =
     (case checkRequestMsg b p c of
        Some err \<Rightarrow> (Some err, c)
      | None \<Rightarrow>
          (let c1 = c\<lparr>current := (current c)\<lparr>pendingRequest := Some p\<rparr>\<rparr> in
           (None, if c_state c1 = StateAcceptRequest then sendPreprepare b p c1 else c1)))"

definition acceptPreprepare :: "'p preprepare \<Rightarrow> 'p core \<Rightarrow> 'p core" where
  "acceptPreprepare pp c = c\<lparr>current := SetPreprepare pp (current c)\<rparr>"

definition handlePreprepare ::
    "'p backend \<Rightarrow> message \<Rightarrow> address \<Rightarrow> 'p core \<Rightarrow> (istanbul_error option \<times> 'p core) option" where
  "handlePreprepare b msg src c =
     do {
       r \<leftarrow> message_Decode (Preprepare_DecodeRLP (p_DecodeRLP b)) msg;
       (case r of
          Inl _ \<Rightarrow> Some (Some errFailedDecodePreprepare, c)
        | Inr pp \<Rightarrow>
            (case checkMessage msgPreprepare (pp_View pp) c of
               Some err \<Rightarrow>
                 Some
                   (if err = errOldMessage then
                      (let valSet = Set_Copy (be_keccak b) (be_ParentValidators b (Proposal pp));
                           previousProposer = be_GetProposer b (of_nat (p_Number b (Proposal pp)) - 1);
                           valSet' = CalcProposer previousProposer (of_nat (Round (pp_View pp))) valSet
                       in if IsProposer valSet' src \<and>
                             be_HasPropsal b (p_Hash b (Proposal pp)) (p_Number b (Proposal pp))
                          then (None, sendCommitForOldBlock b (pp_View pp) (p_Hash b (Proposal pp)) c)
                          else (Some err, c))
                    else (Some err, c))
             | None \<Rightarrow>
                 if \<not> IsProposer (c_valSet c) src then Some (Some errNotFromProposer, c)
                 else
                   (case be_Verify b (Proposal pp) of
                      Some err \<Rightarrow>
                        Some (Some err,
                          if err = ErrFutureBlock then c\<lparr>futurePreprepareTimer := Some (msg, src)\<rparr>
                          else sendNextRoundChange b c)
                    | None \<Rightarrow>
                        if c_state c = StateAcceptRequest then
                          (if IsHashLocked (be_HasBadProposal b) (current c) then
                             (if p_Hash b (Proposal pp) = lockedHash (current c) then
                                do {
                                  c1 \<leftarrow> setState b StatePrepared (acceptPreprepare pp c);
                                  Some (None, sendCommit b c1)
                                }
                              else Some (None, sendNextRoundChange b c))
                           else
                             do {
                               c1 \<leftarrow> setState b StatePreprepared (acceptPreprepare pp c);
                               Some (None, sendPrepare b c1)
                             })
                        else Some (None, c))))
     }"

definition verifySubject :: "'p backend \<Rightarrow> subject \<Rightarrow> 'p core \<Rightarrow> istanbul_error option" where
  "verifySubject b sub c =
     (if Some sub \<noteq> roundState_Subject (p_Hash b) (current c) then Some errInconsistentSubject else None)"

definition acceptPrepare :: "message \<Rightarrow> 'p core \<Rightarrow> 'p core" where
  "acceptPrepare msg c =
     c\<lparr>current := (current c)\<lparr>Prepares := snd (messageSet_Add msg (Prepares (current c)))\<rparr>\<rparr>"

definition acceptCommit :: "message \<Rightarrow> 'p core \<Rightarrow> 'p core" where
  "acceptCommit msg c =
     c\<lparr>current := (current c)\<lparr>Commits := snd (messageSet_Add msg (Commits (current c)))\<rparr>\<rparr>"

definition lockCurrent :: "'p backend \<Rightarrow> 'p core \<Rightarrow> 'p core" where
  "lockCurrent b c = c\<lparr>current := LockHash (p_Hash b) (current c)\<rparr>"

definition handlePrepare ::
    "'p backend \<Rightarrow> message \<Rightarrow> address \<Rightarrow> 'p core \<Rightarrow> (istanbul_error option \<times> 'p core) option" where
  "handlePrepare b msg src c =
     do {
       r \<leftarrow> message_Decode Subject_DecodeRLP msg;
       (case r of
          Inl _ \<Rightarrow> Some (Some errFailedDecodePrepare, c)
        | Inr prepare \<Rightarrow>
            (case checkMessage msgPrepare (sub_View prepare) c of
               Some err \<Rightarrow> Some (Some err, c)
             | None \<Rightarrow>
                 (case verifySubject b prepare c of
                    Some err \<Rightarrow> Some (Some err, c)
                  | None \<Rightarrow>
                      (let c1 = acceptPrepare msg c in
                       if (IsHashLocked (be_HasBadProposal b) (current c1) \<and>
                             Digest prepare = lockedHash (current c1) \<or>
                           GetPrepareOrCommitSize (current c1) \<ge> Confirmations (c_valSet c1)) \<and>
                          State_Cmp (c_state c1) StatePrepared < 0
                       then
                         do {
                           c2 \<leftarrow> setState b StatePrepared (lockCurrent b c1);
                           Some (None, sendCommit b c2)
                         }
                       else Some (None, c1)))))
     }"

definition sealOf :: "message \<Rightarrow> bytes" where
  "sealOf m = take 65 (CommittedSeal m @ replicate 65 0)"

definition commit :: "'p backend \<Rightarrow> 'p core \<Rightarrow> 'p core option" where
  "commit b c =
     do {
       c1 \<leftarrow> setState b StateCommitted c;
       (case roundState_Proposal (current c1) of
          None \<Rightarrow> Some c1
        | Some p \<Rightarrow>
            (let seals = map sealOf (messageSet_Values (Commits (current c1)));
                 c2 = emit [CommitProposal p seals] c1
             in if be_Commit b p seals then Some c2
                else Some (sendNextRoundChange b (c2\<lparr>current := UnlockHash (current c2)\<rparr>))))
     }"

definition handleCommit ::
    "'p backend \<Rightarrow> message \<Rightarrow> address \<Rightarrow> 'p core \<Rightarrow> (istanbul_error option \<times> 'p core) option" where
  "handleCommit b msg src c =
     do {
       r \<leftarrow> message_Decode Subject_DecodeRLP msg;
       (case r of
          Inl _ \<Rightarrow> Some (Some errFailedDecodeCommit, c)
        | Inr com \<Rightarrow>
            (case checkMessage msgCommit (sub_View com) c of
               Some err \<Rightarrow> Some (Some err, c)
             | None \<Rightarrow>
                 (case verifySubject b com c of
                    Some err \<Rightarrow> Some (Some err, c)
                  | None \<Rightarrow>
                      (let c1 = acceptCommit msg c in
                       if messageSet_Size (Commits (current c1)) \<ge> Confirmations (c_valSet c1) \<and>
                          State_Cmp (c_state c1) StateCommitted < 0
                       then do { c2 \<leftarrow> commit b (lockCurrent b c1); Some (None, c2) }
                       else Some (None, c1)))))
     }"

definition handleRoundChange ::
    "'p backend \<Rightarrow> message \<Rightarrow> address \<Rightarrow> 'p core \<Rightarrow> (istanbul_error option \<times> 'p core) option" where
  "handleRoundChange b msg src c =
     do {
       r \<leftarrow> message_Decode Subject_DecodeRLP msg;
       (case r of
          Inl _ \<Rightarrow> Some (Some errInvalidMessage, c)
        | Inr rc \<Rightarrow>
            (case checkMessage msgRoundChange (sub_View rc) c of
               Some err \<Rightarrow> Some (Some err, c)
             | None \<Rightarrow>
                 (let cv = currentView c;
                      roundView = sub_View rc
                  in case roundChangeSet_Add (Round roundView) msg (c_roundChangeSet c) of
                       (Inl err, rcs) \<Rightarrow> Some (Some err, c\<lparr>c_roundChangeSet := rcs\<rparr>)
                     | (Inr num, rcs) \<Rightarrow>
                         (let c1 = c\<lparr>c_roundChangeSet := rcs\<rparr> in
                          if waitingForRoundChange c1 \<and> num = Set_F (c_valSet c1) + 1 then
                            Some (None, if Round cv < Round roundView
                                        then sendRoundChange b (Round roundView) c1 else c1)
                          else if num = Confirmations (c_valSet c1) \<and>
                                  (waitingForRoundChange c1 \<or> Round cv < Round roundView) then
                            do { c2 \<leftarrow> startNewRound b (Round roundView) c1; Some (None, c2) }
                          else if Round cv < Round roundView then Some (Some errIgnored, c1)
                          else Some (None, c1)))))
     }"

definition handleCheckedMsg ::
    "'p backend \<Rightarrow> message \<Rightarrow> address \<Rightarrow> 'p core \<Rightarrow> (istanbul_error option \<times> 'p core) option" where
  "handleCheckedMsg b msg src c =
     (let testBacklog = (\<lambda>(err, c1).
            if err = Some errFutureMessage
            then do { c2 \<leftarrow> storeBacklog b msg src c1; Some (err, c2) }
            else Some (err, c1))
      in if Code msg = msgPreprepare then do { r \<leftarrow> handlePreprepare b msg src c; testBacklog r }
         else if Code msg = msgPrepare then do { r \<leftarrow> handlePrepare b msg src c; testBacklog r }
         else if Code msg = msgCommit then do { r \<leftarrow> handleCommit b msg src c; testBacklog r }
         else if Code msg = msgRoundChange then do { r \<leftarrow> handleRoundChange b msg src c; testBacklog r }
         else Some (Some errInvalidMessage, c))"

definition handleMsg ::
    "'p backend \<Rightarrow> bytes \<Rightarrow> 'p core \<Rightarrow> (istanbul_error option \<times> 'p core) option" where
  "handleMsg b payload c =
     do {
       r \<leftarrow> FromPayload payload (CheckValidatorSignature (be_sigAddr b) (c_valSet c));
       (case r of
          Inl err \<Rightarrow> Some (Some err, c)
        | Inr msg \<Rightarrow>
            (case snd (GetByAddress (c_valSet c) (Address msg)) of
               None \<Rightarrow> Some (Some ErrUnauthorizedAddress, c)
             | Some src \<Rightarrow> handleCheckedMsg b msg src c))
     }"

definition handleTimeoutMsg :: "'p backend \<Rightarrow> 'p core \<Rightarrow> 'p core option" where
  "handleTimeoutMsg b c =
     (let catchUp = (if waitingForRoundChange c then None
                     else (case MaxRound (Set_F (c_valSet c) + 1) (c_roundChangeSet c) of
                             None \<Rightarrow> None
                           | Some m \<Rightarrow> if m > int (rs_round (current c)) then Some m else None))
      in case catchUp of
           Some maxRound \<Rightarrow> Some (sendRoundChange b (nat maxRound) c)
         | None \<Rightarrow>
             (case fst (be_LastProposal b) of
                Some lastProposal \<Rightarrow>
                  if p_Number b lastProposal \<ge> rs_sequence (current c) then startNewRound b 0 c
                  else Some (sendNextRoundChange b c)
              | None \<Rightarrow> Some (sendNextRoundChange b c)))"

definition handleFinalCommitted :: "'p backend \<Rightarrow> 'p core \<Rightarrow> 'p core option" where
  "handleFinalCommitted b c = startNewRound b 0 c"

datatype 'p event =
    RequestEvent 'p
  | MessageEvent bytes
  | BacklogEvent message address
  | TimeoutEvent
  | FinalCommittedEvent

text \<open>One turn of the loop in \<^verbatim>\<open>handleEvents\<close>.\<close>

fun handleEvent :: "'p backend \<Rightarrow> 'p event \<Rightarrow> 'p core \<Rightarrow> 'p core option" where
  "handleEvent b (RequestEvent p) c =
     (let (err, c1) = handleRequest b p c in
      Some (if err = Some errFutureMessage then storeRequestMsg b p c1 else c1))"
| "handleEvent b (MessageEvent payload) c =
     do {
       (err, c1) \<leftarrow> handleMsg b payload c;
       Some (if err = None then emit [Gossip payload] c1 else c1)
     }"
| "handleEvent b (BacklogEvent msg src) c =
     do {
       (err, c1) \<leftarrow> handleCheckedMsg b msg src c;
       Some (if err = None then emit [Gossip (message_Payload msg)] c1 else c1)
     }"
| "handleEvent b TimeoutEvent c = handleTimeoutMsg b c"
| "handleEvent b FinalCommittedEvent c = handleFinalCommitted b c"

end
