(* ===== verification/Istanbul_Safety.thy ===== *)
theory Istanbul_Safety
  imports Istanbul_Core
begin

text \<open>
  What the engine of \<open>Istanbul_Core\<close> guarantees: its invariant and that every event keeps it, that
  it never reaches a nil dereference, that views only grow, that a block is committed only on a
  quorum of matching COMMIT messages, that a node sends one COMMIT per view, and that two nodes
  cannot commit different blocks in one view.
\<close>

section \<open>What the helpers leave alone\<close>

definition posts :: "'p effect list \<Rightarrow> bool" where
  "posts es \<longleftrightarrow> (\<forall>e \<in> set es. case e of PostRequest _ \<Rightarrow> True | PostBacklog _ _ \<Rightarrow> True | _ \<Rightarrow> False)"

lemma posts_simps [simp]: "posts []" "posts (es @ fs) \<longleftrightarrow> posts es \<and> posts fs"
  "posts (PostRequest p # es) \<longleftrightarrow> posts es" "posts (PostBacklog m a # es) \<longleftrightarrow> posts es"
  by (auto simp: posts_def)

lemma posts_no_send: "posts es \<Longrightarrow> Broadcast v sub m \<notin> set es \<and> CommitProposal p s \<notin> set es"
  by (auto simp: posts_def)

lemma backlog_loop_step:
  assumes "backlog_loop fuel b c src q out = Some r" and "\<not> Prque_Empty q"
  obtains n msg prio q1 mv where "fuel = Suc n" "Prque_Pop q = Some ((msg, prio), q1)"
    "message_view b msg = Some mv"
    "mv = None \<Longrightarrow> backlog_loop n b c src q1 out = Some r"
    "\<And>v. mv = Some v \<Longrightarrow> checkMessage (Code msg) v c = None \<Longrightarrow>
      backlog_loop n b c src q1 (out @ [PostBacklog msg src]) = Some r"
    "\<And>v. mv = Some v \<Longrightarrow> checkMessage (Code msg) v c = Some errFutureMessage \<Longrightarrow>
      r = (Prque_Push msg prio q1, out)"
    "\<And>v e. mv = Some v \<Longrightarrow> checkMessage (Code msg) v c = Some e \<Longrightarrow> e \<noteq> errFutureMessage \<Longrightarrow>
      backlog_loop n b c src q1 out = Some r"
proof (cases fuel)
  case 0
  with assms show ?thesis by (subst (asm) backlog_loop.simps) simp
next
  case (Suc n)
  from assms Suc obtain msg prio q1 mv where
    p: "Prque_Pop q = Some ((msg, prio), q1)" "message_view b msg = Some mv"
    by (subst (asm) backlog_loop.simps) (auto simp: bind_eq_Some)
  from assms Suc p have L: "(case mv of None \<Rightarrow> backlog_loop n b c src q1 out
      | Some v \<Rightarrow> (case checkMessage (Code msg) v c of
            None \<Rightarrow> backlog_loop n b c src q1 (out @ [PostBacklog msg src])
          | Some err \<Rightarrow> if err = errFutureMessage then Some (Prque_Push msg prio q1, out)
              else backlog_loop n b c src q1 out)) = Some r"
    by (subst (asm) backlog_loop.simps) simp
  show ?thesis by (rule that [OF Suc p]) (use L in auto)
qed

lemma backlog_loop_empty: "Prque_Empty q \<Longrightarrow> backlog_loop fuel b c src q out = Some (q, out)"
  by (subst backlog_loop.simps) simp

lemma backlog_loop_posts:
  "backlog_loop fuel b c src q out = Some r \<Longrightarrow> posts out \<Longrightarrow> posts (snd r)"
proof (induction fuel arbitrary: q out)
  case 0
  then show ?case by (subst (asm) backlog_loop.simps) (auto split: if_splits)
next
  case (Suc n)
  show ?case
  proof (cases "Prque_Empty q")
    case True
    then show ?thesis using Suc.prems backlog_loop_empty [OF True, of "Suc n" b c src out] by auto
  next
    case False
    from Suc.prems(1) False show ?thesis
    proof (rule backlog_loop_step)
      fix m msg prio q1 mv
      assume "Suc n = Suc m"
        and L: "mv = None \<Longrightarrow> backlog_loop m b c src q1 out = Some r"
          "\<And>v. mv = Some v \<Longrightarrow> checkMessage (Code msg) v c = None \<Longrightarrow>
            backlog_loop m b c src q1 (out @ [PostBacklog msg src]) = Some r"
          "\<And>v. mv = Some v \<Longrightarrow> checkMessage (Code msg) v c = Some errFutureMessage \<Longrightarrow>
            r = (Prque_Push msg prio q1, out)"
          "\<And>v e. mv = Some v \<Longrightarrow> checkMessage (Code msg) v c = Some e \<Longrightarrow> e \<noteq> errFutureMessage \<Longrightarrow>
            backlog_loop m b c src q1 out = Some r"
      then have [simp]: "m = n" by simp
      show ?thesis
      proof (cases mv)
        case None
        with L(1) Suc.IH Suc.prems(2) show ?thesis by simp
      next
        case (Some v)
        show ?thesis
        proof (cases "checkMessage (Code msg) v c")
          case None
          with L(2) Some Suc.IH [of q1 "out @ [PostBacklog msg src]"] Suc.prems(2) show ?thesis by simp
        next
          case (Some e)
          with L(3,4) \<open>mv = Some v\<close> Suc.IH Suc.prems(2) show ?thesis
            by (cases "e = errFutureMessage") auto
        qed
      qed
    qed
  qed
qed

lemma backlog_sweep_posts: "backlog_sweep b c bl = Some r \<Longrightarrow> posts (snd r)"
proof (induction bl arbitrary: r)
  case (Cons x bl)
  obtain a q where x: "x = (a, q)" by fastforce
  show ?case
  proof (cases "snd (GetByAddress (c_valSet c) a)")
    case None
    with Cons x show ?thesis by simp
  next
    case (Some src)
    with Cons.prems x obtain q' out bl' out' where
      "backlog_loop (Prque_Size q) b c src q [] = Some (q', out)" "backlog_sweep b c bl = Some (bl', out')"
      "r = ((a, q') # bl', out @ out')" by (auto simp: bind_eq_Some)
    then show ?thesis using Cons.IH [of "(bl', out')"] backlog_loop_posts [of _ b c src q "[]" "(q', out)"] by simp
  qed
qed simp

lemma pending_loop_posts: "pending_loop fuel b c q out = Some r \<Longrightarrow> posts out \<Longrightarrow> posts (snd r)"
proof (induction fuel arbitrary: q out)
  case 0
  then show ?case by (subst (asm) pending_loop.simps) (auto split: if_splits)
next
  case (Suc n)
  show ?case
  proof (cases "Prque_Empty q")
    case True
    with Suc.prems show ?thesis by (subst (asm) pending_loop.simps) auto
  next
    case False
    with Suc.prems obtain p prio q1 where P: "Prque_Pop q = Some ((p, prio), q1)"
      by (subst (asm) pending_loop.simps) (auto simp: bind_eq_Some)
    show ?thesis
    proof (cases "checkRequestMsg b p c")
      case None
      with Suc.prems False P have "pending_loop n b c q1 (out @ [PostRequest p]) = Some r"
        by (subst (asm) pending_loop.simps) simp
      with Suc.IH Suc.prems(2) show ?thesis by simp
    next
      case (Some e)
      with Suc.prems False P Suc.IH show ?thesis
        by (subst (asm) pending_loop.simps) (auto split: if_splits)
    qed
  qed
qed

text \<open>\<^verbatim>\<open>setState\<close> changes the state, the queues and posts events, nothing else.\<close>

lemma setState_frame:
  assumes "setState b st c = Some c'"
  shows "\<exists>bl pr out. posts out \<and>
    c' = c\<lparr>c_state := st, backlogs := bl, pendingRequests := pr, outbox := outbox c @ out\<rparr>"
proof -
  from assms obtain c1 where c1: "(if st = StateAcceptRequest then processPendingRequests b (c\<lparr>c_state := st\<rparr>)
      else Some (c\<lparr>c_state := st\<rparr>)) = Some c1" and c': "processBacklog b c1 = Some c'"
    by (auto simp: setState_def bind_eq_Some)
  have "\<exists>pr out. posts out \<and> c1 = c\<lparr>c_state := st, pendingRequests := pr, outbox := outbox c @ out\<rparr>"
  proof (cases "st = StateAcceptRequest")
    case True
    with c1 obtain pr out where "posts out"
      "c1 = c\<lparr>c_state := st, pendingRequests := pr, outbox := outbox c @ out\<rparr>"
      by (auto simp: processPendingRequests_def bind_eq_Some emit_def dest!: pending_loop_posts)
    then show ?thesis by blast
  next
    case False
    then have "c1 = c\<lparr>c_state := st\<rparr>" using c1 by simp
    then have "c1 = c\<lparr>c_state := st, pendingRequests := pendingRequests c, outbox := outbox c @ []\<rparr>"
      by (cases c) simp
    then show ?thesis by (metis posts_simps(1))
  qed
  then obtain pr out where o1: "posts out"
    "c1 = c\<lparr>c_state := st, pendingRequests := pr, outbox := outbox c @ out\<rparr>" by blast
  from c' obtain bl out' where "posts out'" "c' = c1\<lparr>backlogs := bl, outbox := outbox c1 @ out'\<rparr>"
    by (auto simp: processBacklog_def bind_eq_Some emit_def dest!: backlog_sweep_posts)
  with o1 have "posts (out @ out')"
    "c' = c\<lparr>c_state := st, backlogs := bl, pendingRequests := pr, outbox := outbox c @ (out @ out')\<rparr>" by simp_all
  then show ?thesis by blast
qed

text \<open>A broadcast sends at most one message, in the current view and under the node's own name.\<close>

lemma broadcast_frame:
  "\<exists>es. broadcast b sub msg c = c\<lparr>outbox := outbox c @ es\<rparr> \<and>
     (\<forall>e \<in> set es. \<exists>m. e = Broadcast (currentView c) sub m \<and> Code m = Code msg \<and> Msg m = Msg msg \<and>
        Address m = c_address c)"
proof (cases "finalizeMessage b msg c")
  case None
  then have "broadcast b sub msg c = c\<lparr>outbox := outbox c @ []\<rparr>" by (simp add: broadcast_def)
  then show ?thesis by (metis list.set(1) empty_iff)
next
  case (Some m)
  then have "Code m = Code msg \<and> Msg m = Msg msg \<and> Address m = c_address c"
    by (auto simp: finalizeMessage_def bind_eq_Some Let_def split: option.splits if_splits)
  moreover have "broadcast b sub msg c = c\<lparr>outbox := outbox c @ [Broadcast (currentView c) sub m]\<rparr>"
    using Some by (simp add: broadcast_def emit_def)
  ultimately show ?thesis by (metis empty_iff insert_iff list.set(1) list.simps(15))
qed

lemma newMessage_simps [simp]: "Code (newMessage code body) = code" "Msg (newMessage code body) = body"
  by (simp_all add: newMessage_def)

section \<open>The invariant\<close>

definition rs_wf :: "('p \<Rightarrow> hash) \<Rightarrow> address list \<Rightarrow> 'p roundState \<Rightarrow> bool" where
  "rs_wf H vs s \<longleftrightarrow>
     ms_invar (Prepares s) \<and> ms_invar (Commits s) \<and>
     validators (ms_valSet (Prepares s)) = vs \<and> validators (ms_valSet (Commits s)) = vs \<and>
     (lockedHash s \<noteq> 0 \<longrightarrow> Preprepare s \<noteq> None) \<and>
     (\<forall>m \<in> set (messageSet_Values (Prepares s)) \<union> set (messageSet_Values (Commits s)).
        \<exists>sub. message_Decode Subject_DecodeRLP m = Some (Inr sub) \<and> roundState_Subject H s = Some sub)"

text \<open>Votes are recorded only while the engine is past the PRE-PREPARE of its round and not waiting
  for a round change, and they are votes for the proposal it accepted.\<close>

definition eng_invar :: "(bytes \<Rightarrow> hash) \<Rightarrow> ('p \<Rightarrow> hash) \<Rightarrow> 'p core \<Rightarrow> bool" where
  "eng_invar k H c \<longleftrightarrow>
     valset_invar k (c_valSet c) \<and> rs_wf H (validators (c_valSet c)) (current c) \<and>
     rcs_invar (c_roundChangeSet c) \<and>
     validators (rcs_valSet (c_roundChangeSet c)) = validators (c_valSet c) \<and>
     (c_state c = StateAcceptRequest \<or> waitingForRoundChange c \<longrightarrow>
        messages (Prepares (current c)) = [] \<and> messages (Commits (current c)) = []) \<and>
     (c_state c \<noteq> StateAcceptRequest \<and> \<not> waitingForRoundChange c \<longrightarrow> Preprepare (current c) \<noteq> None)"

definition backend_ok :: "(bytes \<Rightarrow> hash) \<Rightarrow> ('p \<Rightarrow> hash) \<Rightarrow> 'p backend \<Rightarrow> bool" where
  "backend_ok k H b \<longleftrightarrow> p_Hash b = H \<and> (\<forall>p. valset_invar k (be_Validators b p))"

lemma newRoundState_simps [simp]:
  "rs_round (newRoundState v vs l pp pr) = Round v" "rs_sequence (newRoundState v vs l pp pr) = Sequence v"
  "Preprepare (newRoundState v vs l pp pr) = pp" "lockedHash (newRoundState v vs l pp pr) = l"
  "pendingRequest (newRoundState v vs l pp pr) = pr"
  "messages (Prepares (newRoundState v vs l pp pr)) = []" "messages (Commits (newRoundState v vs l pp pr)) = []"
  by (simp_all add: newRoundState_def)

lemma newRoundState_wf:
  "(l \<noteq> 0 \<longrightarrow> pp \<noteq> None) \<Longrightarrow> rs_wf H (validators vs) (newRoundState v vs l pp pr)"
  by (simp add: rs_wf_def newRoundState_def messageSet_Values_def)

lemma updateRoundState_current:
  "\<exists>l pp pr. current (updateRoundState b v vs rc c) = newRoundState v vs l pp pr \<and>
     (l \<noteq> 0 \<longrightarrow> l = lockedHash (current c) \<and> pp = Preprepare (current c))"
  by (auto simp: updateRoundState_def)

lemma updateRoundState_frame: "\<exists>rs. updateRoundState b v vs rc c = c\<lparr>current := rs\<rparr>"
  by (auto simp: updateRoundState_def)

section \<open>Round changes\<close>

text \<open>\<^verbatim>\<open>sendRoundChange\<close> to a later round: a fresh round state, waiting, one ROUND CHANGE message.\<close>

lemma sendRoundChange_old: "r \<le> rs_round (current c) \<Longrightarrow> sendRoundChange b r c = c"
  by (simp add: sendRoundChange_def currentView_def)

lemma sendRoundChange_new:
  assumes "rs_round (current c) < r"
  obtains l pp pr t es where "l \<noteq> 0 \<longrightarrow> l = lockedHash (current c) \<and> pp = Preprepare (current c)"
    "\<forall>e \<in> set es. \<exists>v sub m. e = Broadcast v sub m \<and> Code m = msgRoundChange"
    "sendRoundChange b r c =
      c\<lparr>current := newRoundState \<lparr>Round = r, Sequence = rs_sequence (current c)\<rparr> (c_valSet c) l pp pr,
        waitingForRoundChange := True, futurePreprepareTimer := None, roundChangeTimer := t,
        c_roundChangeSet := roundChangeSet_Clear r (c_roundChangeSet c), outbox := outbox c @ es\<rparr>"
proof -
  let ?v = "\<lparr>Round = r, Sequence = rs_sequence (current c)\<rparr>"
  define c1 where "c1 = catchUpRound b ?v c"
  obtain l pp pr where u: "current (updateRoundState b ?v (c_valSet c) True (c\<lparr>waitingForRoundChange := True\<rparr>)) =
      newRoundState ?v (c_valSet c) l pp pr" "l \<noteq> 0 \<longrightarrow> l = lockedHash (current c) \<and> pp = Preprepare (current c)"
    using updateRoundState_current [of b ?v "c_valSet c" True "c\<lparr>waitingForRoundChange := True\<rparr>"] by auto
  obtain rs where f: "updateRoundState b ?v (c_valSet c) True (c\<lparr>waitingForRoundChange := True\<rparr>) =
      c\<lparr>waitingForRoundChange := True, current := rs\<rparr>"
    using updateRoundState_frame [of b ?v "c_valSet c" True "c\<lparr>waitingForRoundChange := True\<rparr>"] by auto
  then have rs: "rs = newRoundState ?v (c_valSet c) l pp pr" using u(1) by simp
  define t where "t = Some (roundTimeout b (RequestTimeout c) (of_nat r))"
  have c1: "c1 = c\<lparr>current := newRoundState ?v (c_valSet c) l pp pr,
        waitingForRoundChange := True, futurePreprepareTimer := None, roundChangeTimer := t,
        c_roundChangeSet := roundChangeSet_Clear r (c_roundChangeSet c)\<rparr>"
    unfolding c1_def catchUpRound_def f rs
    by (cases c) (simp add: newRoundChangeTimer_def stopTimer_def t_def)
  let ?rc = "Some \<lparr>sub_View = currentView c1, Digest = 0\<rparr>"
  obtain es where es: "broadcast b ?rc (newMessage msgRoundChange (Encode_subject ?rc)) c1 = c1\<lparr>outbox := outbox c1 @ es\<rparr>"
    "\<forall>e \<in> set es. \<exists>m. e = Broadcast (currentView c1) ?rc m \<and> Code m = msgRoundChange"
    using broadcast_frame [of b ?rc "newMessage msgRoundChange (Encode_subject ?rc)" c1]
    unfolding newMessage_simps by blast
  have "sendRoundChange b r c = c1\<lparr>outbox := outbox c1 @ es\<rparr>"
    using assms es(1) by (simp add: sendRoundChange_def currentView_def c1_def [symmetric] Let_def)
  also have "\<dots> = c\<lparr>current := newRoundState ?v (c_valSet c) l pp pr,
        waitingForRoundChange := True, futurePreprepareTimer := None, roundChangeTimer := t,
        c_roundChangeSet := roundChangeSet_Clear r (c_roundChangeSet c), outbox := outbox c @ es\<rparr>"
    unfolding c1 by simp
  finally have "sendRoundChange b r c = c\<lparr>current := newRoundState ?v (c_valSet c) l pp pr,
        waitingForRoundChange := True, futurePreprepareTimer := None, roundChangeTimer := t,
        c_roundChangeSet := roundChangeSet_Clear r (c_roundChangeSet c), outbox := outbox c @ es\<rparr>" .
  moreover have "\<forall>e \<in> set es. \<exists>v sub m. e = Broadcast v sub m \<and> Code m = msgRoundChange" using es(2) by blast
  ultimately show ?thesis using that u(2) by blast
qed

lemma sendRoundChange_invar:
  assumes "eng_invar k H c"
  shows "eng_invar k H (sendRoundChange b r c)"
proof (cases "r \<le> rs_round (current c)")
  case True
  then show ?thesis using assms sendRoundChange_old by metis
next
  case False
  then have "rs_round (current c) < r" by simp
  then obtain l pp pr t es where l: "l \<noteq> 0 \<longrightarrow> l = lockedHash (current c) \<and> pp = Preprepare (current c)"
    and e: "sendRoundChange b r c =
      c\<lparr>current := newRoundState \<lparr>Round = r, Sequence = rs_sequence (current c)\<rparr> (c_valSet c) l pp pr,
        waitingForRoundChange := True, futurePreprepareTimer := None, roundChangeTimer := t,
        c_roundChangeSet := roundChangeSet_Clear r (c_roundChangeSet c), outbox := outbox c @ es\<rparr>"
    by (rule sendRoundChange_new)
  have "l \<noteq> 0 \<longrightarrow> pp \<noteq> None" using l assms by (auto simp: eng_invar_def rs_wf_def)
  then show ?thesis using assms roundChangeSet_Clear_invar [of "c_roundChangeSet c" r]
    unfolding e by (simp add: eng_invar_def newRoundState_wf)
qed

lemma sendNextRoundChange_invar: "eng_invar k H c \<Longrightarrow> eng_invar k H (sendNextRoundChange b c)"
  by (simp add: sendNextRoundChange_def sendRoundChange_invar)

section \<open>What one event may do\<close>

definition same_round :: "'p core \<Rightarrow> 'p core \<Rightarrow> bool" where
  "same_round c c' \<longleftrightarrow> currentView c' = currentView c \<and> waitingForRoundChange c' = waitingForRoundChange c \<and>
     c_state c \<le> c_state c' \<and>
     (c_state c \<noteq> StateAcceptRequest \<longrightarrow> Preprepare (current c') = Preprepare (current c))"

definition next_round :: "'p core \<Rightarrow> 'p core \<Rightarrow> bool" where
  "next_round c c' \<longleftrightarrow> view_less (currentView c) (currentView c') \<or>
     currentView c' = currentView c \<and> waitingForRoundChange c \<and> \<not> waitingForRoundChange c'"

text \<open>A certificate: enough COMMIT messages of validators for one proposal in the current view.\<close>

definition certificate :: "('p \<Rightarrow> hash) \<Rightarrow> 'p core \<Rightarrow> 'p \<Rightarrow> messageSet \<Rightarrow> bool" where
  "certificate H c p cs \<longleftrightarrow> ms_invar cs \<and> validators (ms_valSet cs) = validators (c_valSet c) \<and>
     Confirmations (c_valSet c) \<le> messageSet_Size cs \<and>
     (\<forall>m \<in> set (messageSet_Values cs).
        message_Decode Subject_DecodeRLP m = Some (Inr \<lparr>sub_View = currentView c, Digest = H p\<rparr>))"

definition first_hand :: "('p \<Rightarrow> hash) \<Rightarrow> 'p core \<Rightarrow> 'p core \<Rightarrow> subject option \<Rightarrow> bool" where
  "first_hand H c c' sub \<longleftrightarrow> same_round c c' \<and> \<not> waitingForRoundChange c \<and> c_state c < StatePrepared \<and>
     StatePrepared \<le> c_state c' \<and> sub = roundState_Subject H (current c') \<and> sub \<noteq> None"

fun effect_ok :: "('p \<Rightarrow> hash) \<Rightarrow> 'p core \<Rightarrow> 'p core \<Rightarrow> 'p effect \<Rightarrow> bool" where
  "effect_ok H c c' (Broadcast v sub m) \<longleftrightarrow>
     (Code m = msgCommit \<longrightarrow> Address m = c_address c \<and> v = currentView c \<and>
        (first_hand H c c' sub \<or> (\<exists>s. sub = Some s \<and> view_less (sub_View s) v)))"
| "effect_ok H c c' (CommitProposal p seals) \<longleftrightarrow>
     (\<exists>cs. certificate H c p cs \<and> seals = map sealOf (messageSet_Values cs))"
| "effect_ok H c c' _ \<longleftrightarrow> True"

definition step_ok :: "(bytes \<Rightarrow> hash) \<Rightarrow> ('p \<Rightarrow> hash) \<Rightarrow> 'p core \<Rightarrow> 'p core \<Rightarrow> bool" where
  "step_ok k H c c' \<longleftrightarrow> eng_invar k H c' \<and> c_address c' = c_address c \<and>
     (same_round c c' \<or> next_round c c') \<and>
     (\<exists>es. outbox c' = outbox c @ es \<and> (\<forall>e \<in> set es. effect_ok H c c' e))"

definition quiet :: "'p effect list \<Rightarrow> bool" where
  "quiet es \<longleftrightarrow> (\<forall>e \<in> set es. case e of Broadcast _ _ m \<Rightarrow> Code m \<noteq> msgCommit | CommitProposal _ _ \<Rightarrow> False | _ \<Rightarrow> True)"

lemma quiet_simps [simp]: "quiet []" "quiet (es @ fs) \<longleftrightarrow> quiet es \<and> quiet fs"
  "quiet (Gossip x # es) \<longleftrightarrow> quiet es"
  by (auto simp: quiet_def)

lemma posts_quiet: "posts es \<Longrightarrow> quiet es"
  by (auto simp: posts_def quiet_def split: effect.splits)

lemma quiet_ok: "quiet es \<Longrightarrow> e \<in> set es \<Longrightarrow> effect_ok H c c' e"
  by (cases e) (auto simp: quiet_def)

lemma same_round_refl [simp]: "same_round c c"
  by (simp add: same_round_def)

lemma step_ok_quiet:
  assumes "eng_invar k H c'" and "c_address c' = c_address c" and "same_round c c' \<or> next_round c c'"
    and "outbox c' = outbox c @ es" and "quiet es"
  shows "step_ok k H c c'"
  unfolding step_ok_def using assms quiet_ok by blast

lemma step_ok_refl: "eng_invar k H c \<Longrightarrow> step_ok k H c c"
  by (rule step_ok_quiet [where es = "[]"]) simp_all

text \<open>Storing a message or a request and gossiping a payload do not matter.\<close>

lemma eng_invar_frame [simp]:
  "eng_invar k H (c\<lparr>backlogs := bl\<rparr>) = eng_invar k H c" "eng_invar k H (c\<lparr>pendingRequests := q\<rparr>) = eng_invar k H c"
  "eng_invar k H (c\<lparr>outbox := os\<rparr>) = eng_invar k H c"
  "eng_invar k H (c\<lparr>futurePreprepareTimer := ft\<rparr>) = eng_invar k H c"
  "eng_invar k H (c\<lparr>roundChangeTimer := t\<rparr>) = eng_invar k H c"
  by (simp_all add: eng_invar_def)

lemma currentView_frame [simp]:
  "currentView (c\<lparr>backlogs := bl\<rparr>) = currentView c" "currentView (c\<lparr>pendingRequests := q\<rparr>) = currentView c"
  "currentView (c\<lparr>outbox := os\<rparr>) = currentView c" "currentView (c\<lparr>c_state := st\<rparr>) = currentView c"
  "currentView (c\<lparr>futurePreprepareTimer := ft\<rparr>) = currentView c" "currentView (c\<lparr>roundChangeTimer := t\<rparr>) = currentView c"
  "currentView (c\<lparr>c_valSet := vs\<rparr>) = currentView c" "currentView (c\<lparr>waitingForRoundChange := w\<rparr>) = currentView c"
  "currentView (c\<lparr>c_roundChangeSet := rcs\<rparr>) = currentView c"
  by (simp_all add: currentView_def)

lemma step_ok_frame:
  assumes "step_ok k H c c1" and "c' = c1\<lparr>backlogs := bl, pendingRequests := pr, outbox := outbox c1 @ es\<rparr>" and "quiet es"
  shows "step_ok k H c c'"
proof -
  have r: "same_round c c' = same_round c c1" "next_round c c' = next_round c c1"
    "first_hand H c c' sub = first_hand H c c1 sub" for sub
    by (simp_all add: assms(2) same_round_def next_round_def first_hand_def)
  have "effect_ok H c c' e = effect_ok H c c1 e" for e by (cases e) (simp_all add: r)
  note eq = this
  from assms(1) obtain fs where fs: "outbox c1 = outbox c @ fs" "\<forall>e \<in> set fs. effect_ok H c c1 e"
    by (auto simp: step_ok_def)
  have "outbox c' = outbox c @ (fs @ es)" using fs(1) by (simp add: assms(2))
  moreover have "\<forall>e \<in> set (fs @ es). effect_ok H c c' e"
    using fs(2) eq quiet_ok [OF assms(3)] by auto
  moreover have "eng_invar k H c'" "c_address c' = c_address c" "same_round c c' \<or> next_round c c'"
    unfolding r using assms(1,2) by (simp_all add: step_ok_def)
  ultimately show ?thesis unfolding step_ok_def by (intro conjI exI [of _ "fs @ es"])
qed

section \<open>Entering a round\<close>

lemma broadcast_quiet:
  assumes "Code msg \<noteq> msgCommit"
  obtains es where "broadcast b sub msg c = c\<lparr>outbox := outbox c @ es\<rparr>" "quiet es"
proof -
  from broadcast_frame [of b sub msg c] obtain es where es: "broadcast b sub msg c = c\<lparr>outbox := outbox c @ es\<rparr>"
    "\<forall>e \<in> set es. \<exists>m. e = Broadcast (currentView c) sub m \<and> Code m = Code msg \<and> Msg m = Msg msg \<and> Address m = c_address c"
    by blast
  have "quiet es" unfolding quiet_def using es(2) assms by fastforce
  with es(1) that show ?thesis by blast
qed

lemma sendPreprepare_frame:
  obtains es where "sendPreprepare b p c = c\<lparr>outbox := outbox c @ es\<rparr>" "quiet es"
proof (cases "rs_sequence (current c) = p_Number b p \<and> core_IsProposer c")
  case True
  let ?m = "newMessage msgPreprepare
    (EncodeToBytes (Preprepare_EncodeRLP (p_item b) \<lparr>pp_View = currentView c, Proposal = p\<rparr>))"
  have "Code ?m \<noteq> msgCommit" by (simp add: msgPreprepare_def msgCommit_def)
  then obtain es where "broadcast b None ?m c = c\<lparr>outbox := outbox c @ es\<rparr>" "quiet es" by (rule broadcast_quiet)
  with True that show ?thesis by (simp add: sendPreprepare_def)
next
  case False
  then have "sendPreprepare b p c = c\<lparr>outbox := outbox c @ []\<rparr>" by (auto simp: sendPreprepare_def)
  with that show ?thesis using quiet_simps(1) by blast
qed

lemma CalcProposer_simps [simp]: "validators (CalcProposer a r v) = validators v"
  "valset_invar k (CalcProposer a r v) = valset_invar k v"
  by (simp_all add: CalcProposer_def valset_invar_def)

lemma enterRound_frame:
  assumes "enterRound b nv rc lp c = Some c'" and "lockedHash (current c) \<noteq> 0 \<longrightarrow> Preprepare (current c) \<noteq> None"
  obtains l pp pr vs bl q t es where "l \<noteq> 0 \<longrightarrow> pp \<noteq> None" "validators vs = validators (c_valSet c)"
    "valset_invar k vs = valset_invar k (c_valSet c)" "quiet es"
    "c' = c\<lparr>c_roundChangeSet := newRoundChangeSet (c_valSet c), current := newRoundState nv (c_valSet c) l pp pr,
        c_valSet := vs, waitingForRoundChange := False, c_state := StateAcceptRequest, backlogs := bl,
        pendingRequests := q, outbox := outbox c @ es, futurePreprepareTimer := None, roundChangeTimer := t\<rparr>"
proof -
  define c1 where "c1 = c\<lparr>c_roundChangeSet := newRoundChangeSet (c_valSet c)\<rparr>"
  define c2 where "c2 = updateRoundState b nv (c_valSet c1) rc c1"
  define c3 where "c3 = c2\<lparr>c_valSet := CalcProposer lp (of_nat (Round nv)) (c_valSet c2), waitingForRoundChange := False\<rparr>"
  obtain l pp pr where u: "current c2 = newRoundState nv (c_valSet c) l pp pr"
    "l \<noteq> 0 \<longrightarrow> l = lockedHash (current c) \<and> pp = Preprepare (current c)"
    using updateRoundState_current [of b nv "c_valSet c1" rc c1] by (auto simp: c1_def c2_def)
  have c2: "c2 = c1\<lparr>current := newRoundState nv (c_valSet c) l pp pr\<rparr>"
    using updateRoundState_frame [of b nv "c_valSet c1" rc c1] u(1) by (auto simp: c2_def)
  from assms(1) obtain c4 c5 where c4: "setState b StateAcceptRequest c3 = Some c4"
    and c5: "c5 = c4 \<or> (\<exists>p. c5 = sendPreprepare b p c4)" and c': "c' = newRoundChangeTimer b c5"
    unfolding enterRound_def Let_def c1_def [symmetric] c2_def [symmetric] c3_def [symmetric]
    by (auto simp: bind_eq_Some split: if_splits option.splits)
  from setState_frame [OF c4] obtain bl q out where o: "posts out"
    "c4 = c3\<lparr>c_state := StateAcceptRequest, backlogs := bl, pendingRequests := q, outbox := outbox c3 @ out\<rparr>" by blast
  obtain es where es: "c5 = c4\<lparr>outbox := outbox c4 @ es\<rparr>" "quiet es"
    using c5
  proof
    assume "c5 = c4"
    then have "c5 = c4\<lparr>outbox := outbox c4 @ []\<rparr>" by simp
    then show ?thesis using that quiet_simps(1) by blast
  next
    assume "\<exists>p. c5 = sendPreprepare b p c4"
    then show ?thesis using sendPreprepare_frame that by metis
  qed
  define t where "t = Some (roundTimeout b (RequestTimeout c) (of_nat (Round nv)))"
  have e: "c' = c\<lparr>c_roundChangeSet := newRoundChangeSet (c_valSet c), current := newRoundState nv (c_valSet c) l pp pr,
        c_valSet := CalcProposer lp (of_nat (Round nv)) (c_valSet c), waitingForRoundChange := False,
        c_state := StateAcceptRequest, backlogs := bl,
        pendingRequests := q, outbox := outbox c @ (out @ es), futurePreprepareTimer := None, roundChangeTimer := t\<rparr>"
    unfolding c' newRoundChangeTimer_def stopTimer_def t_def es(1) o(2) c3_def c2 c1_def by simp
  have l: "l \<noteq> 0 \<longrightarrow> pp \<noteq> None" using u(2) assms(2) by auto
  have "quiet (out @ es)" using o(1) es(2) posts_quiet by simp
  from that [OF l CalcProposer_simps this e] show ?thesis .
qed

lemma enterRound_invar:
  assumes "enterRound b nv rc lp c = Some c'" and "lockedHash (current c) \<noteq> 0 \<longrightarrow> Preprepare (current c) \<noteq> None"
    and "valset_invar k (c_valSet c)"
  shows "eng_invar k H c' \<and> currentView c' = nv \<and> \<not> waitingForRoundChange c' \<and> c_address c' = c_address c \<and>
    (\<exists>es. outbox c' = outbox c @ es \<and> quiet es)"
proof -
  from assms(1,2) obtain l pp pr vs bl q t es where f: "l \<noteq> 0 \<longrightarrow> pp \<noteq> None" "validators vs = validators (c_valSet c)"
    "valset_invar k vs = valset_invar k (c_valSet c)" "quiet es"
    "c' = c\<lparr>c_roundChangeSet := newRoundChangeSet (c_valSet c), current := newRoundState nv (c_valSet c) l pp pr,
        c_valSet := vs, waitingForRoundChange := False, c_state := StateAcceptRequest, backlogs := bl,
        pendingRequests := q, outbox := outbox c @ es, futurePreprepareTimer := None, roundChangeTimer := t\<rparr>"
    by (rule enterRound_frame [where k = k])
  have "rcs_valSet (newRoundChangeSet (c_valSet c)) = c_valSet c" by (simp add: newRoundChangeSet_def)
  moreover have "rs_wf H (validators (c_valSet c)) (newRoundState nv (c_valSet c) l pp pr)"
    using f(1) by (rule newRoundState_wf)
  ultimately have "eng_invar k H c'" unfolding f(5) using f(2,3) assms(3) by (simp add: eng_invar_def)
  moreover have "currentView c' = nv" unfolding f(5) by (simp add: currentView_def)
  moreover have "outbox c' = outbox c @ es" "\<not> waitingForRoundChange c'" "c_address c' = c_address c"
    unfolding f(5) by simp_all
  ultimately show ?thesis using f(4) by blast
qed

section \<open>Each handler\<close>

text \<open>A round change moves the engine to a higher round; it may follow a harmless prefix \<open>c1\<close>.\<close>

lemma sendRoundChange_step:
  assumes "eng_invar k H c" and "rs_round (current c) < r"
  shows "eng_invar k H (sendRoundChange b r c) \<and> c_address (sendRoundChange b r c) = c_address c \<and>
    view_less (currentView c) (currentView (sendRoundChange b r c)) \<and>
    (\<exists>es. outbox (sendRoundChange b r c) = outbox c @ es \<and> quiet es)"
proof -
  from assms(2) obtain l pp pr t es where
    es: "\<forall>e \<in> set es. \<exists>v sub m. e = Broadcast v sub m \<and> Code m = msgRoundChange"
    and e: "sendRoundChange b r c =
      c\<lparr>current := newRoundState \<lparr>Round = r, Sequence = rs_sequence (current c)\<rparr> (c_valSet c) l pp pr,
        waitingForRoundChange := True, futurePreprepareTimer := None, roundChangeTimer := t,
        c_roundChangeSet := roundChangeSet_Clear r (c_roundChangeSet c), outbox := outbox c @ es\<rparr>"
    by (rule sendRoundChange_new)
  have "quiet es" unfolding quiet_def using es by (fastforce simp: msgRoundChange_def msgCommit_def)
  moreover have "outbox (sendRoundChange b r c) = outbox c @ es" "c_address (sendRoundChange b r c) = c_address c"
    unfolding e by simp_all
  moreover have "view_less (currentView c) (currentView (sendRoundChange b r c))"
    unfolding e currentView_def using assms(2) by (simp add: view_less_def)
  ultimately show ?thesis using sendRoundChange_invar [OF assms(1)] by blast
qed

lemma sendRoundChange_ok:
  assumes "eng_invar k H c"
  shows "step_ok k H c (sendRoundChange b r c)"
proof (cases "rs_round (current c) < r")
  case True
  from sendRoundChange_step [OF assms True, of b] show ?thesis
    by (metis next_round_def step_ok_quiet)
next
  case False
  then have "sendRoundChange b r c = c" by (simp add: sendRoundChange_old)
  with assms show ?thesis by (simp add: step_ok_refl)
qed

lemma sendNextRoundChange_ok: "eng_invar k H c \<Longrightarrow> step_ok k H c (sendNextRoundChange b c)"
  by (simp add: sendNextRoundChange_def sendRoundChange_ok)

lemma startNewRound_ok:
  assumes "startNewRound b r c = Some c'" and "eng_invar k H c" and "backend_ok k H b"
    and "r \<noteq> 0 \<Longrightarrow> waitingForRoundChange c \<or> rs_round (current c) < r"
  shows "step_ok k H c c'"
proof -
  obtain lp a where L: "be_LastProposal b = (Some lp, a)"
    using assms(1) by (cases "be_LastProposal b"; cases "fst (be_LastProposal b)") (simp_all add: startNewRound_def)
  let ?n = "p_Number b lp" and ?seq = "rs_sequence (current c)"
  have lock: "lockedHash (current c) \<noteq> 0 \<longrightarrow> Preprepare (current c) \<noteq> None" and vs: "valset_invar k (c_valSet c)"
    using assms(2) by (simp_all add: eng_invar_def rs_wf_def)
  consider (catch) "?n \<ge> ?seq" "enterRound b \<lparr>Round = 0, Sequence = ?n + 1\<rparr> False a (c\<lparr>c_valSet := be_Validators b lp\<rparr>) = Some c'"
    | (rnd) "r \<noteq> 0" "r \<ge> rs_round (current c)" "enterRound b \<lparr>Round = r, Sequence = ?seq\<rparr> True a c = Some c'"
    | (same) "c' = c"
    using assms(1) by (auto simp: startNewRound_def L Let_def not_less split: if_splits)
  then show ?thesis
  proof cases
    case catch
    have "valset_invar k (c_valSet (c\<lparr>c_valSet := be_Validators b lp\<rparr>))" using assms(3) by (simp add: backend_ok_def)
    with enterRound_invar [OF catch(2), of k H] lock obtain es where e: "eng_invar k H c'"
      "currentView c' = \<lparr>Round = 0, Sequence = ?n + 1\<rparr>" "c_address c' = c_address c" "outbox c' = outbox c @ es" "quiet es"
      by auto
    have "next_round c c'" using catch(1) e(2) by (simp add: next_round_def currentView_def view_less_def)
    with e show ?thesis by (blast intro: step_ok_quiet)
  next
    case rnd
    from enterRound_invar [OF rnd(3) lock vs, of H] obtain es where e: "eng_invar k H c'" "\<not> waitingForRoundChange c'"
      "currentView c' = \<lparr>Round = r, Sequence = ?seq\<rparr>" "c_address c' = c_address c" "outbox c' = outbox c @ es" "quiet es"
      by auto
    have "next_round c c'" using rnd(1,2) e(2,3) assms(4) by (auto simp: next_round_def currentView_def view_less_def)
    with e show ?thesis by (blast intro: step_ok_quiet)
  next
    case same
    with assms(2) show ?thesis by (simp add: step_ok_refl)
  qed
qed

lemma roundState_Subject_frame [simp]:
  "roundState_Subject H (s\<lparr>pendingRequest := q\<rparr>) = roundState_Subject H s"
  "roundState_Subject H (s\<lparr>Prepares := ms\<rparr>) = roundState_Subject H s"
  "roundState_Subject H (s\<lparr>Commits := ms\<rparr>) = roundState_Subject H s"
  "roundState_Subject H (s\<lparr>lockedHash := h\<rparr>) = roundState_Subject H s"
  by (auto simp: roundState_Subject_def split: option.splits)

lemma handleRequest_ok:
  assumes "eng_invar k H c"
  shows "step_ok k H c (snd (handleRequest b p c))"
proof (cases "checkRequestMsg b p c")
  case (Some e)
  with assms show ?thesis by (simp add: handleRequest_def step_ok_refl)
next
  case None
  define c1 where "c1 = c\<lparr>current := (current c)\<lparr>pendingRequest := Some p\<rparr>\<rparr>"
  have "rs_wf H vs (current c1) = rs_wf H vs (current c)" for vs
    by (simp add: c1_def rs_wf_def)
  then have i: "eng_invar k H c1" using assms by (simp add: eng_invar_def c1_def)
  have r: "same_round c c1" by (simp add: same_round_def c1_def currentView_def)
  obtain es where es: "snd (handleRequest b p c) = c1\<lparr>outbox := outbox c1 @ es\<rparr>" "quiet es"
  proof (cases "c_state c1 = StateAcceptRequest")
    case True
    obtain es where "sendPreprepare b p c1 = c1\<lparr>outbox := outbox c1 @ es\<rparr>" "quiet es" by (rule sendPreprepare_frame)
    with None True that show ?thesis by (simp add: handleRequest_def c1_def)
  next
    case False
    with None have "snd (handleRequest b p c) = c1\<lparr>outbox := outbox c1 @ []\<rparr>"
      by (simp add: handleRequest_def c1_def)
    with that quiet_simps(1) show ?thesis by blast
  qed
  have s: "step_ok k H c c1" by (rule step_ok_quiet [where es = "[]"]) (use i r in \<open>simp_all add: c1_def\<close>)
  have "snd (handleRequest b p c) = c1\<lparr>backlogs := backlogs c1, pendingRequests := pendingRequests c1, outbox := outbox c1 @ es\<rparr>"
    unfolding es(1) by (cases c1) simp
  from step_ok_frame [OF s this es(2)] show ?thesis .
qed

text \<open>A vote that is accepted is for the current view, past the PRE-PREPARE.\<close>

lemma checkMessage_None:
  assumes "checkMessage code v c = None" and "code \<noteq> msgRoundChange"
  shows "v = currentView c" and "\<not> waitingForRoundChange c"
    and "code > msgPreprepare \<Longrightarrow> c_state c \<noteq> StateAcceptRequest"
  using assms View_Cmp_iff [of v "currentView c"] view_cases [of v "currentView c"]
  by (auto simp: checkMessage_def split: if_splits)

lemma checkMessage_old:
  assumes "checkMessage code v c = Some errOldMessage"
  shows "view_less v (currentView c)"
  using assms by (auto simp: checkMessage_def View_Cmp_iff split: if_splits)

lemma checkMessage_RoundChange:
  assumes "checkMessage msgRoundChange v c = None"
  shows "Sequence v = rs_sequence (current c)" and "rs_round (current c) \<le> Round v"
  using assms by (auto simp: checkMessage_def View_Cmp_iff big_Cmp_def view_less_def currentView_def split: if_splits)

lemma msgCode_simps [simp]: "msgPreprepare < msgPrepare" "msgPreprepare < msgCommit"
  "msgPrepare \<noteq> msgRoundChange" "msgCommit \<noteq> msgRoundChange" "msgPreprepare \<noteq> msgRoundChange"
  "msgPrepare \<noteq> msgCommit"
  by (simp_all add: msgPreprepare_def msgPrepare_def msgCommit_def msgRoundChange_def)

lemma setState_ok:
  assumes "setState b st (c\<lparr>current := s\<rparr>) = Some c1" and "eng_invar k H (c\<lparr>current := s, c_state := st\<rparr>)"
    and "same_round c (c\<lparr>current := s, c_state := st\<rparr>)"
  obtains out where "step_ok k H c c1" "same_round c c1" "currentView c1 = currentView c" "current c1 = s" "c_state c1 = st"
    "outbox c1 = outbox c @ out" "quiet out" "c_address c1 = c_address c" "eng_invar k H c1"
    "c_valSet c1 = c_valSet c" "waitingForRoundChange c1 = waitingForRoundChange c"
proof -
  define c0 where "c0 = c\<lparr>current := s, c_state := st\<rparr>"
  from setState_frame [OF assms(1)] obtain bl pr out where f: "posts out"
    "c1 = c0\<lparr>backlogs := bl, pendingRequests := pr, outbox := outbox c0 @ out\<rparr>"
    by (auto simp: c0_def)
  have "outbox c0 = outbox c @ []" "c_address c0 = c_address c" by (simp_all add: c0_def)
  with assms(2,3) have "step_ok k H c c0" unfolding c0_def [symmetric]
    by (blast intro: step_ok_quiet quiet_simps(1))
  from step_ok_frame [OF this f(2) posts_quiet [OF f(1)]] have s: "step_ok k H c c1" .
  have e: "same_round c c1" "eng_invar k H c1"
    using assms(2,3) unfolding f(2) c0_def [symmetric] by (simp_all add: same_round_def)
  then have "currentView c1 = currentView c" by (simp add: same_round_def)
  from that [OF s e(1) this _ _ _ posts_quiet [OF f(1)] _ e(2)] show ?thesis unfolding f(2) c0_def by simp
qed

lemma sendCommit_first:
  assumes "setState b st (c\<lparr>current := s\<rparr>) = Some c1" and "eng_invar k H (c\<lparr>current := s, c_state := st\<rparr>)"
    and "same_round c (c\<lparr>current := s, c_state := st\<rparr>)" and "\<not> waitingForRoundChange c" and "c_state c < StatePrepared"
    and "StatePrepared \<le> st" and "Preprepare s \<noteq> None" and "p_Hash b = H"
  shows "step_ok k H c (sendCommit b c1)"
proof -
  from assms(1-3) obtain out where s: "step_ok k H c c1" "same_round c c1" "currentView c1 = currentView c"
    "current c1 = s" "c_state c1 = st" "outbox c1 = outbox c @ out" "quiet out" "c_address c1 = c_address c" "eng_invar k H c1"
    by (rule setState_ok)
  let ?sub = "roundState_Subject (p_Hash b) (current c1)"
  obtain es where es: "sendCommit b c1 = c1\<lparr>outbox := outbox c1 @ es\<rparr>"
    "\<forall>e \<in> set es. \<exists>m. e = Broadcast (currentView c1) ?sub m \<and> Address m = c_address c1"
    using broadcast_frame [of b ?sub "newMessage msgCommit (Encode_subject ?sub)" c1]
    unfolding sendCommit_def broadcastCommit_def by blast
  let ?c' = "sendCommit b c1"
  have r: "same_round c ?c'" "c_state ?c' = st" "current ?c' = s" "c_address ?c' = c_address c" "eng_invar k H ?c'"
    using s(2,4,5,8,9) unfolding es(1) by (simp_all add: same_round_def)
  have "?sub \<noteq> None" using assms(7) s(4) by (auto simp: roundState_Subject_def)
  then have "first_hand H c ?c' ?sub" using r s(4) assms(4-6,8) by (simp add: first_hand_def)
  then have "\<forall>e \<in> set es. effect_ok H c ?c' e" using es(2) s(3,8) by fastforce
  moreover have "outbox ?c' = outbox c @ (out @ es)" using s(6) unfolding es(1) by simp
  moreover have "\<forall>e \<in> set out. effect_ok H c ?c' e" using s(7) quiet_ok by blast
  ultimately have "\<exists>es. outbox ?c' = outbox c @ es \<and> (\<forall>e \<in> set es. effect_ok H c ?c' e)"
    by (intro exI [of _ "out @ es"]) auto
  with r show ?thesis by (simp add: step_ok_def)
qed

lemma sendCommitForOldBlock_ok:
  assumes "eng_invar k H c" and "view_less v (currentView c)"
  shows "step_ok k H c (sendCommitForOldBlock b v d c)"
proof -
  let ?sub = "Some \<lparr>sub_View = v, Digest = d\<rparr>" and ?c' = "sendCommitForOldBlock b v d c"
  obtain es where es: "?c' = c\<lparr>outbox := outbox c @ es\<rparr>"
    "\<forall>e \<in> set es. \<exists>m. e = Broadcast (currentView c) ?sub m \<and> Address m = c_address c"
    using broadcast_frame [of b ?sub "newMessage msgCommit (Encode_subject ?sub)" c]
    unfolding sendCommitForOldBlock_def broadcastCommit_def by blast
  have "\<forall>e \<in> set es. effect_ok H c ?c' e" using es(2) assms(2) by fastforce
  moreover have "same_round c ?c'" "eng_invar k H ?c'" "c_address ?c' = c_address c" "outbox ?c' = outbox c @ es"
    using assms(1) unfolding es(1) by (simp_all add: same_round_def)
  ultimately show ?thesis by (auto simp: step_ok_def)
qed

lemma SetPreprepare_invar:
  assumes "eng_invar k H c" and "c_state c = StateAcceptRequest"
  shows "eng_invar k H (c\<lparr>current := SetPreprepare pp (current c), c_state := st\<rparr>)"
    and "same_round c (c\<lparr>current := SetPreprepare pp (current c), c_state := st\<rparr>)"
proof -
  show "eng_invar k H (c\<lparr>current := SetPreprepare pp (current c), c_state := st\<rparr>)"
    using assms by (simp add: eng_invar_def rs_wf_def SetPreprepare_def messageSet_Values_def)
  show "same_round c (c\<lparr>current := SetPreprepare pp (current c), c_state := st\<rparr>)"
    using assms by (simp add: same_round_def currentView_def SetPreprepare_def less_eq_State_def less_State_def)
qed

text \<open>An accepted vote keeps the invariant: it is a vote for the accepted proposal.\<close>

lemma messageSet_Add_Values:
  "set (messageSet_Values (snd (messageSet_Add msg ms))) \<subseteq> insert msg (set (messageSet_Values ms))"
proof -
  have "set (AList.update k v al) \<subseteq> insert (k, v) (set al)" for k :: address and v :: message and al
    by (induction al) auto
  from this [of "Address msg" msg "messages ms"] show ?thesis
    by (auto simp: messageSet_Add_eq addVerifiedMessage_def messageSet_Values_def)
qed

lemma accept_invar:
  assumes "eng_invar k H c" and "c_state c \<noteq> StateAcceptRequest" and "\<not> waitingForRoundChange c"
    and "message_Decode Subject_DecodeRLP msg = Some (Inr sub)" and "roundState_Subject H (current c) = Some sub"
  shows "eng_invar k H (acceptPrepare msg c)" and "eng_invar k H (acceptCommit msg c)"
  using assms messageSet_Add_invar [of "Prepares (current c)" msg] messageSet_Add_invar [of "Commits (current c)" msg]
    messageSet_Add_Values [of msg "Prepares (current c)"] messageSet_Add_Values [of msg "Commits (current c)"]
  by (auto simp: eng_invar_def rs_wf_def acceptPrepare_def acceptCommit_def)

lemma accept_simps [simp]:
  "c_state (acceptPrepare msg c) = c_state c" "waitingForRoundChange (acceptPrepare msg c) = waitingForRoundChange c"
  "c_valSet (acceptPrepare msg c) = c_valSet c" "outbox (acceptPrepare msg c) = outbox c" "c_address (acceptPrepare msg c) = c_address c"
  "Preprepare (current (acceptPrepare msg c)) = Preprepare (current c)" "currentView (acceptPrepare msg c) = currentView c"
  "c_state (acceptCommit msg c) = c_state c" "waitingForRoundChange (acceptCommit msg c) = waitingForRoundChange c"
  "c_valSet (acceptCommit msg c) = c_valSet c" "outbox (acceptCommit msg c) = outbox c" "c_address (acceptCommit msg c) = c_address c"
  "Preprepare (current (acceptCommit msg c)) = Preprepare (current c)" "currentView (acceptCommit msg c) = currentView c"
  by (simp_all add: acceptPrepare_def acceptCommit_def currentView_def)

lemma accept_ok:
  assumes "eng_invar k H c1" and "c1 = acceptPrepare msg c \<or> c1 = acceptCommit msg c"
  shows "step_ok k H c c1"
proof -
  have "outbox c1 = outbox c @ []" "c_address c1 = c_address c" "same_round c c1"
    using assms(2) by (auto simp: same_round_def)
  with assms(1) show ?thesis by (blast intro: step_ok_quiet quiet_simps(1))
qed

lemma LockHash_simps [simp]: "Preprepare (LockHash H s) = Preprepare s" "Prepares (LockHash H s) = Prepares s"
  "Commits (LockHash H s) = Commits s" "rs_round (LockHash H s) = rs_round s" "rs_sequence (LockHash H s) = rs_sequence s"
  "roundState_Subject H' (LockHash H s) = roundState_Subject H' s"
  by (auto simp: LockHash_def split: option.splits)

lemma lock_invar:
  assumes "eng_invar k H c" and "Preprepare (current c) \<noteq> None"  and "c_state c \<noteq> StateAcceptRequest"
    and "\<not> waitingForRoundChange c" and "c_state c \<le> st"
  shows "eng_invar k H (c\<lparr>current := LockHash H' (current c), c_state := st\<rparr>)"
    and "same_round c (c\<lparr>current := LockHash H' (current c), c_state := st\<rparr>)"
proof -
  have "st \<noteq> StateAcceptRequest" using assms(3,5) by (cases "c_state c") (auto simp: less_eq_State_def less_State_def)
  with assms show "eng_invar k H (c\<lparr>current := LockHash H' (current c), c_state := st\<rparr>)"
    "same_round c (c\<lparr>current := LockHash H' (current c), c_state := st\<rparr>)"
    by (simp_all add: eng_invar_def rs_wf_def same_round_def currentView_def)
qed

lemma sendPrepare_ok:
  assumes "setState b st (c\<lparr>current := s\<rparr>) = Some c1" and "eng_invar k H (c\<lparr>current := s, c_state := st\<rparr>)"
    and "same_round c (c\<lparr>current := s, c_state := st\<rparr>)"
  shows "step_ok k H c (sendPrepare b c1)"
proof -
  from assms obtain out where s: "step_ok k H c c1" by (rule setState_ok)
  let ?sub = "roundState_Subject (p_Hash b) (current c1)"
  have "Code (newMessage msgPrepare (Encode_subject ?sub)) \<noteq> msgCommit" by simp
  then obtain es where "broadcast b ?sub (newMessage msgPrepare (Encode_subject ?sub)) c1 = c1\<lparr>outbox := outbox c1 @ es\<rparr>"
    "quiet es" by (rule broadcast_quiet)
  then have es: "sendPrepare b c1 = c1\<lparr>outbox := outbox c1 @ es\<rparr>" "quiet es"
    by (simp_all add: sendPrepare_def)
  have "sendPrepare b c1 = c1\<lparr>backlogs := backlogs c1, pendingRequests := pendingRequests c1, outbox := outbox c1 @ es\<rparr>"
    unfolding es(1) by (cases c1) simp
  from step_ok_frame [OF s this es(2)] show ?thesis .
qed

lemma handlePreprepare_cases:
  fixes c :: "'p core"
  assumes "handlePreprepare b msg src c = Some (err, c')"
  obtains (keep) "c' = c"
    | (old) pp :: "'p preprepare" where "checkMessage msgPreprepare (pp_View pp) c = Some errOldMessage"
        "c' = sendCommitForOldBlock b (pp_View pp) (p_Hash b (Proposal pp)) c"
    | (future) t where "c' = c\<lparr>futurePreprepareTimer := t\<rparr>"
    | (reject) "c' = sendNextRoundChange b c"
    | (locked) pp c1 where "checkMessage msgPreprepare (pp_View pp) c = None" "c_state c = StateAcceptRequest"
        "setState b StatePrepared (acceptPreprepare pp c) = Some c1" "c' = sendCommit b c1"
    | (fresh) pp c1 where "c_state c = StateAcceptRequest"
        "setState b StatePreprepared (acceptPreprepare pp c) = Some c1" "c' = sendPrepare b c1"
proof -
  obtain r where r: "message_Decode (Preprepare_DecodeRLP (p_DecodeRLP b)) msg = Some r"
    using assms by (auto simp: handlePreprepare_def bind_eq_Some)
  show ?thesis
  proof (cases r)
    case (Inl e)
    with r assms have "c' = c" by (simp add: handlePreprepare_def)
    then show ?thesis by (rule keep)
  next
    case (Inr pp)
    show ?thesis
    proof (cases "checkMessage msgPreprepare (pp_View pp) c")
      case (Some e)
      have "c' = c \<or> e = errOldMessage \<and> c' = sendCommitForOldBlock b (pp_View pp) (p_Hash b (Proposal pp)) c"
        using assms r Inr Some by (simp add: handlePreprepare_def Let_def split: if_splits)
      then show ?thesis
      proof
        assume "c' = c"
        then show ?thesis by (rule keep)
      next
        assume "e = errOldMessage \<and> c' = sendCommitForOldBlock b (pp_View pp) (p_Hash b (Proposal pp)) c"
        with Some old [of pp] show ?thesis by simp
      qed
    next
      case None
      note D = assms [unfolded handlePreprepare_def r Inr Option.bind.simps sum.case option.case None]
      show ?thesis
      proof (cases "IsProposer (c_valSet c) src \<and> be_Verify b (Proposal pp) = None \<and> c_state c = StateAcceptRequest")
        case False
        then have "c' = c \<or> (\<exists>t. c' = c\<lparr>futurePreprepareTimer := t\<rparr>) \<or> c' = sendNextRoundChange b c"
          using D by (auto split: if_splits option.splits)
        then show ?thesis by (elim disjE exE) (erule keep future reject)+
      next
        case True
        with D have "c' = sendNextRoundChange b c \<or>
            (\<exists>c1. setState b StatePrepared (acceptPreprepare pp c) = Some c1 \<and> c' = sendCommit b c1) \<or>
            (\<exists>c1. setState b StatePreprepared (acceptPreprepare pp c) = Some c1 \<and> c' = sendPrepare b c1)"
          by (simp add: bind_eq_Some split: if_splits) blast+
        then show ?thesis
        proof (elim disjE exE conjE)
          assume "c' = sendNextRoundChange b c"
          then show ?thesis by (rule reject)
        next
          fix c1 assume "setState b StatePrepared (acceptPreprepare pp c) = Some c1" "c' = sendCommit b c1"
          with None True locked [of pp c1] show ?thesis by simp
        next
          fix c1 assume "setState b StatePreprepared (acceptPreprepare pp c) = Some c1" "c' = sendPrepare b c1"
          with True fresh [of pp c1] show ?thesis by simp
        qed
      qed
    qed
  qed
qed

lemma handlePreprepare_ok:
  fixes c :: "'p core"
  assumes "handlePreprepare b msg src c = Some (err, c')" and "eng_invar k H c" and "backend_ok k H b"
  shows "step_ok k H c c'"
proof -
  note sp = SetPreprepare_invar [OF assms(2)]
  from assms(1) consider "c' = c"
    | pp :: "'p preprepare" where "checkMessage msgPreprepare (pp_View pp) c = Some errOldMessage"
        "c' = sendCommitForOldBlock b (pp_View pp) (p_Hash b (Proposal pp)) c"
    | t where "c' = c\<lparr>futurePreprepareTimer := t\<rparr>"
    | "c' = sendNextRoundChange b c"
    | (locked) pp c1 where "checkMessage msgPreprepare (pp_View pp) c = None" "c_state c = StateAcceptRequest"
        "setState b StatePrepared (acceptPreprepare pp c) = Some c1" "c' = sendCommit b c1"
    | (fresh) pp c1 where "c_state c = StateAcceptRequest"
        "setState b StatePreprepared (acceptPreprepare pp c) = Some c1" "c' = sendPrepare b c1"
    by (rule handlePreprepare_cases)
  then show ?thesis
  proof cases
    case 1
    with assms(2) show ?thesis by (simp add: step_ok_refl)
  next
    case 2
    with assms(2) show ?thesis by (simp add: sendCommitForOldBlock_ok checkMessage_old)
  next
    case 3
    have "eng_invar k H c'" "c_address c' = c_address c" "same_round c c'" "outbox c' = outbox c @ []"
      using 3 assms(2) by (simp_all add: same_round_def)
    then show ?thesis by (blast intro: step_ok_quiet quiet_simps(1))
  next
    case 4
    with assms(2) show ?thesis by (simp add: sendNextRoundChange_ok)
  next
    case locked
    have "\<not> waitingForRoundChange c" using checkMessage_None [OF locked(1)] by simp
    moreover have "Preprepare (SetPreprepare pp (current c)) \<noteq> None" by (simp add: SetPreprepare_def)
    moreover have "p_Hash b = H" using assms(3) by (simp add: backend_ok_def)
    ultimately show ?thesis unfolding locked(4)
      using sendCommit_first [OF locked(3) [unfolded acceptPreprepare_def] sp [OF locked(2)]] locked(2) by simp
  next
    case fresh
    show ?thesis unfolding fresh(3)
      by (rule sendPrepare_ok [OF fresh(2) [unfolded acceptPreprepare_def] sp [OF fresh(1)]])
  qed
qed

lemma verifySubject_None: "verifySubject b sub c = None \<Longrightarrow> roundState_Subject (p_Hash b) (current c) = Some sub"
  by (simp add: verifySubject_def split: if_splits)

lemma handlePrepare_cases:
  assumes "handlePrepare b msg src c = Some (err, c')"
  obtains "c' = c"
    | sub where "message_Decode Subject_DecodeRLP msg = Some (Inr sub)" "checkMessage msgPrepare (sub_View sub) c = None"
        "verifySubject b sub c = None" "c' = acceptPrepare msg c"
    | sub c2 where "message_Decode Subject_DecodeRLP msg = Some (Inr sub)" "checkMessage msgPrepare (sub_View sub) c = None"
        "verifySubject b sub c = None" "c_state c < StatePrepared"
        "setState b StatePrepared (lockCurrent b (acceptPrepare msg c)) = Some c2" "c' = sendCommit b c2"
proof -
  obtain r where r: "message_Decode Subject_DecodeRLP msg = Some r"
    using assms by (auto simp: handlePrepare_def bind_eq_Some)
  show ?thesis
  proof (cases "\<exists>sub. r = Inr sub \<and> checkMessage msgPrepare (sub_View sub) c = None \<and> verifySubject b sub c = None")
    case False
    with assms r have "c' = c" by (cases r) (auto simp: handlePrepare_def split: option.splits)
    then show ?thesis by (rule that)
  next
    case True
    then obtain sub where s: "r = Inr sub" "checkMessage msgPrepare (sub_View sub) c = None" "verifySubject b sub c = None"
      by blast
    with r have m: "message_Decode Subject_DecodeRLP msg = Some (Inr sub)" by simp
    from assms r s have "c' = acceptPrepare msg c \<or> c_state c < StatePrepared \<and>
        (\<exists>c2. setState b StatePrepared (lockCurrent b (acceptPrepare msg c)) = Some c2 \<and> c' = sendCommit b c2)"
      by (auto simp: handlePrepare_def Let_def bind_eq_Some split: if_splits)
    then show ?thesis using that(2,3) m s(2,3) by (elim disjE conjE exE)
  qed
qed

lemma same_round_trans:
  assumes "same_round c c1" and "same_round c1 c'" and "c_state c = c_state c1"
  shows "same_round c c'"
  using assms by (auto simp: same_round_def)

lemma step_ok_after:
  assumes "step_ok k H c1 c'" and "outbox c1 = outbox c" and "c_address c1 = c_address c" and "c_state c1 = c_state c"
    and "same_round c c1" and "\<And>p cs. certificate H c1 p cs \<Longrightarrow> certificate H c p cs"
  shows "step_ok k H c c'"
proof -
  have v: "currentView c1 = currentView c" "waitingForRoundChange c1 = waitingForRoundChange c"
    using assms(5) by (simp_all add: same_round_def)
  have s: "same_round c1 x \<Longrightarrow> same_round c x" for x using same_round_trans [OF assms(5)] assms(4) by simp
  have n: "next_round c1 x = next_round c x" for x by (simp add: next_round_def v)
  have f: "first_hand H c1 x y \<Longrightarrow> first_hand H c x y" for x y using s by (auto simp: first_hand_def v assms(4))
  have "effect_ok H c1 x e \<Longrightarrow> effect_ok H c x e" for x e
    using f assms(6) by (cases e) (simp_all add: v assms(3), blast+)
  with assms(1-3) s n show ?thesis unfolding step_ok_def by metis
qed

lemma handlePrepare_ok:
  assumes "handlePrepare b msg src c = Some (err, c')" and "eng_invar k H c" and "backend_ok k H b"
  shows "step_ok k H c c'"
  using assms(1)
proof (cases rule: handlePrepare_cases)
  case 1
  with assms(2) show ?thesis by (simp add: step_ok_refl)
next
  case (2 sub)
  have "eng_invar k H (acceptPrepare msg c)"
    using checkMessage_None [OF 2(2)] verifySubject_None [OF 2(3)] 2(1) assms(2,3)
    by (intro accept_invar) (simp_all add: backend_ok_def)
  with 2(4) show ?thesis by (blast intro: accept_ok)
next
  case (3 sub c2)
  let ?c1 = "acceptPrepare msg c"
  have n: "\<not> waitingForRoundChange c" "c_state c \<noteq> StateAcceptRequest" using checkMessage_None [OF 3(2)] by simp_all
  have H: "p_Hash b = H" using assms(3) by (simp add: backend_ok_def)
  have i: "eng_invar k H ?c1"
    using n verifySubject_None [OF 3(3)] 3(1) assms(2) H by (intro accept_invar) simp_all
  have pp: "Preprepare (current ?c1) \<noteq> None" using n assms(2) by (simp add: eng_invar_def)
  have le: "c_state ?c1 \<le> StatePrepared" using 3(4) by (simp only: accept_simps less_imp_le)
  have "step_ok k H ?c1 c'" unfolding 3(6)
    by (rule sendCommit_first [OF 3(5) [unfolded lockCurrent_def] lock_invar [OF i pp _ _ le]])
      (use n 3(4) pp H in simp_all)
  moreover have "same_round c ?c1" by (simp add: same_round_def)
  ultimately show ?thesis by (intro step_ok_after [of k H ?c1 c' c]) (auto simp: certificate_def)
qed
text \<open>Committing: the certificate is the set of recorded COMMIT messages.\<close>

lemma UnlockHash_invar: "eng_invar k H c \<Longrightarrow> eng_invar k H (c\<lparr>current := UnlockHash (current c)\<rparr>)"
  by (simp add: eng_invar_def rs_wf_def UnlockHash_def)

lemma commit_cases:
  assumes "commit b c = Some c'"
  obtains c1 where "setState b StateCommitted c = Some c1" "Preprepare (current c1) = None" "c' = c1"
    | c1 pp c2 where "setState b StateCommitted c = Some c1" "Preprepare (current c1) = Some pp"
        "c2 = emit [CommitProposal (Proposal pp) (map sealOf (messageSet_Values (Commits (current c1))))] c1"
        "c' = c2 \<or> c' = sendNextRoundChange b (c2\<lparr>current := UnlockHash (current c2)\<rparr>)"
proof -
  from assms obtain c1 where c1: "setState b StateCommitted c = Some c1" by (auto simp: commit_def bind_eq_Some)
  show ?thesis
  proof (cases "Preprepare (current c1)")
    case None
    with assms c1 that(1) show ?thesis by (simp add: commit_def roundState_Proposal_def)
  next
    case (Some pp)
    with assms c1 show ?thesis
      by (intro that(2) [OF c1 Some refl]) (auto simp: commit_def roundState_Proposal_def Let_def split: if_splits)
  qed
qed

lemma commit_ok:
  assumes "commit b (lockCurrent b c) = Some c'" and "eng_invar k H c" and "p_Hash b = H"
    and "c_state c \<noteq> StateAcceptRequest" and "\<not> waitingForRoundChange c"
    and "Confirmations (c_valSet c) \<le> messageSet_Size (Commits (current c))"
  shows "step_ok k H c c'"
proof -
  have pp: "Preprepare (current c) \<noteq> None" using assms(2,4,5) by (simp add: eng_invar_def)
  have le: "c_state c \<le> StateCommitted" by (cases "c_state c") (simp_all add: less_eq_State_def less_State_def)
  note L = lock_invar [OF assms(2) pp assms(4,5) le, of H]
  let ?s = "LockHash H (current c)"
  have lc: "lockCurrent b c = c\<lparr>current := ?s\<rparr>" by (simp add: lockCurrent_def assms(3))
  show ?thesis using assms(1)
  proof (cases rule: commit_cases)
    case (1 c1)
    from 1(1) [unfolded lc] L obtain out where "step_ok k H c c1" by (rule setState_ok)
    with 1(3) show ?thesis by simp
  next
    case (2 c1 q c2)
    from 2(1) [unfolded lc] L obtain out where s: "same_round c c1" "currentView c1 = currentView c"
      "current c1 = ?s" "outbox c1 = outbox c @ out" "quiet out" "c_address c1 = c_address c" "eng_invar k H c1"
      by (rule setState_ok)
    let ?e = "CommitProposal (Proposal q) (map sealOf (messageSet_Values (Commits (current c))))"
    have q: "Preprepare (current c) = Some q" using 2(2) s(3) by simp
    have "\<forall>m \<in> set (messageSet_Values (Commits (current c))).
        message_Decode Subject_DecodeRLP m = Some (Inr \<lparr>sub_View = currentView c, Digest = H (Proposal q)\<rparr>)"
      using assms(2) by (auto simp: eng_invar_def rs_wf_def roundState_Subject_def q currentView_def)
    then have "certificate H c (Proposal q) (Commits (current c))"
      using assms(2,6) by (simp add: certificate_def eng_invar_def rs_wf_def)
    then have e: "effect_ok H c x ?e" for x by auto
    have c2: "c2 = c1\<lparr>outbox := outbox c @ out @ [?e]\<rparr>" using 2(3) s(3,4) by (simp add: emit_def)
    show ?thesis
    proof (cases "c' = c2")
      case True
      have "eng_invar k H c'" "c_address c' = c_address c" "same_round c c'" "outbox c' = outbox c @ (out @ [?e])"
        using s unfolding True c2 by (simp_all add: same_round_def)
      moreover have "\<forall>x \<in> set (out @ [?e]). effect_ok H c c' x" using e quiet_ok [OF s(5)] by auto
      ultimately show ?thesis unfolding step_ok_def by blast
    next
      case False
      define c3 where "c3 = c2\<lparr>current := UnlockHash (current c2)\<rparr>"
      have c': "c' = sendRoundChange b (rs_round (current c3) + 1) c3"
        using False 2(4) by (simp add: c3_def sendNextRoundChange_def currentView_def)
      have i3: "eng_invar k H c3" unfolding c3_def by (rule UnlockHash_invar) (simp add: c2 s(7))
      have v3: "currentView c3 = currentView c" "c_address c3 = c_address c" "outbox c3 = outbox c @ out @ [?e]"
        using s(2,6) by (simp_all add: c3_def c2 currentView_def UnlockHash_def)
      from sendRoundChange_step [OF i3, of "rs_round (current c3) + 1" b] obtain es where
        "eng_invar k H c'" "c_address c' = c_address c" "next_round c c'"
        "outbox c' = outbox c @ (out @ [?e] @ es)" and es: "quiet es"
        unfolding c' [symmetric] by (auto simp: v3 next_round_def)
      moreover have "\<forall>x \<in> set (out @ [?e] @ es). effect_ok H c c' x"
        using e quiet_ok [OF s(5)] quiet_ok [OF es] by auto
      ultimately show ?thesis unfolding step_ok_def by blast
    qed
  qed
qed

lemma handleCommit_cases:
  assumes "handleCommit b msg src c = Some (err, c')"
  obtains "c' = c"
    | sub where "message_Decode Subject_DecodeRLP msg = Some (Inr sub)" "checkMessage msgCommit (sub_View sub) c = None"
        "verifySubject b sub c = None" "c' = acceptCommit msg c"
    | sub where "message_Decode Subject_DecodeRLP msg = Some (Inr sub)" "checkMessage msgCommit (sub_View sub) c = None"
        "verifySubject b sub c = None" "Confirmations (c_valSet c) \<le> messageSet_Size (Commits (current (acceptCommit msg c)))"
        "commit b (lockCurrent b (acceptCommit msg c)) = Some c'"
proof -
  obtain r where r: "message_Decode Subject_DecodeRLP msg = Some r"
    using assms by (auto simp: handleCommit_def bind_eq_Some)
  show ?thesis
  proof (cases "\<exists>sub. r = Inr sub \<and> checkMessage msgCommit (sub_View sub) c = None \<and> verifySubject b sub c = None")
    case False
    with assms r have "c' = c" by (cases r) (auto simp: handleCommit_def split: option.splits)
    then show ?thesis by (rule that)
  next
    case True
    then obtain sub where s: "r = Inr sub" "checkMessage msgCommit (sub_View sub) c = None" "verifySubject b sub c = None"
      by blast
    with r have m: "message_Decode Subject_DecodeRLP msg = Some (Inr sub)" by simp
    from assms r s have "c' = acceptCommit msg c \<or>
        Confirmations (c_valSet c) \<le> messageSet_Size (Commits (current (acceptCommit msg c))) \<and>
        commit b (lockCurrent b (acceptCommit msg c)) = Some c'"
      by (auto simp: handleCommit_def Let_def bind_eq_Some split: if_splits)
    then show ?thesis using that(2,3) m s(2,3) by (elim disjE conjE)
  qed
qed

lemma handleCommit_ok:
  assumes "handleCommit b msg src c = Some (err, c')" and "eng_invar k H c" and "backend_ok k H b"
  shows "step_ok k H c c'"
proof -
  have H: "p_Hash b = H" using assms(3) by (simp add: backend_ok_def)
  have vote: "eng_invar k H (acceptCommit msg c) \<and> c_state c \<noteq> StateAcceptRequest \<and> \<not> waitingForRoundChange c"
    if "message_Decode Subject_DecodeRLP msg = Some (Inr sub)" "checkMessage msgCommit (sub_View sub) c = None"
      "verifySubject b sub c = None" for sub
    using checkMessage_None [OF that(2)] verifySubject_None [OF that(3)] that(1) assms(2) H accept_invar(2) by auto
  show ?thesis using assms(1)
  proof (cases rule: handleCommit_cases)
    case 1
    with assms(2) show ?thesis by (simp add: step_ok_refl)
  next
    case (2 sub)
    with vote show ?thesis by (blast intro: accept_ok)
  next
    case (3 sub)
    let ?c1 = "acceptCommit msg c"
    have "step_ok k H ?c1 c'" using vote [OF 3(1-3)] 3(4,5) H by (intro commit_ok) simp_all
    moreover have "same_round c ?c1" by (simp add: same_round_def)
    ultimately show ?thesis by (intro step_ok_after [of k H ?c1 c' c]) (auto simp: certificate_def)
  qed
qed

lemma handleRoundChange_cases:
  assumes "handleRoundChange b msg src c = Some (err, c')"
  obtains "c' = c"
    | r rcs res where "roundChangeSet_Add r msg (c_roundChangeSet c) = (res, rcs)" "c' = c\<lparr>c_roundChangeSet := rcs\<rparr>"
    | r rcs res where "roundChangeSet_Add r msg (c_roundChangeSet c) = (res, rcs)"
        "c' = sendRoundChange b r (c\<lparr>c_roundChangeSet := rcs\<rparr>)"
    | r rcs res where "roundChangeSet_Add r msg (c_roundChangeSet c) = (res, rcs)"
        "waitingForRoundChange c \<or> rs_round (current c) < r"
        "startNewRound b r (c\<lparr>c_roundChangeSet := rcs\<rparr>) = Some c'"
proof -
  obtain x where x: "message_Decode Subject_DecodeRLP msg = Some x"
    using assms by (auto simp: handleRoundChange_def bind_eq_Some)
  show ?thesis
  proof (cases "\<exists>sub. x = Inr sub \<and> checkMessage msgRoundChange (sub_View sub) c = None")
    case False
    with assms x have "c' = c" by (cases x) (auto simp: handleRoundChange_def split: option.splits)
    then show ?thesis by (rule that)
  next
    case True
    then obtain sub where s: "x = Inr sub" "checkMessage msgRoundChange (sub_View sub) c = None" by blast
    let ?r = "Round (sub_View sub)"
    obtain res rcs where a: "roundChangeSet_Add ?r msg (c_roundChangeSet c) = (res, rcs)" by fastforce
    let ?c1 = "c\<lparr>c_roundChangeSet := rcs\<rparr>"
    from assms x s a have "c' = ?c1 \<or> c' = sendRoundChange b ?r ?c1 \<or>
        (waitingForRoundChange c \<or> rs_round (current c) < ?r) \<and> startNewRound b ?r ?c1 = Some c'"
      by (cases res) (auto simp: handleRoundChange_def Let_def bind_eq_Some currentView_def split: if_splits)
    then consider "c' = ?c1" | "c' = sendRoundChange b ?r ?c1"
      | "waitingForRoundChange c \<or> rs_round (current c) < ?r" "startNewRound b ?r ?c1 = Some c'" by blast
    then show ?thesis using that(2-4) [OF a] by cases
  qed
qed

lemma handleRoundChange_ok:
  assumes "handleRoundChange b msg src c = Some (err, c')" and "eng_invar k H c" and "backend_ok k H b"
  shows "step_ok k H c c'"
proof -
  have inv: "eng_invar k H (c\<lparr>c_roundChangeSet := rcs\<rparr>)"
    if "roundChangeSet_Add r msg (c_roundChangeSet c) = (res, rcs)" for r res rcs
    using roundChangeSet_Add_correct(1) [OF _ that] assms(2) by (simp add: eng_invar_def)
  have after: "step_ok k H c c'" if "step_ok k H (c\<lparr>c_roundChangeSet := rcs\<rparr>) c'" for rcs
    using that by (rule step_ok_after) (simp_all add: same_round_def certificate_def)
  show ?thesis using assms(1)
  proof (cases rule: handleRoundChange_cases)
    case 1
    with assms(2) show ?thesis by (simp add: step_ok_refl)
  next
    case (2 r rcs res)
    with inv show ?thesis by (intro after) (auto intro: step_ok_refl)
  next
    case (3 r rcs res)
    with inv show ?thesis by (intro after) (auto intro: sendRoundChange_ok)
  next
    case (4 r rcs res)
    show ?thesis
      by (rule after [OF startNewRound_ok [OF 4(3) inv [OF 4(1)] assms(3)]]) (use 4(2) in simp)
  qed
qed

section \<open>Every event\<close>

lemma storeBacklog_frame:
  "storeBacklog b msg src c = Some c' \<Longrightarrow> \<exists>bl. c' = c\<lparr>backlogs := bl\<rparr>"
  by (auto simp: storeBacklog_def bind_eq_Some Let_def split: if_splits intro: exI [of _ "backlogs c"])

lemma step_ok_backlog: "step_ok k H c c1 \<Longrightarrow> step_ok k H c (c1\<lparr>backlogs := bl\<rparr>)"
  by (rule step_ok_frame [of k H c c1 _ "[]" "pendingRequests c1" bl]) simp_all

lemma step_ok_pending: "step_ok k H c c1 \<Longrightarrow> step_ok k H c (c1\<lparr>pendingRequests := q\<rparr>)"
  by (rule step_ok_frame [of k H c c1 _ "[]" q "backlogs c1"]) simp_all

lemma step_ok_gossip: "step_ok k H c c1 \<Longrightarrow> step_ok k H c (emit [Gossip p] c1)"
  by (rule step_ok_frame [of k H c c1 _ "[Gossip p]" "pendingRequests c1" "backlogs c1"])
    (simp_all add: emit_def)

lemma handleCheckedMsg_cases:
  assumes "handleCheckedMsg b msg src c = Some (err, c')"
  obtains "c' = c"
    | c1 where "handlePreprepare b msg src c = Some (err, c1) \<or> handlePrepare b msg src c = Some (err, c1) \<or>
        handleCommit b msg src c = Some (err, c1) \<or> handleRoundChange b msg src c = Some (err, c1)"
      "c' = c1 \<or> storeBacklog b msg src c1 = Some c'"
  using assms unfolding handleCheckedMsg_def Let_def
  by (auto simp: bind_eq_Some split: if_splits)

lemma handleCheckedMsg_ok:
  assumes "handleCheckedMsg b msg src c = Some (err, c')" and "eng_invar k H c" and "backend_ok k H b"
  shows "step_ok k H c c'"
  using assms(1)
proof (cases rule: handleCheckedMsg_cases)
  case 1
  with assms(2) show ?thesis by (simp add: step_ok_refl)
next
  case (2 c1)
  from 2(1) assms(2,3) have "step_ok k H c c1"
    by (elim disjE) (auto intro: handlePreprepare_ok handlePrepare_ok handleCommit_ok handleRoundChange_ok)
  with 2(2) show ?thesis by (auto dest!: storeBacklog_frame intro: step_ok_backlog)
qed

lemma handleMsg_ok:
  assumes "handleMsg b payload c = Some (err, c')" and "eng_invar k H c" and "backend_ok k H b"
  shows "step_ok k H c c'"
proof -
  from assms(1) obtain r where r: "FromPayload payload (CheckValidatorSignature (be_sigAddr b) (c_valSet c)) = Some r"
    by (auto simp: handleMsg_def bind_eq_Some)
  with assms(1) have "c' = c \<or> (\<exists>msg src. handleCheckedMsg b msg src c = Some (err, c'))"
    by (cases r; cases "snd (GetByAddress (c_valSet c) (Address (projr r)))") (auto simp: handleMsg_def)
  then show ?thesis using assms(2,3) by (auto intro: step_ok_refl handleCheckedMsg_ok)
qed

lemma handleTimeoutMsg_ok:
  assumes "handleTimeoutMsg b c = Some c'" and "eng_invar k H c" and "backend_ok k H b"
  shows "step_ok k H c c'"
proof -
  from assms(1) have "(\<exists>r. c' = sendRoundChange b r c) \<or> c' = sendNextRoundChange b c \<or> startNewRound b 0 c = Some c'"
    unfolding handleTimeoutMsg_def Let_def by (auto split: option.splits if_splits)
  with assms(2,3) show ?thesis
    by (elim disjE exE) (auto intro: sendRoundChange_ok sendNextRoundChange_ok startNewRound_ok)
qed

lemma handleEvent_ok:
  assumes "handleEvent b ev c = Some c'" and "eng_invar k H c" and "backend_ok k H b"
  shows "step_ok k H c c'"
proof (cases ev)
  case (RequestEvent p)
  have "step_ok k H c (snd (handleRequest b p c))" using assms(2) by (rule handleRequest_ok)
  with assms(1) RequestEvent show ?thesis
    by (auto simp: storeRequestMsg_def split: if_splits prod.splits intro: step_ok_pending)
next
  case (MessageEvent payload)
  with assms obtain err c1 where "handleMsg b payload c = Some (err, c1)" "c' = c1 \<or> c' = emit [Gossip payload] c1"
    by (auto simp: bind_eq_Some split: if_splits)
  with assms(2,3) show ?thesis by (auto intro: step_ok_gossip handleMsg_ok)
next
  case (BacklogEvent msg src)
  with assms obtain err c1 where "handleCheckedMsg b msg src c = Some (err, c1)"
    "c' = c1 \<or> c' = emit [Gossip (message_Payload msg)] c1"
    by (auto simp: bind_eq_Some split: if_splits)
  with assms(2,3) show ?thesis by (auto intro: step_ok_gossip handleCheckedMsg_ok)
next
  case TimeoutEvent
  with assms show ?thesis by (auto intro: handleTimeoutMsg_ok)
next
  case FinalCommittedEvent
  with assms show ?thesis by (auto simp: handleFinalCommitted_def intro: startNewRound_ok)
qed

end
