(* ===== verification/Istanbul_Agreement.thy ===== *)
theory Istanbul_Agreement
  imports Istanbul_Safety
begin

text \<open>
  Runs of the engine: the states a node reaches from \<^verbatim>\<open>Start\<close> by handling events, with a backend
  that may answer differently each time. Along a run the view never goes back, a block is handed to
  the backend only with a certificate, and a node votes once per view; two certificates of one view
  are for the same block.
\<close>

section \<open>Runs\<close>

inductive reachable :: "(bytes \<Rightarrow> hash) \<Rightarrow> ('p \<Rightarrow> hash) \<Rightarrow> address \<Rightarrow> 'p core \<Rightarrow> bool"
  for k H a where
  start: "core_Start b timeout a = Some c \<Longrightarrow> backend_ok k H b \<Longrightarrow> reachable k H a c"
| event: "reachable k H a c \<Longrightarrow> handleEvent b ev c = Some c' \<Longrightarrow> backend_ok k H b \<Longrightarrow> reachable k H a c'"

lemma core_Start_ok:
  assumes "core_Start b timeout a = Some c" and "backend_ok k H b"
  shows "eng_invar k H c \<and> c_address c = a \<and> quiet (outbox c)"
proof -
  obtain lp la where L: "be_LastProposal b = (Some lp, la)"
    using assms(1) by (cases "be_LastProposal b"; cases "fst (be_LastProposal b)") (simp_all add: core_Start_def)
  let ?v = "\<lparr>Round = 0, Sequence = p_Number b lp + 1\<rparr>" and ?vs = "be_Validators b lp"
  let ?c0 = "\<lparr>RequestTimeout = timeout, c_address = a, c_state = StateAcceptRequest, futurePreprepareTimer = None,
    c_valSet = ?vs, waitingForRoundChange = False, backlogs = [], current = newRoundState ?v ?vs 0 None None,
    c_roundChangeSet = newRoundChangeSet ?vs, roundChangeTimer = None, pendingRequests = Prque_New False, outbox = []\<rparr>"
  from assms(1) L have "enterRound b ?v False la ?c0 = Some c" by (simp add: core_Start_def Let_def)
  from enterRound_invar [OF this, of k H] assms(2) show ?thesis by (auto simp: backend_ok_def)
qed

lemma reachable_ok: "reachable k H a c \<Longrightarrow> eng_invar k H c \<and> c_address c = a"
proof (induction rule: reachable.induct)
  case (start b timeout c)
  then show ?case using core_Start_ok by blast
next
  case (event c b ev c')
  then have "step_ok k H c c'" by (blast intro: handleEvent_ok)
  with event.IH show ?case by (simp add: step_ok_def)
qed

section \<open>One vote per view\<close>

text \<open>The COMMIT messages a node sent for the view it was in.\<close>

definition voted :: "'p core \<Rightarrow> view \<Rightarrow> subject \<Rightarrow> bool" where
  "voted c v s \<longleftrightarrow> sub_View s = v \<and> (\<exists>m. Broadcast v (Some s) m \<in> set (outbox c) \<and> Code m = msgCommit)"

definition votes_ok :: "('p \<Rightarrow> hash) \<Rightarrow> 'p core \<Rightarrow> bool" where
  "votes_ok H c \<longleftrightarrow>
     (\<forall>v s. voted c v s \<longrightarrow> v = currentView c \<or> view_less v (currentView c)) \<and>
     (\<forall>s. voted c (currentView c) s \<longrightarrow>
        \<not> waitingForRoundChange c \<and> StatePrepared \<le> c_state c \<and> roundState_Subject H (current c) = Some s) \<and>
     (\<forall>v s s'. voted c v s \<longrightarrow> voted c v s' \<longrightarrow> s = s')"

lemma not_both_rounds: "same_round c c' \<Longrightarrow> \<not> next_round c c'"
  by (auto simp: same_round_def next_round_def)

lemma voted_step:
  assumes "outbox c' = outbox c @ es" and "\<forall>e \<in> set es. effect_ok H c c' e" and "voted c' v s"
  shows "voted c v s \<or> v = currentView c \<and> first_hand H c c' (Some s)"
proof -
  from assms(3) obtain m where m: "sub_View s = v" "Broadcast v (Some s) m \<in> set (outbox c')" "Code m = msgCommit"
    by (auto simp: voted_def)
  show ?thesis
  proof (cases "Broadcast v (Some s) m \<in> set es")
    case True
    with assms(2) have "effect_ok H c c' (Broadcast v (Some s) m)" by blast
    with m show ?thesis by auto
  next
    case False
    with assms(1) m show ?thesis by (auto simp: voted_def)
  qed
qed

lemma voted_mono: "outbox c' = outbox c @ es \<Longrightarrow> voted c v s \<Longrightarrow> voted c' v s"
  by (auto simp: voted_def)

lemma votes_ok_step:
  assumes "votes_ok H c" and "step_ok k H c c'"
  shows "votes_ok H c'"
proof -
  from assms(2) obtain es where es: "outbox c' = outbox c @ es" "\<forall>e \<in> set es. effect_ok H c c' e"
    and r: "same_round c c' \<or> next_round c c'" by (auto simp: step_ok_def)
  note new = voted_step [OF es]
  have V1: "voted c v s \<Longrightarrow> v = currentView c \<or> view_less v (currentView c)" for v s
    using assms(1) by (auto simp: votes_ok_def)
  have V2: "voted c (currentView c) s \<Longrightarrow>
      \<not> waitingForRoundChange c \<and> StatePrepared \<le> c_state c \<and> roundState_Subject H (current c) = Some s" for s
    using assms(1) by (auto simp: votes_ok_def)
  have V3: "voted c v s \<Longrightarrow> voted c v s' \<Longrightarrow> s = s'" for v s s'
    using assms(1) by (auto simp: votes_ok_def)
  from r show ?thesis
  proof
    assume same: "same_round c c'"
    have view: "currentView c' = currentView c" using same by (simp add: same_round_def)
    have A: "\<not> waitingForRoundChange c' \<and> StatePrepared \<le> c_state c' \<and> roundState_Subject H (current c') = Some s"
      if "voted c' (currentView c) s" for s
      using new [OF that]
    proof
      assume old: "voted c (currentView c) s"
      have "c_state c \<noteq> StateAcceptRequest" using V2 [OF old] by (auto simp: less_eq_State_def less_State_def)
      then have "roundState_Subject H (current c') = roundState_Subject H (current c)"
        using same view by (simp add: same_round_def roundState_Subject_def currentView_def cong: option.case_cong)
      with V2 [OF old] same show ?thesis by (auto simp: same_round_def)
    next
      assume "currentView c = currentView c \<and> first_hand H c c' (Some s)"
      with same show ?thesis by (auto simp: first_hand_def same_round_def)
    qed
    have "v = currentView c' \<or> view_less v (currentView c')" if "voted c' v s" for v s
      using new [OF that] V1 view by auto
    moreover have "s = s'" if "voted c' v s" "voted c' v s'" for v s s'
    proof (cases "v = currentView c")
      case True
      with that have "voted c' (currentView c) s" "voted c' (currentView c) s'" by simp_all
      from A [OF this(1)] A [OF this(2)] show ?thesis by simp
    next
      case False
      with new that V3 show ?thesis by blast
    qed
    ultimately show ?thesis unfolding votes_ok_def view using A by blast
  next
    assume nxt: "next_round c c'"
    then have "\<not> first_hand H c c' x" for x using not_both_rounds by (auto simp: first_hand_def)
    with new have only: "voted c' v s \<Longrightarrow> voted c v s" for v s by blast
    have "\<not> voted c (currentView c') s" for s
      using nxt V1 [of "currentView c'" s] V2 [of s] view_less_trans view_less_irrefl
      unfolding next_round_def by metis
    moreover have "v = currentView c' \<or> view_less v (currentView c')" if "voted c v s" for v s
      using nxt V1 [OF that] view_less_trans unfolding next_round_def by metis
    ultimately show ?thesis unfolding votes_ok_def using only V3 by blast
  qed
qed

lemma reachable_votes: "reachable k H a c \<Longrightarrow> votes_ok H c"
proof (induction rule: reachable.induct)
  case (start b timeout c)
  then have "quiet (outbox c)" using core_Start_ok by blast
  then have "\<not> voted c v s" for v s by (auto simp: voted_def quiet_def)
  then show ?case by (simp add: votes_ok_def)
next
  case (event c b ev c')
  with reachable_ok have "step_ok k H c c'" by (blast intro: handleEvent_ok)
  with event.IH show ?case by (rule votes_ok_step)
qed

text \<open>Every COMMIT message a node sends is for the view it is in or an earlier one.\<close>

lemma commit_view:
  assumes "reachable k H a c" and "Broadcast v (Some s) m \<in> set (outbox c)" and "Code m = msgCommit"
  shows "sub_View s = v \<or> view_less (sub_View s) v"
  using assms
proof (induction rule: reachable.induct)
  case (start b timeout c)
  then show ?case using core_Start_ok [OF start(1,2)] by (auto simp: quiet_def)
next
  case (event c b ev c')
  then have "step_ok k H c c'" using reachable_ok by (blast intro: handleEvent_ok)
  then obtain es where es: "outbox c' = outbox c @ es" "\<forall>e \<in> set es. effect_ok H c c' e" by (auto simp: step_ok_def)
  show ?case
  proof (cases "Broadcast v (Some s) m \<in> set es")
    case True
    with es(2) event.prems(2) have "v = currentView c" "first_hand H c c' (Some s) \<or> view_less (sub_View s) v" by auto
    moreover have "sub_View s = currentView c" if "first_hand H c c' (Some s)"
      using that by (auto simp: first_hand_def same_round_def roundState_Subject_def currentView_def split: option.splits)
    ultimately show ?thesis by auto
  next
    case False
    with es(1) event show ?thesis by simp
  qed
qed

section \<open>A run of one validator\<close>

text \<open>A concrete run, used to show that the hypotheses of the properties can be met: a network with the
  single validator \<open>7\<close> whose proposals are numbers, each its own hash, commits block \<open>1\<close>.\<close>

lemma setState_idle:
  assumes "Prque_Empty (pendingRequests c)" and "backlogs c = []"
  shows "setState b st c = Some (c\<lparr>c_state := st\<rparr>)"
proof -
  have "pending_loop n b' c' (pendingRequests c) [] = Some (pendingRequests c, [])" for n b' c'
    using assms(1) by (subst pending_loop.simps) simp
  then show ?thesis using assms(2)
    by (cases c) (simp add: setState_def processPendingRequests_def processBacklog_def emit_def)
qed

definition demo_set :: defaultSet where
  "demo_set = \<lparr>validators = [7], policy = RoundRobin, proposer = Some 7\<rparr>"

definition demo_backend :: "nat backend" where
  "demo_backend =
     \<lparr>be_LastProposal = (Some 0, 0), be_Validators = (\<lambda>_. demo_set), be_ParentValidators = (\<lambda>_. demo_set),
      be_GetProposer = (\<lambda>_. 0), be_HasPropsal = (\<lambda>_ _. False), be_HasBadProposal = (\<lambda>_. False),
      be_Verify = (\<lambda>_. None), be_Commit = (\<lambda>_ _. True), be_Sign = (\<lambda>_. Some []), be_sigAddr = (\<lambda>_ _. None),
      be_keccak = (\<lambda>_. 0), be_float_overflow = 0, p_Number = (\<lambda>n. n), p_Hash = of_nat, p_item = item_big,
      p_DecodeRLP = decodeBigInt\<rparr>"

definition demo_view :: view where
  "demo_view = \<lparr>Round = 0, Sequence = 1\<rparr>"

definition demo_vote :: "u64 \<Rightarrow> message" where
  "demo_vote code = \<lparr>Code = code, Msg = EncodeToBytes (Subject_EncodeRLP \<lparr>sub_View = demo_view, Digest = 1\<rparr>),
     Address = 7, Signature = [], CommittedSeal = []\<rparr>"

definition demo_preprepare :: message where
  "demo_preprepare = \<lparr>Code = msgPreprepare,
     Msg = EncodeToBytes (Preprepare_EncodeRLP item_big \<lparr>pp_View = demo_view, Proposal = 1\<rparr>),
     Address = 7, Signature = [], CommittedSeal = []\<rparr>"

definition demo_messages :: "message list \<Rightarrow> messageSet" where
  "demo_messages ms = (newMessageSet demo_set)\<lparr>messages := map (\<lambda>m. (Address m, m)) ms\<rparr>"

definition demo_state :: "State \<Rightarrow> nat option \<Rightarrow> message list \<Rightarrow> message list \<Rightarrow> nat effect list \<Rightarrow> nat core" where
  "demo_state st p ps cs out =
     \<lparr>RequestTimeout = 10, c_address = 7, c_state = st, futurePreprepareTimer = None, c_valSet = demo_set,
      waitingForRoundChange = False, backlogs = [],
      current = \<lparr>rs_round = 0, rs_sequence = 1, Preprepare = map_option (\<lambda>n. \<lparr>pp_View = demo_view, Proposal = n\<rparr>) p,
        Prepares = demo_messages ps, Commits = demo_messages cs, lockedHash = (if ps = [] then 0 else 1), pendingRequest = None\<rparr>,
      c_roundChangeSet = newRoundChangeSet demo_set, roundChangeTimer = Some (10 * 1000000),
      pendingRequests = Prque_New False, outbox = out\<rparr>"

lemma demo_backend_ok: "backend_ok (\<lambda>_. 0) of_nat demo_backend"
  by (simp add: backend_ok_def demo_backend_def demo_set_def valset_invar_def)

lemma demo_queue [simp]: "Prque_Empty (Prque_New False)"
  by (simp add: Prque_Empty_def Prque_New_def newSstack_def sstack_Len_def)

lemma demo_proposer: "CalcProposer 0 0 demo_set = demo_set"
  by code_simp

lemma demo_start: "core_Start demo_backend 10 7 = Some (demo_state StateAcceptRequest None [] [] [])"
  by (simp add: core_Start_def demo_backend_def enterRound_def Let_def setState_idle updateRoundState_def
      newRoundState_def demo_state_def demo_messages_def newMessageSet_def newRoundChangeTimer_def stopTimer_def
      roundTimeout_def demo_view_def demo_proposer)

lemma demo_decode:
  "message_Decode Subject_DecodeRLP (demo_vote code) = Some (Inr \<lparr>sub_View = demo_view, Digest = 1\<rparr>)"
  "message_Decode (Preprepare_DecodeRLP decodeBigInt) demo_preprepare = Some (Inr \<lparr>pp_View = demo_view, Proposal = 1\<rparr>)"
proof -
  have "message_Decode Subject_DecodeRLP (demo_vote 1) = Some (Inr \<lparr>sub_View = demo_view, Digest = 1\<rparr>)" by code_simp
  then show "message_Decode Subject_DecodeRLP (demo_vote code) = Some (Inr \<lparr>sub_View = demo_view, Digest = 1\<rparr>)"
    by (simp add: message_Decode_def demo_vote_def)
  show "message_Decode (Preprepare_DecodeRLP decodeBigInt) demo_preprepare =
      Some (Inr \<lparr>pp_View = demo_view, Proposal = 1\<rparr>)" by code_simp
qed

lemmas demo_simps = demo_state_def demo_messages_def newMessageSet_def setState_idle emit_def demo_decode
  sendPrepare_def sendCommit_def broadcastCommit_def broadcast_def finalizeMessage_def roundState_Subject_def
  roundState_Proposal_def Encode_subject_def acceptPreprepare_def acceptPrepare_def acceptCommit_def
  lockCurrent_def LockHash_def SetPreprepare_def IsHashLocked_def newMessage_def currentView_def demo_view_def
  bind_eq_Some

lemma backlog_event:
  "Code m = msgPreprepare \<Longrightarrow> handlePreprepare b m src c = Some (None, c1) \<Longrightarrow>
     handleEvent b (BacklogEvent m src) c = Some (emit [Gossip (message_Payload m)] c1)"
  "Code m = msgPrepare \<Longrightarrow> handlePrepare b m src c = Some (None, c1) \<Longrightarrow>
     handleEvent b (BacklogEvent m src) c = Some (emit [Gossip (message_Payload m)] c1)"
  "Code m = msgCommit \<Longrightarrow> handleCommit b m src c = Some (None, c1) \<Longrightarrow>
     handleEvent b (BacklogEvent m src) c = Some (emit [Gossip (message_Payload m)] c1)"
  by (simp_all add: handleCheckedMsg_def msgPreprepare_def msgPrepare_def msgCommit_def)

lemma demo_emit: "emit es (demo_state st p ps cs out) = demo_state st p ps cs (out @ es)"
  by (simp add: emit_def demo_state_def)

lemma demo_code: "Code (demo_vote code) = code" "Code demo_preprepare = msgPreprepare"
  by (simp_all add: demo_vote_def demo_preprepare_def)

lemma demo_step1:
  "handleEvent demo_backend (BacklogEvent demo_preprepare 7) (demo_state StateAcceptRequest None [] [] []) =
     Some (demo_state StatePreprepared (Some 1) [] [] [Broadcast demo_view (Some \<lparr>sub_View = demo_view, Digest = 1\<rparr>)
       (demo_vote msgPrepare), Gossip (message_Payload demo_preprepare)])"
proof -
  let ?c = "demo_state StateAcceptRequest None [] [] []"
  have "checkMessage msgPreprepare demo_view ?c = None" by code_simp
  moreover have "IsProposer (c_valSet ?c) 7" by code_simp
  moreover have "p_DecodeRLP demo_backend = decodeBigInt" by (simp add: demo_backend_def)
  ultimately have "handlePreprepare demo_backend demo_preprepare 7 ?c =
     Some (None, demo_state StatePreprepared (Some 1) [] [] [Broadcast demo_view (Some \<lparr>sub_View = demo_view, Digest = 1\<rparr>)
       (demo_vote msgPrepare)])"
    unfolding handlePreprepare_def
    by (simp add: demo_decode) (simp add: demo_simps demo_backend_def demo_vote_def)
  from backlog_event(1) [OF demo_code(2) this] show ?thesis by (simp add: demo_emit)
qed

lemma demo_step2:
  "handleEvent demo_backend (BacklogEvent (demo_vote msgPrepare) 7) (demo_state StatePreprepared (Some 1) [] [] out) =
     Some (demo_state StatePrepared (Some 1) [demo_vote msgPrepare] []
       (out @ [Broadcast demo_view (Some \<lparr>sub_View = demo_view, Digest = 1\<rparr>) (demo_vote msgCommit),
         Gossip (message_Payload (demo_vote msgPrepare))]))"
proof -
  let ?m = "demo_vote msgPrepare"
  let ?c = "demo_state StatePreprepared (Some 1) [] [] out"
  have "messageSet_Add ?m (demo_messages []) = (None, demo_messages [?m])" by code_simp
  then have a: "acceptPrepare ?m ?c = ?c\<lparr>current := (current ?c)\<lparr>Prepares := demo_messages [?m]\<rparr>\<rparr>"
    by (simp add: acceptPrepare_def demo_state_def)
  have "Confirmations demo_set \<le> GetPrepareOrCommitSize ((current (demo_state StatePreprepared (Some 1) [] [] []))\<lparr>Prepares := demo_messages [?m]\<rparr>)"
    by code_simp
  then have q: "Confirmations (c_valSet (acceptPrepare ?m ?c)) \<le> GetPrepareOrCommitSize (current (acceptPrepare ?m ?c))"
    by (simp only: a) (simp add: demo_state_def)
  have v: "checkMessage msgPrepare demo_view ?c = None"
    by (simp add: checkMessage_def demo_state_def currentView_def demo_view_def View_Cmp_def big_Cmp_def)
  have s: "verifySubject demo_backend \<lparr>sub_View = demo_view, Digest = 1\<rparr> ?c = None"
    by (simp add: verifySubject_def demo_simps demo_backend_def)
  have "handlePrepare demo_backend ?m 7 ?c =
     Some (None, demo_state StatePrepared (Some 1) [?m] []
       (out @ [Broadcast demo_view (Some \<lparr>sub_View = demo_view, Digest = 1\<rparr>) (demo_vote msgCommit)]))"
    unfolding handlePrepare_def using q v s
    by (simp add: demo_decode Let_def a del: One_nat_def) (simp add: demo_simps demo_backend_def demo_vote_def)
  from backlog_event(2) [OF demo_code(1) this] show ?thesis by (simp add: demo_emit)
qed

lemma demo_step3:
  "handleEvent demo_backend (BacklogEvent (demo_vote msgCommit) 7) (demo_state StatePrepared (Some 1) [demo_vote msgPrepare] [] out) =
     Some (demo_state StateCommitted (Some 1) [demo_vote msgPrepare] [demo_vote msgCommit]
       (out @ [CommitProposal 1 [replicate 65 0], Gossip (message_Payload (demo_vote msgCommit))]))"
proof -
  let ?m = "demo_vote msgCommit" and ?p = "demo_vote msgPrepare"
  let ?c = "demo_state StatePrepared (Some 1) [?p] [] out"
  have "messageSet_Add ?m (demo_messages []) = (None, demo_messages [?m])" by code_simp
  then have a: "acceptCommit ?m ?c = demo_state StatePrepared (Some 1) [?p] [?m] out"
    by (simp add: acceptCommit_def demo_state_def)
  have q: "Confirmations demo_set \<le> messageSet_Size (demo_messages [?m])" by code_simp
  have v: "checkMessage msgCommit demo_view ?c = None"
    by (simp add: checkMessage_def demo_state_def currentView_def demo_view_def View_Cmp_def big_Cmp_def)
  have s: "verifySubject demo_backend \<lparr>sub_View = demo_view, Digest = 1\<rparr> ?c = None"
    by (simp add: verifySubject_def demo_simps demo_backend_def)
  have seal: "map sealOf (messageSet_Values (demo_messages [?m])) = [replicate 65 0]" by code_simp
  let ?c1 = "demo_state StatePrepared (Some 1) [?p] [?m] out"
  have "lockCurrent demo_backend ?c1 = ?c1" by (simp add: lockCurrent_def LockHash_def demo_state_def demo_backend_def)
  moreover have "commit demo_backend ?c1 = Some (demo_state StateCommitted (Some 1) [?p] [?m] (out @ [CommitProposal 1 [replicate 65 0]]))"
    using seal by (simp add: commit_def demo_state_def setState_idle roundState_Proposal_def emit_def demo_backend_def)
  ultimately have "handleCommit demo_backend ?m 7 ?c =
     Some (None, demo_state StateCommitted (Some 1) [?p] [?m] (out @ [CommitProposal 1 [replicate 65 0]]))"
    unfolding handleCommit_def using q v s by (simp add: demo_decode Let_def a del: One_nat_def) (simp add: demo_state_def)
  from backlog_event(3) [OF demo_code(1) this] show ?thesis by (simp add: demo_emit)
qed

definition demo_out :: "nat effect list" where
  "demo_out =
     [Broadcast demo_view (Some \<lparr>sub_View = demo_view, Digest = 1\<rparr>) (demo_vote msgPrepare),
      Gossip (message_Payload demo_preprepare),
      Broadcast demo_view (Some \<lparr>sub_View = demo_view, Digest = 1\<rparr>) (demo_vote msgCommit),
      Gossip (message_Payload (demo_vote msgPrepare)),
      CommitProposal 1 [replicate 65 0], Gossip (message_Payload (demo_vote msgCommit))]"

abbreviation "demo_prepared \<equiv> demo_state StatePrepared (Some 1) [demo_vote msgPrepare] [] (take 4 demo_out)"
abbreviation "demo_committed \<equiv> demo_state StateCommitted (Some 1) [demo_vote msgPrepare] [demo_vote msgCommit] demo_out"

lemma demo_run:
  "reachable (\<lambda>_. 0) of_nat 7 (demo_state StateAcceptRequest None [] [] [])"
  "handleEvent demo_backend (BacklogEvent (demo_vote msgCommit) 7) demo_prepared = Some demo_committed"
  "reachable (\<lambda>_. 0) of_nat 7 demo_prepared" "reachable (\<lambda>_. 0) of_nat 7 demo_committed"
proof -
  note ok = demo_backend_ok
  show s: "reachable (\<lambda>_. 0) of_nat 7 (demo_state StateAcceptRequest None [] [] [])"
    by (rule reachable.start [OF demo_start ok])
  show c: "handleEvent demo_backend (BacklogEvent (demo_vote msgCommit) 7) demo_prepared = Some demo_committed"
    using demo_step3 [of "take 4 demo_out"] by (simp add: demo_out_def)
  from reachable.event [OF s demo_step1 ok]
  have "reachable (\<lambda>_. 0) of_nat 7 (demo_state StatePreprepared (Some 1) [] [] (take 2 demo_out))" by (simp add: demo_out_def)
  from reachable.event [OF this demo_step2 ok] show p: "reachable (\<lambda>_. 0) of_nat 7 demo_prepared" by (simp add: demo_out_def)
  from reachable.event [OF p c ok] show "reachable (\<lambda>_. 0) of_nat 7 demo_committed" .
qed

lemma demo_certificate: "certificate of_nat demo_prepared 1 (demo_messages [demo_vote msgCommit])"
proof -
  have "Confirmations demo_set \<le> messageSet_Size (demo_messages [demo_vote msgCommit])" by code_simp
  moreover have "Address (demo_vote msgCommit) = 7" by (simp add: demo_vote_def)
  ultimately show ?thesis using demo_decode(1) [of msgCommit]
    by (simp add: certificate_def ms_invar_def demo_messages_def newMessageSet_def demo_state_def demo_set_def
        messageSet_Values_def currentView_def demo_view_def members_def)
qed

section \<open>Properties\<close>

text \<open>C11: From the start of the engine, whatever the events and the answers of the backend, the
  invariant holds: the validator set is well formed, the recorded PREPARE and COMMIT messages come
  from distinct validators and all decode to the proposal and view the node accepted, a lock is
  always backed by a proposal, and nothing is recorded while the node waits for a round change.\<close>

theorem engine_invariant:
  assumes "reachable k H a c"
  shows "eng_invar k H c"
  using reachable_ok [OF assms] by blast

theorem engine_invariant_witness: "eng_invar (\<lambda>_. 0) of_nat demo_committed"
  by (rule engine_invariant [OF demo_run(4)])



lemma commit_history:
  assumes "reachable k H a c" and "CommitProposal p seals \<in> set (outbox c)"
  shows "\<exists>c0 cs. reachable k H a c0 \<and> certificate H c0 p cs \<and> seals = map sealOf (messageSet_Values cs)"
  using assms
proof (induction rule: reachable.induct)
  case (start b timeout c)
  then show ?case using core_Start_ok [OF start(1,2)] by (auto simp: quiet_def)
next
  case (event c b ev c')
  then have "step_ok k H c c'" using reachable_ok by (blast intro: handleEvent_ok)
  then obtain es where es: "outbox c' = outbox c @ es" "\<forall>e \<in> set es. effect_ok H c c' e" by (auto simp: step_ok_def)
  show ?case
  proof (cases "CommitProposal p seals \<in> set es")
    case True
    with es(2) have "effect_ok H c c' (CommitProposal p seals)" by blast
    with event(1) show ?thesis by auto
  next
    case False
    with es(1) event show ?thesis by simp
  qed
qed





text \<open>A certificate names a quorum of members of the validator set, each by a message that
  decodes to the committed subject.\<close>

lemma certificate_senders:
  assumes "certificate H c p cs" and "currentView c = v" and "validators (c_valSet c) = validators V"
  shows "senders cs \<subseteq> members V" and "nat (Confirmations V) \<le> card (senders cs)"
    and "h \<in> senders cs \<Longrightarrow> \<exists>m \<in> set (messageSet_Values cs). Address m = h \<and>
      message_Decode Subject_DecodeRLP m = Some (Inr \<lparr>sub_View = v, Digest = H p\<rparr>)"
proof -
  have C: "Confirmations (c_valSet c) = Confirmations V"
    using assms(3) by (simp add: Confirmations_def Set_Size_def)
  have cs: "ms_invar cs" "validators (ms_valSet cs) = validators V" "Confirmations V \<le> messageSet_Size cs"
    "\<forall>m \<in> set (messageSet_Values cs). message_Decode Subject_DecodeRLP m = Some (Inr \<lparr>sub_View = v, Digest = H p\<rparr>)"
    using assms C by (auto simp: certificate_def)
  show "senders cs \<subseteq> members V" using cs(1,2) by (auto simp: ms_invar_def members_def senders_def)
  show "nat (Confirmations V) \<le> card (senders cs)" using messageSet_Size_card [OF cs(1)] cs(3) by linarith
  have "\<exists>m \<in> set (messageSet_Values cs). Address m = h" if "h \<in> senders cs" for h
    using that cs(1) by (force simp: ms_invar_def senders_def messageSet_Values_def)
  with cs(4) show "h \<in> senders cs \<Longrightarrow> \<exists>m \<in> set (messageSet_Values cs). Address m = h \<and>
      message_Decode Subject_DecodeRLP m = Some (Inr \<lparr>sub_View = v, Digest = H p\<rparr>)" by blast
qed

text \<open>Two commits an engine sent for one view carry the same digest, unless one of them was
  sent from a later view.\<close>

lemma commits_agree:
  assumes r: "reachable k H h c"
    and m1: "Broadcast v1 (Some \<lparr>sub_View = w, Digest = d1\<rparr>) m1 \<in> set (outbox c)" "Code m1 = msgCommit"
    and m2: "Broadcast v2 (Some \<lparr>sub_View = w, Digest = d2\<rparr>) m2 \<in> set (outbox c)" "Code m2 = msgCommit"
  shows "d1 = d2 \<or> (\<exists>v s m. Broadcast v (Some s) m \<in> set (outbox c) \<and>
    Code m = msgCommit \<and> sub_View s = w \<and> view_less w v)"
proof (cases "v1 = w \<and> v2 = w")
  case True
  then have "voted c w \<lparr>sub_View = w, Digest = d1\<rparr>" "voted c w \<lparr>sub_View = w, Digest = d2\<rparr>"
    using m1 m2 by (auto simp: voted_def)
  with reachable_votes [OF r] have "\<lparr>sub_View = w, Digest = d1\<rparr> = \<lparr>sub_View = w, Digest = d2\<rparr>"
    unfolding votes_ok_def by blast
  then show ?thesis by simp
next
  case False
  with m1 m2 obtain v s m where b: "Broadcast v (Some s) m \<in> set (outbox c)" "Code m = msgCommit" "sub_View s = w" "v \<noteq> w"
    by (metis subject.select_convs(1))
  from commit_view [OF r b(1,2)] b(3,4) have "view_less w v" by simp
  with b show ?thesis by blast
qed

text \<open>C1: Agreement within a view. Let the validators be the same at two nodes that hold certificates of
  one view, and let at most \<open>F\<close> of them be faulty; every other validator runs this engine, and a COMMIT
  message of it in a certificate is one that it broadcast. Then both certificates are for the same
  block hash, unless a correct validator re-sent a COMMIT message for that view from a later one (the
  answer to an old PRE-PREPARE in \<^verbatim>\<open>handlePreprepare\<close>).\<close>

theorem agreement_in_view:
  assumes "reachable k H a1 c1" and "certificate H c1 p1 cs1" and "reachable k H a2 c2" and "certificate H c2 p2 cs2"
    and "currentView c2 = currentView c1" and "validators (c_valSet c2) = validators (c_valSet c1)"
    and "members (c_valSet c1) \<noteq> {}" and "finite faulty" and "card faulty \<le> nat (Set_F (c_valSet c1))"
    and "\<And>h. h \<in> members (c_valSet c1) \<Longrightarrow> h \<notin> faulty \<Longrightarrow> reachable k H h (node h)"
    and "\<And>m s. m \<in> set (messageSet_Values cs1) \<union> set (messageSet_Values cs2) \<Longrightarrow> Address m \<notin> faulty \<Longrightarrow>
      message_Decode Subject_DecodeRLP m = Some (Inr s) \<Longrightarrow>
      \<exists>v. Broadcast v (Some s) m \<in> set (outbox (node (Address m))) \<and> Code m = msgCommit"
  shows "H p1 = H p2 \<or> (\<exists>h \<in> members (c_valSet c1) - faulty. \<exists>v s m. Broadcast v (Some s) m \<in> set (outbox (node h)) \<and>
    Code m = msgCommit \<and> sub_View s = currentView c1 \<and> view_less (currentView c1) v)"
proof -
  let ?V = "c_valSet c1" and ?v = "currentView c1"
  have inv: "valset_invar k ?V" using reachable_ok [OF assms(1)] by (simp add: eng_invar_def)
  note S1 = certificate_senders [OF assms(2) refl refl]
  note S2 = certificate_senders [OF assms(4,5,6)]
  obtain h where h: "h \<in> senders cs1" "h \<in> senders cs2" "h \<notin> faulty"
    using ibft.quorum_honest [OF inv assms(7) S1(1) S2(1) S1(2) S2(2) assms(9,8)] by blast
  from S1(3) [OF h(1)] obtain n1 where n1: "n1 \<in> set (messageSet_Values cs1)" "Address n1 = h"
    "message_Decode Subject_DecodeRLP n1 = Some (Inr \<lparr>sub_View = ?v, Digest = H p1\<rparr>)" by blast
  from S2(3) [OF h(2)] obtain n2 where n2: "n2 \<in> set (messageSet_Values cs2)" "Address n2 = h"
    "message_Decode Subject_DecodeRLP n2 = Some (Inr \<lparr>sub_View = ?v, Digest = H p2\<rparr>)" by blast
  from assms(11) [OF _ _ n1(3)] n1(1,2) h(3) obtain v1 where
    v1: "Broadcast v1 (Some \<lparr>sub_View = ?v, Digest = H p1\<rparr>) n1 \<in> set (outbox (node h))" "Code n1 = msgCommit" by blast
  from assms(11) [OF _ _ n2(3)] n2(1,2) h(3) obtain v2 where
    v2: "Broadcast v2 (Some \<lparr>sub_View = ?v, Digest = H p2\<rparr>) n2 \<in> set (outbox (node h))" "Code n2 = msgCommit" by blast
  have "h \<in> members ?V - faulty" using h S1(1) by blast
  with commits_agree [OF assms(10) v1 v2] show ?thesis by blast
qed

theorem agreement_in_view_witness:
  "of_nat (1 :: nat) = (of_nat 1 :: hash) \<or> (\<exists>h \<in> members (c_valSet demo_prepared) - {}. \<exists>v s m.
     Broadcast v (Some s) m \<in> set (outbox demo_committed) \<and>
     Code m = msgCommit \<and> sub_View s = currentView demo_prepared \<and> view_less (currentView demo_prepared) v)"
proof (rule agreement_in_view [of "\<lambda>_. 0" of_nat 7 demo_prepared 1 "demo_messages [demo_vote msgCommit]" 7 demo_prepared 1
    "demo_messages [demo_vote msgCommit]" "{}" "\<lambda>_. demo_committed"])
  show "members (c_valSet demo_prepared) \<noteq> {}" by (simp add: demo_state_def demo_set_def members_def)
  fix h assume "h \<in> members (c_valSet demo_prepared)"
  then have "h = 7" by (simp add: demo_state_def demo_set_def members_def)
  with demo_run(4) show "reachable (\<lambda>_. 0) of_nat h demo_committed" by simp
next
  fix m s assume "m \<in> set (messageSet_Values (demo_messages [demo_vote msgCommit])) \<union>
      set (messageSet_Values (demo_messages [demo_vote msgCommit]))"
    and d: "message_Decode Subject_DecodeRLP m = Some (Inr s)"
  then have m: "m = demo_vote msgCommit" by (simp add: messageSet_Values_def demo_messages_def)
  with d have "s = \<lparr>sub_View = demo_view, Digest = 1\<rparr>" by (simp add: demo_decode)
  with m have "Broadcast demo_view (Some s) m \<in> set (outbox demo_committed) \<and> Code m = msgCommit"
    by (simp add: demo_state_def demo_out_def demo_code)
  then show "\<exists>v. Broadcast v (Some s) m \<in> set (outbox demo_committed) \<and> Code m = msgCommit" by blast
qed (simp_all add: demo_run(3) demo_certificate del: One_nat_def)

end
