(* ===== verification/Istanbul_Total.thy ===== *)
theory Istanbul_Total
  imports Istanbul_Agreement
begin

text \<open>
  The engine always answers: no event of a run makes a handler dereference nil, pop an empty queue
  or loop. The loops over the backlog and the pending requests run on fuel, one unit per queued
  item, which is enough because each turn takes an item off the queue.
\<close>

section \<open>The queues\<close>

definition queues_ok :: "'p core \<Rightarrow> bool" where
  "queues_ok c \<longleftrightarrow> sstack_wf (pendingRequests c) \<and> (\<forall>(a, q) \<in> set (backlogs c). sstack_wf q)"

text \<open>What is asked of the backend: there is a last block, and the decoder of proposals returns.\<close>

definition backend_total :: "'p backend \<Rightarrow> bool" where
  "backend_total b \<longleftrightarrow> fst (be_LastProposal b) \<noteq> None \<and>
     (\<forall>x. DecodeBytes (Preprepare_DecodeRLP (p_DecodeRLP b)) x \<noteq> None)"

lemma Prque_Pop_size:
  assumes "sstack_wf q" and "\<not> Prque_Empty q"
  obtains v p q1 where "Prque_Pop q = Some ((v, p), q1)" "sstack_wf q1" "Prque_Size q = Suc (Prque_Size q1)"
proof -
  have "0 < ss_size q" using assms(2) by (simp add: Prque_Empty_def sstack_Len_def)
  from Prque_Pop_wf [OF assms(1) this] obtain v p q1 where P: "Prque_Pop q = Some ((v, p), q1)" "sstack_wf q1"
    "prque_conts q = add_mset (v, p) (prque_conts q1)" by auto
  from arg_cong [OF P(3), of size] have "Prque_Size q = Suc (Prque_Size q1)"
    by (simp add: prque_conts_def Prque_Size_def sstack_Len_def)
  with P that show ?thesis by blast
qed

lemma pending_loop_total:
  "sstack_wf q \<Longrightarrow> Prque_Size q \<le> fuel \<Longrightarrow> \<exists>q' out'. pending_loop fuel b c q out = Some (q', out') \<and> sstack_wf q'"
proof (induction fuel arbitrary: q out)
  case 0
  then have "Prque_Empty q" by (simp add: Prque_Empty_def Prque_Size_def)
  with 0 show ?case by (subst pending_loop.simps) simp
next
  case (Suc n)
  show ?case
  proof (cases "Prque_Empty q")
    case True
    with Suc.prems show ?thesis by (subst pending_loop.simps) simp
  next
    case False
    from Suc.prems(1) False obtain v p q1 where P: "Prque_Pop q = Some ((v, p), q1)" "sstack_wf q1"
      "Prque_Size q = Suc (Prque_Size q1)" by (rule Prque_Pop_size)
    then have "Prque_Size q1 \<le> n" using Suc.prems(2) by simp
    note IH = Suc.IH [OF P(2) this]
    show ?thesis using IH [of out] IH [of "out @ [PostRequest v]"] False P(1,2) Prque_Push_wf(1) [OF P(2), of v p]
      by (subst pending_loop.simps) (simp split: option.split)
  qed
qed

lemma message_view_total: "backend_total b \<Longrightarrow> message_view b msg \<noteq> None"
proof -
  assume b: "backend_total b"
  have "DecodeBytes Subject_DecodeRLP x \<noteq> None" for x
    by (rule subject_codec.DecodeBytes_total [of x "Suc (length x)"]) simp
  with b show ?thesis by (simp add: message_view_def message_Decode_def backend_total_def)
qed

lemma backlog_loop_total:
  "backend_total b \<Longrightarrow> sstack_wf q \<Longrightarrow> Prque_Size q \<le> fuel \<Longrightarrow>
     \<exists>q' out'. backlog_loop fuel b c src q out = Some (q', out') \<and> sstack_wf q'"
proof (induction fuel arbitrary: q out)
  case 0
  then have "Prque_Empty q" by (simp add: Prque_Empty_def Prque_Size_def)
  with 0 show ?case by (simp add: backlog_loop_empty)
next
  case (Suc n)
  show ?case
  proof (cases "Prque_Empty q")
    case True
    with Suc.prems show ?thesis by (simp add: backlog_loop_empty)
  next
    case False
    from Suc.prems(2) False obtain msg p q1 where P: "Prque_Pop q = Some ((msg, p), q1)" "sstack_wf q1"
      "Prque_Size q = Suc (Prque_Size q1)" by (rule Prque_Pop_size)
    then have "Prque_Size q1 \<le> n" using Suc.prems(3) by simp
    note IH = Suc.IH [OF Suc.prems(1) P(2) this]
    obtain mv where mv: "message_view b msg = Some mv" using message_view_total [OF Suc.prems(1)] by blast
    show ?thesis using IH [of out] IH [of "out @ [PostBacklog msg src]"] False P(1,2) mv Prque_Push_wf(1) [OF P(2), of msg p]
      by (subst backlog_loop.simps) (simp split: option.split)
  qed
qed

lemma backlog_sweep_total:
  assumes "backend_total b"
  shows "\<forall>(a, q) \<in> set bl. sstack_wf q \<Longrightarrow>
    \<exists>bl' out. backlog_sweep b c bl = Some (bl', out) \<and> (\<forall>(a, q) \<in> set bl'. sstack_wf q)"
proof (induction bl)
  case (Cons x bl)
  obtain a q where x: "x = (a, q)" by (cases x)
  with Cons obtain bl' out where r: "backlog_sweep b c bl = Some (bl', out)" "\<forall>(a, q) \<in> set bl'. sstack_wf q" by auto
  show ?case
  proof (cases "snd (GetByAddress (c_valSet c) a)")
    case None
    with x r show ?thesis by simp
  next
    case (Some src)
    have "sstack_wf q" using Cons.prems x by simp
    from backlog_loop_total [OF assms this order_refl, of c src "[]"] obtain q' out'
      where "backlog_loop (Prque_Size q) b c src q [] = Some (q', out')" "sstack_wf q'" by blast
    with x r Some show ?thesis by simp
  qed
qed simp

lemma setState_total:
  assumes "queues_ok c" and "backend_total b"
  shows "\<exists>c'. setState b st c = Some c' \<and> queues_ok c'"
proof -
  have "\<exists>c1. (if st = StateAcceptRequest then processPendingRequests b (c\<lparr>c_state := st\<rparr>)
      else Some (c\<lparr>c_state := st\<rparr>)) = Some c1 \<and> queues_ok c1"
  proof (cases "st = StateAcceptRequest")
    case True
    from assms(1) have "sstack_wf (pendingRequests c)" by (simp add: queues_ok_def)
    from pending_loop_total [OF this order_refl, of b "c\<lparr>c_state := st\<rparr>" "[]"] True assms(1) show ?thesis
      by (auto simp: processPendingRequests_def queues_ok_def emit_def)
  next
    case False
    with assms(1) show ?thesis by (simp add: queues_ok_def)
  qed
  then obtain c1 where c1: "(if st = StateAcceptRequest then processPendingRequests b (c\<lparr>c_state := st\<rparr>)
      else Some (c\<lparr>c_state := st\<rparr>)) = Some c1" "queues_ok c1" by blast
  from c1(2) have "\<forall>(a, q) \<in> set (backlogs c1). sstack_wf q" by (simp add: queues_ok_def)
  from backlog_sweep_total [OF assms(2) this, of c1] obtain bl out
    where "backlog_sweep b c1 (backlogs c1) = Some (bl, out)" "\<forall>(a, q) \<in> set bl. sstack_wf q" by blast
  with c1 show ?thesis by (auto simp: setState_def processBacklog_def queues_ok_def emit_def)
qed

section \<open>The handlers\<close>

lemma queues_ok_cong: "pendingRequests c' = pendingRequests c \<Longrightarrow> backlogs c' = backlogs c \<Longrightarrow> queues_ok c' = queues_ok c"
  by (simp add: queues_ok_def)

lemma broadcast_queues [simp]: "queues_ok (broadcast b sub m c) = queues_ok c"
  by (rule queues_ok_cong) (simp_all add: broadcast_def emit_def split: option.split)

lemma send_queues [simp]:
  "queues_ok (sendPreprepare b p c) = queues_ok c" "queues_ok (sendPrepare b c) = queues_ok c"
  "queues_ok (sendCommit b c) = queues_ok c" "queues_ok (sendCommitForOldBlock b v d c) = queues_ok c"
  by (simp_all add: sendPreprepare_def sendPrepare_def sendCommit_def sendCommitForOldBlock_def broadcastCommit_def Let_def)

lemma sendRoundChange_queues [simp]: "queues_ok (sendRoundChange b r c) = queues_ok c"
proof (cases "rs_round (current c) < r")
  case True
  then obtain l pp pr t es where "sendRoundChange b r c =
      c\<lparr>current := newRoundState \<lparr>Round = r, Sequence = rs_sequence (current c)\<rparr> (c_valSet c) l pp pr,
        waitingForRoundChange := True, futurePreprepareTimer := None, roundChangeTimer := t,
        c_roundChangeSet := roundChangeSet_Clear r (c_roundChangeSet c), outbox := outbox c @ es\<rparr>"
    by (rule sendRoundChange_new)
  then show ?thesis by (intro queues_ok_cong) simp_all
qed (simp add: sendRoundChange_old)

lemma sendNextRoundChange_queues [simp]: "queues_ok (sendNextRoundChange b c) = queues_ok c"
  by (simp add: sendNextRoundChange_def)

lemma newRoundChangeTimer_queues [simp]: "queues_ok (newRoundChangeTimer b c) = queues_ok c"
  by (rule queues_ok_cong) (simp_all add: newRoundChangeTimer_def stopTimer_def)

lemma update_queues [simp]:
  "queues_ok (c\<lparr>current := s\<rparr>) = queues_ok c" "queues_ok (c\<lparr>c_valSet := vs\<rparr>) = queues_ok c"
  "queues_ok (c\<lparr>waitingForRoundChange := w\<rparr>) = queues_ok c" "queues_ok (c\<lparr>c_roundChangeSet := rcs\<rparr>) = queues_ok c"
  "queues_ok (c\<lparr>futurePreprepareTimer := t\<rparr>) = queues_ok c" "queues_ok (emit es c) = queues_ok c"
  "queues_ok (updateRoundState b v vs rc c) = queues_ok c" "queues_ok (acceptPreprepare pp c) = queues_ok c"
  "queues_ok (acceptPrepare m c) = queues_ok c" "queues_ok (acceptCommit m c) = queues_ok c" "queues_ok (lockCurrent b c) = queues_ok c"
  by (simp_all add: queues_ok_def emit_def updateRoundState_def acceptPreprepare_def acceptPrepare_def acceptCommit_def lockCurrent_def)

text \<open>Entering a round as a locked proposer reads the locked proposal, which the invariant provides.\<close>

lemma enterRound_total:
  assumes "queues_ok c" and "backend_total b" and "lockedHash (current c) \<noteq> 0 \<longrightarrow> Preprepare (current c) \<noteq> None"
  shows "\<exists>c'. enterRound b nv rc lp c = Some c' \<and> queues_ok c'"
proof -
  define c1 where "c1 = c\<lparr>c_roundChangeSet := newRoundChangeSet (c_valSet c)\<rparr>"
  define c2 where "c2 = updateRoundState b nv (c_valSet c1) rc c1"
  define c3 where "c3 = c2\<lparr>c_valSet := CalcProposer lp (of_nat (Round nv)) (c_valSet c2), waitingForRoundChange := False\<rparr>"
  have "queues_ok c3" using assms(1) by (simp add: c3_def c2_def c1_def)
  from setState_total [OF this assms(2), of StateAcceptRequest] obtain c4
    where c4: "setState b StateAcceptRequest c3 = Some c4" "queues_ok c4" by blast
  have "current c4 = current c2" using setState_frame [OF c4(1)] by (auto simp: c3_def)
  moreover obtain l pp pr where "current c2 = newRoundState nv (c_valSet c) l pp pr"
    "l \<noteq> 0 \<longrightarrow> l = lockedHash (current c) \<and> pp = Preprepare (current c)"
    using updateRoundState_current [of b nv "c_valSet c1" rc c1] by (auto simp: c1_def c2_def)
  ultimately have "IsHashLocked x (current c4) \<Longrightarrow> roundState_Proposal (current c4) \<noteq> None" for x
    using assms(3) by (auto simp: IsHashLocked_def roundState_Proposal_def)
  with c4 show ?thesis
    unfolding enterRound_def Let_def c1_def [symmetric] c2_def [symmetric] c3_def [symmetric]
    by (auto split: option.splits if_splits)
qed

lemma startNewRound_total:
  assumes "queues_ok c" and "backend_total b" and "lockedHash (current c) \<noteq> 0 \<longrightarrow> Preprepare (current c) \<noteq> None"
  shows "\<exists>c'. startNewRound b r c = Some c' \<and> queues_ok c'"
proof -
  obtain lp a where L: "be_LastProposal b = (Some lp, a)"
    using assms(2) by (cases "be_LastProposal b") (auto simp: backend_total_def)
  have "queues_ok (c\<lparr>c_valSet := be_Validators b lp\<rparr>)" using assms(1) by simp
  from enterRound_total [OF this assms(2)] enterRound_total [OF assms] assms(1,3) show ?thesis
    by (simp add: startNewRound_def L Let_def)
qed

lemma Decode_total: "message_Decode Subject_DecodeRLP m \<noteq> None"
  "backend_total b \<Longrightarrow> message_Decode (Preprepare_DecodeRLP (p_DecodeRLP b)) m \<noteq> None"
  using subject_codec.DecodeBytes_total [of "Msg m" "Suc (length (Msg m))"]
  by (simp_all add: message_Decode_def backend_total_def)

lemma handlePreprepare_total:
  assumes "queues_ok c" and "backend_total b"
  shows "\<exists>err c'. handlePreprepare b msg src c = Some (err, c') \<and> queues_ok c'"
proof -
  obtain r where r: "message_Decode (Preprepare_DecodeRLP (p_DecodeRLP b)) msg = Some r"
    using Decode_total(2) [OF assms(2)] by blast
  show ?thesis
  proof (cases r)
    case (Inl e)
    with r assms(1) show ?thesis by (simp add: handlePreprepare_def)
  next
    case (Inr pp)
    have q: "queues_ok (acceptPreprepare pp c)" using assms(1) by simp
    from setState_total [OF q assms(2), of StatePrepared] setState_total [OF q assms(2), of StatePreprepared]
    obtain c1 c2 where "setState b StatePrepared (acceptPreprepare pp c) = Some c1" "queues_ok c1"
      "setState b StatePreprepared (acceptPreprepare pp c) = Some c2" "queues_ok c2" by auto
    with r Inr assms(1) show ?thesis
      by (simp add: handlePreprepare_def Let_def split: option.split)
  qed
qed

lemma handlePrepare_total:
  assumes "queues_ok c" and "backend_total b"
  shows "\<exists>err c'. handlePrepare b msg src c = Some (err, c') \<and> queues_ok c'"
proof -
  obtain r where r: "message_Decode Subject_DecodeRLP msg = Some r" using Decode_total(1) by blast
  have "queues_ok (lockCurrent b (acceptPrepare msg c))" using assms(1) by simp
  from setState_total [OF this assms(2), of StatePrepared] obtain c1
    where "setState b StatePrepared (lockCurrent b (acceptPrepare msg c)) = Some c1" "queues_ok c1" by blast
  with r assms(1) show ?thesis by (cases r) (simp_all add: handlePrepare_def Let_def split: option.split)
qed

lemma commit_total:
  assumes "queues_ok c" and "backend_total b"
  shows "\<exists>c'. commit b c = Some c' \<and> queues_ok c'"
proof -
  from setState_total [OF assms, of StateCommitted] obtain c1
    where "setState b StateCommitted c = Some c1" "queues_ok c1" by blast
  then show ?thesis by (simp add: commit_def Let_def split: option.split)
qed

lemma handleCommit_total:
  assumes "queues_ok c" and "backend_total b"
  shows "\<exists>err c'. handleCommit b msg src c = Some (err, c') \<and> queues_ok c'"
proof -
  obtain r where r: "message_Decode Subject_DecodeRLP msg = Some r" using Decode_total(1) by blast
  have "queues_ok (lockCurrent b (acceptCommit msg c))" using assms(1) by simp
  from commit_total [OF this assms(2)] obtain c1
    where "commit b (lockCurrent b (acceptCommit msg c)) = Some c1" "queues_ok c1" by blast
  with r assms(1) show ?thesis by (cases r) (simp_all add: handleCommit_def Let_def split: option.split)
qed

lemma handleRoundChange_total:
  assumes "queues_ok c" and "backend_total b" and "lockedHash (current c) \<noteq> 0 \<longrightarrow> Preprepare (current c) \<noteq> None"
  shows "\<exists>err c'. handleRoundChange b msg src c = Some (err, c') \<and> queues_ok c'"
proof -
  obtain r where r: "message_Decode Subject_DecodeRLP msg = Some r" using Decode_total(1) by blast
  show ?thesis
  proof (cases r)
    case (Inl e)
    with r assms(1) show ?thesis by (simp add: handleRoundChange_def)
  next
    case (Inr rc)
    obtain res rcs where a: "roundChangeSet_Add (Round (sub_View rc)) msg (c_roundChangeSet c) = (res, rcs)" by fastforce
    have "queues_ok (c\<lparr>c_roundChangeSet := rcs\<rparr>)" using assms(1) by simp
    from startNewRound_total [OF this assms(2), of "Round (sub_View rc)"] assms(3) obtain c2
      where "startNewRound b (Round (sub_View rc)) (c\<lparr>c_roundChangeSet := rcs\<rparr>) = Some c2" "queues_ok c2" by auto
    with r Inr a assms(1) show ?thesis
      by (cases res) (simp_all add: handleRoundChange_def Let_def split: option.split)
  qed
qed

section \<open>Every event\<close>

lemma storeBacklog_total:
  assumes "queues_ok c" and "backend_total b"
  shows "\<exists>c'. storeBacklog b msg src c = Some c' \<and> queues_ok c'"
proof (cases "src = c_address c")
  case True
  with assms(1) show ?thesis by (simp add: storeBacklog_def)
next
  case False
  obtain mv where mv: "message_view b msg = Some mv" using message_view_total [OF assms(2)] by blast
  define q where "q = (case map_of (backlogs c) src of None \<Rightarrow> Prque_New False | Some q \<Rightarrow> q)"
  have "sstack_wf (Prque_New False :: message sstack)" 
    by (simp add: Prque_New_def newSstack_def sstack_wf_def)
  then have q: "sstack_wf q" using assms(1)
    by (auto simp: q_def queues_ok_def split: option.split dest!: map_of_SomeD)
  define q' where "q' = (case mv of None \<Rightarrow> q | Some w \<Rightarrow> Prque_Push msg (toPriority (Code msg) w) q)"
  have "sstack_wf q'" using q Prque_Push_wf(1) [OF q] by (simp add: q'_def split: option.split)
  moreover have "set (AList.update src q' al) \<subseteq> insert (src, q') (set al)" for al by (induction al) auto
  ultimately have "queues_ok (c\<lparr>backlogs := AList.update src q' (backlogs c)\<rparr>)"
    using assms(1) by (fastforce simp: queues_ok_def)
  with False mv show ?thesis by (simp add: storeBacklog_def Let_def q_def [symmetric] q'_def [symmetric])
qed

lemma handleCheckedMsg_total:
  assumes "queues_ok c" and "backend_total b" and "lockedHash (current c) \<noteq> 0 \<longrightarrow> Preprepare (current c) \<noteq> None"
  shows "\<exists>err c'. handleCheckedMsg b msg src c = Some (err, c') \<and> queues_ok c'"
proof -
  have K: "\<exists>err c'. (\<lambda>(err, c1). if err = Some errFutureMessage
      then do { c2 \<leftarrow> storeBacklog b msg src c1; Some (err, c2) } else Some (err, c1)) r = Some (err, c') \<and> queues_ok c'"
    if "queues_ok (snd r)" for r :: "istanbul_error option \<times> 'a core"
    using storeBacklog_total [OF that assms(2), of msg src] that by (auto split: prod.split)
  have B: "\<exists>err c'. Option.bind h (\<lambda>r. (\<lambda>(err, c1). if err = Some errFutureMessage
      then do { c2 \<leftarrow> storeBacklog b msg src c1; Some (err, c2) } else Some (err, c1)) r) = Some (err, c') \<and> queues_ok c'"
    if "\<exists>err c'. h = Some (err, c') \<and> queues_ok c'" for h
    using that K by fastforce
  note H = handlePreprepare_total [OF assms(1,2)] handlePrepare_total [OF assms(1,2)]
    handleCommit_total [OF assms(1,2)] handleRoundChange_total [OF assms]
  show ?thesis unfolding handleCheckedMsg_def Let_def using assms(1) B [OF H(1)] B [OF H(2)] B [OF H(3)] B [OF H(4)] by simp
qed

lemma handleMsg_total:
  assumes "queues_ok c" and "backend_total b" and "lockedHash (current c) \<noteq> 0 \<longrightarrow> Preprepare (current c) \<noteq> None"
  shows "\<exists>err c'. handleMsg b payload c = Some (err, c') \<and> queues_ok c'"
proof -
  have "DecodeBytes message_DecodeRLP payload \<noteq> None"
    by (rule message_codec.DecodeBytes_total [of payload "length payload"]) simp
  then obtain d where "DecodeBytes message_DecodeRLP payload = Some d" by blast
  then obtain r where r: "FromPayload payload (CheckValidatorSignature (be_sigAddr b) (c_valSet c)) = Some r"
    by (cases d) (simp_all add: FromPayload_def)
  show ?thesis
  proof (cases "\<exists>msg src. r = Inr msg \<and> snd (GetByAddress (c_valSet c) (Address msg)) = Some src")
    case True
    then obtain msg src where "r = Inr msg" "snd (GetByAddress (c_valSet c) (Address msg)) = Some src" by blast
    with r handleCheckedMsg_total [OF assms, of msg src] show ?thesis by (simp add: handleMsg_def)
  next
    case False
    with r assms(1) show ?thesis by (cases r) (auto simp: handleMsg_def split: option.split)
  qed
qed

lemma handleEvent_total:
  assumes "queues_ok c" and "backend_total b" and "lockedHash (current c) \<noteq> 0 \<longrightarrow> Preprepare (current c) \<noteq> None"
  shows "\<exists>c'. handleEvent b ev c = Some c' \<and> queues_ok c'"
proof (cases ev)
  case (RequestEvent p)
  obtain err c1 where h: "handleRequest b p c = (err, c1)" by fastforce
  then have "queues_ok c1" using assms(1) by (auto simp: handleRequest_def Let_def split: option.splits if_splits)
  moreover from this have "queues_ok (storeRequestMsg b p c1)"
    using Prque_Push_wf(1) by (auto simp: queues_ok_def storeRequestMsg_def)
  ultimately show ?thesis using RequestEvent h by simp
next
  case (MessageEvent payload)
  with handleMsg_total [OF assms, of payload] show ?thesis by auto
next
  case (BacklogEvent msg src)
  with handleCheckedMsg_total [OF assms, of msg src] show ?thesis by auto
next
  case TimeoutEvent
  with startNewRound_total [OF assms, of 0] assms(1) show ?thesis
    by (auto simp: handleTimeoutMsg_def Let_def split: option.split)
next
  case FinalCommittedEvent
  with startNewRound_total [OF assms, of 0] show ?thesis by (simp add: handleFinalCommitted_def)
qed

text \<open>The loop of \<^verbatim>\<open>handleEvents\<close> over a finite sequence of events, each with the backend it finds.\<close>

fun handleEvents :: "('p backend \<times> 'p event) list \<Rightarrow> 'p core \<Rightarrow> 'p core option" where
  "handleEvents [] c = Some c"
| "handleEvents ((b, ev) # evs) c = do { c1 \<leftarrow> handleEvent b ev c; handleEvents evs c1 }"

lemma handleEvents_total:
  assumes "reachable k H a c" and "queues_ok c" and "\<forall>(b, ev) \<in> set evs. backend_ok k H b \<and> backend_total b"
  shows "\<exists>c'. handleEvents evs c = Some c' \<and> reachable k H a c'"
  using assms
proof (induction evs arbitrary: c)
  case (Cons e evs)
  obtain b ev where e: "e = (b, ev)" by (cases e)
  have lock: "lockedHash (current c) \<noteq> 0 \<longrightarrow> Preprepare (current c) \<noteq> None"
    using reachable_ok [OF Cons.prems(1)] by (simp add: eng_invar_def rs_wf_def)
  have b: "backend_ok k H b" "backend_total b" using Cons.prems(3) e by simp_all
  from handleEvent_total [OF Cons.prems(2) b(2) lock] obtain c1 where c1: "handleEvent b ev c = Some c1" "queues_ok c1" by blast
  with Cons.IH [OF reachable.event [OF Cons.prems(1) c1(1) b(1)] c1(2)] Cons.prems(3) e show ?case by simp
qed simp


lemma demo_backend_total: "backend_total demo_backend"
proof -
  have "rlp_codec (\<lambda>n. rlp_enc (item_big n)) decodeBigInt big_ok (Suc N)" for N
    using big_codec.rlp_codec_axioms [of "Suc N"] by (simp add: item_big_def enc_big_def [abs_def] big_ok_def [abs_def])
  then have "DecodeBytes (Preprepare_DecodeRLP decodeBigInt) x \<noteq> None" for x
    by (rule rlp_codec.DecodeBytes_total [OF preprepare_codec [of item_big decodeBigInt big_ok "length x"]]) simp
  then show ?thesis by (simp add: backend_total_def demo_backend_def)
qed


end
