(* ===== verification/Common_Math.thy ===== *)
theory Common_Math
  imports Prelude
begin

text \<open>
  The integer utilities of \<^verbatim>\<open>src/common/math\<close>: 256-bit two's complement on big integers, exponentiation
  by squaring over the machine words of the exponent, big-endian access to single bytes and
  buffers, and checked 64-bit arithmetic. A \<^verbatim>\<open>*big.Int\<close> is an \<open>int\<close>; its \<^verbatim>\<open>Bits\<close> are modelled for the
  64-bit platforms (\<^verbatim>\<open>wordBits = 64\<close>).
\<close>

section \<open>256-bit numbers\<close>

abbreviation "tt255 \<equiv> (2 :: int) ^ 255"
abbreviation "tt256 \<equiv> (2 :: int) ^ 256"

definition U256 :: "int \<Rightarrow> int" where
  "U256 x = x AND (tt256 - 1)"

definition S256 :: "int \<Rightarrow> int" where
  "S256 x = (if big_Cmp x tt255 < 0 then x else x - tt256)"

definition BigMax :: "int \<Rightarrow> int \<Rightarrow> int" where
  "BigMax x y = (if big_Cmp x y < 0 then y else x)"

definition BigMin :: "int \<Rightarrow> int \<Rightarrow> int" where
  "BigMin x y = (if big_Cmp x y > 0 then y else x)"

text \<open>\<^verbatim>\<open>big.Int.Bits\<close>: the machine words of the absolute value, least significant first, without
  leading zero words.\<close>

definition wordBits :: nat where
  "wordBits = 64"

definition wordBytes :: nat where
  "wordBytes = wordBits div 8"

fun nat_words :: "nat \<Rightarrow> u64 list" where
  "nat_words n = (if n = 0 then [] else of_nat (n mod 2 ^ 64) # nat_words (n div 2 ^ 64))"

declare nat_words.simps [simp del]

definition big_Bits :: "int \<Rightarrow> u64 list" where
  "big_Bits x = nat_words (nat \<bar>x\<bar>)"

fun nat_bitlen :: "nat \<Rightarrow> nat" where
  "nat_bitlen n = (if n = 0 then 0 else Suc (nat_bitlen (n div 2)))"

declare nat_bitlen.simps [simp del]

definition big_BitLen :: "int \<Rightarrow> nat" where
  "big_BitLen x = nat_bitlen (nat \<bar>x\<bar>)"

definition big_IsUint64 :: "int \<Rightarrow> bool" where
  "big_IsUint64 x \<longleftrightarrow> 0 \<le> x \<and> big_BitLen x \<le> 64"

definition FirstBitSet :: "int \<Rightarrow> nat" where
  "FirstBitSet v = (case find (\<lambda>i. bit v i) [0..<big_BitLen v] of Some i \<Rightarrow> i | None \<Rightarrow> big_BitLen v)"

text \<open>The inner loop of \<^verbatim>\<open>Exp\<close> consumes one word of the exponent; the outer one runs over the words.\<close>

fun exp_word :: "nat \<Rightarrow> u64 \<Rightarrow> int \<times> int \<Rightarrow> int \<times> int" where
  "exp_word 0 word (result, base) = (result, base)"
| "exp_word (Suc i) word (result, base) =
     exp_word i (drop_bit 1 word)
       (if word AND 1 = 1 then U256 (result * base) else result, U256 (base * base))"

definition Exp :: "int \<Rightarrow> int \<Rightarrow> int" where
  "Exp base exponent =
     fst (foldl (\<lambda>rb word. exp_word wordBits word rb) (1, base) (big_Bits exponent))"

section \<open>Bytes of a big integer\<close>

definition bigEndianByteAt :: "int \<Rightarrow> nat \<Rightarrow> byte" where
  "bigEndianByteAt bigint n =
     (let words = big_Bits bigint; i = n div wordBytes in
      if i \<ge> length words then 0 else ucast (drop_bit (8 * (n mod wordBytes)) (words ! i)))"

definition math_Byte :: "int \<Rightarrow> nat \<Rightarrow> nat \<Rightarrow> byte" where
  "math_Byte bigint padlength n = (if n \<ge> padlength then 0 else bigEndianByteAt bigint (padlength - 1 - n))"

fun read_word :: "nat \<Rightarrow> u64 \<Rightarrow> nat \<times> bytes \<Rightarrow> nat \<times> bytes" where
  "read_word 0 d (i, buf) = (i, buf)"
| "read_word (Suc j) d (i, buf) =
     (if i > 0 then read_word j (drop_bit 8 d) (i - 1, buf[i - 1 := ucast d]) else (i, buf))"

definition ReadBits :: "int \<Rightarrow> bytes \<Rightarrow> bytes" where
  "ReadBits bigint buf = snd (foldl (\<lambda>s d. read_word wordBytes d s) (length buf, buf) (big_Bits bigint))"

definition PaddedBigBytes :: "int \<Rightarrow> nat \<Rightarrow> bytes" where
  "PaddedBigBytes bigint n =
     (if big_BitLen bigint div 8 \<ge> n then nat_bytes (nat \<bar>bigint\<bar>) else ReadBits bigint (replicate n 0))"

section \<open>Checked 64-bit arithmetic\<close>

definition SafeSub :: "u64 \<Rightarrow> u64 \<Rightarrow> u64 \<times> bool" where
  "SafeSub x y = (x - y, x < y)"

definition SafeAdd :: "u64 \<Rightarrow> u64 \<Rightarrow> u64 \<times> bool" where
  "SafeAdd x y = (x + y, y > (- 1) - x)"

definition SafeMul :: "u64 \<Rightarrow> u64 \<Rightarrow> u64 \<times> bool" where
  "SafeMul x y = (if x = 0 \<or> y = 0 then (0, False) else (x * y, y > (- 1) div x))"

section \<open>Lemmas\<close>

lemma U256_mod: "U256 x = x mod tt256"
  unfolding U256_def by (simp only: take_bit_eq_mod [symmetric] take_bit_eq_mask mask_eq_exp_minus_1)

lemma U256_range [simp]: "0 \<le> U256 x" "U256 x < tt256"
  by (simp_all add: U256_mod)

lemmas U256_less [simp] = U256_range(2) [simplified]

lemma U256_small [simp]: "0 \<le> x \<Longrightarrow> x < tt256 \<Longrightarrow> U256 x = x"
  by (simp add: U256_mod)

lemma U256_word: "U256 x = uint (word_of_int x :: 256 word)"
  by (simp add: U256_mod uint_word_of_int)

lemma S256_sint:
  assumes "0 \<le> x" and "x < tt256"
  shows "S256 x = sint (word_of_int x :: 256 word)"
proof -
  have "x div tt255 = (if x < tt255 then 0 else 1)"
    using assms int_div_pos_eq [of x tt255 1 "x - tt255"] by (simp add: div_pos_pos_trivial)
  then have "bit x 255 \<longleftrightarrow> \<not> x < tt255" by (simp add: bit_iff_odd)
  moreover have "take_bit 256 x = x" using assms by (simp add: take_bit_int_eq_self)
  ultimately show ?thesis using assms
    by (simp add: S256_def sint_uint uint_word_of_int_eq signed_take_bit_eq_take_bit_minus)
qed

text \<open>The words of a number.\<close>

definition words_val :: "u64 list \<Rightarrow> nat" where
  "words_val ws = foldr (\<lambda>w v. unat w + 2 ^ 64 * v) ws 0"

lemma words_val_simps [simp]: "words_val [] = 0" "words_val (w # ws) = unat w + 2 ^ 64 * words_val ws"
  by (simp_all add: words_val_def)

lemma words_val_nat_words [simp]: "words_val (nat_words n) = n"
proof (induction n rule: nat_words.induct)
  case (1 n)
  show ?case
  proof (cases "n = 0")
    case True
    then show ?thesis by (subst nat_words.simps) simp
  next
    case False
    have "words_val (nat_words n) = unat (of_nat (n mod 2 ^ 64) :: u64) + 2 ^ 64 * words_val (nat_words (n div 2 ^ 64))"
      using False by (subst nat_words.simps) simp
    also have "\<dots> = n" unfolding "1" [OF False] by (simp add: unat_of_nat)
    finally show ?thesis .
  qed
qed

lemma nat_bitlen_le: "nat_bitlen n \<le> k \<longleftrightarrow> n < 2 ^ k"
proof (induction k arbitrary: n)
  case 0
  then show ?case by (subst nat_bitlen.simps) simp
next
  case (Suc k)
  show ?case
  proof (cases "n = 0")
    case True
    then show ?thesis by (subst nat_bitlen.simps) simp
  next
    case False
    then have "nat_bitlen n \<le> Suc k \<longleftrightarrow> nat_bitlen (n div 2) \<le> k" by (subst nat_bitlen.simps) simp
    also have "\<dots> \<longleftrightarrow> n < 2 ^ Suc k" unfolding Suc.IH by (auto simp: div_less_iff_less_mult)
    finally show ?thesis .
  qed
qed

lemma big_BitLen_le: "0 \<le> x \<Longrightarrow> big_BitLen x \<le> k \<longleftrightarrow> x < 2 ^ k"
  by (simp add: big_BitLen_def nat_bitlen_le nat_less_iff)

lemma big_IsUint64_iff [simp]: "big_IsUint64 x \<longleftrightarrow> 0 \<le> x \<and> x < 2 ^ 64"
  by (auto simp: big_IsUint64_def big_BitLen_le)

section \<open>Exponentiation\<close>

lemma exp_word_correct:
  assumes "exp_word i w (r, b) = (r', b')"
  shows "r' mod tt256 = (r * b ^ (unat w mod 2 ^ i)) mod tt256 \<and> b' mod tt256 = b ^ (2 ^ i) mod tt256 \<and>
    (0 \<le> r \<and> r < tt256 \<longrightarrow> 0 \<le> r' \<and> r' < tt256)"
  using assms
proof (induction i arbitrary: w r b)
  case (Suc i)
  define r1 where "r1 = (if w AND 1 = 1 then U256 (r * b) else r)"
  define b1 where "b1 = U256 (b * b)"
  have IH: "r' mod tt256 = (r1 * b1 ^ (unat (drop_bit 1 w) mod 2 ^ i)) mod tt256" "b' mod tt256 = b1 ^ (2 ^ i) mod tt256"
    "0 \<le> r1 \<and> r1 < tt256 \<longrightarrow> 0 \<le> r' \<and> r' < tt256"
    using Suc.IH [of "drop_bit 1 w" r1 b1] Suc.prems by (simp_all add: r1_def b1_def)
  have b1: "b1 ^ k mod tt256 = b ^ (2 * k) mod tt256" for k
    unfolding b1_def U256_mod power_mod power_mult by (simp add: power2_eq_square)
  have d: "unat (drop_bit 1 w) = unat w div 2" by simp
  have odd: "(w AND 1 = 1) = odd (unat w)" 
    by (simp add: and_one_eq odd_iff_mod_2_eq_one [symmetric] bit_0 [symmetric] bit_unsigned_iff)
  have m: "unat w mod 2 ^ Suc i = unat w mod 2 + 2 * (unat w div 2 mod 2 ^ i)"
    by (simp add: mod_mult2_eq)
  have "(r1 * b1 ^ (unat w div 2 mod 2 ^ i)) mod tt256 = (r1 * b ^ (2 * (unat w div 2 mod 2 ^ i))) mod tt256"
    by (metis b1 mod_mult_right_eq)
  also have "\<dots> = (r * b ^ (unat w mod 2 ^ Suc i)) mod tt256"
  proof (cases "odd (unat w)")
    case True
    then have r1: "r1 = r * b mod tt256" by (simp add: r1_def odd U256_mod)
    have e: "unat w mod 2 = 1" using True by presburger
    show ?thesis unfolding m e r1 mod_mult_left_eq by (simp add: power_add ac_simps)
  next
    case False
    then have "r1 = r" "unat w mod 2 = 0" by (simp_all add: r1_def odd even_iff_mod_2_eq_zero)
    then show ?thesis unfolding m by simp
  qed
  finally have "r' mod tt256 = (r * b ^ (unat w mod 2 ^ Suc i)) mod tt256" using IH(1) d by simp
  moreover have "b' mod tt256 = b ^ (2 ^ Suc i) mod tt256" using IH(2) b1 by simp
  moreover have "0 \<le> r \<and> r < tt256 \<longrightarrow> 0 \<le> r1 \<and> r1 < tt256" by (simp add: r1_def)
  ultimately show ?case using IH(3) by blast
qed simp

lemma Exp_loop:
  "0 \<le> r \<and> r < tt256 \<Longrightarrow>
     fst (foldl (\<lambda>rb w. exp_word wordBits w rb) (r, b) ws) = (r * b ^ words_val ws) mod tt256"
proof (induction ws arbitrary: r b)
  case Nil
  then show ?case by simp
next
  case (Cons w ws)
  obtain r' b' where e: "exp_word wordBits w (r, b) = (r', b')" by fastforce
  have "unat w < 2 ^ 64" using unsigned_less [of w] by simp
  then have "unat w mod 2 ^ 64 = unat w" by simp
  with exp_word_correct [OF e] Cons.prems have c: "r' mod tt256 = (r * b ^ unat w) mod tt256"
    "b' mod tt256 = b ^ (2 ^ 64) mod tt256" "0 \<le> r' \<and> r' < tt256"
    by (simp_all only: wordBits_def)
  have "fst (foldl (\<lambda>rb w. exp_word wordBits w rb) (r, b) (w # ws)) = (r' * b' ^ words_val ws) mod tt256"
    using Cons.IH [OF c(3), of b'] by (simp only: foldl_Cons e)
  also have "\<dots> = (r * b ^ unat w * (b ^ (2 ^ 64)) ^ words_val ws) mod tt256"
    by (metis (no_types) c(1,2) mod_mult_cong power_mod)
  also have "\<dots> = (r * b ^ words_val (w # ws)) mod tt256"
    by (simp only: words_val_simps power_add power_mult mult.assoc)
  finally show ?case .
qed

lemma Exp_correct: "0 \<le> y \<Longrightarrow> Exp x y = x ^ nat y mod tt256"
  unfolding Exp_def using Exp_loop [of 1 x "big_Bits y"] by (simp add: big_Bits_def)

section \<open>Reading bytes\<close>

lemma be_bytes_append: "be_bytes (a + b) x = be_bytes a (x div 256 ^ b) @ be_bytes b x"
  by (induction b arbitrary: x) (simp_all add: div_mult2_eq [symmetric] mult.commute)

lemma be_bytes_mod: "n \<le> m \<Longrightarrow> be_bytes n (x mod 256 ^ m) = be_bytes n x"
proof (induction n arbitrary: m x)
  case (Suc n)
  then obtain k where m: "m = Suc k" "n \<le> k" by (cases m) auto
  have "x mod 256 ^ m div 256 = (x div 256) mod 256 ^ k" by (simp add: m(1) mod_mult2_eq)
  moreover have "x mod 256 ^ m mod 256 = x mod 256" by (simp add: m(1) mod_mod_cancel)
  ultimately show ?case using Suc.IH [OF m(2), of "x div 256"] by simp
qed simp

lemma ucast_byte: "(ucast (d :: u64) :: byte) = of_nat (unat d mod 256)"
  by (simp add: unsigned_ucast_eq word_unat_eq_iff unat_of_nat take_bit_eq_mod)

lemma read_word_correct:
  "i \<le> length buf \<Longrightarrow> read_word j d (i, buf) =
     (i - j, take (i - j) buf @ be_bytes (min i j) (unat d) @ drop i buf)"
proof (induction j arbitrary: d i buf)
  case 0
  then show ?case by simp
next
  case (Suc j)
  show ?case
  proof (cases i)
    case 0
    then show ?thesis by simp
  next
    case (Suc k)
    let ?buf = "buf[k := ucast d]"
    have k: "k < length buf" using Suc Suc.prems by simp
    have "read_word (Suc j) d (i, buf) = read_word j (drop_bit 8 d) (k, ?buf)" using Suc by simp
    also have "\<dots> = (k - j, take (k - j) ?buf @ be_bytes (min k j) (unat (drop_bit 8 d)) @ drop k ?buf)"
      using Suc.IH [of k ?buf "drop_bit 8 d"] k by simp
    also have "unat (drop_bit 8 d) = unat d div 256" by simp
    also have "drop k ?buf = ucast d # drop (Suc k) buf" using k by (simp add: Cons_nth_drop_Suc [symmetric])
    also note ucast_byte
    finally show ?thesis using Suc by simp
  qed
qed

lemma ReadBits_loop:
  "i \<le> length buf \<Longrightarrow> snd (foldl (\<lambda>s d. read_word wordBytes d s) (i, buf) ws) =
     take (i - 8 * length ws) buf @ be_bytes (min i (8 * length ws)) (words_val ws) @ drop i buf"
proof (induction ws arbitrary: i buf)
  case Nil
  then show ?case by simp
next
  case (Cons w ws)
  define buf' where "buf' = take (i - 8) buf @ be_bytes (min i 8) (unat w) @ drop i buf"
  have r: "read_word wordBytes w (i, buf) = (i - 8, buf')"
    using read_word_correct [OF Cons.prems, of 8 w] by (simp add: buf'_def wordBytes_def wordBits_def)
  have len: "length buf' = length buf" using Cons.prems by (simp add: buf'_def)
  have "snd (foldl (\<lambda>s d. read_word wordBytes d s) (i, buf) (w # ws)) =
      take (i - 8 - 8 * length ws) buf' @ be_bytes (min (i - 8) (8 * length ws)) (words_val ws) @ drop (i - 8) buf'"
    using Cons.IH [of "i - 8" buf'] Cons.prems len r by simp
  also have "take (i - 8 - 8 * length ws) buf' = take (i - 8 * length (w # ws)) buf"
    using Cons.prems by (simp add: buf'_def)
  also have "drop (i - 8) buf' = be_bytes (min i 8) (unat w) @ drop i buf" using Cons.prems by (simp add: buf'_def)
  also have "be_bytes (min (i - 8) (8 * length ws)) (words_val ws) @ be_bytes (min i 8) (unat w) @ drop i buf =
      be_bytes (min i (8 * length (w # ws))) (words_val (w # ws)) @ drop i buf"
  proof (cases "i < 8")
    case True
    have "be_bytes i (words_val (w # ws)) = be_bytes i (words_val (w # ws) mod 256 ^ 8)"
      using True by (simp only: be_bytes_mod less_imp_le)
    also have "words_val (w # ws) mod 256 ^ 8 = unat w" using unat_u64_less [of w] by simp
    finally show ?thesis using True by simp
  next
    case False
    let ?m = "min (i - 8) (8 * length ws)"
    have "min i (8 * length (w # ws)) = ?m + 8" using False by simp
    moreover have "be_bytes (?m + 8) (words_val (w # ws)) = be_bytes ?m (words_val ws) @ be_bytes 8 (unat w)"
    proof -
      have "words_val (w # ws) div 256 ^ 8 = words_val ws" using unat_u64_less [of w] by simp
      moreover have "words_val (w # ws) mod 256 ^ 8 = unat w" using unat_u64_less [of w] by simp
      then have "be_bytes 8 (words_val (w # ws)) = be_bytes 8 (unat w)" by (metis be_bytes_mod order_refl)
      ultimately show ?thesis by (simp only: be_bytes_append)
    qed
    ultimately show ?thesis using False by simp
  qed
  finally show ?case by simp
qed

lemma words_val_less: "words_val ws < 256 ^ (8 * length ws)"
proof (induction ws)
  case (Cons w ws)
  have "words_val (w # ws) < 2 ^ 64 * Suc (words_val ws)" using unat_u64_less [of w] by simp
  also have "\<dots> \<le> 2 ^ 64 * 256 ^ (8 * length ws)" using Cons by (intro mult_le_mono2) simp
  also have "\<dots> = 256 ^ (8 * length (w # ws))" by (simp add: power_add)
  finally show ?case .
qed simp

lemma be_bytes_zero [simp]: "be_bytes n 0 = replicate n 0"
  by (induction n) (simp_all add: replicate_append_same)

lemma be_bytes_small: "x < 256 ^ b \<Longrightarrow> be_bytes (a + b) x = replicate a 0 @ be_bytes b x"
  by (simp add: be_bytes_append)

lemma ReadBits_zero: "ReadBits v (replicate n 0) = be_bytes n (nat \<bar>v\<bar>)"
proof -
  define ws where "ws = big_Bits v"
  have v: "words_val ws = nat \<bar>v\<bar>" by (simp add: ws_def big_Bits_def)
  have "ReadBits v (replicate n 0) = replicate (n - 8 * length ws) 0 @ be_bytes (min n (8 * length ws)) (nat \<bar>v\<bar>)"
    using ReadBits_loop [of n "replicate n 0" ws] by (simp add: ReadBits_def ws_def [symmetric] v min_def)
  also have "\<dots> = be_bytes n (nat \<bar>v\<bar>)"
  proof (cases "n \<le> 8 * length ws")
    case True
    then show ?thesis by (simp add: min_def)
  next
    case False
    then have n: "n = (n - 8 * length ws) + 8 * length ws" by simp
    have "be_bytes n (nat \<bar>v\<bar>) = replicate (n - 8 * length ws) 0 @ be_bytes (8 * length ws) (nat \<bar>v\<bar>)"
      by (subst n) (rule be_bytes_small, use words_val_less [of ws] v in simp)
    with False show ?thesis by (simp add: min_def)
  qed
  finally show ?thesis .
qed

lemma nth_words_val: "i < length ws \<Longrightarrow> unat (ws ! i) = words_val ws div 2 ^ (64 * i) mod 2 ^ 64"
proof (induction ws arbitrary: i)
  case (Cons w ws)
  show ?case
  proof (cases i)
    case 0
    then show ?thesis using unat_u64_less [of w] by simp
  next
    case (Suc k)
    have "words_val (w # ws) div 2 ^ 64 = words_val ws" using unat_u64_less [of w] by simp
    then have "words_val (w # ws) div 2 ^ (64 * i) = words_val ws div 2 ^ (64 * k)"
      by (simp add: Suc power_add div_mult2_eq)
    with Cons Suc show ?thesis by simp
  qed
qed simp

lemma bigEndianByteAt_correct: "bigEndianByteAt v n = of_nat (nat \<bar>v\<bar> div 256 ^ n mod 256)"
proof -
  define ws where "ws = big_Bits v"
  have v: "words_val ws = nat \<bar>v\<bar>" by (simp add: ws_def big_Bits_def)
  let ?i = "n div 8" and ?j = "n mod 8"
  have e: "(256 :: nat) ^ n = 2 ^ (64 * ?i) * 2 ^ (8 * ?j)"
  proof -
    have "(256 :: nat) ^ n = 2 ^ (8 * n)" by (simp add: power_mult)
    also have "8 * n = 64 * ?i + 8 * ?j" using div_mult_mod_eq [of n 8] by linarith
    finally show ?thesis by (simp only: power_add)
  qed
  show ?thesis
  proof (cases "length ws \<le> ?i")
    case True
    have "nat \<bar>v\<bar> < 256 ^ (8 * length ws)" using words_val_less [of ws] v by simp
    also have "\<dots> \<le> 256 ^ n" using True by (intro power_increasing) auto
    finally show ?thesis using True by (simp add: bigEndianByteAt_def ws_def wordBytes_def wordBits_def)
  next
    case False
    have "bigEndianByteAt v n = ucast (drop_bit (8 * ?j) (ws ! ?i))"
      using False by (simp add: bigEndianByteAt_def ws_def wordBytes_def wordBits_def)
    also have "\<dots> = of_nat (unat (ws ! ?i) div 2 ^ (8 * ?j) mod 256)"
      by (simp only: ucast_byte unat_drop_bit)
    also have "unat (ws ! ?i) div 2 ^ (8 * ?j) mod 256 = nat \<bar>v\<bar> div 256 ^ n mod 256"
    proof -
      have j: "(2 :: nat) ^ 64 = 2 ^ (8 * ?j) * 2 ^ (64 - 8 * ?j)" by (simp flip: power_add)
      have d: "(256 :: nat) dvd 2 ^ (64 - 8 * ?j)"
      proof -
        have "8 \<le> 64 - 8 * ?j" by simp
        then have "(2 :: nat) ^ 8 dvd 2 ^ (64 - 8 * ?j)" by (rule le_imp_power_dvd)
        then show ?thesis by simp
      qed
      let ?q = "nat \<bar>v\<bar> div 2 ^ (64 * ?i)"
      have "unat (ws ! ?i) = ?q mod (2 ^ (8 * ?j) * 2 ^ (64 - 8 * ?j))"
        using nth_words_val [of ?i ws] False v j by simp
      moreover have "x mod (m * k) div m = x div m mod k" for x m k :: nat by (cases "m = 0") (simp_all add: mod_mult2_eq)
      ultimately have "unat (ws ! ?i) div 2 ^ (8 * ?j) mod 256 = ?q div 2 ^ (8 * ?j) mod 256"
        by (simp only: mod_mod_cancel [OF d])
      then show ?thesis by (simp only: e div_mult2_eq)
    qed
    finally show ?thesis .
  qed
qed

lemma math_Byte_correct: "n < 32 \<Longrightarrow> math_Byte v 32 n = be_bytes 32 (nat \<bar>v\<bar>) ! n"
proof -
  have nth: "i < m \<Longrightarrow> be_bytes m x ! i = of_nat (x div 256 ^ (m - 1 - i) mod 256)" for i m x
  proof (induction m arbitrary: x)
    case (Suc m)
    show ?case
    proof (cases "i = m")
      case True
      then show ?thesis by (simp add: nth_append)
    next
      case False
      then have "i < m" using Suc.prems by simp
      with Suc.IH [of "x div 256"] show ?thesis
        by (simp add: nth_append div_mult2_eq [symmetric] Suc_diff_Suc flip: power_Suc)
    qed
  qed simp
  assume "n < 32"
  then show ?thesis by (simp add: math_Byte_def bigEndianByteAt_correct nth)
qed

section \<open>Overflow\<close>

lemma SafeSub_correct: "SafeSub x y = (x - y, unat x < unat y)"
  by (simp add: SafeSub_def word_less_nat_alt)

lemma SafeAdd_correct: "SafeAdd x y = (x + y, 2 ^ 64 \<le> unat x + unat y)"
proof -
  have "unat ((- 1) - x) = 2 ^ 64 - 1 - unat x" 
    by (subst unat_sub) (simp_all add: unat_minus_1)
  then show ?thesis using unat_u64_less [of x] by (auto simp: SafeAdd_def word_less_nat_alt)
qed

lemma SafeMul_correct: "SafeMul x y = (x * y, 2 ^ 64 \<le> unat x * unat y)"
proof (cases "x = 0 \<or> y = 0")
  case True
  then show ?thesis by (auto simp: SafeMul_def)
next
  case False
  then have x: "0 < unat x" by (simp add: unat_gt_0)
  have "unat ((- 1) div x) = (2 ^ 64 - 1) div unat x" by (simp add: unat_div unat_minus_1)
  then have "y > (- 1) div x \<longleftrightarrow> (2 ^ 64 - 1) div unat x < unat y" by (simp add: word_less_nat_alt)
  also have "\<dots> \<longleftrightarrow> 2 ^ 64 - 1 < unat y * unat x" using x by (rule div_less_iff_less_mult)
  also have "\<dots> \<longleftrightarrow> 2 ^ 64 \<le> unat x * unat y" by (auto simp: mult.commute)
  finally show ?thesis using False by (simp add: SafeMul_def)
qed

text \<open>C34: Checked 64-bit arithmetic. The result is the one that wraps around, and the flag is set exactly when the sum or the product of the
  two numbers does not fit, or the difference is negative.\<close>

theorem checked_arithmetic:
  "SafeAdd x y = (of_nat (unat x + unat y), 2 ^ 64 \<le> unat x + unat y) \<and>
   SafeMul x y = (of_nat (unat x * unat y), 2 ^ 64 \<le> unat x * unat y) \<and>
   SafeSub x y = (of_int (uint x - uint y), unat x < unat y)"
  by (auto simp: SafeAdd_correct SafeMul_correct SafeSub_correct)

end
