(* ===== verification/State_Db.thy ===== *)
theory State_Db
  imports Rlp_Raw Common_Types
begin

text \<open>
  The world state of \<^verbatim>\<open>src/core/state\<close>: state objects with their storage caches
  (\<^verbatim>\<open>state_object.go\<close>), the journal of changes (\<^verbatim>\<open>journal.go\<close>) and the database of accounts with snapshots
  (\<^verbatim>\<open>statedb.go\<close>). Objects are held by value: a Go pointer to a state object is either in
  \<^verbatim>\<open>stateObjects\<close> or in a journal entry, and an object is not written to once it is in the journal
  only. Reads that load an account or a storage slot into the cache return the changed database.

  Tries are maps, of addresses to accounts and of storage keys to RLP strings; the database of trie
  nodes and contract codes and the Keccak function are the \<open>backend\<close> parameter. The memoised
  database error and the time measurements are not modelled.
\<close>

section \<open>State\<close>

record Account =
  ac_Nonce :: u64
  ac_Balance :: int
  ac_Root :: hash
  ac_CodeHash :: hash

type_synonym Storage = "hash \<rightharpoonup> hash"
type_synonym storage_trie = "hash \<rightharpoonup> bytes"

text \<open>\<open>OpenStorageTrie\<close> is the content below a root, \<open>None\<close> when the root is missing; \<open>storage_root\<close>
  is the root hash of a content.\<close>

record backend =
  keccak256 :: "bytes \<Rightarrow> hash"
  OpenStorageTrie :: "hash \<Rightarrow> hash \<Rightarrow> storage_trie option"
  storage_root :: "storage_trie \<Rightarrow> hash"
  ContractCode :: "hash \<Rightarrow> hash \<Rightarrow> bytes option"

record stateObject =
  so_address :: address
  so_addrHash :: hash
  so_data :: Account
  so_trie :: "storage_trie option"
  so_code :: "bytes option"
  originStorage :: Storage
  pendingStorage :: Storage
  dirtyStorage :: Storage
  fakeStorage :: "Storage option"
  dirtyCode :: bool
  suicided :: bool
  deleted :: bool

datatype journalEntry =
    createObjectChange address
  | resetObjectChange stateObject
  | suicideChange address bool int
  | balanceChange address int
  | nonceChange address u64
  | storageChange address hash hash
  | codeChange address "bytes option" hash
  | refundChange u64
  | addLogChange hash
  | addPreimageChange hash
  | touchChange address

record journal =
  entries :: "journalEntry list"
  dirties :: "address \<rightharpoonup> int"

record evm_log =
  lg_Address :: address
  lg_Topics :: "hash list"
  lg_Data :: bytes
  lg_BlockNumber :: u64
  lg_TxHash :: hash
  lg_TxIndex :: u64
  lg_BlockHash :: hash
  lg_Index :: u64

record statedb =
  sd_trie :: "address \<rightharpoonup> Account"
  stateObjects :: "address \<rightharpoonup> stateObject"
  stateObjectsPending :: "address set"
  stateObjectsDirty :: "address set"
  sd_refund :: u64
  thash :: hash
  bhash :: hash
  txIndex :: int
  sd_logs :: "hash \<rightharpoonup> evm_log list"
  logSize :: u64
  preimages :: "hash \<rightharpoonup> bytes"
  sd_journal :: journal
  validRevisions :: "(nat \<times> nat) list"
  nextRevisionId :: nat

definition newJournal :: journal where
  "newJournal = \<lparr>entries = [], dirties = Map.empty\<rparr>"

definition statedb_New :: "(address \<rightharpoonup> Account) \<Rightarrow> statedb" where
  "statedb_New tr =
     \<lparr>sd_trie = tr, stateObjects = Map.empty, stateObjectsPending = {}, stateObjectsDirty = {},
      sd_refund = 0, thash = 0, bhash = 0, txIndex = 0, sd_logs = Map.empty, logSize = 0,
      preimages = Map.empty, sd_journal = newJournal, validRevisions = [], nextRevisionId = 0\<rparr>"

section \<open>Journal\<close>

fun dirtied :: "journalEntry \<Rightarrow> address option" where
  "dirtied (createObjectChange a) = Some a"
| "dirtied (resetObjectChange _) = None"
| "dirtied (suicideChange a _ _) = Some a"
| "dirtied (balanceChange a _) = Some a"
| "dirtied (nonceChange a _) = Some a"
| "dirtied (storageChange a _ _) = Some a"
| "dirtied (codeChange a _ _) = Some a"
| "dirtied (refundChange _) = None"
| "dirtied (addLogChange _) = None"
| "dirtied (addPreimageChange _) = None"
| "dirtied (touchChange a) = Some a"

text \<open>\<^verbatim>\<open>m[k] += d\<close> on a map of counters, whose missing entries read as zero.\<close>

definition count_of :: "(address \<rightharpoonup> int) \<Rightarrow> address \<Rightarrow> int" where
  "count_of m a = (case m a of None \<Rightarrow> 0 | Some n \<Rightarrow> n)"

definition journal_dirty :: "address \<Rightarrow> journal \<Rightarrow> journal" where
  "journal_dirty a j = j\<lparr>dirties := (dirties j)(a \<mapsto> count_of (dirties j) a + 1)\<rparr>"

definition journal_append :: "journalEntry \<Rightarrow> journal \<Rightarrow> journal" where
  "journal_append e j =
     (let j = j\<lparr>entries := entries j @ [e]\<rparr> in
      case dirtied e of None \<Rightarrow> j | Some a \<Rightarrow> journal_dirty a j)"

definition journal_undirty :: "journalEntry \<Rightarrow> journal \<Rightarrow> journal" where
  "journal_undirty e j =
     (case dirtied e of
        None \<Rightarrow> j
      | Some a \<Rightarrow>
          (let n = count_of (dirties j) a - 1 in
           j\<lparr>dirties := (if n = 0 then (dirties j)(a := None) else (dirties j)(a \<mapsto> n))\<rparr>))"

definition append_entry :: "journalEntry \<Rightarrow> statedb \<Rightarrow> statedb" where
  "append_entry e s = s\<lparr>sd_journal := journal_append e (sd_journal s)\<rparr>"

section \<open>State objects\<close>

definition emptyRoot :: hash where
  "emptyRoot = 0x56e81f171bcc55a6ff8345e692c0f86e5b48e01b996cadc001622fb5e363b421"

definition emptyCodeHash :: "backend \<Rightarrow> hash" where
  "emptyCodeHash b = keccak256 b []"

text \<open>The zero \<^verbatim>\<open>Account{}\<close>: the nil balance and the nil code hash are the defaults that \<^verbatim>\<open>newObject\<close>
  replaces them by.\<close>

definition zero_Account :: "backend \<Rightarrow> Account" where
  "zero_Account b = \<lparr>ac_Nonce = 0, ac_Balance = 0, ac_Root = 0, ac_CodeHash = emptyCodeHash b\<rparr>"

definition newObject :: "backend \<Rightarrow> address \<Rightarrow> Account \<Rightarrow> stateObject" where
  "newObject b addr d =
     \<lparr>so_address = addr, so_addrHash = keccak256 b (addr_bytes addr),
      so_data = d\<lparr>ac_Root := (if ac_Root d = 0 then emptyRoot else ac_Root d)\<rparr>,
      so_trie = None, so_code = None,
      originStorage = Map.empty, pendingStorage = Map.empty, dirtyStorage = Map.empty,
      fakeStorage = None, dirtyCode = False, suicided = False, deleted = False\<rparr>"

definition so_empty :: "backend \<Rightarrow> stateObject \<Rightarrow> bool" where
  "so_empty b o1 \<longleftrightarrow>
     ac_Nonce (so_data o1) = 0 \<and> ac_Balance (so_data o1) = 0 \<and> ac_CodeHash (so_data o1) = emptyCodeHash b"

definition setStateObject :: "stateObject \<Rightarrow> statedb \<Rightarrow> statedb" where
  "setStateObject o1 s = s\<lparr>stateObjects := (stateObjects s)(so_address o1 \<mapsto> o1)\<rparr>"

definition getTrie :: "backend \<Rightarrow> stateObject \<Rightarrow> storage_trie \<times> stateObject" where
  "getTrie b o1 =
     (case so_trie o1 of
        Some t \<Rightarrow> (t, o1)
      | None \<Rightarrow>
          (let t = (case OpenStorageTrie b (so_addrHash o1) (ac_Root (so_data o1)) of
                      Some t \<Rightarrow> t
                    | None \<Rightarrow> Map.empty)
           in (t, o1\<lparr>so_trie := Some t\<rparr>)))"

text \<open>The slot that a storage trie holds at a key. A malformed entry is reported through the
  memoised error and reads as the zero hash: \<^verbatim>\<open>rlp.Split\<close> returns no content with an error.\<close>

definition decode_slot :: "bytes option \<Rightarrow> hash" where
  "decode_slot enc =
     (case enc of
        None \<Rightarrow> 0
      | Some e \<Rightarrow>
          (if e = [] then 0
           else (case Split e of Inl _ \<Rightarrow> BytesToHash [] | Inr (_, content, _) \<Rightarrow> BytesToHash content)))"

definition so_GetCommittedState :: "backend \<Rightarrow> stateObject \<Rightarrow> hash \<Rightarrow> hash \<times> stateObject" where
  "so_GetCommittedState b o1 key =
     (case fakeStorage o1 of
        Some f \<Rightarrow> (case f key of None \<Rightarrow> 0 | Some v \<Rightarrow> v, o1)
      | None \<Rightarrow>
          (case pendingStorage o1 key of
             Some v \<Rightarrow> (v, o1)
           | None \<Rightarrow>
               (case originStorage o1 key of
                  Some v \<Rightarrow> (v, o1)
                | None \<Rightarrow>
                    (let (t, o1) = getTrie b o1; v = decode_slot (t key)
                     in (v, o1\<lparr>originStorage := (originStorage o1)(key \<mapsto> v)\<rparr>)))))"

definition so_GetState :: "backend \<Rightarrow> stateObject \<Rightarrow> hash \<Rightarrow> hash \<times> stateObject" where
  "so_GetState b o1 key =
     (case fakeStorage o1 of
        Some f \<Rightarrow> (case f key of None \<Rightarrow> 0 | Some v \<Rightarrow> v, o1)
      | None \<Rightarrow>
          (case dirtyStorage o1 key of
             Some v \<Rightarrow> (v, o1)
           | None \<Rightarrow> so_GetCommittedState b o1 key))"

definition so_setState :: "hash \<Rightarrow> hash \<Rightarrow> stateObject \<Rightarrow> stateObject" where
  "so_setState key v o1 = o1\<lparr>dirtyStorage := (dirtyStorage o1)(key \<mapsto> v)\<rparr>"

definition so_SetState :: "backend \<Rightarrow> stateObject \<Rightarrow> hash \<Rightarrow> hash \<Rightarrow> statedb \<Rightarrow> statedb" where
  "so_SetState b o1 key v s =
     (case fakeStorage o1 of
        Some f \<Rightarrow> setStateObject (o1\<lparr>fakeStorage := Some (f(key \<mapsto> v))\<rparr>) s
      | None \<Rightarrow>
          (let (prev, o1) = so_GetState b o1 key in
           if prev = v then setStateObject o1 s
           else setStateObject (so_setState key v o1)
                  (append_entry (storageChange (so_address o1) key prev) s)))"

definition so_finalise :: "stateObject \<Rightarrow> stateObject" where
  "so_finalise o1 = o1\<lparr>pendingStorage := pendingStorage o1 ++ dirtyStorage o1, dirtyStorage := Map.empty\<rparr>"

definition so_setBalance :: "int \<Rightarrow> stateObject \<Rightarrow> stateObject" where
  "so_setBalance amount o1 = o1\<lparr>so_data := (so_data o1)\<lparr>ac_Balance := amount\<rparr>\<rparr>"

definition so_SetBalance :: "stateObject \<Rightarrow> int \<Rightarrow> statedb \<Rightarrow> statedb" where
  "so_SetBalance o1 amount s =
     setStateObject (so_setBalance amount o1)
       (append_entry (balanceChange (so_address o1) (ac_Balance (so_data o1))) s)"

definition ripemd :: address where "ripemd = 3"

definition so_touch :: "stateObject \<Rightarrow> statedb \<Rightarrow> statedb" where
  "so_touch o1 s =
     (let s = append_entry (touchChange (so_address o1)) s in
      if so_address o1 = ripemd then s\<lparr>sd_journal := journal_dirty (so_address o1) (sd_journal s)\<rparr> else s)"

definition so_AddBalance :: "backend \<Rightarrow> stateObject \<Rightarrow> int \<Rightarrow> statedb \<Rightarrow> statedb" where
  "so_AddBalance b o1 amount s =
     (if amount = 0 then (if so_empty b o1 then so_touch o1 s else s)
      else so_SetBalance o1 (ac_Balance (so_data o1) + amount) s)"

definition so_SubBalance :: "stateObject \<Rightarrow> int \<Rightarrow> statedb \<Rightarrow> statedb" where
  "so_SubBalance o1 amount s =
     (if amount = 0 then s else so_SetBalance o1 (ac_Balance (so_data o1) - amount) s)"

definition so_setNonce :: "u64 \<Rightarrow> stateObject \<Rightarrow> stateObject" where
  "so_setNonce n o1 = o1\<lparr>so_data := (so_data o1)\<lparr>ac_Nonce := n\<rparr>\<rparr>"

definition so_SetNonce :: "stateObject \<Rightarrow> u64 \<Rightarrow> statedb \<Rightarrow> statedb" where
  "so_SetNonce o1 n s =
     setStateObject (so_setNonce n o1) (append_entry (nonceChange (so_address o1) (ac_Nonce (so_data o1))) s)"

definition so_Code :: "backend \<Rightarrow> stateObject \<Rightarrow> bytes option \<times> stateObject" where
  "so_Code b o1 =
     (case so_code o1 of
        Some c \<Rightarrow> (Some c, o1)
      | None \<Rightarrow>
          (if ac_CodeHash (so_data o1) = emptyCodeHash b then (None, o1)
           else (let c = ContractCode b (so_addrHash o1) (ac_CodeHash (so_data o1))
                 in (c, o1\<lparr>so_code := c\<rparr>))))"

definition so_setCode :: "hash \<Rightarrow> bytes option \<Rightarrow> stateObject \<Rightarrow> stateObject" where
  "so_setCode h c o1 =
     o1\<lparr>so_code := c, so_data := (so_data o1)\<lparr>ac_CodeHash := h\<rparr>, dirtyCode := True\<rparr>"

definition so_SetCode :: "backend \<Rightarrow> stateObject \<Rightarrow> hash \<Rightarrow> bytes option \<Rightarrow> statedb \<Rightarrow> statedb" where
  "so_SetCode b o1 h c s =
     (let (prevcode, o1) = so_Code b o1 in
      setStateObject (so_setCode h c o1)
        (append_entry (codeChange (so_address o1) prevcode (ac_CodeHash (so_data o1))) s))"

section \<open>Accounts\<close>

definition getDeletedStateObject :: "backend \<Rightarrow> address \<Rightarrow> statedb \<Rightarrow> stateObject option \<times> statedb" where
  "getDeletedStateObject b addr s =
     (case stateObjects s addr of
        Some o1 \<Rightarrow> (Some o1, s)
      | None \<Rightarrow>
          (case sd_trie s addr of
             None \<Rightarrow> (None, s)
           | Some d \<Rightarrow> (let o1 = newObject b addr d in (Some o1, setStateObject o1 s))))"

definition getStateObject :: "backend \<Rightarrow> address \<Rightarrow> statedb \<Rightarrow> stateObject option \<times> statedb" where
  "getStateObject b addr s =
     (case getDeletedStateObject b addr s of
        (Some o1, s) \<Rightarrow> (if deleted o1 then (None, s) else (Some o1, s))
      | (None, s) \<Rightarrow> (None, s))"

definition createObject ::
  "backend \<Rightarrow> address \<Rightarrow> statedb \<Rightarrow> (stateObject \<times> stateObject option) \<times> statedb" where
  "createObject b addr s =
     (let (prev, s) = getDeletedStateObject b addr s;
          newobj = so_setNonce 0 (newObject b addr (zero_Account b));
          s = (case prev of
                 None \<Rightarrow> append_entry (createObjectChange addr) s
               | Some p \<Rightarrow> append_entry (resetObjectChange p) s)
      in ((newobj, prev), setStateObject newobj s))"

definition CreateAccount :: "backend \<Rightarrow> address \<Rightarrow> statedb \<Rightarrow> statedb" where
  "CreateAccount b addr s =
     (case createObject b addr s of
        ((newObj, Some p), s) \<Rightarrow> setStateObject (so_setBalance (ac_Balance (so_data p)) newObj) s
      | ((newObj, None), s) \<Rightarrow> s)"

definition GetOrNewStateObject :: "backend \<Rightarrow> address \<Rightarrow> statedb \<Rightarrow> stateObject \<times> statedb" where
  "GetOrNewStateObject b addr s =
     (case getStateObject b addr s of
        (Some o1, s) \<Rightarrow> (o1, s)
      | (None, s) \<Rightarrow> (let ((o1, _), s) = createObject b addr s in (o1, s)))"

text \<open>The getters of \<^verbatim>\<open>statedb.go\<close>.\<close>

definition Exist :: "backend \<Rightarrow> address \<Rightarrow> statedb \<Rightarrow> bool \<times> statedb" where
  "Exist b addr s = (let (o1, s) = getStateObject b addr s in (o1 \<noteq> None, s))"

definition Empty :: "backend \<Rightarrow> address \<Rightarrow> statedb \<Rightarrow> bool \<times> statedb" where
  "Empty b addr s =
     (let (o1, s) = getStateObject b addr s in
      (case o1 of None \<Rightarrow> True | Some o1 \<Rightarrow> so_empty b o1, s))"

definition GetBalance :: "backend \<Rightarrow> address \<Rightarrow> statedb \<Rightarrow> int \<times> statedb" where
  "GetBalance b addr s =
     (let (o1, s) = getStateObject b addr s in
      (case o1 of None \<Rightarrow> 0 | Some o1 \<Rightarrow> ac_Balance (so_data o1), s))"

definition GetNonce :: "backend \<Rightarrow> address \<Rightarrow> statedb \<Rightarrow> u64 \<times> statedb" where
  "GetNonce b addr s =
     (let (o1, s) = getStateObject b addr s in
      (case o1 of None \<Rightarrow> 0 | Some o1 \<Rightarrow> ac_Nonce (so_data o1), s))"

definition GetCode :: "backend \<Rightarrow> address \<Rightarrow> statedb \<Rightarrow> bytes \<times> statedb" where
  "GetCode b addr s =
     (case getStateObject b addr s of
        (None, s) \<Rightarrow> ([], s)
      | (Some o1, s) \<Rightarrow>
          (let (c, o1) = so_Code b o1
           in (case c of None \<Rightarrow> [] | Some c \<Rightarrow> c, setStateObject o1 s)))"

definition GetCodeSize :: "backend \<Rightarrow> address \<Rightarrow> statedb \<Rightarrow> nat \<times> statedb" where
  "GetCodeSize b addr s =
     (let (o1, s) = getStateObject b addr s in
      (case o1 of
         None \<Rightarrow> 0
       | Some o1 \<Rightarrow>
           (case so_code o1 of
              Some c \<Rightarrow> length c
            | None \<Rightarrow>
                (case ContractCode b (so_addrHash o1) (ac_CodeHash (so_data o1)) of
                   None \<Rightarrow> 0
                 | Some c \<Rightarrow> length c)), s))"

definition GetCodeHash :: "backend \<Rightarrow> address \<Rightarrow> statedb \<Rightarrow> hash \<times> statedb" where
  "GetCodeHash b addr s =
     (let (o1, s) = getStateObject b addr s in
      (case o1 of None \<Rightarrow> 0 | Some o1 \<Rightarrow> ac_CodeHash (so_data o1), s))"

definition GetState :: "backend \<Rightarrow> address \<Rightarrow> hash \<Rightarrow> statedb \<Rightarrow> hash \<times> statedb" where
  "GetState b addr key s =
     (case getStateObject b addr s of
        (None, s) \<Rightarrow> (0, s)
      | (Some o1, s) \<Rightarrow> (let (v, o1) = so_GetState b o1 key in (v, setStateObject o1 s)))"

definition GetCommittedState :: "backend \<Rightarrow> address \<Rightarrow> hash \<Rightarrow> statedb \<Rightarrow> hash \<times> statedb" where
  "GetCommittedState b addr key s =
     (case getStateObject b addr s of
        (None, s) \<Rightarrow> (0, s)
      | (Some o1, s) \<Rightarrow> (let (v, o1) = so_GetCommittedState b o1 key in (v, setStateObject o1 s)))"

definition HasSuicided :: "backend \<Rightarrow> address \<Rightarrow> statedb \<Rightarrow> bool \<times> statedb" where
  "HasSuicided b addr s =
     (let (o1, s) = getStateObject b addr s in
      (case o1 of None \<Rightarrow> False | Some o1 \<Rightarrow> suicided o1, s))"

definition GetRefund :: "statedb \<Rightarrow> u64" where
  "GetRefund s = sd_refund s"

definition GetLogs :: "hash \<Rightarrow> statedb \<Rightarrow> evm_log list" where
  "GetLogs h s = (case sd_logs s h of None \<Rightarrow> [] | Some l \<Rightarrow> l)"

text \<open>The setters.\<close>

definition AddBalance :: "backend \<Rightarrow> address \<Rightarrow> int \<Rightarrow> statedb \<Rightarrow> statedb" where
  "AddBalance b addr amount s = (let (o1, s) = GetOrNewStateObject b addr s in so_AddBalance b o1 amount s)"

definition SubBalance :: "backend \<Rightarrow> address \<Rightarrow> int \<Rightarrow> statedb \<Rightarrow> statedb" where
  "SubBalance b addr amount s = (let (o1, s) = GetOrNewStateObject b addr s in so_SubBalance o1 amount s)"

definition SetBalance :: "backend \<Rightarrow> address \<Rightarrow> int \<Rightarrow> statedb \<Rightarrow> statedb" where
  "SetBalance b addr amount s = (let (o1, s) = GetOrNewStateObject b addr s in so_SetBalance o1 amount s)"

definition SetNonce :: "backend \<Rightarrow> address \<Rightarrow> u64 \<Rightarrow> statedb \<Rightarrow> statedb" where
  "SetNonce b addr n s = (let (o1, s) = GetOrNewStateObject b addr s in so_SetNonce o1 n s)"

text \<open>An empty code is the nil slice: the virtual machine returns nil for an empty result.\<close>

definition SetCode :: "backend \<Rightarrow> address \<Rightarrow> bytes \<Rightarrow> statedb \<Rightarrow> statedb" where
  "SetCode b addr c s =
     (let (o1, s) = GetOrNewStateObject b addr s
      in so_SetCode b o1 (keccak256 b c) (if c = [] then None else Some c) s)"

definition SetState :: "backend \<Rightarrow> address \<Rightarrow> hash \<Rightarrow> hash \<Rightarrow> statedb \<Rightarrow> statedb" where
  "SetState b addr key v s = (let (o1, s) = GetOrNewStateObject b addr s in so_SetState b o1 key v s)"

definition Suicide :: "backend \<Rightarrow> address \<Rightarrow> statedb \<Rightarrow> bool \<times> statedb" where
  "Suicide b addr s =
     (case getStateObject b addr s of
        (None, s) \<Rightarrow> (False, s)
      | (Some o1, s) \<Rightarrow>
          (True, setStateObject (so_setBalance 0 (o1\<lparr>suicided := True\<rparr>))
             (append_entry (suicideChange addr (suicided o1) (ac_Balance (so_data o1))) s)))"

definition AddRefund :: "u64 \<Rightarrow> statedb \<Rightarrow> statedb" where
  "AddRefund gas s = (append_entry (refundChange (sd_refund s)) s)\<lparr>sd_refund := sd_refund s + gas\<rparr>"

definition SubRefund :: "u64 \<Rightarrow> statedb \<Rightarrow> statedb option" where
  "SubRefund gas s =
     (let s' = append_entry (refundChange (sd_refund s)) s in
      if gas > sd_refund s' then None else Some (s'\<lparr>sd_refund := sd_refund s' - gas\<rparr>))"

definition AddLog :: "evm_log \<Rightarrow> statedb \<Rightarrow> statedb" where
  "AddLog l s =
     (let s = append_entry (addLogChange (thash s)) s;
          l = l\<lparr>lg_TxHash := thash s, lg_BlockHash := bhash s, lg_TxIndex := word_of_int (txIndex s),
                lg_Index := logSize s\<rparr>
      in s\<lparr>sd_logs := (sd_logs s)(thash s \<mapsto> GetLogs (thash s) s @ [l]), logSize := logSize s + 1\<rparr>)"

definition AddPreimage :: "hash \<Rightarrow> bytes \<Rightarrow> statedb \<Rightarrow> statedb" where
  "AddPreimage h p s =
     (if preimages s h = None
      then (append_entry (addPreimageChange h) s)\<lparr>preimages := (preimages s)(h \<mapsto> p)\<rparr>
      else s)"

definition Prepare :: "hash \<Rightarrow> hash \<Rightarrow> int \<Rightarrow> statedb \<Rightarrow> statedb" where
  "Prepare th bh ti s = s\<lparr>thash := th, bhash := bh, txIndex := ti\<rparr>"

section \<open>Snapshots\<close>

text \<open>Undoing one change. The accounts that the journal names are expected to be live: the method
  call on a nil object is a panic.\<close>

definition undo_object ::
  "backend \<Rightarrow> address \<Rightarrow> (stateObject \<Rightarrow> stateObject) \<Rightarrow> statedb \<Rightarrow> statedb option" where
  "undo_object b addr f s =
     (case getStateObject b addr s of
        (None, s) \<Rightarrow> None
      | (Some o1, s) \<Rightarrow> Some (setStateObject (f o1) s))"

fun entry_revert :: "backend \<Rightarrow> journalEntry \<Rightarrow> statedb \<Rightarrow> statedb option" where
  "entry_revert b (createObjectChange a) s =
     Some (s\<lparr>stateObjects := (stateObjects s)(a := None), stateObjectsDirty := stateObjectsDirty s - {a}\<rparr>)"
| "entry_revert b (resetObjectChange prev) s = Some (setStateObject prev s)"
| "entry_revert b (suicideChange a prev prevbalance) s =
     (case getStateObject b a s of
        (None, s) \<Rightarrow> Some s
      | (Some o1, s) \<Rightarrow> Some (setStateObject (so_setBalance prevbalance (o1\<lparr>suicided := prev\<rparr>)) s))"
| "entry_revert b (balanceChange a prev) s = undo_object b a (so_setBalance prev) s"
| "entry_revert b (nonceChange a prev) s = undo_object b a (so_setNonce prev) s"
| "entry_revert b (storageChange a key prevalue) s = undo_object b a (so_setState key prevalue) s"
| "entry_revert b (codeChange a prevcode prevhash) s = undo_object b a (so_setCode prevhash prevcode) s"
| "entry_revert b (refundChange prev) s = Some (s\<lparr>sd_refund := prev\<rparr>)"
| "entry_revert b (addLogChange txhash) s =
     (let ls = GetLogs txhash s in
      if length ls = 1 then Some (s\<lparr>sd_logs := (sd_logs s)(txhash := None), logSize := logSize s - 1\<rparr>)
      else if ls = [] then None
      else Some (s\<lparr>sd_logs := (sd_logs s)(txhash \<mapsto> butlast ls), logSize := logSize s - 1\<rparr>))"
| "entry_revert b (addPreimageChange h) s = Some (s\<lparr>preimages := (preimages s)(h := None)\<rparr>)"
| "entry_revert b (touchChange a) s = Some s"

fun revert_loop :: "backend \<Rightarrow> journalEntry list \<Rightarrow> statedb \<Rightarrow> statedb option" where
  "revert_loop b [] s = Some s"
| "revert_loop b (e # es) s =
     do {
       s \<leftarrow> entry_revert b e s;
       revert_loop b es (s\<lparr>sd_journal := journal_undirty e (sd_journal s)\<rparr>)
     }"

definition journal_revert :: "backend \<Rightarrow> nat \<Rightarrow> statedb \<Rightarrow> statedb option" where
  "journal_revert b snapshot s =
     (if length (entries (sd_journal s)) < snapshot then None
      else do {
        s' \<leftarrow> revert_loop b (rev (drop snapshot (entries (sd_journal s)))) s;
        Some (s'\<lparr>sd_journal := (sd_journal s')\<lparr>entries := take snapshot (entries (sd_journal s'))\<rparr>\<rparr>)
      })"

definition Snapshot :: "statedb \<Rightarrow> nat \<times> statedb" where
  "Snapshot s =
     (nextRevisionId s,
      s\<lparr>nextRevisionId := nextRevisionId s + 1,
        validRevisions := validRevisions s @ [(nextRevisionId s, length (entries (sd_journal s)))]\<rparr>)"

text \<open>The binary search of Go's \<^verbatim>\<open>sort.Search\<close>.\<close>

function sort_Search_loop :: "(nat \<Rightarrow> bool) \<Rightarrow> nat \<Rightarrow> nat \<Rightarrow> nat" where
  "sort_Search_loop f i j =
     (if i < j then
        (let h = (i + j) div 2 in
         if \<not> f h then sort_Search_loop f (h + 1) j else sort_Search_loop f i h)
      else i)"
  by auto
termination by (relation "measure (\<lambda>(f, i, j). j - i)") auto

declare sort_Search_loop.simps [simp del]

definition sort_Search :: "nat \<Rightarrow> (nat \<Rightarrow> bool) \<Rightarrow> nat" where
  "sort_Search n f = sort_Search_loop f 0 n"

definition RevertToSnapshot :: "backend \<Rightarrow> nat \<Rightarrow> statedb \<Rightarrow> statedb option" where
  "RevertToSnapshot b revid s =
     (let revs = validRevisions s;
          idx = sort_Search (length revs) (\<lambda>i. fst (revs ! i) \<ge> revid)
      in if idx = length revs \<or> fst (revs ! idx) \<noteq> revid then None
         else do {
           s \<leftarrow> journal_revert b (snd (revs ! idx)) s;
           Some (s\<lparr>validRevisions := take idx (validRevisions s)\<rparr>)
         })"

section \<open>End of a transaction\<close>

definition clearJournalAndRefund :: "statedb \<Rightarrow> statedb" where
  "clearJournalAndRefund s =
     (let s = (if 0 < length (entries (sd_journal s)) then s\<lparr>sd_journal := newJournal, sd_refund := 0\<rparr> else s)
      in s\<lparr>validRevisions := []\<rparr>)"

text \<open>The loops of \<^verbatim>\<open>Finalise\<close> and \<^verbatim>\<open>IntermediateRoot\<close> range over maps, in no fixed order; each round
  touches its own account only, so the loop is a function of the account.\<close>

definition finalise_object :: "backend \<Rightarrow> bool \<Rightarrow> stateObject \<Rightarrow> stateObject" where
  "finalise_object b deleteEmptyObjects o1 =
     (if suicided o1 \<or> (deleteEmptyObjects \<and> so_empty b o1) then o1\<lparr>deleted := True\<rparr> else so_finalise o1)"

definition Finalise :: "backend \<Rightarrow> bool \<Rightarrow> statedb \<Rightarrow> statedb" where
  "Finalise b deleteEmptyObjects s =
     (let ds = dom (dirties (sd_journal s)) \<inter> dom (stateObjects s) in
      clearJournalAndRefund
        (s\<lparr>stateObjects := (\<lambda>a. if a \<in> ds then map_option (finalise_object b deleteEmptyObjects) (stateObjects s a)
                                 else stateObjects s a),
           stateObjectsPending := stateObjectsPending s \<union> ds,
           stateObjectsDirty := stateObjectsDirty s \<union> ds\<rparr>))"

definition encode_slot :: "hash \<Rightarrow> bytes" where
  "encode_slot v = EncodeToBytes (Str (TrimLeftZeroes (hash_bytes v)))"

text \<open>\<^verbatim>\<open>updateTrie\<close>: a pending slot that differs from its original value is written to the trie, or
  deleted when it is zero. The rounds of the loop are independent, one for each key.\<close>

definition updateTrie :: "backend \<Rightarrow> stateObject \<Rightarrow> storage_trie \<times> stateObject" where
  "updateTrie b o1 =
     (let o1 = so_finalise o1;
          (t, o1) = getTrie b o1;
          origin = (\<lambda>k. case originStorage o1 k of None \<Rightarrow> 0 | Some v \<Rightarrow> v);
          written = (\<lambda>k. case pendingStorage o1 k of None \<Rightarrow> False | Some v \<Rightarrow> v \<noteq> origin k);
          t = (\<lambda>k. if written k then
                     (let v = the (pendingStorage o1 k) in if v = 0 then None else Some (encode_slot v))
                   else t k);
          o1 = o1\<lparr>originStorage := (\<lambda>k. if written k then pendingStorage o1 k else originStorage o1 k),
                  pendingStorage := Map.empty, so_trie := Some t\<rparr>
      in (t, o1))"

definition updateRoot :: "backend \<Rightarrow> stateObject \<Rightarrow> stateObject" where
  "updateRoot b o1 =
     (let (t, o1) = updateTrie b o1 in o1\<lparr>so_data := (so_data o1)\<lparr>ac_Root := storage_root b t\<rparr>\<rparr>)"

text \<open>\<^verbatim>\<open>IntermediateRoot\<close>, up to the hash of the account trie that it returns.\<close>

definition IntermediateRoot :: "backend \<Rightarrow> bool \<Rightarrow> statedb \<Rightarrow> statedb option" where
  "IntermediateRoot b deleteEmptyObjects s =
     (let s = Finalise b deleteEmptyObjects s;
          pend = stateObjectsPending s;
          upd = (\<lambda>o1. if deleted o1 then o1 else updateRoot b o1)
      in if \<not> pend \<subseteq> dom (stateObjects s) then None
         else Some (s\<lparr>stateObjects := (\<lambda>a. if a \<in> pend then map_option upd (stateObjects s a) else stateObjects s a),
                      sd_trie := (\<lambda>a. if a \<in> pend then
                                        (case stateObjects s a of
                                           None \<Rightarrow> sd_trie s a
                                         | Some o1 \<Rightarrow> if deleted o1 then None else Some (so_data (upd o1)))
                                      else sd_trie s a),
                      stateObjectsPending := {}\<rparr>))"

end
