(* ===== verification/State_Revert.thy ===== *)
theory State_Revert
  imports State_Db
begin

text \<open>
  What a transaction sees of the world state, and the proof that reverting to a snapshot restores it.
  The abstract state has, for each account, its nonce, balance, code and storage as the getters of
  \<^verbatim>\<open>statedb.go\<close> return them, whatever is in the caches. Undoing a journal entry is a function of the abstract state; every operation
  of the database appends entries that undo it.
\<close>

section \<open>The abstract state\<close>

record aobj =
  v_address :: address
  v_addrHash :: hash
  v_nonce :: u64
  v_balance :: int
  v_root :: hash
  v_codehash :: hash
  v_code :: bytes
  v_state :: "hash \<Rightarrow> hash"
  v_committed :: "hash \<Rightarrow> hash"
  v_fake :: "Storage option"
  v_suicided :: bool
  v_deleted :: bool

record astate =
  a_base :: "address \<rightharpoonup> aobj"
  a_obj :: "address \<rightharpoonup> aobj"
  a_refund :: u64
  a_logs :: "hash \<Rightarrow> evm_log list"
  a_logSize :: u64
  a_preimages :: "hash \<rightharpoonup> bytes"
  a_tx :: "hash \<times> hash \<times> int"

abbreviation code_default :: "bytes option \<Rightarrow> bytes" where
  "code_default c \<equiv> (case c of None \<Rightarrow> [] | Some c \<Rightarrow> c)"

definition ov :: "backend \<Rightarrow> stateObject \<Rightarrow> aobj" where
  "ov b o1 =
     \<lparr>v_address = so_address o1, v_addrHash = so_addrHash o1,
      v_nonce = ac_Nonce (so_data o1), v_balance = ac_Balance (so_data o1),
      v_root = ac_Root (so_data o1), v_codehash = ac_CodeHash (so_data o1),
      v_code = code_default (fst (so_Code b o1)),
      v_state = (\<lambda>k. fst (so_GetState b o1 k)),
      v_committed = (\<lambda>k. fst (so_GetCommittedState b o1 k)),
      v_fake = fakeStorage o1, v_suicided = suicided o1, v_deleted = deleted o1\<rparr>"

definition base_view :: "backend \<Rightarrow> (address \<rightharpoonup> Account) \<Rightarrow> address \<rightharpoonup> aobj" where
  "base_view b tr a = map_option (\<lambda>d. ov b (newObject b a d)) (tr a)"

definition obj_view :: "backend \<Rightarrow> (address \<rightharpoonup> Account) \<Rightarrow> (address \<rightharpoonup> stateObject) \<Rightarrow> address \<rightharpoonup> aobj" where
  "obj_view b tr objs a = (case objs a of None \<Rightarrow> base_view b tr a | Some o1 \<Rightarrow> Some (ov b o1))"

definition absS :: "backend \<Rightarrow> statedb \<Rightarrow> astate" where
  "absS b s =
     \<lparr>a_base = base_view b (sd_trie s), a_obj = obj_view b (sd_trie s) (stateObjects s), a_refund = sd_refund s,
      a_logs = (\<lambda>h. GetLogs h s), a_logSize = logSize s, a_preimages = preimages s,
      a_tx = (thash s, bhash s, txIndex s)\<rparr>"

definition live :: "astate \<Rightarrow> address \<Rightarrow> aobj option" where
  "live A a = (case a_obj A a of None \<Rightarrow> None | Some v \<Rightarrow> if v_deleted v then None else Some v)"

definition aput :: "aobj \<Rightarrow> astate \<Rightarrow> astate" where
  "aput v A = A\<lparr>a_obj := (a_obj A)(v_address v \<mapsto> v)\<rparr>"

definition aok :: "astate \<Rightarrow> bool" where
  "aok A \<longleftrightarrow> (\<forall>a v. a_obj A a = Some v \<longrightarrow> v_address v = a \<and> v_fake v = None)"

section \<open>Undoing on the abstract state\<close>

definition aset_state :: "hash \<Rightarrow> hash \<Rightarrow> aobj \<Rightarrow> aobj" where
  "aset_state k x v = (if v_fake v = None then v\<lparr>v_state := (v_state v)(k := x)\<rparr> else v)"

definition aset_code :: "backend \<Rightarrow> hash \<Rightarrow> bytes option \<Rightarrow> aobj \<Rightarrow> aobj" where
  "aset_code b h c v =
     v\<lparr>v_codehash := h,
       v_code := (case c of
                    Some c \<Rightarrow> c
                  | None \<Rightarrow> if h = emptyCodeHash b then [] else code_default (ContractCode b (v_addrHash v) h))\<rparr>"

definition aundo :: "address \<Rightarrow> (aobj \<Rightarrow> aobj) \<Rightarrow> astate \<Rightarrow> astate option" where
  "aundo a f A = (case live A a of None \<Rightarrow> None | Some v \<Rightarrow> Some (aput (f v) A))"

fun arevert :: "backend \<Rightarrow> journalEntry \<Rightarrow> astate \<Rightarrow> astate option" where
  "arevert b (createObjectChange a) A = Some (A\<lparr>a_obj := (a_obj A)(a := a_base A a)\<rparr>)"
| "arevert b (resetObjectChange p) A = Some (aput (ov b p) A)"
| "arevert b (suicideChange a prev bal) A =
     (case live A a of None \<Rightarrow> Some A | Some v \<Rightarrow> Some (aput (v\<lparr>v_suicided := prev, v_balance := bal\<rparr>) A))"
| "arevert b (balanceChange a x) A = aundo a (\<lambda>v. v\<lparr>v_balance := x\<rparr>) A"
| "arevert b (nonceChange a x) A = aundo a (\<lambda>v. v\<lparr>v_nonce := x\<rparr>) A"
| "arevert b (storageChange a k x) A = aundo a (aset_state k x) A"
| "arevert b (codeChange a c h) A = aundo a (aset_code b h c) A"
| "arevert b (refundChange x) A = Some (A\<lparr>a_refund := x\<rparr>)"
| "arevert b (addLogChange h) A =
     (if a_logs A h = [] then None
      else Some (A\<lparr>a_logs := (a_logs A)(h := butlast (a_logs A h)), a_logSize := a_logSize A - 1\<rparr>))"
| "arevert b (addPreimageChange h) A = Some (A\<lparr>a_preimages := (a_preimages A)(h := None)\<rparr>)"
| "arevert b (touchChange a) A = Some A"

lemma getTrie_again: "getTrie b o1 = (t, o2) \<Longrightarrow>
    so_trie o2 = Some t \<and> o2 = o1\<lparr>so_trie := Some t\<rparr> \<and> fst (getTrie b (o1\<lparr>originStorage := x\<rparr>)) = t"
  by (auto simp: getTrie_def Let_def split: option.splits)

lemma so_GetCommittedState_view:
  "ov b (snd (so_GetCommittedState b o1 k)) = ov b o1"
proof (cases "fakeStorage o1 = None \<and> pendingStorage o1 k = None \<and> originStorage o1 k = None")
  case True
  obtain t o2 where g: "getTrie b o1 = (t, o2)" by fastforce
  note t = getTrie_again [OF g]
  have "so_GetCommittedState b o1 k =
      (decode_slot (t k), o2\<lparr>originStorage := (originStorage o1)(k \<mapsto> decode_slot (t k))\<rparr>)"
    using True g t by (auto simp: so_GetCommittedState_def Let_def)
  moreover have "getTrie b (o1\<lparr>so_trie := Some t, originStorage := x\<rparr>) =
      (t, o1\<lparr>so_trie := Some t, originStorage := x\<rparr>)" for x
    by (simp add: getTrie_def)
  ultimately show ?thesis
    using True g t
    by (auto simp: ov_def so_Code_def so_GetState_def so_GetCommittedState_def Let_def fun_eq_iff
        split: option.splits if_splits)
next
  case False
  then show ?thesis
    by (auto simp: so_GetCommittedState_def split: option.splits)
qed

lemma so_GetState_view: "ov b (snd (so_GetState b o1 k)) = ov b o1"
  using so_GetCommittedState_view by (auto simp: so_GetState_def split: option.splits)

lemma so_Code_view: "ov b (snd (so_Code b o1)) = ov b o1"
  by (auto simp: so_Code_def ov_def so_GetState_def so_GetCommittedState_def getTrie_def Let_def fun_eq_iff
      split: option.splits if_splits)


lemmas obj_defs = so_setBalance_def so_setNonce_def so_setState_def so_setCode_def

lemma ov_setBalance: "ov b (so_setBalance x o1) = (ov b o1)\<lparr>v_balance := x\<rparr>"
  by (simp add: ov_def so_setBalance_def so_Code_def so_GetState_def so_GetCommittedState_def getTrie_def
      Let_def fun_eq_iff split: option.split)

lemma ov_setNonce: "ov b (so_setNonce x o1) = (ov b o1)\<lparr>v_nonce := x\<rparr>"
  by (simp add: ov_def so_setNonce_def so_Code_def so_GetState_def so_GetCommittedState_def getTrie_def
      Let_def fun_eq_iff split: option.split)

lemma ov_suicided: "ov b (o1\<lparr>suicided := x\<rparr>) = (ov b o1)\<lparr>v_suicided := x\<rparr>"
  by (simp add: ov_def so_Code_def so_GetState_def so_GetCommittedState_def getTrie_def
      Let_def fun_eq_iff split: option.split)

lemma ov_setState: "ov b (so_setState k x o1) = aset_state k x (ov b o1)"
proof -
  have "fst (so_Code b (so_setState k x o1)) = fst (so_Code b o1)"
    by (simp add: so_Code_def so_setState_def Let_def split: option.split)
  moreover have committed:
    "fst (so_GetCommittedState b (so_setState k x o1) j) = fst (so_GetCommittedState b o1 j)" for j
    by (auto simp: so_GetCommittedState_def getTrie_def so_setState_def Let_def split: option.split)
  moreover have "fst (so_GetState b (so_setState k x o1) j) =
      (if fakeStorage o1 = None \<and> j = k then x else fst (so_GetState b o1 j))" for j
    using committed by (auto simp: so_GetState_def so_setState_def split: option.split)
  ultimately show ?thesis
    by (auto simp: ov_def so_setState_def aset_state_def)
qed

lemma ov_setCode: "ov b (so_setCode h c o1) = aset_code b h c (ov b o1)"
proof -
  have "code_default (fst (so_Code b (so_setCode h c o1))) =
      (case c of Some c \<Rightarrow> c
       | None \<Rightarrow> if h = emptyCodeHash b then [] else code_default (ContractCode b (so_addrHash o1) h))"
    by (simp add: so_Code_def so_setCode_def Let_def split: option.split)
  moreover have committed:
    "fst (so_GetCommittedState b (so_setCode h c o1) j) = fst (so_GetCommittedState b o1 j)" for j
    by (auto simp: so_GetCommittedState_def getTrie_def so_setCode_def Let_def split: option.split)
  moreover have "fst (so_GetState b (so_setCode h c o1) j) = fst (so_GetState b o1 j)" for j
    using committed by (auto simp: so_GetState_def so_setCode_def split: option.split)
  ultimately show ?thesis
    by (auto simp: ov_def so_setCode_def aset_code_def split: option.split)
qed

lemma ov_fields [simp]:
  "v_address (ov b o1) = so_address o1" "v_deleted (ov b o1) = deleted o1"
  "v_balance (ov b o1) = ac_Balance (so_data o1)" "v_nonce (ov b o1) = ac_Nonce (so_data o1)"
  "v_codehash (ov b o1) = ac_CodeHash (so_data o1)" "v_suicided (ov b o1) = suicided o1"
  "v_fake (ov b o1) = fakeStorage o1" "v_addrHash (ov b o1) = so_addrHash o1"
  "v_root (ov b o1) = ac_Root (so_data o1)"
  by (simp_all add: ov_def)

lemma obj_address [simp]:
  "so_address (so_setBalance x o1) = so_address o1" "so_address (so_setNonce n o1) = so_address o1"
  "so_address (so_setState k y o1) = so_address o1" "so_address (so_setCode h c o1) = so_address o1"
  "so_address (newObject b a d) = a" "deleted (newObject b a d) = False" "fakeStorage (newObject b a d) = None"
  by (simp_all add: obj_defs newObject_def)

lemma absS_setStateObject: "absS b (setStateObject o1 s) = aput (ov b o1) (absS b s)"
  by (simp add: absS_def setStateObject_def aput_def obj_view_def GetLogs_def fun_eq_iff)

text \<open>Operations that the abstract state does not see.\<close>

lemma absS_journal [simp]: "absS b (s\<lparr>sd_journal := j\<rparr>) = absS b s"
  by (simp add: absS_def GetLogs_def)

lemma absS_append_entry [simp]: "absS b (append_entry e s) = absS b s"
  by (simp add: append_entry_def)

lemma absS_revisions [simp]:
  "absS b (s\<lparr>validRevisions := r\<rparr>) = absS b s" "absS b (s\<lparr>nextRevisionId := n\<rparr>) = absS b s"
  by (simp_all add: absS_def GetLogs_def)

definition same_journal :: "statedb \<Rightarrow> statedb \<Rightarrow> bool" where
  "same_journal s t \<longleftrightarrow> sd_journal t = sd_journal s \<and> validRevisions t = validRevisions s \<and>
     nextRevisionId t = nextRevisionId s \<and> sd_trie t = sd_trie s"

lemma same_journal_set [simp]: "same_journal s (setStateObject o1 s)"
  by (simp add: same_journal_def setStateObject_def)

lemma aput_same: "a_obj A (v_address v) = Some v \<Longrightarrow> aput v A = A"
  by (cases A) (auto simp: aput_def fun_upd_idem)

lemma getDeletedStateObject_view:
  assumes "getDeletedStateObject b a s = (r, t)"
  shows "absS b t = absS b s" "a_obj (absS b s) a = map_option (ov b) r" "same_journal s t"
    "r = Some o1 \<Longrightarrow> stateObjects t a = Some o1"
    "r = None \<Longrightarrow> t = s \<and> sd_trie s a = None \<and> stateObjects s a = None"
proof -
  have obj: "a_obj (absS b s) a =
      (case stateObjects s a of None \<Rightarrow> map_option (\<lambda>d. ov b (newObject b a d)) (sd_trie s a) | Some o1 \<Rightarrow> Some (ov b o1))"
    by (simp add: absS_def obj_view_def base_view_def split: option.split)
  show "a_obj (absS b s) a = map_option (ov b) r"
    using assms obj by (auto simp: getDeletedStateObject_def Let_def split: option.splits)
  show "absS b t = absS b s"
    using assms obj
    by (cases "stateObjects s a"; cases "sd_trie s a")
      (auto simp: getDeletedStateObject_def Let_def absS_setStateObject aput_same)
  show "same_journal s t" "r = Some o1 \<Longrightarrow> stateObjects t a = Some o1"
    "r = None \<Longrightarrow> t = s \<and> sd_trie s a = None \<and> stateObjects s a = None"
    using assms
    by (auto simp: getDeletedStateObject_def Let_def setStateObject_def same_journal_def split: option.splits)
qed

lemma getStateObject_view:
  assumes "getStateObject b a s = (r, t)"
  shows "absS b t = absS b s" "live (absS b s) a = map_option (ov b) r" "same_journal s t"
    "r = Some o1 \<Longrightarrow> stateObjects t a = Some o1 \<and> \<not> deleted o1"
proof -
  obtain r0 t0 where g: "getDeletedStateObject b a s = (r0, t0)" by fastforce
  note v = getDeletedStateObject_view [OF g]
  have t: "t = t0" and r: "r = (case r0 of None \<Rightarrow> None | Some o1 \<Rightarrow> if deleted o1 then None else Some o1)"
    using assms g by (auto simp: getStateObject_def split: option.splits if_splits)
  show "absS b t = absS b s" "same_journal s t" using v t by simp_all
  show "live (absS b s) a = map_option (ov b) r"
    using v(2) r by (auto simp: live_def split: option.splits)
  show "r = Some o1 \<Longrightarrow> stateObjects t a = Some o1 \<and> \<not> deleted o1"
    using v(4) t r by (auto split: option.splits if_splits)
qed

lemma undo_object_refines:
  assumes "\<And>o1. ov b (f o1) = g (ov b o1)"
  shows "map_option (absS b) (undo_object b a f s) = aundo a g (absS b s)"
proof -
  obtain r t where g: "getStateObject b a s = (r, t)" by fastforce
  note v = getStateObject_view [OF g]
  show ?thesis
    using v(1,2) g assms
    by (cases r) (auto simp: undo_object_def aundo_def absS_setStateObject split: option.splits)
qed

lemma entry_revert_refines: "map_option (absS b) (entry_revert b e s) = arevert b e (absS b s)"
proof (cases e)
  case (createObjectChange a)
  then show ?thesis
    by (auto simp: absS_def obj_view_def GetLogs_def fun_eq_iff)
next
  case (suicideChange a prev bal)
  obtain r t where g: "getStateObject b a s = (r, t)" by fastforce
  note v = getStateObject_view [OF g]
  show ?thesis
    using v(1,2) g suicideChange
    by (cases r) (auto simp: absS_setStateObject ov_setBalance ov_suicided split: option.splits)
next
  case (addLogChange h)
  then show ?thesis
    by (cases "GetLogs h s" rule: rev_cases)
      (auto simp: absS_def GetLogs_def fun_eq_iff Let_def split: option.splits)
next
  case (refundChange x)
  then show ?thesis
    by (simp add: absS_def GetLogs_def)
next
  case (addPreimageChange h)
  then show ?thesis
    by (simp add: absS_def GetLogs_def)
qed (simp_all add: absS_setStateObject undo_object_refines ov_setBalance ov_setNonce ov_setState ov_setCode)

fun areverts :: "backend \<Rightarrow> journalEntry list \<Rightarrow> astate \<Rightarrow> astate option" where
  "areverts b [] A = Some A"
| "areverts b (e # es) A = do { A \<leftarrow> arevert b e A; areverts b es A }"

lemma revert_loop_refines: "map_option (absS b) (revert_loop b es s) = areverts b es (absS b s)"
proof (induction es arbitrary: s)
  case (Cons e es)
  show ?case
  proof (cases "entry_revert b e s")
    case None
    then show ?thesis using entry_revert_refines [of b e s] by simp
  next
    case (Some t)
    then have "arevert b e (absS b s) = Some (absS b t)"
      using entry_revert_refines [of b e s] by simp
    then show ?thesis using Some Cons [of "t\<lparr>sd_journal := journal_undirty e (sd_journal t)\<rparr>"] by simp
  qed
qed simp
section \<open>Every operation is undone by its journal entries\<close>

text \<open>An entry touches the account that it dirties. The one entry that dirties no account and changes one, \<^verbatim>\<open>resetObjectChange\<close>,
  leaves an account behind whose storage is as committed.\<close>

definition tidy :: "aobj option \<Rightarrow> bool" where
  "tidy ob \<longleftrightarrow> (case ob of None \<Rightarrow> True | Some v \<Rightarrow> v_state v = v_committed v)"

definition others_keep :: "journalEntry \<Rightarrow> astate \<Rightarrow> astate \<Rightarrow> bool" where
  "others_keep e A B \<longleftrightarrow> (\<forall>a. dirtied e \<noteq> Some a \<longrightarrow> a_obj A a = a_obj B a \<or> tidy (a_obj A a))"

text \<open>\<open>undoes b es A A0\<close>: undoing the entries \<open>es\<close>, newest first, leads from \<open>A\<close> to \<open>A0\<close> through states
  whose objects sit under their own address.\<close>

fun undoes :: "backend \<Rightarrow> journalEntry list \<Rightarrow> astate \<Rightarrow> astate \<Rightarrow> bool" where
  "undoes b [] A A0 \<longleftrightarrow> A = A0 \<and> aok A"
| "undoes b (e # es) A A0 \<longleftrightarrow> aok A \<and> (\<exists>B. arevert b e A = Some B \<and> others_keep e A B \<and> undoes b es B A0)"

lemma undoes_append: "undoes b (xs @ ys) A C \<longleftrightarrow> (\<exists>B. undoes b xs A B \<and> undoes b ys B C)"
proof (induction xs arbitrary: A)
  case Nil
  then show ?case by (cases ys) auto
qed auto

lemma undoes_areverts: "undoes b es A A0 \<Longrightarrow> areverts b es A = Some A0 \<and> aok A0 \<and> aok A"
  by (induction es arbitrary: A) auto

text \<open>An account that no entry dirties is as it was, or its storage is as committed.\<close>

lemma undoes_others:
  "undoes b es A A0 \<Longrightarrow> \<forall>e \<in> set es. dirtied e \<noteq> Some a \<Longrightarrow> a_obj A a = a_obj A0 a \<or> tidy (a_obj A a)"
proof (induction es arbitrary: A)
  case (Cons e es)
  then obtain B where B: "others_keep e A B" "undoes b es B A0" "dirtied e \<noteq> Some a" by auto
  have "a_obj B a = a_obj A0 a \<or> tidy (a_obj B a)" using Cons.IH [OF B(2)] Cons.prems(2) by simp
  then show ?case using B(1,3) unfolding others_keep_def by metis
qed simp

text \<open>The counters of \<^verbatim>\<open>journal.dirties\<close> cover the entries of the journal.\<close>

definition counts_ok :: "journal \<Rightarrow> bool" where
  "counts_ok j \<longleftrightarrow> (\<forall>a. int (length (filter (\<lambda>e. dirtied e = Some a) (entries j))) \<le> count_of (dirties j) a)"

lemma counts_dirty: "counts_ok j \<Longrightarrow> counts_ok (journal_dirty a j)"
  by (auto simp: counts_ok_def journal_dirty_def count_of_def intro: order_trans)

lemma counts_append: "counts_ok j \<Longrightarrow> counts_ok (journal_append e j)"
  by (auto simp: counts_ok_def journal_append_def journal_dirty_def count_of_def Let_def split: option.split)

lemma counts_dom:
  assumes "counts_ok j" "e \<in> set (entries j)" "dirtied e = Some a"
  shows "a \<in> dom (dirties j)"
proof (rule ccontr)
  assume "a \<notin> dom (dirties j)"
  then have "filter (\<lambda>e. dirtied e = Some a) (entries j) = []"
    using assms(1) by (auto simp: counts_ok_def count_of_def domIff dest: spec [of _ a])
  then show False using assms(2,3) by (auto simp: filter_empty_conv)
qed

text \<open>\<open>journaled b s t\<close>: \<open>t\<close> comes from \<open>s\<close> by changes that the journal records.\<close>

definition journaled :: "backend \<Rightarrow> statedb \<Rightarrow> statedb \<Rightarrow> bool" where
  "journaled b s t \<longleftrightarrow>
     (\<exists>es. entries (sd_journal t) = entries (sd_journal s) @ es \<and> undoes b (rev es) (absS b t) (absS b s)) \<and>
     validRevisions t = validRevisions s \<and> nextRevisionId t = nextRevisionId s \<and>
     (counts_ok (sd_journal s) \<longrightarrow> counts_ok (sd_journal t))"

lemma journaled_trans [trans]: "journaled b s t \<Longrightarrow> journaled b t u \<Longrightarrow> journaled b s u"
  unfolding journaled_def using undoes_append by force

lemma journaled_aok: "journaled b s t \<Longrightarrow> aok (absS b s) \<and> aok (absS b t)"
  using undoes_areverts unfolding journaled_def by blast

lemma journaled_quiet: "absS b t = absS b s \<Longrightarrow> same_journal s t \<Longrightarrow> aok (absS b s) \<Longrightarrow> journaled b s t"
  by (simp add: journaled_def same_journal_def)

lemma journaled_entry:
  assumes "entries (sd_journal t) = entries (sd_journal s) @ [e]" "arevert b e (absS b t) = Some (absS b s)"
    "aok (absS b s)" "aok (absS b t)" "validRevisions t = validRevisions s" "nextRevisionId t = nextRevisionId s"
    "others_keep e (absS b t) (absS b s)" "counts_ok (sd_journal s) \<Longrightarrow> counts_ok (sd_journal t)"
  shows "journaled b s t"
  using assms unfolding journaled_def by (intro conjI exI [of _ "[e]"]) auto

lemma others_same: "a_obj A = a_obj B \<Longrightarrow> others_keep e A B"
  by (simp add: others_keep_def)

lemma others_aput: "dirtied e = Some (v_address v) \<Longrightarrow> others_keep e (aput v A) A"
  by (auto simp: others_keep_def aput_def)

lemma others_tidy: "others_keep e A B \<Longrightarrow> v_state v = v_committed v \<Longrightarrow> others_keep e (aput v A) B"
  by (auto simp: others_keep_def aput_def tidy_def)

lemma entries_append [simp]: "entries (journal_append e j) = entries j @ [e]"
  by (simp add: journal_append_def journal_dirty_def Let_def split: option.split)

lemma append_entry_simps [simp]:
  "sd_journal (append_entry e s) = journal_append e (sd_journal s)"
  "validRevisions (append_entry e s) = validRevisions s"
  "nextRevisionId (append_entry e s) = nextRevisionId s"
  "sd_refund (append_entry e s) = sd_refund s" "thash (append_entry e s) = thash s"
  by (simp_all add: append_entry_def)

lemma setStateObject_simps [simp]:
  "sd_journal (setStateObject o1 s) = sd_journal s" "validRevisions (setStateObject o1 s) = validRevisions s"
  "nextRevisionId (setStateObject o1 s) = nextRevisionId s" "sd_trie (setStateObject o1 s) = sd_trie s"
  by (simp_all add: setStateObject_def)

lemma aput_simps [simp]:
  "a_obj (aput v A) = (a_obj A)(v_address v \<mapsto> v)" "a_base (aput v A) = a_base A"
  "v_address u = v_address v \<Longrightarrow> aput u (aput v A) = aput u A"
  by (simp_all add: aput_def)

lemma aok_aput: "aok A \<Longrightarrow> v_fake v = None \<Longrightarrow> aok (aput v A)"
  by (simp add: aok_def)

text \<open>An object of the database: it is where it should be.\<close>

definition resident :: "statedb \<Rightarrow> stateObject \<Rightarrow> bool" where
  "resident s o1 \<longleftrightarrow> stateObjects s (so_address o1) = Some o1 \<and> \<not> deleted o1"

lemma resident_view: "resident s o1 \<Longrightarrow> a_obj (absS b s) (so_address o1) = Some (ov b o1)"
  by (simp add: resident_def absS_def obj_view_def)

lemma resident_append [simp]: "resident (append_entry e s) o1 = resident s o1"
  by (simp add: resident_def append_entry_def)

text \<open>The scheme of the journaled setters: change the object with \<open>f\<close>, after the entry \<open>e\<close>.\<close>

lemma live_aput: "v_deleted v = False \<Longrightarrow> v_address v = a \<Longrightarrow> live (aput v A) a = Some v"
  by (auto simp: live_def)

lemma obj_flags [simp]:
  "deleted (so_setBalance x o1) = deleted o1" "deleted (so_setNonce n o1) = deleted o1"
  "deleted (so_setState k y o1) = deleted o1" "deleted (so_setCode h c o1) = deleted o1"
  "fakeStorage (so_setBalance x o1) = fakeStorage o1" "fakeStorage (so_setNonce n o1) = fakeStorage o1"
  "fakeStorage (so_setState k y o1) = fakeStorage o1" "fakeStorage (so_setCode h c o1) = fakeStorage o1"
  by (simp_all add: obj_defs)

lemma resident_fake: "aok (absS b s) \<Longrightarrow> resident s o1 \<Longrightarrow> fakeStorage o1 = None"
  using resident_view [of s o1 b] unfolding aok_def by fastforce

lemma journaled_object:
  assumes ok: "aok (absS b s)" and res: "resident s o1" and o2: "so_address o2 = so_address o1"
    "deleted o2 = deleted o1" "fakeStorage o2 = fakeStorage o1"
    and undo: "\<And>A v. live A (so_address o1) = Some v \<Longrightarrow> arevert b e A = Some (aput (g v) A)"
    and inv: "g (ov b o2) = ov b o1" and dirt: "dirtied e = Some (so_address o1)"
  shows "journaled b s (setStateObject o2 (append_entry e s))"
proof (rule journaled_entry [where e = e])
  have "aput (ov b o1) (absS b s) = absS b s"
    using resident_view [OF res, of b] by (intro aput_same) simp
  moreover have "live (aput (ov b o2) (absS b s)) (so_address o1) = Some (ov b o2)"
    using o2 res by (intro live_aput) (simp_all add: resident_def)
  ultimately show "arevert b e (absS b (setStateObject o2 (append_entry e s))) = Some (absS b s)"
    using undo inv o2 by (simp add: absS_setStateObject)
  show "aok (absS b (setStateObject o2 (append_entry e s)))"
    using ok o2 resident_fake [OF ok res] by (simp add: absS_setStateObject aok_aput)
  show "others_keep e (absS b (setStateObject o2 (append_entry e s))) (absS b s)"
    using o2(1) dirt by (simp add: absS_setStateObject others_aput)
qed (use ok in \<open>simp_all add: counts_append\<close>)

lemma ov_idem [simp]:
  "(ov b o1)\<lparr>v_balance := ac_Balance (so_data o1)\<rparr> = ov b o1" "(ov b o1)\<lparr>v_nonce := ac_Nonce (so_data o1)\<rparr> = ov b o1"
  "(ov b o1)\<lparr>v_balance := ac_Balance (so_data o1), v_suicided := suicided o1\<rparr> = ov b o1"
  by (simp_all add: ov_def)

lemma journaled_SetBalance:
  "aok (absS b s) \<Longrightarrow> resident s o1 \<Longrightarrow> journaled b s (so_SetBalance o1 x s)"
  unfolding so_SetBalance_def
  by (rule journaled_object [where g = "\<lambda>v. v\<lparr>v_balance := ac_Balance (so_data o1)\<rparr>"])
    (auto simp: aundo_def ov_setBalance)

lemma journaled_SetNonce:
  "aok (absS b s) \<Longrightarrow> resident s o1 \<Longrightarrow> journaled b s (so_SetNonce o1 x s)"
  unfolding so_SetNonce_def
  by (rule journaled_object [where g = "\<lambda>v. v\<lparr>v_nonce := ac_Nonce (so_data o1)\<rparr>"])
    (auto simp: aundo_def ov_setNonce)

lemma so_Code_same:
  assumes "so_Code b o1 = (c, o2)"
  shows "ov b o2 = ov b o1" "so_address o2 = so_address o1" "deleted o2 = deleted o1"
    "fakeStorage o2 = fakeStorage o1" "so_data o2 = so_data o1" "so_addrHash o2 = so_addrHash o1"
  using assms so_Code_view [of b o1] by (auto simp: so_Code_def Let_def split: option.splits if_splits)

lemma so_GetCommittedState_same:
  assumes "so_GetCommittedState b o1 k = (x, o2)"
  shows "ov b o2 = ov b o1" "so_address o2 = so_address o1" "deleted o2 = deleted o1"
    "fakeStorage o2 = fakeStorage o1" "x = v_committed (ov b o1) k"
  using assms so_GetCommittedState_view [of b o1 k]
  by (auto simp: so_GetCommittedState_def getTrie_def Let_def ov_def split: option.splits prod.splits)

lemma so_GetState_same:
  assumes "so_GetState b o1 k = (x, o2)"
  shows "ov b o2 = ov b o1" "so_address o2 = so_address o1" "deleted o2 = deleted o1"
    "fakeStorage o2 = fakeStorage o1" "x = v_state (ov b o1) k"
  using assms so_GetState_view [of b o1 k] so_GetCommittedState_same [of b o1 k x o2]
  by (auto simp: so_GetState_def ov_def split: option.splits)

lemma absS_resident_set:
  "resident s o1 \<Longrightarrow> so_address o2 = so_address o1 \<Longrightarrow> ov b o2 = ov b o1 \<Longrightarrow>
     absS b (setStateObject o2 s) = absS b s"
  using resident_view [of s o1 b] by (simp add: absS_setStateObject aput_same)

lemma journaled_resident_set:
  "aok (absS b s) \<Longrightarrow> resident s o1 \<Longrightarrow> so_address o2 = so_address o1 \<Longrightarrow> ov b o2 = ov b o1 \<Longrightarrow>
     journaled b s (setStateObject o2 s)"
  by (rule journaled_quiet) (simp_all add: absS_resident_set)

text \<open>Storing the same account with fuller caches, before a change, makes no difference.\<close>

lemma journaled_object':
  assumes "aok (absS b s)" "resident s o0" "ov b o1 = ov b o0" "so_address o1 = so_address o0"
    "deleted o1 = deleted o0"
    and "so_address o2 = so_address o1" "deleted o2 = deleted o1" "fakeStorage o2 = fakeStorage o1"
    and "\<And>A v. live A (so_address o1) = Some v \<Longrightarrow> arevert b e A = Some (aput (g v) A)"
    and "g (ov b o2) = ov b o1" "dirtied e = Some (so_address o1)"
  shows "journaled b s (setStateObject o2 (append_entry e s))"
proof -
  let ?s = "setStateObject o1 s"
  have "journaled b s ?s"
    using assms by (intro journaled_resident_set)
  moreover have "resident ?s o1"
    using assms by (simp add: resident_def setStateObject_def)
  then have "journaled b ?s (setStateObject o2 (append_entry e ?s))"
    using assms journaled_aok [OF calculation] by (intro journaled_object [where g = g and ?o1.0 = o1]) auto
  moreover have "setStateObject o2 (append_entry e ?s) = setStateObject o2 (append_entry e s)"
    using assms by (simp add: setStateObject_def append_entry_def)
  ultimately show ?thesis
    using journaled_trans by metis
qed

lemma journaled_so_SetState:
  assumes "aok (absS b s)" "resident s o1"
  shows "journaled b s (so_SetState b o1 k x s)"
proof -
  obtain prev o2 where g: "so_GetState b o1 k = (prev, o2)" by fastforce
  note same = so_GetState_same [OF g]
  have nf: "fakeStorage o1 = None" using resident_fake [OF assms] .
  show ?thesis
  proof (cases "prev = x")
    case True
    then show ?thesis
      using g nf assms same journaled_resident_set [OF assms same(2,1)] by (simp add: so_SetState_def)
  next
    case False
    have "journaled b s (setStateObject (so_setState k x o2) (append_entry (storageChange (so_address o2) k prev) s))"
      using assms same nf
      by (intro journaled_object' [where g = "aset_state k prev" and ?o0.0 = o1])
        (auto simp: aundo_def ov_setState aset_state_def)
    then show ?thesis using g nf False same by (simp add: so_SetState_def)
  qed
qed

lemma aset_code_back:
  "v_code v = (case prev of Some c \<Rightarrow> c
     | None \<Rightarrow> if v_codehash v = emptyCodeHash b then [] else code_default (ContractCode b (v_addrHash v) (v_codehash v)))
   \<Longrightarrow> aset_code b (v_codehash v) prev (aset_code b h c v) = v"
  by (cases v) (auto simp: aset_code_def split: option.splits)

lemma journaled_so_SetCode:
  assumes "aok (absS b s)" "resident s o1"
  shows "journaled b s (so_SetCode b o1 h c s)"
proof -
  obtain prev o2 where g: "so_Code b o1 = (prev, o2)" by fastforce
  note same = so_Code_same [OF g]
  have "v_code (ov b o2) = (case prev of Some c \<Rightarrow> c
       | None \<Rightarrow> if ac_CodeHash (so_data o2) = emptyCodeHash b then []
                 else code_default (ContractCode b (so_addrHash o2) (ac_CodeHash (so_data o2))))"
    using g same by (auto simp: ov_def so_Code_def Let_def split: option.splits if_splits)
  then have "aset_code b (ac_CodeHash (so_data o2)) prev (aset_code b h c (ov b o2)) = ov b o2"
    using aset_code_back [of "ov b o2" b prev h c] by (simp cong: option.case_cong)
  then have "journaled b s (setStateObject (so_setCode h c o2)
      (append_entry (codeChange (so_address o2) prev (ac_CodeHash (so_data o2))) s))"
    using assms same
    by (intro journaled_object' [where g = "aset_code b (ac_CodeHash (so_data o2)) prev" and ?o0.0 = o1])
      (auto simp: aundo_def ov_setCode)
  then show ?thesis using g by (simp add: so_SetCode_def)
qed
text \<open>Looking an account up, creating it if need be.\<close>

lemma aok_address: "aok A \<Longrightarrow> a_obj A a = Some (ov b o1) \<Longrightarrow> so_address o1 = a"
  by (metis aok_def ov_fields(1))

lemma journaled_getDeletedStateObject:
  "aok (absS b s) \<Longrightarrow> getDeletedStateObject b a s = (r, t) \<Longrightarrow> journaled b s t"
  using getDeletedStateObject_view by (intro journaled_quiet) blast+

lemma journaled_getStateObject:
  assumes "aok (absS b s)" "getStateObject b a s = (r, t)"
  shows "journaled b s t" "r = Some o1 \<Longrightarrow> resident t o1 \<and> so_address o1 = a"
proof -
  note v = getStateObject_view [OF assms(2)]
  show "journaled b s t"
    using v assms(1) by (intro journaled_quiet) blast+
  assume r: "r = Some o1"
  then have "a_obj (absS b t) a = Some (ov b o1)"
    using v(4) by (auto simp: absS_def obj_view_def)
  then have "so_address o1 = a"
    using assms(1) v(1) aok_address by fastforce
  then show "resident t o1 \<and> so_address o1 = a"
    using v(4) r by (auto simp: resident_def)
qed

lemma new_tidy:
  "v_state (ov b (so_setNonce n (newObject b a d))) = v_committed (ov b (so_setNonce n (newObject b a d)))"
  by (simp add: ov_def so_setNonce_def newObject_def so_GetState_def fun_eq_iff)

lemma journaled_createObject:
  assumes ok: "aok (absS b s)" and c: "createObject b a s = ((o1, prev), t)"
  shows "journaled b s t" "resident t o1" "so_address o1 = a"
    "prev = Some p \<Longrightarrow> entries (sd_journal t) = entries (sd_journal s) @ [resetObjectChange p] \<and>
       a_obj (absS b s) a = Some (ov b p)"
    "prev = None \<Longrightarrow> entries (sd_journal t) = entries (sd_journal s) @ [createObjectChange a]"
    "v_state (ov b o1) = v_committed (ov b o1)"
proof -
  obtain u where g: "getDeletedStateObject b a s = (prev, u)"
    using c by (auto simp: createObject_def Let_def split: prod.splits)
  note v = getDeletedStateObject_view [OF g]
  let ?e = "case prev of None \<Rightarrow> createObjectChange a | Some p \<Rightarrow> resetObjectChange p"
  have o1: "o1 = so_setNonce 0 (newObject b a (zero_Account b))"
    and t: "t = setStateObject o1 (append_entry ?e u)"
    using c g by (auto simp: createObject_def Let_def split: option.splits)
  show "v_state (ov b o1) = v_committed (ov b o1)" by (simp only: o1 new_tidy)
  show "resident t o1" "so_address o1 = a"
    using o1 t by (simp_all add: resident_def setStateObject_def)
  have "journaled b u t"
  proof (rule journaled_entry [where e = ?e])
    show "arevert b ?e (absS b t) = Some (absS b u)"
    proof (cases prev)
      case None
      then have "a_obj (absS b u) a = None" "a_base (absS b u) a = None"
        using v(1,2,5) by (simp_all add: absS_def base_view_def)
      then have "(a_obj (absS b u))(a := None) = a_obj (absS b u)"
        by (simp add: fun_upd_idem)
      then show ?thesis
        using None t \<open>a_base (absS b u) a = None\<close> \<open>so_address o1 = a\<close> by (simp add: absS_setStateObject aput_def)
    next
      case (Some p)
      then have p: "a_obj (absS b u) a = Some (ov b p)" "so_address p = a"
        using v(1,2) ok aok_address by fastforce+
      then show ?thesis
        using Some t \<open>so_address o1 = a\<close> aput_same [of "absS b u" "ov b p"] by (simp add: absS_setStateObject)
    qed
    show "aok (absS b t)" "aok (absS b u)"
      using ok v(1) t o1 by (simp_all add: absS_setStateObject aok_aput)
    show "others_keep ?e (absS b t) (absS b u)"
      using t o1 by (simp add: absS_setStateObject others_tidy others_same new_tidy)
  qed (use t in \<open>simp_all add: counts_append\<close>)
  then show "journaled b s t"
    using journaled_getDeletedStateObject [OF ok g] journaled_trans by blast
  show "prev = Some p \<Longrightarrow> entries (sd_journal t) = entries (sd_journal s) @ [resetObjectChange p] \<and>
       a_obj (absS b s) a = Some (ov b p)"
    "prev = None \<Longrightarrow> entries (sd_journal t) = entries (sd_journal s) @ [createObjectChange a]"
    using v(2,3) t by (simp_all add: same_journal_def)
qed

lemma journaled_GetOrNewStateObject:
  assumes "aok (absS b s)" "GetOrNewStateObject b a s = (o1, t)"
  shows "journaled b s t" "resident t o1" "so_address o1 = a" "aok (absS b t)"
proof -
  obtain r u where g: "getStateObject b a s = (r, u)" by fastforce
  note v = journaled_getStateObject [OF assms(1) g]
  have *: "journaled b s t \<and> resident t o1 \<and> so_address o1 = a"
  proof (cases r)
    case None
    obtain o2 p w where c: "createObject b a u = ((o2, p), w)" by (metis surj_pair)
    note c' = journaled_createObject [OF _ c]
    have "o2 = o1" "w = t"
      using assms(2) g None c by (simp_all add: GetOrNewStateObject_def)
    then show ?thesis
      using c' v(1) journaled_aok [OF v(1)] journaled_trans by blast
  next
    case (Some o2)
    then show ?thesis
      using v assms(2) g by (auto simp: GetOrNewStateObject_def)
  qed
  then show "journaled b s t" "resident t o1" "so_address o1 = a" by blast+
  then show "aok (absS b t)" using journaled_aok by blast
qed

text \<open>The setters.\<close>

lemma journaled_setter:
  assumes "aok (absS b s)" "\<And>o1 t. resident t o1 \<Longrightarrow> aok (absS b t) \<Longrightarrow> journaled b t (f o1 t)"
  shows "journaled b s (let (o1, t) = GetOrNewStateObject b a s in f o1 t)"
proof -
  obtain o1 t where g: "GetOrNewStateObject b a s = (o1, t)" by fastforce
  note j = journaled_GetOrNewStateObject [OF assms(1) g]
  show ?thesis using journaled_trans [OF j(1) assms(2) [OF j(2,4)]] g by simp
qed

lemma journaled_refl: "aok (absS b s) \<Longrightarrow> journaled b s s"
  by (rule journaled_quiet) (simp_all add: same_journal_def)

lemma journaled_touch:
  assumes "aok (absS b s)"
  shows "journaled b s (so_touch o1 s)"
  using assms
  by (intro journaled_entry [where e = "touchChange (so_address o1)"])
    (simp_all add: so_touch_def journal_dirty_def Let_def others_same, simp add: counts_append counts_dirty flip: journal_dirty_def)

lemma journaled_AddBalance: "aok (absS b s) \<Longrightarrow> journaled b s (AddBalance b a x s)"
  unfolding AddBalance_def
  by (rule journaled_setter) (auto simp: so_AddBalance_def journaled_SetBalance journaled_touch journaled_refl)

lemma journaled_SubBalance: "aok (absS b s) \<Longrightarrow> journaled b s (SubBalance b a x s)"
  unfolding SubBalance_def
  by (rule journaled_setter) (auto simp: so_SubBalance_def journaled_SetBalance journaled_refl)

lemma journaled_db_SetBalance: "aok (absS b s) \<Longrightarrow> journaled b s (SetBalance b a x s)"
  unfolding SetBalance_def by (rule journaled_setter) (auto simp: journaled_SetBalance)

lemma journaled_db_SetNonce: "aok (absS b s) \<Longrightarrow> journaled b s (SetNonce b a x s)"
  unfolding SetNonce_def by (rule journaled_setter) (auto simp: journaled_SetNonce)

lemma journaled_SetCode: "aok (absS b s) \<Longrightarrow> journaled b s (SetCode b a c s)"
  unfolding SetCode_def by (rule journaled_setter) (auto simp: journaled_so_SetCode)

lemma journaled_SetState: "aok (absS b s) \<Longrightarrow> journaled b s (SetState b a k x s)"
  unfolding SetState_def by (rule journaled_setter) (auto simp: journaled_so_SetState)

lemma journaled_Suicide: "aok (absS b s) \<Longrightarrow> journaled b s (snd (Suicide b a s))"
proof -
  assume ok: "aok (absS b s)"
  obtain r t where g: "getStateObject b a s = (r, t)" by fastforce
  note v = journaled_getStateObject [OF ok g]
  show ?thesis
  proof (cases r)
    case None
    then show ?thesis using v(1) g by (simp add: Suicide_def)
  next
    case (Some o1)
    let ?g = "\<lambda>v. v\<lparr>v_suicided := suicided o1, v_balance := ac_Balance (so_data o1)\<rparr>"
    have "journaled b t (setStateObject (so_setBalance 0 (o1\<lparr>suicided := True\<rparr>))
        (append_entry (suicideChange a (suicided o1) (ac_Balance (so_data o1))) t))"
      using v(2) [OF Some] journaled_aok [OF v(1)]
      by (intro journaled_object [where g = ?g]) (auto simp: ov_setBalance ov_suicided)
    then show ?thesis
      using v(1) g Some journaled_trans by (simp add: Suicide_def)
  qed
qed

lemma journaled_CreateAccount:
  assumes ok: "aok (absS b s)"
  shows "journaled b s (CreateAccount b a s)"
proof -
  obtain o1 prev t where c: "createObject b a s = ((o1, prev), t)" by (metis surj_pair)
  note v = journaled_createObject [OF ok c]
  show ?thesis
  proof (cases prev)
    case None
    then show ?thesis using v(1) c by (simp add: CreateAccount_def)
  next
    case (Some p)
    let ?o = "so_setBalance (ac_Balance (so_data p)) o1"
    note e = v(4) [OF Some]
    have p: "so_address p = a" "a_obj (absS b s) a = Some (ov b p)"
      using e aok_address [OF ok] by blast+
    have "aput (ov b p) (absS b s) = absS b s"
      using p by (intro aput_same) simp
    then have "aput (ov b p) (absS b t) = absS b s"
      using v(1) e by (auto simp: journaled_def)
    then have "journaled b s (setStateObject ?o t)"
      using e p v(3,6) ok journaled_aok [OF v(1)] resident_fake [OF _ v(2), of b] v(1)
      by (intro journaled_entry [where e = "resetObjectChange p"])
        (auto simp: absS_setStateObject journaled_def ov_setBalance intro: aok_aput others_tidy)
    then show ?thesis using c Some by (simp add: CreateAccount_def)
  qed
qed

lemma journaled_AddRefund: "aok (absS b s) \<Longrightarrow> journaled b s (AddRefund g s)"
  by (intro journaled_entry [where e = "refundChange (sd_refund s)"])
    (simp_all add: AddRefund_def absS_def append_entry_def GetLogs_def aok_def others_same counts_append)

lemma journaled_SubRefund: "aok (absS b s) \<Longrightarrow> SubRefund g s = Some t \<Longrightarrow> journaled b s t"
  by (intro journaled_entry [where e = "refundChange (sd_refund s)"])
    (auto simp: SubRefund_def absS_def append_entry_def GetLogs_def aok_def Let_def others_same counts_append split: if_splits)

lemma journaled_AddPreimage: "aok (absS b s) \<Longrightarrow> journaled b s (AddPreimage h p s)"
proof (cases "preimages s h = None")
  case True
  then have "(preimages s)(h := None) = preimages s" by (simp add: fun_upd_idem)
  then show "aok (absS b s) \<Longrightarrow> journaled b s (AddPreimage h p s)"
    using True by (intro journaled_entry [where e = "addPreimageChange h"])
      (simp_all add: AddPreimage_def absS_def append_entry_def GetLogs_def aok_def others_same counts_append)
qed (auto simp: AddPreimage_def journaled_refl)

lemma journaled_AddLog: "aok (absS b s) \<Longrightarrow> journaled b s (AddLog l s)"
  by (intro journaled_entry [where e = "addLogChange (thash s)"])
    (simp_all add: AddLog_def absS_def append_entry_def GetLogs_def aok_def Let_def fun_eq_iff others_same counts_append)

text \<open>The getters.\<close>

lemma journaled_reader:
  assumes "aok (absS b s)" "snd (f s) = snd (getStateObject b a s)"
  shows "journaled b s (snd (f s))"
  using journaled_getStateObject(1) [OF assms(1)] assms(2) by (metis surjective_pairing)

lemma journaled_readers:
  assumes "aok (absS b s)"
  shows "journaled b s (snd (Exist b a s))" "journaled b s (snd (Empty b a s))"
    "journaled b s (snd (GetBalance b a s))" "journaled b s (snd (GetNonce b a s))"
    "journaled b s (snd (GetCodeSize b a s))" "journaled b s (snd (GetCodeHash b a s))"
    "journaled b s (snd (HasSuicided b a s))"
  by (rule journaled_reader [OF assms, where a = a];
      simp add: Exist_def Empty_def GetBalance_def GetNonce_def GetCodeSize_def GetCodeHash_def HasSuicided_def
        split: prod.split)+

lemma journaled_GetCode: "aok (absS b s) \<Longrightarrow> journaled b s (snd (GetCode b a s))"
proof -
  assume ok: "aok (absS b s)"
  obtain r t where g: "getStateObject b a s = (r, t)" by fastforce
  note v = journaled_getStateObject [OF ok g]
  show ?thesis
  proof (cases r)
    case (Some o1)
    obtain c o2 where c: "so_Code b o1 = (c, o2)" by fastforce
    have "journaled b t (setStateObject o2 t)"
      using v(2) [OF Some] so_Code_same [OF c] journaled_aok [OF v(1)] by (blast intro: journaled_resident_set)
    then show ?thesis using v(1) g c Some journaled_trans by (simp add: GetCode_def)
  qed (use v(1) g in \<open>simp add: GetCode_def\<close>)
qed

lemma journaled_GetState:
  assumes ok: "aok (absS b s)"
  shows "journaled b s (snd (GetState b a k s))" "journaled b s (snd (GetCommittedState b a k s))"
proof -
  obtain r t where g: "getStateObject b a s = (r, t)" by fastforce
  note v = journaled_getStateObject [OF ok g]
  have "journaled b s (snd (GetState b a k s)) \<and> journaled b s (snd (GetCommittedState b a k s))"
  proof (cases r)
    case (Some o1)
    obtain c o2 where c: "so_GetState b o1 k = (c, o2)" by fastforce
    obtain d o3 where d: "so_GetCommittedState b o1 k = (d, o3)" by fastforce
    have "journaled b t (setStateObject o2 t)" "journaled b t (setStateObject o3 t)"
      using v(2) [OF Some] so_GetState_same [OF c] so_GetCommittedState_same [OF d] journaled_aok [OF v(1)]
      by (blast intro: journaled_resident_set)+
    then show ?thesis
      using v(1) g c d Some journaled_trans by (simp add: GetState_def GetCommittedState_def)
  qed (use v(1) g in \<open>simp add: GetState_def GetCommittedState_def\<close>)
  then show "journaled b s (snd (GetState b a k s))" "journaled b s (snd (GetCommittedState b a k s))"
    by blast+
qed

section \<open>Snapshots\<close>

lemma sort_Search_loop_eq:
  "(\<forall>x < p. \<not> f x) \<Longrightarrow> (\<forall>x. p \<le> x \<and> x < j \<longrightarrow> f x) \<Longrightarrow> i \<le> p \<Longrightarrow> p \<le> j \<Longrightarrow> sort_Search_loop f i j = p"
proof (induction f i j rule: sort_Search_loop.induct)
  case (1 f i j)
  show ?case
  proof (cases "i < j")
    case True
    let ?h = "(i + j) div 2"
    have h: "i \<le> ?h" "?h < j" using True by auto
    show ?thesis
    proof (cases "f ?h")
      case True
      then have "p \<le> ?h" using "1.prems"(1) by (meson not_le_imp_less)
      then show ?thesis using "1.IH"(2) [OF \<open>i < j\<close> refl] "1.prems" True h \<open>i < j\<close>
        by (subst sort_Search_loop.simps) (simp add: Let_def)
    next
      case False
      then have "?h < p" using "1.prems"(2) h by (meson not_le_imp_less)
      then show ?thesis using "1.IH"(1) [OF \<open>i < j\<close> refl] "1.prems" False h \<open>i < j\<close>
        by (subst sort_Search_loop.simps) (simp add: Let_def)
    qed
  next
    case False
    then show ?thesis using "1.prems" by (subst sort_Search_loop.simps) simp
  qed
qed

lemma sort_Search_loop_le: "i \<le> j \<Longrightarrow> sort_Search_loop f i j \<le> j"
proof (induction f i j rule: sort_Search_loop.induct)
  case (1 f i j)
  have "(i + j) div 2 \<le> j" "i \<le> (i + j) div 2" "i < j \<Longrightarrow> (i + j) div 2 + 1 \<le> j" using "1.prems" by auto
  then show ?case
    using 1 le_trans by (subst sort_Search_loop.simps) (auto simp: Let_def)
qed

text \<open>The stack of valid revisions: identifiers and journal lengths grow.\<close>

definition revs_ok :: "statedb \<Rightarrow> bool" where
  "revs_ok s \<longleftrightarrow>
     sorted_wrt (\<lambda>r q. fst r < fst q \<and> snd r \<le> snd q) (validRevisions s) \<and>
     (\<forall>r \<in> set (validRevisions s). fst r < nextRevisionId s \<and> snd r \<le> length (entries (sd_journal s)))"

lemma revs_ok_journaled: "revs_ok s \<Longrightarrow> journaled b s t \<Longrightarrow> revs_ok t"
  unfolding revs_ok_def journaled_def by force

lemma sort_Search_revision:
  fixes rs1 :: "(nat \<times> nat) list"
  assumes "sorted_wrt (\<lambda>r q. fst r < fst q \<and> snd r \<le> snd q) (rs1 @ (revid, k) # rs2)"
  shows "sort_Search (length (rs1 @ (revid, k) # rs2)) (\<lambda>i. fst ((rs1 @ (revid, k) # rs2) ! i) \<ge> revid) = length rs1"
proof -
  let ?rs = "rs1 @ (revid, k) # rs2"
  have mono: "fst (?rs ! i) < fst (?rs ! j)" if "i < j" "j < length ?rs" for i j
    using assms that by (auto simp: sorted_wrt_iff_nth_less)
  have at: "fst (?rs ! length rs1) = revid" by simp
  have "\<not> fst (?rs ! x) \<ge> revid" if "x < length rs1" for x
    using mono [of x "length rs1"] that at by simp
  moreover have "fst (?rs ! x) \<ge> revid" if "length rs1 \<le> x" "x < length ?rs" for x
    using mono [of "length rs1" x] that at by (cases "x = length rs1") auto
  ultimately show ?thesis
    unfolding sort_Search_def by (intro sort_Search_loop_eq) auto
qed

lemma entry_revert_frame:
  "entry_revert b e s = Some t \<Longrightarrow>
     sd_journal t = sd_journal s \<and> validRevisions t = validRevisions s \<and> nextRevisionId t = nextRevisionId s"
  using getStateObject_view(3)
  by (cases e) (fastforce simp: undo_object_def same_journal_def Let_def split: prod.splits option.splits if_splits)+

lemma revert_loop_frame:
  "revert_loop b es s = Some t \<Longrightarrow>
     entries (sd_journal t) = entries (sd_journal s) \<and> validRevisions t = validRevisions s \<and>
     nextRevisionId t = nextRevisionId s"
proof (induction es arbitrary: s)
  case (Cons e es)
  then obtain u where u: "entry_revert b e s = Some u"
    "revert_loop b es (u\<lparr>sd_journal := journal_undirty e (sd_journal u)\<rparr>) = Some t"
    by (auto split: bind_splits)
  have "entries (journal_undirty e j) = entries j" for j
    by (simp add: journal_undirty_def Let_def split: option.split)
  then show ?case using Cons.IH [OF u(2)] entry_revert_frame [OF u(1)] by simp
qed simp

lemma revert_loop_counts:
  "revert_loop b es s = Some t \<Longrightarrow>
     count_of (dirties (sd_journal t)) a = count_of (dirties (sd_journal s)) a - int (length (filter (\<lambda>e. dirtied e = Some a) es))"
proof (induction es arbitrary: s)
  case (Cons e es)
  then obtain u where u: "entry_revert b e s = Some u"
    "revert_loop b es (u\<lparr>sd_journal := journal_undirty e (sd_journal u)\<rparr>) = Some t"
    by (auto split: bind_splits)
  have "count_of (dirties (journal_undirty e j)) a = count_of (dirties j) a - (if dirtied e = Some a then 1 else 0)" for j
    by (auto simp: journal_undirty_def count_of_def Let_def split: option.split)
  then show ?case using Cons.IH [OF u(2)] entry_revert_frame [OF u(1)] by simp
qed simp

lemma RevertToSnapshot_at:
  assumes "revs_ok s" "validRevisions s = rs1 @ (revid, length es1) # rs2"
    and "entries (sd_journal s) = es1 @ es2" "undoes b (rev es2) (absS b s) B"
  shows "\<exists>t. RevertToSnapshot b revid s = Some t \<and> absS b t = B \<and> entries (sd_journal t) = es1 \<and>
           validRevisions t = rs1 \<and> nextRevisionId t = nextRevisionId s \<and>
           (counts_ok (sd_journal s) \<longrightarrow> counts_ok (sd_journal t))"
proof -
  have "areverts b (rev es2) (absS b s) = Some B"
    using undoes_areverts assms(4) by blast
  then obtain u where u: "revert_loop b (rev es2) s = Some u" "absS b u = B"
    using revert_loop_refines [of b "rev es2" s] by auto
  have f: "entries (sd_journal u) = es1 @ es2" "validRevisions u = rs1 @ (revid, length es1) # rs2"
    "nextRevisionId u = nextRevisionId s"
    using revert_loop_frame [OF u(1)] assms by simp_all
  have "sort_Search (length (validRevisions s)) (\<lambda>i. fst (validRevisions s ! i) \<ge> revid) = length rs1"
    using sort_Search_revision [of rs1 revid "length es1" rs2] assms(1,2) by (simp add: revs_ok_def)
  moreover have "counts_ok ((sd_journal u)\<lparr>entries := es1\<rparr>)" if "counts_ok (sd_journal s)"
    using that revert_loop_counts [OF u(1)] assms(3) by (simp add: counts_ok_def rev_filter [symmetric] le_diff_eq)
  ultimately show ?thesis
    using u f assms(2,3) by (simp add: RevertToSnapshot_def journal_revert_def Let_def)
qed

lemma RevertToSnapshot_found:
  assumes "RevertToSnapshot b revid s = Some t"
  shows "\<exists>rs1 k rs2. validRevisions s = rs1 @ (revid, k) # rs2"
proof -
  let ?rs = "validRevisions s"
  let ?i = "sort_Search (length ?rs) (\<lambda>i. fst (?rs ! i) \<ge> revid)"
  have "?i \<noteq> length ?rs" "fst (?rs ! ?i) = revid"
    using assms by (auto simp: RevertToSnapshot_def Let_def split: if_splits)
  moreover have "?i \<le> length ?rs"
    by (simp add: sort_Search_def sort_Search_loop_le)
  ultimately have "?rs = take ?i ?rs @ (revid, snd (?rs ! ?i)) # drop (Suc ?i) ?rs"
    by (metis id_take_nth_drop le_neq_implies_less prod.collapse)
  then show ?thesis by blast
qed

section \<open>Sequences of operations\<close>

datatype state_op =
    op_CreateAccount address
  | op_AddBalance address int
  | op_SubBalance address int
  | op_SetBalance address int
  | op_SetNonce address u64
  | op_SetCode address bytes
  | op_SetState address hash hash
  | op_Suicide address
  | op_AddRefund u64
  | op_SubRefund u64
  | op_AddLog evm_log
  | op_AddPreimage hash bytes
  | op_Exist address
  | op_GetCode address
  | op_GetState address hash
  | op_GetCommittedState address hash
  | op_Snapshot
  | op_RevertToSnapshot nat
  | op_Finalise bool
  | op_IntermediateRoot bool

fun apply_op :: "backend \<Rightarrow> state_op \<Rightarrow> statedb \<Rightarrow> statedb option" where
  "apply_op b (op_CreateAccount a) s = Some (CreateAccount b a s)"
| "apply_op b (op_AddBalance a x) s = Some (AddBalance b a x s)"
| "apply_op b (op_SubBalance a x) s = Some (SubBalance b a x s)"
| "apply_op b (op_SetBalance a x) s = Some (SetBalance b a x s)"
| "apply_op b (op_SetNonce a n) s = Some (SetNonce b a n s)"
| "apply_op b (op_SetCode a c) s = Some (SetCode b a c s)"
| "apply_op b (op_SetState a k x) s = Some (SetState b a k x s)"
| "apply_op b (op_Suicide a) s = Some (snd (Suicide b a s))"
| "apply_op b (op_AddRefund g) s = Some (AddRefund g s)"
| "apply_op b (op_SubRefund g) s = SubRefund g s"
| "apply_op b (op_AddLog l) s = Some (AddLog l s)"
| "apply_op b (op_AddPreimage h p) s = Some (AddPreimage h p s)"
| "apply_op b (op_Exist a) s = Some (snd (Exist b a s))"
| "apply_op b (op_GetCode a) s = Some (snd (GetCode b a s))"
| "apply_op b (op_GetState a k) s = Some (snd (GetState b a k s))"
| "apply_op b (op_GetCommittedState a k) s = Some (snd (GetCommittedState b a k s))"
| "apply_op b op_Snapshot s = Some (snd (Snapshot s))"
| "apply_op b (op_RevertToSnapshot n) s = RevertToSnapshot b n s"
| "apply_op b (op_Finalise d) s = Some (Finalise b d s)"
| "apply_op b (op_IntermediateRoot d) s = IntermediateRoot b d s"

fun apply_ops :: "backend \<Rightarrow> state_op list \<Rightarrow> statedb \<Rightarrow> statedb option" where
  "apply_ops b [] s = Some s"
| "apply_ops b (x # xs) s = do { s \<leftarrow> apply_op b x s; apply_ops b xs s }"

text \<open>The operations of a transaction after snapshot \<open>revid\<close>: those that revert go to a later one.\<close>

fun inner_op :: "nat \<Rightarrow> state_op \<Rightarrow> bool" where
  "inner_op revid (op_RevertToSnapshot n) \<longleftrightarrow> revid < n"
| "inner_op revid (op_Finalise d) \<longleftrightarrow> False"
| "inner_op revid (op_IntermediateRoot d) \<longleftrightarrow> False"
| "inner_op revid _ \<longleftrightarrow> True"

fun plain_op :: "state_op \<Rightarrow> bool" where
  "plain_op op_Snapshot \<longleftrightarrow> False"
| "plain_op (op_RevertToSnapshot n) \<longleftrightarrow> False"
| "plain_op (op_Finalise d) \<longleftrightarrow> False"
| "plain_op (op_IntermediateRoot d) \<longleftrightarrow> False"
| "plain_op _ \<longleftrightarrow> True"

lemma journaled_plain_op:
  "plain_op x \<Longrightarrow> aok (absS b s) \<Longrightarrow> apply_op b x s = Some t \<Longrightarrow> journaled b s t"
  by (cases x)
    (auto simp: journaled_CreateAccount journaled_AddBalance journaled_SubBalance journaled_db_SetBalance
      journaled_db_SetNonce journaled_SetCode journaled_SetState journaled_Suicide journaled_AddRefund
      journaled_SubRefund journaled_AddLog journaled_AddPreimage journaled_readers journaled_GetCode
      journaled_GetState)

text \<open>\<open>after b es0 A0 revid rs0 s\<close>: the journal goes back from \<open>s\<close> to the state \<open>A0\<close> of the snapshot \<open>revid\<close>.\<close>

definition after ::
  "backend \<Rightarrow> journalEntry list \<Rightarrow> astate \<Rightarrow> nat \<Rightarrow> (nat \<times> nat) list \<Rightarrow> statedb \<Rightarrow> bool" where
  "after b es0 A0 revid rs0 s \<longleftrightarrow>
     revs_ok s \<and>
     (\<exists>es rs. entries (sd_journal s) = es0 @ es \<and> undoes b (rev es) (absS b s) A0 \<and>
        validRevisions s = rs0 @ (revid, length es0) # rs)"

lemma after_journaled:
  assumes "after b es0 A0 revid rs0 s" "journaled b s t"
  shows "after b es0 A0 revid rs0 t"
proof -
  obtain es rs where a: "entries (sd_journal s) = es0 @ es" "undoes b (rev es) (absS b s) A0"
    "validRevisions s = rs0 @ (revid, length es0) # rs" "revs_ok s"
    using assms(1) by (auto simp: after_def)
  obtain fs where f: "entries (sd_journal t) = entries (sd_journal s) @ fs" "undoes b (rev fs) (absS b t) (absS b s)"
    "validRevisions t = validRevisions s"
    using assms(2) by (auto simp: journaled_def)
  have "undoes b (rev (es @ fs)) (absS b t) A0"
    using a f by (auto simp: undoes_append)
  then show ?thesis
    using a f revs_ok_journaled [OF a(4) assms(2)] by (auto simp: after_def)
qed

lemma after_aok: "after b es0 A0 revid rs0 s \<Longrightarrow> aok (absS b s)"
  using undoes_areverts by (auto simp: after_def)

lemma absS_Snapshot [simp]: "absS b (snd (Snapshot s)) = absS b s"
  by (simp add: Snapshot_def)

lemma revs_ok_Snapshot: "revs_ok s \<Longrightarrow> revs_ok (snd (Snapshot s))"
  by (auto simp: revs_ok_def Snapshot_def sorted_wrt_append less_SucI)

lemma after_Snapshot: "after b es0 A0 revid rs0 s \<Longrightarrow> after b es0 A0 revid rs0 (snd (Snapshot s))"
  using revs_ok_Snapshot [of s] absS_Snapshot [of b s]
  unfolding after_def by (auto simp del: absS_Snapshot simp: Snapshot_def)

lemma take_drop_entries:
  assumes "length es0 \<le> k" "k \<le> length (es0 @ es)"
  obtains es1 es2 where "es = es1 @ es2" "length (es0 @ es1) = k"
proof
  show "es = take (k - length es0) es @ drop (k - length es0) es" by simp
  show "length (es0 @ take (k - length es0) es) = k" using assms by simp
qed

lemma after_Revert:
  assumes "after b es0 A0 revid rs0 s" "RevertToSnapshot b n s = Some t" "revid < n"
  shows "after b es0 A0 revid rs0 t"
proof -
  obtain es rs where a: "entries (sd_journal s) = es0 @ es" "undoes b (rev es) (absS b s) A0"
    "validRevisions s = rs0 @ (revid, length es0) # rs" and ok: "revs_ok s"
    using assms(1) by (auto simp: after_def)
  obtain rs1 k rs2 where r: "validRevisions s = rs1 @ (n, k) # rs2"
    using RevertToSnapshot_found [OF assms(2)] by blast
  have srt: "sorted_wrt (\<lambda>r q. fst r < fst q \<and> snd r \<le> snd q) (validRevisions s)"
    using ok by (simp add: revs_ok_def)
  have "(n, k) \<in> set rs"
  proof -
    have "(n, k) \<in> set (validRevisions s)" using r by simp
    moreover have "(n, k) \<notin> set rs0"
      using srt a(3) assms(3) by (auto simp: sorted_wrt_append)
    ultimately show ?thesis using a(3) assms(3) by auto
  qed
  then obtain q1 q2 where q: "rs = q1 @ (n, k) # q2" by (meson split_list)
  have k: "length es0 \<le> k" "k \<le> length (es0 @ es)"
    using srt ok a q by (auto simp: sorted_wrt_append revs_ok_def)
  obtain es1 es2 where e: "es = es1 @ es2" "length (es0 @ es1) = k"
    using take_drop_entries [OF k] .
  obtain B where B: "undoes b (rev es2) (absS b s) B" "undoes b (rev es1) B A0"
    using a(2) e(1) by (auto simp: undoes_append)
  obtain u where u: "RevertToSnapshot b n s = Some u" "absS b u = B" "entries (sd_journal u) = es0 @ es1"
    "validRevisions u = rs0 @ (revid, length es0) # q1" "nextRevisionId u = nextRevisionId s"
    using RevertToSnapshot_at [OF ok, of "rs0 @ (revid, length es0) # q1" n "es0 @ es1" q2 es2 b B] a q e B by auto
  have "revs_ok u"
    using ok a(3) q u e(2) srt by (auto simp: revs_ok_def sorted_wrt_append)
  then show ?thesis
    using u assms(2) B by (auto simp: after_def)
qed

section \<open>Reachable states\<close>

text \<open>The journal goes back from \<open>s\<close> to the state \<open>A0\<close> at the start of the transaction.\<close>

definition rooted :: "backend \<Rightarrow> statedb \<Rightarrow> astate \<Rightarrow> bool" where
  "rooted b s A0 \<longleftrightarrow>
     revs_ok s \<and> counts_ok (sd_journal s) \<and> undoes b (rev (entries (sd_journal s))) (absS b s) A0"

definition state_ok :: "backend \<Rightarrow> statedb \<Rightarrow> bool" where
  "state_ok b s \<longleftrightarrow> (\<exists>A0. rooted b s A0)"

lemma state_ok_aok: "state_ok b s \<Longrightarrow> aok (absS b s)"
  using undoes_areverts by (auto simp: state_ok_def rooted_def)

lemma aok_iff:
  "aok (absS b s) \<longleftrightarrow> (\<forall>a o1. stateObjects s a = Some o1 \<longrightarrow> so_address o1 = a \<and> fakeStorage o1 = None)"
proof -
  have "v_address v = a \<and> v_fake v = None" if "base_view b (sd_trie s) a = Some v" for a v
    using that by (auto simp: base_view_def)
  then show ?thesis
    by (auto simp: aok_def absS_def obj_view_def split: option.splits)
qed

lemma rooted_journaled:
  assumes "rooted b s A0" "journaled b s t"
  shows "rooted b t A0"
proof -
  obtain es where "entries (sd_journal t) = entries (sd_journal s) @ es" "undoes b (rev es) (absS b t) (absS b s)"
    using assms(2) by (auto simp: journaled_def)
  then have "undoes b (rev (entries (sd_journal t))) (absS b t) A0"
    using assms(1) by (auto simp: undoes_append rooted_def)
  then show ?thesis
    using assms revs_ok_journaled by (auto simp: rooted_def journaled_def)
qed

lemma rooted_Snapshot: "rooted b s A0 \<Longrightarrow> rooted b (snd (Snapshot s)) A0"
proof -
  have "sd_journal (snd (Snapshot s)) = sd_journal s" by (simp add: Snapshot_def)
  then show "rooted b s A0 \<Longrightarrow> rooted b (snd (Snapshot s)) A0"
    using revs_ok_Snapshot [of s] by (simp add: rooted_def)
qed

lemma rooted_Revert:
  assumes "rooted b s A0" "RevertToSnapshot b n s = Some t"
  shows "rooted b t A0"
proof -
  have ok: "revs_ok s" and u: "undoes b (rev (entries (sd_journal s))) (absS b s) A0"
    using assms(1) by (auto simp: rooted_def)
  obtain rs1 k rs2 where r: "validRevisions s = rs1 @ (n, k) # rs2"
    using RevertToSnapshot_found [OF assms(2)] by blast
  then have k: "k \<le> length (entries (sd_journal s))"
    using ok by (simp add: revs_ok_def)
  obtain es1 es2 where e: "entries (sd_journal s) = es1 @ es2" "length es1 = k"
    using take_drop_entries [of "[]" k "entries (sd_journal s)"] k by auto
  obtain B where B: "undoes b (rev es2) (absS b s) B" "undoes b (rev es1) B A0"
    using u e(1) by (auto simp: undoes_append)
  obtain t' where t': "RevertToSnapshot b n s = Some t'" "absS b t' = B" "entries (sd_journal t') = es1"
    "validRevisions t' = rs1" "nextRevisionId t' = nextRevisionId s" "counts_ok (sd_journal t')"
    using RevertToSnapshot_at [OF ok, of rs1 n es1 rs2 es2 b B] r e B assms(1) by (auto simp: rooted_def)
  have "revs_ok t'"
    using ok r t' e(2) by (auto simp: revs_ok_def sorted_wrt_append)
  then show ?thesis
    using t' B(2) assms(2) by (auto simp: rooted_def)
qed

lemma state_ok_journaled: "state_ok b s \<Longrightarrow> journaled b s t \<Longrightarrow> state_ok b t"
  unfolding state_ok_def using rooted_journaled by blast

lemma state_ok_Revert: "state_ok b s \<Longrightarrow> RevertToSnapshot b n s = Some t \<Longrightarrow> state_ok b t"
  unfolding state_ok_def using rooted_Revert by blast

lemma rooted_no_entries:
  "aok (absS b s) \<Longrightarrow> entries (sd_journal s) = [] \<Longrightarrow> validRevisions s = [] \<Longrightarrow> (\<And>a. 0 \<le> count_of (dirties (sd_journal s)) a) \<Longrightarrow>
     rooted b s (absS b s)"
  by (simp add: rooted_def revs_ok_def counts_ok_def)

lemma state_ok_no_entries:
  "aok (absS b s) \<Longrightarrow> entries (sd_journal s) = [] \<Longrightarrow> validRevisions s = [] \<Longrightarrow> (\<And>a. 0 \<le> count_of (dirties (sd_journal s)) a) \<Longrightarrow>
     state_ok b s"
  using rooted_no_entries by (auto simp: state_ok_def)

lemma count_new [simp]: "count_of (dirties newJournal) a = 0"
  by (simp add: newJournal_def count_of_def)

lemma counts_nonneg: "counts_ok j \<Longrightarrow> 0 \<le> count_of (dirties j) a"
  unfolding counts_ok_def by (meson of_nat_0_le_iff order_trans)

lemma finalise_object_keeps [simp]:
  "so_address (finalise_object b d o1) = so_address o1" "fakeStorage (finalise_object b d o1) = fakeStorage o1"
  by (simp_all add: finalise_object_def so_finalise_def)

lemma updateRoot_keeps [simp]:
  "so_address (updateRoot b o1) = so_address o1" "fakeStorage (updateRoot b o1) = fakeStorage o1"
  by (auto simp: updateRoot_def updateTrie_def getTrie_def so_finalise_def Let_def split: prod.splits option.splits)

lemma clearJournalAndRefund_simps [simp]:
  "entries (sd_journal (clearJournalAndRefund s)) = []" "validRevisions (clearJournalAndRefund s) = []"
  "stateObjects (clearJournalAndRefund s) = stateObjects s" "sd_trie (clearJournalAndRefund s) = sd_trie s"
  by (simp_all add: clearJournalAndRefund_def newJournal_def Let_def)

lemma count_clear: "counts_ok (sd_journal s) \<Longrightarrow> 0 \<le> count_of (dirties (sd_journal (clearJournalAndRefund s))) a"
  by (auto simp: clearJournalAndRefund_def Let_def counts_nonneg)

lemma state_ok_Finalise: "state_ok b s \<Longrightarrow> state_ok b (Finalise b d s)"
proof (rule state_ok_no_entries)
  assume ok: "state_ok b s"
  then have "counts_ok (sd_journal s)" by (auto simp: state_ok_def rooted_def)
  then show "0 \<le> count_of (dirties (sd_journal (Finalise b d s))) a" for a
    by (simp add: Finalise_def Let_def count_clear)
  show "aok (absS b (Finalise b d s))"
    using state_ok_aok [OF ok] by (auto simp: aok_iff Finalise_def Let_def)
qed (simp_all add: Finalise_def Let_def)

lemma state_ok_IntermediateRoot:
  assumes "state_ok b s" "IntermediateRoot b d s = Some t"
  shows "state_ok b t"
proof (rule state_ok_no_entries)
  let ?s = "Finalise b d s"
  note ok = state_ok_Finalise [OF assms(1), of d]
  have q: "entries (sd_journal ?s) = []" "validRevisions ?s = []"
    by (simp_all add: Finalise_def Let_def)
  have j: "sd_journal t = sd_journal ?s"
    using assms(2) by (auto simp: IntermediateRoot_def Let_def split: if_splits)
  then show "0 \<le> count_of (dirties (sd_journal t)) a" for a
    using ok counts_nonneg by (auto simp: state_ok_def rooted_def)
  show "aok (absS b t)"
    using assms(2) state_ok_aok [OF ok] by (auto simp: aok_iff IntermediateRoot_def Let_def split: if_splits)
  show "entries (sd_journal t) = []" "validRevisions t = []"
    using assms(2) q by (auto simp: IntermediateRoot_def Let_def split: if_splits)
qed

lemma state_ok_op: "state_ok b s \<Longrightarrow> apply_op b x s = Some t \<Longrightarrow> state_ok b t"
proof (cases "plain_op x")
  case True
  then show "state_ok b s \<Longrightarrow> apply_op b x s = Some t \<Longrightarrow> state_ok b t"
    using journaled_plain_op state_ok_aok state_ok_journaled by blast
next
  case False
  assume ok: "state_ok b s" and x: "apply_op b x s = Some t"
  have "state_ok b (snd (Snapshot s))"
    using ok rooted_Snapshot by (auto simp: state_ok_def)
  with False ok x show "state_ok b t"
    by (cases x) (auto dest: state_ok_Revert state_ok_IntermediateRoot intro: state_ok_Finalise)
qed

lemma state_ok_ops: "state_ok b s \<Longrightarrow> apply_ops b xs s = Some t \<Longrightarrow> state_ok b t"
proof (induction xs arbitrary: s)
  case (Cons x xs)
  then obtain u where "apply_op b x s = Some u" "apply_ops b xs u = Some t"
    by (auto split: bind_splits)
  then show ?case
    using Cons.IH [of u] state_ok_op [OF Cons.prems(1)] by blast
qed simp

lemma state_ok_New: "state_ok b (statedb_New tr)"
  by (rule state_ok_no_entries) (simp_all add: statedb_New_def newJournal_def count_of_def aok_iff)

lemma after_op:
  assumes "after b es0 A0 revid rs0 s" "inner_op revid x" "apply_op b x s = Some t"
  shows "after b es0 A0 revid rs0 t"
proof (cases "plain_op x")
  case True
  then show ?thesis
    using journaled_plain_op [OF True after_aok [OF assms(1)] assms(3)] after_journaled [OF assms(1)] by blast
next
  case False
  then show ?thesis
    using assms after_Snapshot [OF assms(1)] after_Revert [OF assms(1)] by (cases x) auto
qed

lemma after_ops:
  "after b es0 A0 revid rs0 s \<Longrightarrow> list_all (inner_op revid) xs \<Longrightarrow> apply_ops b xs s = Some t \<Longrightarrow>
     after b es0 A0 revid rs0 t"
proof (induction xs arbitrary: s)
  case (Cons x xs)
  then obtain u where u: "apply_op b x s = Some u" "apply_ops b xs u = Some t"
    by (auto split: bind_splits)
  then show ?case
    using Cons.IH [of u] after_op [OF Cons.prems(1) _ u(1)] Cons.prems(2) by simp
qed simp

lemma after_Snapshot_start:
  assumes "state_ok b s" "Snapshot s = (revid, s1)"
  shows "after b (entries (sd_journal s)) (absS b s) revid (validRevisions s) s1"
proof -
  have "revs_ok s1" "absS b s1 = absS b s"
    using revs_ok_Snapshot [of s] absS_Snapshot [of b s] assms by (auto simp: state_ok_def rooted_def)
  then show ?thesis
    using assms state_ok_aok [OF assms(1)] by (auto simp: after_def Snapshot_def)
qed

lemma after_revert:
  assumes "after b es0 A0 revid rs0 s"
  shows "\<exists>t. RevertToSnapshot b revid s = Some t \<and> absS b t = A0 \<and> entries (sd_journal t) = es0 \<and>
           validRevisions t = rs0"
  using assms RevertToSnapshot_at unfolding after_def by metis

section \<open>Reverting restores the state\<close>

text \<open>C5: \<^verbatim>\<open>RevertToSnapshot\<close> undoes everything since its \<^verbatim>\<open>Snapshot\<close>. Start from any account trie, let any operations
  run (transactions, root computations, earlier snapshots and reverts), take a snapshot, and let any
  operations of the transaction run, with nested snapshots and reverts to them. Then reverting to
  the snapshot succeeds, and every account (its existence, nonce, balance, code, current and committed storage and flags), the refund
  counter, the logs and the preimages are what they were at the snapshot; so are the journal and the older
  snapshots, which stay valid.\<close>

theorem revert_restores:
  assumes "apply_ops b before (statedb_New tr) = Some s" and "Snapshot s = (revid, s1)"
    and "apply_ops b ops s1 = Some t" and "list_all (inner_op revid) ops"
  shows "\<exists>u. RevertToSnapshot b revid t = Some u \<and> absS b u = absS b s \<and>
           entries (sd_journal u) = entries (sd_journal s) \<and> validRevisions u = validRevisions s"
proof -
  have "state_ok b s"
    using state_ok_ops [OF state_ok_New assms(1)] .
  then show ?thesis
    using after_revert [OF after_ops [OF after_Snapshot_start assms(4,3)]] assms(2) by blast
qed

definition demo_db :: backend where
  "demo_db = \<lparr>keccak256 = (\<lambda>bs. of_nat (length bs) + 1), OpenStorageTrie = (\<lambda>_ _. None),
              storage_root = (\<lambda>_. 0), ContractCode = (\<lambda>_ _. None)\<rparr>"

definition demo_ops :: "state_op list" where
  "demo_ops = [op_SetNonce 7 4, op_Snapshot, op_SetState 7 1 9, op_AddRefund 5, op_RevertToSnapshot 1, op_CreateAccount 7]"

lemma demo_runs: "apply_ops demo_db demo_ops (snd (Snapshot (AddBalance demo_db 7 100 (statedb_New Map.empty)))) \<noteq> None"
  by code_simp

theorem revert_restores_witness:
  "\<exists>s1 t u. Snapshot (AddBalance demo_db 7 100 (statedb_New Map.empty)) = (0, s1) \<and>
     apply_ops demo_db demo_ops s1 = Some t \<and> RevertToSnapshot demo_db 0 t = Some u \<and>
     absS demo_db u = absS demo_db (AddBalance demo_db 7 100 (statedb_New Map.empty))"
proof -
  let ?s = "AddBalance demo_db 7 100 (statedb_New Map.empty)"
  have "fst (Snapshot ?s) = 0"
    by code_simp
  then obtain s1 where s1: "Snapshot ?s = (0, s1)"
    by (cases "Snapshot ?s") auto
  obtain t where t: "apply_ops demo_db demo_ops s1 = Some t"
    using demo_runs s1 by auto
  have "apply_ops demo_db [op_AddBalance 7 100] (statedb_New Map.empty) = Some ?s" "list_all (inner_op 0) demo_ops"
    by (simp_all add: demo_ops_def)
  from revert_restores [OF this(1) s1 t this(2)] show ?thesis
    using s1 t by blast
qed

end
