(* ===== verification/State_Refine.thy ===== *)
theory State_Refine
  imports State_Revert
begin

text \<open>
  The operations of the state database as operations on the abstract state: a map of addresses to accounts with a balance, a nonce, a
  code and a storage. Every getter returns what the abstract account says and changes nothing; every setter changes its
  own account, in its own field, and creates the account when it is missing.
\<close>

section \<open>The abstract operations\<close>

definition fresh :: "backend \<Rightarrow> address \<Rightarrow> aobj" where
  "fresh b a = ov b (newObject b a (zero_Account b))"

definition a_get_or_new :: "backend \<Rightarrow> address \<Rightarrow> astate \<Rightarrow> aobj \<times> astate" where
  "a_get_or_new b a A =
     (case live A a of Some v \<Rightarrow> (v, A) | None \<Rightarrow> (fresh b a, aput (fresh b a) A))"

definition a_update :: "backend \<Rightarrow> address \<Rightarrow> (aobj \<Rightarrow> aobj) \<Rightarrow> astate \<Rightarrow> astate" where
  "a_update b a f A = (let (v, A) = a_get_or_new b a A in aput (f v) A)"

definition a_create :: "backend \<Rightarrow> address \<Rightarrow> astate \<Rightarrow> astate" where
  "a_create b a A =
     (case a_obj A a of
        None \<Rightarrow> aput (fresh b a) A
      | Some p \<Rightarrow> aput ((fresh b a)\<lparr>v_balance := v_balance p\<rparr>) A)"

definition a_read :: "(aobj \<Rightarrow> 'r) \<Rightarrow> 'r \<Rightarrow> address \<Rightarrow> astate \<Rightarrow> 'r" where
  "a_read f none a A = (case live A a of None \<Rightarrow> none | Some v \<Rightarrow> f v)"

section \<open>Lookups\<close>

lemma fresh_fields [simp]:
  "v_address (fresh b a) = a" "v_fake (fresh b a) = None" "v_deleted (fresh b a) = False"
  "v_balance (fresh b a) = 0" "v_nonce (fresh b a) = 0" "v_suicided (fresh b a) = False"
  by (simp_all add: fresh_def newObject_def zero_Account_def)

lemma createObject_abs:
  assumes "createObject b a s = ((o1, prev), t)"
  shows "ov b o1 = fresh b a" "absS b t = aput (fresh b a) (absS b s)" "a_obj (absS b s) a = map_option (ov b) prev"
proof -
  obtain u where g: "getDeletedStateObject b a s = (prev, u)"
    using assms by (auto simp: createObject_def Let_def split: prod.splits)
  note v = getDeletedStateObject_view [OF g]
  have o1: "o1 = so_setNonce 0 (newObject b a (zero_Account b))"
    and t: "t = setStateObject o1 (append_entry
      (case prev of None \<Rightarrow> createObjectChange a | Some p \<Rightarrow> resetObjectChange p) u)"
    using assms g by (auto simp: createObject_def Let_def split: option.splits)
  have "so_setNonce 0 (newObject b a (zero_Account b)) = newObject b a (zero_Account b)"
    by (simp add: so_setNonce_def newObject_def zero_Account_def)
  then show "ov b o1 = fresh b a" by (simp add: o1 fresh_def)
  then show "absS b t = aput (fresh b a) (absS b s)"
    using t v(1) by (simp add: absS_setStateObject)
  show "a_obj (absS b s) a = map_option (ov b) prev" by (rule v(2))
qed

lemma GetOrNew_abs:
  assumes "GetOrNewStateObject b a s = (o1, t)"
  shows "a_get_or_new b a (absS b s) = (ov b o1, absS b t)"
proof -
  obtain r u where g: "getStateObject b a s = (r, u)" by fastforce
  note v = getStateObject_view [OF g]
  show ?thesis
  proof (cases r)
    case None
    obtain o2 p w where c: "createObject b a u = ((o2, p), w)" by (metis surj_pair)
    then have "o2 = o1" "w = t"
      using assms g None by (simp_all add: GetOrNewStateObject_def)
    then show ?thesis
      using createObject_abs [OF c] v(1,2) None by (simp add: a_get_or_new_def)
  next
    case (Some o2)
    then show ?thesis
      using assms g v(1,2) by (simp add: GetOrNewStateObject_def a_get_or_new_def)
  qed
qed

lemma setter_abs:
  assumes ok: "aok (absS b s)"
    and step: "\<And>o1 t. resident t o1 \<Longrightarrow> aok (absS b t) \<Longrightarrow> absS b (f o1 t) = aput (g (ov b o1)) (absS b t)"
  shows "absS b (let (o1, t) = GetOrNewStateObject b a s in f o1 t) = a_update b a g (absS b s)"
proof -
  obtain o1 t where n: "GetOrNewStateObject b a s = (o1, t)" by fastforce
  note j = journaled_GetOrNewStateObject [OF ok n]
  show ?thesis
    using step [OF j(2,4)] GetOrNew_abs [OF n] n by (simp add: a_update_def)
qed

lemma aput_resident: "resident t o1 \<Longrightarrow> aput (ov b o1) (absS b t) = absS b t"
  using resident_view [of t o1 b] by (intro aput_same) simp

section \<open>Setters\<close>

lemma AddBalance_abs:
  "aok (absS b s) \<Longrightarrow> absS b (AddBalance b a x s) = a_update b a (\<lambda>v. v\<lparr>v_balance := v_balance v + x\<rparr>) (absS b s)"
  unfolding AddBalance_def
proof (rule setter_abs)
  fix o1 t
  assume r: "resident t o1"
  have "absS b (so_touch o1 t) = absS b t"
    by (simp add: so_touch_def Let_def)
  then show "absS b (so_AddBalance b o1 x t) = aput ((ov b o1)\<lparr>v_balance := v_balance (ov b o1) + x\<rparr>) (absS b t)"
    using aput_resident [OF r, of b]
    by (auto simp: so_AddBalance_def so_SetBalance_def absS_setStateObject ov_setBalance)
qed

lemma SubBalance_abs:
  "aok (absS b s) \<Longrightarrow> absS b (SubBalance b a x s) = a_update b a (\<lambda>v. v\<lparr>v_balance := v_balance v - x\<rparr>) (absS b s)"
  unfolding SubBalance_def
proof (rule setter_abs)
  fix o1 t
  assume r: "resident t o1"
  then show "absS b (so_SubBalance o1 x t) = aput ((ov b o1)\<lparr>v_balance := v_balance (ov b o1) - x\<rparr>) (absS b t)"
    using aput_resident [OF r, of b]
    by (auto simp: so_SubBalance_def so_SetBalance_def absS_setStateObject ov_setBalance)
qed

lemma SetBalance_abs:
  "aok (absS b s) \<Longrightarrow> absS b (SetBalance b a x s) = a_update b a (\<lambda>v. v\<lparr>v_balance := x\<rparr>) (absS b s)"
  unfolding SetBalance_def
  by (rule setter_abs) (auto simp: so_SetBalance_def absS_setStateObject ov_setBalance)

lemma SetNonce_abs:
  "aok (absS b s) \<Longrightarrow> absS b (SetNonce b a n s) = a_update b a (\<lambda>v. v\<lparr>v_nonce := n\<rparr>) (absS b s)"
  unfolding SetNonce_def
  by (rule setter_abs) (auto simp: so_SetNonce_def absS_setStateObject ov_setNonce)

lemma SetCode_abs:
  "aok (absS b s) \<Longrightarrow> absS b (SetCode b a c s) =
     a_update b a (aset_code b (keccak256 b c) (if c = [] then None else Some c)) (absS b s)"
  unfolding SetCode_def
proof (rule setter_abs)
  fix o1 t
  obtain p o2 where c: "so_Code b o1 = (p, o2)" by fastforce
  then show "absS b (so_SetCode b o1 (keccak256 b c) (if c = [] then None else Some c) t) =
      aput (aset_code b (keccak256 b c) (if c = [] then None else Some c) (ov b o1)) (absS b t)"
    using so_Code_same [OF c] by (simp add: so_SetCode_def absS_setStateObject ov_setCode)
qed

lemma aset_state_same: "v_state v k = x \<Longrightarrow> aset_state k x v = v"
  by (cases v) (auto simp: aset_state_def)

lemma SetState_abs:
  "aok (absS b s) \<Longrightarrow> absS b (SetState b a k x s) = a_update b a (aset_state k x) (absS b s)"
  unfolding SetState_def
proof (rule setter_abs)
  fix o1 t
  assume r: "resident t o1" "aok (absS b t)"
  obtain prev o2 where g: "so_GetState b o1 k = (prev, o2)" by fastforce
  note same = so_GetState_same [OF g]
  have "fakeStorage o1 = None" using resident_fake [OF r(2,1)] .
  then show "absS b (so_SetState b o1 k x t) = aput (aset_state k x (ov b o1)) (absS b t)"
    using g same aset_state_same [of "ov b o1" k x]
    by (auto simp: so_SetState_def absS_setStateObject ov_setState)
qed

lemma CreateAccount_abs:
  "aok (absS b s) \<Longrightarrow> absS b (CreateAccount b a s) = a_create b a (absS b s)"
proof -
  obtain o1 prev t where c: "createObject b a s = ((o1, prev), t)" by (metis surj_pair)
  note v = createObject_abs [OF c]
  show ?thesis
    using v c
    by (cases prev) (simp_all add: CreateAccount_def a_create_def absS_setStateObject ov_setBalance)
qed

lemma Suicide_abs:
  "absS b (snd (Suicide b a s)) =
     (case live (absS b s) a of
        None \<Rightarrow> absS b s
      | Some v \<Rightarrow> aput (v\<lparr>v_suicided := True, v_balance := 0\<rparr>) (absS b s))"
proof -
  obtain r t where g: "getStateObject b a s = (r, t)" by fastforce
  note v = getStateObject_view [OF g]
  show ?thesis
    using v(1,2) g
    by (cases r) (simp_all add: Suicide_def absS_setStateObject ov_setBalance ov_suicided)
qed

lemma AddRefund_abs: "absS b (AddRefund g s) = (absS b s)\<lparr>a_refund := a_refund (absS b s) + g\<rparr>"
  by (simp add: AddRefund_def absS_def append_entry_def GetLogs_def)

lemma SubRefund_abs:
  "SubRefund g s =
     (if g > a_refund (absS b s) then None else Some ((append_entry (refundChange (sd_refund s)) s)\<lparr>sd_refund := sd_refund s - g\<rparr>))"
  by (simp add: SubRefund_def absS_def Let_def)

lemma SubRefund_abs':
  "SubRefund g s = Some t \<Longrightarrow> absS b t = (absS b s)\<lparr>a_refund := a_refund (absS b s) - g\<rparr>"
  by (auto simp: SubRefund_def Let_def absS_def append_entry_def GetLogs_def split: if_splits)

section \<open>Getters\<close>

lemma getter_abs:
  assumes "getStateObject b a s = (r, t)"
  shows "absS b t = absS b s" "a_read f none a (absS b s) = (case r of None \<Rightarrow> none | Some o1 \<Rightarrow> f (ov b o1))"
  using getStateObject_view [OF assms] by (simp_all add: a_read_def split: option.split)

lemma reads_abs:
  "absS b (snd (Exist b a s)) = absS b s" "fst (Exist b a s) = a_read (\<lambda>_. True) False a (absS b s)"
  "absS b (snd (GetBalance b a s)) = absS b s" "fst (GetBalance b a s) = a_read v_balance 0 a (absS b s)"
  "absS b (snd (GetNonce b a s)) = absS b s" "fst (GetNonce b a s) = a_read v_nonce 0 a (absS b s)"
  "absS b (snd (GetCodeHash b a s)) = absS b s" "fst (GetCodeHash b a s) = a_read v_codehash 0 a (absS b s)"
  "absS b (snd (HasSuicided b a s)) = absS b s" "fst (HasSuicided b a s) = a_read v_suicided False a (absS b s)"
  "absS b (snd (GetCodeSize b a s)) = absS b s"
  "absS b (snd (Empty b a s)) = absS b s"
  "fst (Empty b a s) =
     a_read (\<lambda>v. v_nonce v = 0 \<and> v_balance v = 0 \<and> v_codehash v = emptyCodeHash b) True a (absS b s)"
proof -
  obtain r t where g: "getStateObject b a s = (r, t)" by fastforce
  note v = getter_abs [OF g]
  show
    "absS b (snd (Exist b a s)) = absS b s" "fst (Exist b a s) = a_read (\<lambda>_. True) False a (absS b s)"
    "absS b (snd (GetBalance b a s)) = absS b s" "fst (GetBalance b a s) = a_read v_balance 0 a (absS b s)"
    "absS b (snd (GetNonce b a s)) = absS b s" "fst (GetNonce b a s) = a_read v_nonce 0 a (absS b s)"
    "absS b (snd (GetCodeHash b a s)) = absS b s" "fst (GetCodeHash b a s) = a_read v_codehash 0 a (absS b s)"
    "absS b (snd (HasSuicided b a s)) = absS b s" "fst (HasSuicided b a s) = a_read v_suicided False a (absS b s)"
    "absS b (snd (GetCodeSize b a s)) = absS b s"
    "absS b (snd (Empty b a s)) = absS b s"
    "fst (Empty b a s) =
       a_read (\<lambda>v. v_nonce v = 0 \<and> v_balance v = 0 \<and> v_codehash v = emptyCodeHash b) True a (absS b s)"
    using g
    by (simp_all add: v Exist_def GetBalance_def GetNonce_def GetCodeHash_def HasSuicided_def GetCodeSize_def Empty_def
        so_empty_def split: option.split)
qed

lemma cached_read_abs:
  assumes "getStateObject b a s = (Some o1, t)" "aok (absS b s)" "ov b o2 = ov b o1" "so_address o2 = so_address o1"
  shows "absS b (setStateObject o2 t) = absS b s"
  using journaled_getStateObject(2) [OF assms(2,1) refl] getStateObject_view(1) [OF assms(1)] assms(3,4)
  by (auto intro!: trans [OF absS_resident_set])

lemma GetState_abs:
  assumes "aok (absS b s)"
  shows "absS b (snd (GetState b a k s)) = absS b s" "fst (GetState b a k s) = a_read (\<lambda>v. v_state v k) 0 a (absS b s)"
    "absS b (snd (GetCommittedState b a k s)) = absS b s"
    "fst (GetCommittedState b a k s) = a_read (\<lambda>v. v_committed v k) 0 a (absS b s)"
    "absS b (snd (GetCode b a s)) = absS b s" "fst (GetCode b a s) = a_read v_code [] a (absS b s)"
proof -
  obtain r t where g: "getStateObject b a s = (r, t)" by fastforce
  note v = getter_abs [OF g]
  have "absS b (snd (GetState b a k s)) = absS b s \<and> fst (GetState b a k s) = a_read (\<lambda>v. v_state v k) 0 a (absS b s) \<and>
    absS b (snd (GetCommittedState b a k s)) = absS b s \<and>
    fst (GetCommittedState b a k s) = a_read (\<lambda>v. v_committed v k) 0 a (absS b s) \<and>
    absS b (snd (GetCode b a s)) = absS b s \<and> fst (GetCode b a s) = a_read v_code [] a (absS b s)"
  proof (cases r)
    case None
    then show ?thesis
      using g by (simp add: v GetState_def GetCommittedState_def GetCode_def)
  next
    case (Some o1)
    obtain x o2 where 2: "so_GetState b o1 k = (x, o2)" by fastforce
    obtain y o3 where 3: "so_GetCommittedState b o1 k = (y, o3)" by fastforce
    obtain z o4 where 4: "so_Code b o1 = (z, o4)" by fastforce
    note s2 = so_GetState_same [OF 2] and s3 = so_GetCommittedState_same [OF 3] and s4 = so_Code_same [OF 4]
    note abs = cached_read_abs [OF g [unfolded Some] assms]
    have "v_code (ov b o1) = code_default z" using 4 by (simp add: ov_def)
    then show ?thesis
      using g Some 2 3 4 s2(5) s3(5) abs [OF s2(1,2)] abs [OF s3(1,2)] abs [OF s4(1,2)]
      by (simp add: v(2) GetState_def GetCommittedState_def GetCode_def)
  qed
  then show "absS b (snd (GetState b a k s)) = absS b s" "fst (GetState b a k s) = a_read (\<lambda>v. v_state v k) 0 a (absS b s)"
    "absS b (snd (GetCommittedState b a k s)) = absS b s"
    "fst (GetCommittedState b a k s) = a_read (\<lambda>v. v_committed v k) 0 a (absS b s)"
    "absS b (snd (GetCode b a s)) = absS b s" "fst (GetCode b a s) = a_read v_code [] a (absS b s)"
    by blast+
qed


section \<open>The refinement\<close>

text \<open>C14: The state database is a map of accounts. Through all its caches and the journal, the setters act on the abstract state as
  updates of one account, which they create blank when it is missing or deleted, and the getters read one
  account and leave the abstract state alone.\<close>

theorem statedb_refines:
  assumes "state_ok b s"
  shows "absS b (AddBalance b a x s) = a_update b a (\<lambda>v. v\<lparr>v_balance := v_balance v + x\<rparr>) (absS b s) \<and>
    absS b (SubBalance b a x s) = a_update b a (\<lambda>v. v\<lparr>v_balance := v_balance v - x\<rparr>) (absS b s) \<and>
    absS b (SetBalance b a x s) = a_update b a (\<lambda>v. v\<lparr>v_balance := x\<rparr>) (absS b s) \<and>
    absS b (SetNonce b a n s) = a_update b a (\<lambda>v. v\<lparr>v_nonce := n\<rparr>) (absS b s) \<and>
    absS b (SetCode b a c s) =
      a_update b a (aset_code b (keccak256 b c) (if c = [] then None else Some c)) (absS b s) \<and>
    absS b (SetState b a k y s) = a_update b a (aset_state k y) (absS b s) \<and>
    absS b (CreateAccount b a s) = a_create b a (absS b s) \<and>
    absS b (snd (Suicide b a s)) =
      (case live (absS b s) a of
         None \<Rightarrow> absS b s | Some v \<Rightarrow> aput (v\<lparr>v_suicided := True, v_balance := 0\<rparr>) (absS b s)) \<and>
    list_all (\<lambda>s'. absS b s' = absS b s)
      [snd (Exist b a s), snd (Empty b a s), snd (GetBalance b a s), snd (GetNonce b a s), snd (GetCode b a s),
       snd (GetCodeHash b a s), snd (GetState b a k s), snd (GetCommittedState b a k s), snd (HasSuicided b a s)] \<and>
    fst (Exist b a s) = a_read (\<lambda>_. True) False a (absS b s) \<and>
    fst (Empty b a s) = a_read (\<lambda>v. v_nonce v = 0 \<and> v_balance v = 0 \<and> v_codehash v = emptyCodeHash b) True a (absS b s) \<and>
    fst (GetBalance b a s) = a_read v_balance 0 a (absS b s) \<and> fst (GetNonce b a s) = a_read v_nonce 0 a (absS b s) \<and>
    fst (GetCode b a s) = a_read v_code [] a (absS b s) \<and> fst (GetCodeHash b a s) = a_read v_codehash 0 a (absS b s) \<and>
    fst (GetState b a k s) = a_read (\<lambda>v. v_state v k) 0 a (absS b s) \<and>
    fst (GetCommittedState b a k s) = a_read (\<lambda>v. v_committed v k) 0 a (absS b s) \<and>
    fst (HasSuicided b a s) = a_read v_suicided False a (absS b s)"
proof -
  note aok = state_ok_aok [OF assms]
  note setters = AddBalance_abs [OF aok] SubBalance_abs [OF aok] SetBalance_abs [OF aok] SetNonce_abs [OF aok]
    SetCode_abs [OF aok] SetState_abs [OF aok] CreateAccount_abs [OF aok] Suicide_abs
  show ?thesis
    by (intro conjI) (simp_all only: setters reads_abs GetState_abs [OF aok] list.pred_inject simp_thms)
qed

theorem statedb_refines_witness:
  "absS demo_db (AddBalance demo_db 7 100 (statedb_New Map.empty)) =
     a_update demo_db 7 (\<lambda>v. v\<lparr>v_balance := v_balance v + 100\<rparr>) (absS demo_db (statedb_New Map.empty)) \<and>
   fst (GetBalance demo_db 7 (statedb_New Map.empty)) = 0"
proof -
  have "state_ok demo_db (statedb_New Map.empty)"
    by (rule state_ok_New)
  then show ?thesis
    using statedb_refines [of demo_db "statedb_New Map.empty" 7 100]
    by (simp add: a_read_def live_def absS_def obj_view_def base_view_def statedb_New_def)
qed

lemma Finalise_suicided:
  "dirties (sd_journal s) a \<noteq> None \<Longrightarrow> stateObjects s a = Some o1 \<Longrightarrow> suicided o1 \<Longrightarrow>
     stateObjects (Finalise b d s) a = Some (o1\<lparr>deleted := True\<rparr>)"
  by (auto simp: Finalise_def Let_def finalise_object_def)

text \<open>C32: Burnt funds come back. An account that was deleted at the end of a transaction does not exist and its balance
  reads as zero, but creating it again in the same block carries over the balance of the deleted object. The balance is not zero
  when the account was paid after it destroyed itself.\<close>

theorem burnt_balance_returns:
  assumes "stateObjects s a = Some o1" "deleted o1"
  shows "fst (Exist b a s) = False \<and> fst (GetBalance b a s) = 0 \<and>
    fst (GetBalance b a (CreateAccount b a s)) = ac_Balance (so_data o1)"
  using assms
  by (simp add: Exist_def GetBalance_def getStateObject_def getDeletedStateObject_def CreateAccount_def createObject_def
      setStateObject_def append_entry_def so_setNonce_def so_setBalance_def newObject_def Let_def)

theorem burnt_balance_returns_witness:
  "let s = Finalise demo_db True (AddBalance demo_db 7 5 (snd (Suicide demo_db 7 (AddBalance demo_db 7 100 (statedb_New Map.empty)))))
   in fst (Exist demo_db 7 s) = False \<and> fst (GetBalance demo_db 7 (CreateAccount demo_db 7 s)) = 5"
proof -
  let ?s = "AddBalance demo_db 7 5 (snd (Suicide demo_db 7 (AddBalance demo_db 7 100 (statedb_New Map.empty))))"
  have "dirties (sd_journal ?s) 7 \<noteq> None" "map_option suicided (stateObjects ?s 7) = Some True"
    "map_option (\<lambda>o1. ac_Balance (so_data o1)) (stateObjects ?s 7) = Some 5"
    by code_simp+
  then obtain o1 where "stateObjects (Finalise demo_db True ?s) 7 = Some o1" "deleted o1" "ac_Balance (so_data o1) = 5"
    using Finalise_suicided [of ?s 7 _ demo_db True] by auto
  then show ?thesis
    using burnt_balance_returns [of "Finalise demo_db True ?s" 7 o1 demo_db] by simp
qed

end
