(* ===== verification/State_Flow.thy ===== *)
theory State_Flow
  imports State_Refine
begin

text \<open>
  What a caller of the state database may rely on along a run: snapshots taken earlier stay revertible
  (\<open>extends\<close>), balances stay non-negative and the refund counter covers every storage slot that was cleared
  (\<open>ainv\<close>), and operations that only look leave the accounts alone up to new blank ones (\<open>pure\<close>).
\<close>

section \<open>Revertible progress\<close>

definition extends :: "backend \<Rightarrow> statedb \<Rightarrow> statedb \<Rightarrow> bool" where
  "extends b s t \<longleftrightarrow>
     (\<forall>A0. rooted b s A0 \<longrightarrow> rooted b t A0) \<and>
     (\<forall>es0 A0 revid rs0. after b es0 A0 revid rs0 s \<longrightarrow> after b es0 A0 revid rs0 t) \<and>
     nextRevisionId s \<le> nextRevisionId t"

lemma extends_refl [simp]: "extends b s s"
  by (simp add: extends_def)

lemma extends_trans: "extends b s t \<Longrightarrow> extends b t u \<Longrightarrow> extends b s u"
  unfolding extends_def using le_trans by blast

lemma extends_state_ok: "extends b s t \<Longrightarrow> state_ok b s \<Longrightarrow> state_ok b t"
  by (auto simp: extends_def state_ok_def)

lemma extends_journaled: "journaled b s t \<Longrightarrow> extends b s t"
  unfolding extends_def using after_journaled rooted_journaled by (auto simp: journaled_def)

lemma state_ok_Snapshot: "state_ok b s \<Longrightarrow> state_ok b (snd (Snapshot s))"
  using state_ok_op [of b s op_Snapshot "snd (Snapshot s)"] by simp

lemma extends_Snapshot: "extends b s (snd (Snapshot s))"
  unfolding extends_def using after_Snapshot rooted_Snapshot [of b s] by (auto simp: Snapshot_def)

lemma after_revid: "after b es0 A0 revid rs0 s \<Longrightarrow> revid < nextRevisionId s"
  by (auto simp: after_def revs_ok_def)

lemma nextRevisionId_Revert: "RevertToSnapshot b n s = Some t \<Longrightarrow> nextRevisionId t = nextRevisionId s"
  using revert_loop_frame
  by (fastforce simp: RevertToSnapshot_def journal_revert_def Let_def split: if_splits bind_splits)

text \<open>Going back to a snapshot succeeds, restores the state, and counts as progress from the moment of the snapshot.\<close>

lemma revert_to_start:
  assumes "state_ok b s" "extends b (snd (Snapshot s)) t"
  shows "\<exists>u. RevertToSnapshot b (fst (Snapshot s)) t = Some u \<and> absS b u = absS b s \<and> extends b s u"
proof -
  obtain revid s1 where sn: "Snapshot s = (revid, s1)" by fastforce
  have aft: "after b (entries (sd_journal s)) (absS b s) revid (validRevisions s) t"
    using after_Snapshot_start [OF assms(1) sn] assms(2) sn by (simp add: extends_def)
  obtain u where u: "RevertToSnapshot b revid t = Some u" "absS b u = absS b s"
    using after_revert [OF aft] by blast
  have "rooted b u A0" if "rooted b s A0" for A0
    using rooted_Revert [OF _ u(1)] rooted_Snapshot [OF that] assms(2) by (simp add: extends_def)
  moreover have "after b es0 A0 n rs0 u" if "after b es0 A0 n rs0 s" for es0 A0 n rs0
  proof (rule after_Revert [OF _ u(1)])
    show "after b es0 A0 n rs0 t"
      using after_Snapshot [OF that] assms(2) by (simp add: extends_def)
    show "n < revid"
      using after_revid [OF that] sn by (auto simp: Snapshot_def)
  qed
  moreover have "nextRevisionId s \<le> nextRevisionId u"
    using nextRevisionId_Revert [OF u(1)] assms(2) by (simp add: extends_def Snapshot_def)
  ultimately have "extends b s u"
    by (simp add: extends_def)
  then show ?thesis
    using u sn by simp
qed

section \<open>Balances and refunds\<close>

definition nonneg :: "astate \<Rightarrow> bool" where
  "nonneg A \<longleftrightarrow> (\<forall>a v. a_obj A a = Some v \<longrightarrow> 0 \<le> v_balance v)"

text \<open>The slots that held a value before the transaction and hold zero now.\<close>

definition cleared :: "astate \<Rightarrow> (address \<times> hash) set" where
  "cleared A = {(a, k). \<exists>v. live A a = Some v \<and> v_committed v k \<noteq> 0 \<and> v_state v k = 0}"

definition covered :: "astate \<Rightarrow> bool" where
  "covered A \<longleftrightarrow> finite (cleared A) \<and> 15000 * card (cleared A) \<le> unat (a_refund A)"

text \<open>The flag says whether clearing a slot earns the refund of EIP-2200; only then the refund counter is ever lowered.\<close>

definition ainv :: "bool \<Rightarrow> astate \<Rightarrow> bool" where
  "ainv p A \<longleftrightarrow> nonneg A \<and> (p \<longrightarrow> covered A)"

lemma covered_mono:
  "covered A \<Longrightarrow> cleared B \<subseteq> cleared A \<Longrightarrow> a_refund A \<le> a_refund B \<Longrightarrow> covered B"
  unfolding covered_def
  by (meson card_mono finite_subset le_trans mult_le_mono2 word_le_nat_alt)

text \<open>The money in the world: the balances of all accounts. Accounts that an earlier transaction deleted count, because creating
  such an account again brings its balance back.\<close>

definition balance_of :: "astate \<Rightarrow> address \<Rightarrow> int" where
  "balance_of A a = (case a_obj A a of None \<Rightarrow> 0 | Some v \<Rightarrow> v_balance v)"

definition funds :: "astate \<Rightarrow> int" where
  "funds A = (\<Sum>a \<in> UNIV. balance_of A a)"

lemma funds_cong: "a_obj B = a_obj A \<Longrightarrow> funds B = funds A"
  by (simp add: funds_def balance_of_def)

lemma funds_aput: "funds (aput v A) = funds A - balance_of A (v_address v) + v_balance v"
proof -
  have "balance_of (aput v A) = (balance_of A)(v_address v := v_balance v)"
    by (auto simp: balance_of_def aput_def)
  then show ?thesis
    by (simp add: funds_def sum.remove [of UNIV "v_address v"])
qed

lemma aput_aput: "v_address w = v_address v \<Longrightarrow> aput w (aput v A) = aput w A"
  by (simp add: aput_def)

lemma balance_of_nonneg: "nonneg A \<Longrightarrow> 0 \<le> balance_of A a"
  by (auto simp: balance_of_def nonneg_def split: option.split)

section \<open>Looking only\<close>

definition blank :: "backend \<Rightarrow> aobj \<Rightarrow> bool" where
  "blank b v \<longleftrightarrow> v\<lparr>v_balance := 0\<rparr> = fresh b (v_address v)"

definition pure :: "backend \<Rightarrow> astate \<Rightarrow> astate \<Rightarrow> bool" where
  "pure b A B \<longleftrightarrow>
     (\<forall>a. live B a = live A a \<or> live A a = None \<and> (\<exists>v. live B a = Some v \<and> blank b v)) \<and>
     a_base B = a_base A \<and> a_refund B = a_refund A \<and> a_logs B = a_logs A \<and> a_logSize B = a_logSize A \<and>
     a_tx B = a_tx A \<and> a_preimages A \<subseteq>\<^sub>m a_preimages B"

lemma pure_refl [simp]: "pure b A A"
  by (simp add: pure_def)

lemma pure_trans: "pure b A B \<Longrightarrow> pure b B C \<Longrightarrow> pure b A C"
  unfolding pure_def by (metis map_le_trans option.distinct(1))

section \<open>Moves\<close>

definition moves :: "backend \<Rightarrow> bool \<Rightarrow> bool \<Rightarrow> statedb \<Rightarrow> statedb \<Rightarrow> bool" where
  "moves b p ro s t \<longleftrightarrow>
     extends b s t \<and> ainv p (absS b t) \<and> a_refund (absS b t) = a_refund (absS b s) \<and>
     (ro \<longrightarrow> pure b (absS b s) (absS b t)) \<and> funds (absS b t) \<le> funds (absS b s)"

text \<open>A part of a payment, which changes the money in the world by at most \<open>x\<close>.\<close>

definition pays_by :: "backend \<Rightarrow> bool \<Rightarrow> int \<Rightarrow> statedb \<Rightarrow> statedb \<Rightarrow> bool" where
  "pays_by b p x s t \<longleftrightarrow>
     extends b s t \<and> ainv p (absS b t) \<and> a_refund (absS b t) = a_refund (absS b s) \<and>
     funds (absS b t) \<le> funds (absS b s) + x"

definition sinv :: "backend \<Rightarrow> bool \<Rightarrow> statedb \<Rightarrow> bool" where
  "sinv b p s \<longleftrightarrow> state_ok b s \<and> ainv p (absS b s)"

lemma moves_refl: "sinv b p s \<Longrightarrow> moves b p ro s s"
  by (simp add: moves_def sinv_def)

lemma moves_trans: "moves b p ro s t \<Longrightarrow> moves b p ro t u \<Longrightarrow> moves b p ro s u"
  unfolding moves_def using extends_trans pure_trans by auto

lemma moves_sinv: "moves b p ro s t \<Longrightarrow> sinv b p s \<Longrightarrow> sinv b p t"
  unfolding moves_def sinv_def using extends_state_ok by blast

lemma moves_pays: "moves b p ro s t \<Longrightarrow> pays_by b p 0 s t" "pays_by b p x s t \<Longrightarrow> x \<le> 0 \<Longrightarrow> moves b p False s t"
  by (auto simp: moves_def pays_by_def)

lemma pays_trans: "pays_by b p x s t \<Longrightarrow> pays_by b p y t u \<Longrightarrow> pays_by b p (x + y) s u"
  unfolding pays_by_def using extends_trans by auto

lemma pays_sinv: "pays_by b p x s t \<Longrightarrow> sinv b p s \<Longrightarrow> sinv b p t"
  unfolding pays_by_def sinv_def using extends_state_ok by blast

lemma sinv_aok: "sinv b p s \<Longrightarrow> aok (absS b s)"
  by (simp add: sinv_def state_ok_aok)

lemma moves_same:
  "sinv b p s \<Longrightarrow> journaled b s t \<Longrightarrow> absS b t = absS b s \<Longrightarrow> moves b p ro s t"
  by (simp add: moves_def sinv_def extends_journaled)

lemma moves_Snapshot: "sinv b p s \<Longrightarrow> moves b p ro s (snd (Snapshot s))"
  by (simp add: moves_def sinv_def extends_Snapshot)

named_theorems moving

lemma moves_reads [moving]:
  assumes "sinv b p s"
  shows "moves b p ro s (snd (Exist b a s))" "moves b p ro s (snd (Empty b a s))"
    "moves b p ro s (snd (GetBalance b a s))" "moves b p ro s (snd (GetNonce b a s))"
    "moves b p ro s (snd (GetCodeSize b a s))" "moves b p ro s (snd (GetCodeHash b a s))"
    "moves b p ro s (snd (HasSuicided b a s))" "moves b p ro s (snd (GetCode b a s))"
    "moves b p ro s (snd (GetState b a k s))" "moves b p ro s (snd (GetCommittedState b a k s))"
  using assms sinv_aok [OF assms]
  by (simp_all add: moves_same journaled_readers journaled_GetCode journaled_GetState reads_abs GetState_abs)

text \<open>A change of one account that leaves its storage and existence alone.\<close>

definition keeps_storage :: "(aobj \<Rightarrow> aobj) \<Rightarrow> bool" where
  "keeps_storage f \<longleftrightarrow>
     (\<forall>v. v_address (f v) = v_address v \<and> v_deleted (f v) = v_deleted v \<and> v_state (f v) = v_state v \<and>
          v_committed (f v) = v_committed v)"

lemma fresh_state: "v_state (fresh b a) = v_committed (fresh b a)"
  by (simp add: fresh_def ov_def newObject_def so_GetState_def fun_eq_iff)

lemma live_put: "v_deleted v = False \<Longrightarrow> live (aput v A) a = (if a = v_address v then Some v else live A a)"
  by (simp add: live_def aput_def)

lemma live_Some: "aok A \<Longrightarrow> live A a = Some v \<Longrightarrow> v_address v = a \<and> v_deleted v = False \<and> a_obj A a = Some v"
  by (auto simp: live_def aok_def split: option.splits if_splits)

definition keeps_place :: "(aobj \<Rightarrow> aobj) \<Rightarrow> bool" where
  "keeps_place f \<longleftrightarrow> (\<forall>v. v_address (f v) = v_address v \<and> v_deleted (f v) = v_deleted v)"

lemma keeps_storage_place: "keeps_storage f \<Longrightarrow> keeps_place f"
  by (simp add: keeps_storage_def keeps_place_def)

lemma live_update:
  assumes "aok A" "keeps_place f"
  shows "live (a_update b a f A) x =
           (if x = a then Some (f (case live A a of None \<Rightarrow> fresh b a | Some v \<Rightarrow> v)) else live A x)"
  using live_Some [OF assms(1), of a] assms(2)
  by (auto simp: a_update_def a_get_or_new_def keeps_place_def live_put split: option.split)

lemma a_update_fields [simp]:
  "a_refund (a_update b a f A) = a_refund A" "a_base (a_update b a f A) = a_base A" "a_logs (a_update b a f A) = a_logs A"
  "a_logSize (a_update b a f A) = a_logSize A" "a_tx (a_update b a f A) = a_tx A"
  "a_preimages (a_update b a f A) = a_preimages A"
  by (simp_all add: a_update_def a_get_or_new_def aput_def split: option.split)

lemma cleared_update:
  assumes "aok A" "keeps_storage f"
  shows "cleared (a_update b a f A) \<subseteq> cleared A"
  using assms(2) unfolding cleared_def live_update [OF assms(1) keeps_storage_place [OF assms(2)]] keeps_storage_def
  by (auto simp: fresh_state split: option.splits if_splits)

lemma nonneg_update:
  assumes "nonneg A" "aok A" "keeps_place f"
    and "0 \<le> v_balance (f (case live A a of None \<Rightarrow> fresh b a | Some v \<Rightarrow> v))"
  shows "nonneg (a_update b a f A)"
  using assms live_Some [OF assms(2), of a]
  by (auto simp: nonneg_def a_update_def a_get_or_new_def aput_def keeps_place_def split: option.splits if_splits)

lemma funds_update:
  assumes "nonneg A" "aok A" "keeps_place f"
  shows "funds (a_update b a f A) \<le> funds A + (v_balance (f (case live A a of None \<Rightarrow> fresh b a | Some v \<Rightarrow> v)) -
    v_balance (case live A a of None \<Rightarrow> fresh b a | Some v \<Rightarrow> v))"
proof (cases "live A a")
  case None
  then show ?thesis
    using assms(3) balance_of_nonneg [OF assms(1), of a]
    by (simp add: a_update_def a_get_or_new_def aput_aput funds_aput keeps_place_def)
next
  case (Some v)
  then show ?thesis
    using assms(3) live_Some [OF assms(2) Some]
    by (simp add: a_update_def a_get_or_new_def funds_aput keeps_place_def balance_of_def)
qed

lemma pays_update:
  assumes "sinv b p s" "journaled b s t" "absS b t = a_update b a f (absS b s)" "keeps_storage f"
    and "0 \<le> v_balance (f (case live (absS b s) a of None \<Rightarrow> fresh b a | Some v \<Rightarrow> v))"
    and "v_balance (f (case live (absS b s) a of None \<Rightarrow> fresh b a | Some v \<Rightarrow> v)) \<le>
      v_balance (case live (absS b s) a of None \<Rightarrow> fresh b a | Some v \<Rightarrow> v) + x"
  shows "pays_by b p x s t"
proof -
  note aok = sinv_aok [OF assms(1)]
  have "funds (absS b t) \<le> funds (absS b s) + x"
    using funds_update [OF _ aok keeps_storage_place [OF assms(4)], of b a] assms(1,3,6)
    by (simp add: sinv_def ainv_def)
  moreover have "covered (absS b s) \<Longrightarrow> covered (absS b t)"
    using covered_mono [OF _ cleared_update [OF aok assms(4)]] assms(3) by simp
  moreover from this have "ainv p (absS b t)"
    using assms nonneg_update [OF _ aok keeps_storage_place [OF assms(4)] assms(5)] by (auto simp: ainv_def sinv_def)
  ultimately show ?thesis
    using assms(3) extends_journaled [OF assms(2)] by (simp add: pays_by_def)
qed

lemmas moves_update = moves_pays(2) [OF pays_update [where x = 0]]

lemma sinv_balance: "sinv b p s \<Longrightarrow> 0 \<le> v_balance (case live (absS b s) a of None \<Rightarrow> fresh b a | Some v \<Rightarrow> v)"
proof (cases "live (absS b s) a")
  case (Some v)
  assume "sinv b p s"
  then show ?thesis
    using live_Some [OF sinv_aok Some] Some by (auto simp: sinv_def ainv_def nonneg_def)
qed simp

lemma a_read_balance: "a_read v_balance 0 a A = v_balance (case live A a of None \<Rightarrow> fresh b a | Some v \<Rightarrow> v)"
  by (simp add: a_read_def split: option.split)

lemma pays_AddBalance: "sinv b p s \<Longrightarrow> 0 \<le> x \<Longrightarrow> pays_by b p x s (AddBalance b a x s)"
  using sinv_balance [of b p s a]
  by (intro pays_update [OF _ journaled_AddBalance AddBalance_abs])
    (auto simp: sinv_aok keeps_storage_def)

lemma pays_SubBalance:
  "sinv b p s \<Longrightarrow> x \<le> a_read v_balance 0 a (absS b s) \<Longrightarrow> pays_by b p (- x) s (SubBalance b a x s)"
  by (intro pays_update [OF _ journaled_SubBalance SubBalance_abs])
    (auto simp: sinv_aok keeps_storage_def a_read_balance [of _ _ b])

lemma moves_SetNonce [moving]: "sinv b p s \<Longrightarrow> moves b p False s (SetNonce b a n s)"
  using sinv_balance [of b p s a]
  by (intro moves_update [OF _ journaled_db_SetNonce SetNonce_abs])
    (auto simp: sinv_aok keeps_storage_def)

lemma moves_SetCode [moving]: "sinv b p s \<Longrightarrow> moves b p False s (SetCode b a c s)"
  using sinv_balance [of b p s a]
  by (intro moves_update [OF _ journaled_SetCode SetCode_abs])
    (auto simp: sinv_aok keeps_storage_def aset_code_def)


text \<open>A payment of zero touches the account at most.\<close>

lemma pure_touch:
  assumes "aok A"
  shows "pure b A (a_update b a (\<lambda>v. v) A)"
proof -
  have keeps: "keeps_place (\<lambda>v. v)" by (simp add: keeps_place_def)
  show ?thesis
    unfolding pure_def live_update [OF assms keeps]
    by (auto simp: blank_def split: option.split)
qed

lemma moves_touch:
  assumes "sinv b p s"
  shows "moves b p ro s (AddBalance b a 0 s)" "moves b p ro s (SubBalance b a 0 s)"
proof -
  have aok: "aok (absS b s)" using sinv_aok [OF assms] .
  have "(\<lambda>v. v\<lparr>v_balance := v_balance v\<rparr>) = (\<lambda>v. v)" by simp
  then have "pure b (absS b s) (absS b (AddBalance b a 0 s))" "pure b (absS b s) (absS b (SubBalance b a 0 s))"
    using pure_touch [OF aok] by (simp_all add: AddBalance_abs [OF aok] SubBalance_abs [OF aok])
  then show "moves b p ro s (AddBalance b a 0 s)" "moves b p ro s (SubBalance b a 0 s)"
    using pays_AddBalance [OF assms, of 0 a] pays_SubBalance [OF assms, of 0 a] sinv_balance [OF assms, of a]
    by (auto simp: moves_def pays_by_def a_read_balance [of _ _ b])
qed

lemma a_create_fields [simp]:
  "a_refund (a_create b a A) = a_refund A" "a_base (a_create b a A) = a_base A" "a_logs (a_create b a A) = a_logs A"
  "a_logSize (a_create b a A) = a_logSize A" "a_tx (a_create b a A) = a_tx A" "a_preimages (a_create b a A) = a_preimages A"
  by (simp_all add: a_create_def aput_def split: option.split)

lemma live_create:
  "live (a_create b a A) x =
     (if x = a then Some ((fresh b a)\<lparr>v_balance := (case a_obj A a of None \<Rightarrow> 0 | Some p \<Rightarrow> v_balance p)\<rparr>) else live A x)"
  by (auto simp: a_create_def live_put split: option.split)

lemma cleared_create: "cleared (a_create b a A) \<subseteq> cleared A"
  by (auto simp: cleared_def live_create fresh_state split: if_splits)

lemma nonneg_create: "nonneg A \<Longrightarrow> nonneg (a_create b a A)"
  by (auto simp: nonneg_def a_create_def aput_def split: option.splits if_splits)

lemma pure_create: "live A a = None \<Longrightarrow> pure b A (a_create b a A)"
  by (auto simp: pure_def live_create blank_def intro: aobj.equality)

lemma funds_create: "funds (a_create b a A) = funds A"
  by (simp add: a_create_def funds_aput balance_of_def split: option.split)

lemma moves_CreateAccount:
  assumes "sinv b p s" "ro \<Longrightarrow> live (absS b s) a = None"
  shows "moves b p ro s (CreateAccount b a s)"
proof -
  note aok = sinv_aok [OF assms(1)]
  have abs: "absS b (CreateAccount b a s) = a_create b a (absS b s)" by (rule CreateAccount_abs [OF aok])
  have "covered (absS b s) \<Longrightarrow> covered (a_create b a (absS b s))"
    using covered_mono [OF _ cleared_create] by simp
  then show ?thesis
    using assms extends_journaled [OF journaled_CreateAccount [OF aok]] nonneg_create pure_create
    by (auto simp: moves_def sinv_def ainv_def abs funds_create)
qed

lemma create_balance:
  "nonneg A \<Longrightarrow> a_read v_balance 0 x A \<le> a_read v_balance 0 x (a_create b a A)"
  by (cases "x = a") (auto simp: a_read_def live_create nonneg_def live_def [of A] split: option.splits)

lemma pays_Suicide: "sinv b p s \<Longrightarrow> pays_by b p (- a_read v_balance 0 a (absS b s)) s (snd (Suicide b a s))"
proof -
  assume inv: "sinv b p s"
  note aok = sinv_aok [OF inv]
  show ?thesis
  proof (cases "live (absS b s) a")
    case None
    then have "moves b p False s (snd (Suicide b a s))"
      using moves_same [OF inv journaled_Suicide [OF aok]] by (simp add: Suicide_abs)
    then show ?thesis
      using None moves_pays(1) by (fastforce simp: a_read_def)
  next
    case (Some v)
    let ?f = "\<lambda>v. v\<lparr>v_suicided := True, v_balance := 0\<rparr>"
    have "absS b (snd (Suicide b a s)) = a_update b a ?f (absS b s)"
      using Some by (simp add: Suicide_abs a_update_def a_get_or_new_def)
    then show ?thesis
      by (rule pays_update [OF inv journaled_Suicide [OF aok]]) (simp_all add: keeps_storage_def Some a_read_def)
  qed
qed

text \<open>Self-destruction pays the balance out and clears the account; what an account sends to itself is gone.\<close>

lemma moves_selfdestruct:
  assumes "sinv b p s" "bal = a_read v_balance 0 a (absS b s)"
  shows "moves b p False s (snd (Suicide b a (AddBalance b c bal s)))"
proof -
  have bal: "0 \<le> bal" using sinv_balance [OF assms(1), of a] assms(2) by (simp add: a_read_balance [of _ _ b])
  let ?t = "AddBalance b c bal s"
  have m: "pays_by b p bal s ?t" by (rule pays_AddBalance [OF assms(1) bal])
  have "bal \<le> a_read v_balance 0 a (absS b ?t)"
    using bal assms(2) live_update [OF sinv_aok [OF assms(1)], of "\<lambda>v. v\<lparr>v_balance := v_balance v + bal\<rparr>" b c a]
    by (auto simp: AddBalance_abs [OF sinv_aok [OF assms(1)]] keeps_place_def a_read_def split: option.splits)
  then show ?thesis
    using moves_pays(2) [OF pays_trans [OF m pays_Suicide [OF pays_sinv [OF m assms(1)], of a]]] by simp
qed

lemma ainv_fields:
  "a_obj B = a_obj A \<Longrightarrow> a_refund B = a_refund A \<Longrightarrow> ainv p B = ainv p A"
  by (simp add: ainv_def nonneg_def covered_def cleared_def live_def)

lemma moves_AddLog [moving]: "sinv b p s \<Longrightarrow> moves b p False s (AddLog l s)"
proof -
  assume inv: "sinv b p s"
  have "ainv p (absS b (AddLog l s)) = ainv p (absS b s)"
    by (rule ainv_fields) (simp_all add: AddLog_def absS_def append_entry_def Let_def)
  moreover have "funds (absS b (AddLog l s)) = funds (absS b s)"
    by (rule funds_cong) (simp add: AddLog_def absS_def append_entry_def Let_def)
  ultimately show ?thesis
    using inv extends_journaled [OF journaled_AddLog [OF sinv_aok [OF inv]]]
    by (simp add: moves_def sinv_def absS_def AddLog_def append_entry_def Let_def)
qed

lemma moves_AddPreimage [moving]: "sinv b p s \<Longrightarrow> moves b p ro s (AddPreimage h d s)"
proof -
  assume inv: "sinv b p s"
  have same: "a_obj (absS b (AddPreimage h d s)) = a_obj (absS b s)" "a_refund (absS b (AddPreimage h d s)) = a_refund (absS b s)"
    "a_preimages (absS b s) \<subseteq>\<^sub>m a_preimages (absS b (AddPreimage h d s))"
    "a_base (absS b (AddPreimage h d s)) = a_base (absS b s)" "a_logs (absS b (AddPreimage h d s)) = a_logs (absS b s)"
    "a_logSize (absS b (AddPreimage h d s)) = a_logSize (absS b s)" "a_tx (absS b (AddPreimage h d s)) = a_tx (absS b s)"
    by (auto simp: AddPreimage_def absS_def append_entry_def map_le_def GetLogs_def fun_eq_iff)
  have "ainv p (absS b (AddPreimage h d s)) = ainv p (absS b s)"
    using same by (intro ainv_fields)
  then show ?thesis
    using inv extends_journaled [OF journaled_AddPreimage [OF sinv_aok [OF inv]]] same funds_cong [OF same(1)]
    by (simp add: moves_def sinv_def pure_def live_def)
qed


section \<open>Writing a slot\<close>

text \<open>A new account has no storage: the trie with the empty root is empty.\<close>

definition empty_storage :: "backend \<Rightarrow> bool" where
  "empty_storage b \<longleftrightarrow> (\<forall>a k. v_committed (fresh b a) k = 0)"

lemma keeps_place_set: "keeps_place (aset_state k x)"
  by (simp add: keeps_place_def aset_state_def)

lemma cleared_set:
  assumes "aok A" "empty_storage b"
  shows "cleared (a_update b a (aset_state k x) A) \<subseteq>
           (if x = 0 \<and> a_read (\<lambda>v. v_committed v k) 0 a A \<noteq> 0 then insert (a, k) (cleared A) else cleared A - {(a, k)})"
proof -
  have "v_fake v = None" if "live A a = Some v" for v
    using assms(1) live_Some [OF assms(1) that] by (auto simp: aok_def)
  moreover have "v_committed (fresh b a) j = 0" "v_state (fresh b a) j = 0" for j
    using assms(2) by (simp_all add: empty_storage_def fresh_state)
  ultimately show ?thesis
    unfolding cleared_def live_update [OF assms(1) keeps_place_set]
    by (auto simp: aset_state_def a_read_def split: option.splits if_splits)
qed

lemma cleared_iff:
  "a_read (\<lambda>v. v_committed v k) 0 a A \<noteq> 0 \<Longrightarrow>
     (a, k) \<in> cleared A \<longleftrightarrow> a_read (\<lambda>v. v_state v k) 0 a A = 0"
  by (auto simp: cleared_def a_read_def split: option.splits)

lemma live_refund [simp]: "live (A\<lparr>a_refund := r\<rparr>) = live A" "cleared (A\<lparr>a_refund := r\<rparr>) = cleared A"
  "a_read f z a (A\<lparr>a_refund := r\<rparr>) = a_read f z a A" "aok (A\<lparr>a_refund := r\<rparr>) = aok A"
  "nonneg (A\<lparr>a_refund := r\<rparr>) = nonneg A" "funds (A\<lparr>a_refund := r\<rparr>) = funds A"
  by (simp_all add: funds_cong live_def cleared_def a_read_def aok_def nonneg_def fun_eq_iff)

text \<open>What the refund counter may do when a slot is about to change from \<open>current\<close> to \<open>x\<close>, with \<open>original\<close> its
  value before the transaction.\<close>

definition refund_step :: "hash \<Rightarrow> hash \<Rightarrow> hash \<Rightarrow> nat \<Rightarrow> nat \<Rightarrow> bool" where
  "refund_step original current x r r' \<longleftrightarrow>
     (if x = 0 \<and> original \<noteq> 0 \<and> current \<noteq> 0 then r + 15000 \<le> r'
      else if original \<noteq> 0 \<and> current = 0 \<and> x \<noteq> 0 then r \<le> r' + 15000
      else r \<le> r')"

lemma covered_set:
  assumes cov: "covered A" and aok: "aok A" and b: "empty_storage b"
    and step: "refund_step (a_read (\<lambda>v. v_committed v k) 0 a A) (a_read (\<lambda>v. v_state v k) 0 a A) x
        (unat (a_refund A)) (unat r)"
  shows "covered (a_update b a (aset_state k x) (A\<lparr>a_refund := r\<rparr>))"
proof -
  let ?C = "cleared A" and ?D = "cleared (a_update b a (aset_state k x) (A\<lparr>a_refund := r\<rparr>))"
  let ?o = "a_read (\<lambda>v. v_committed v k) 0 a A"
  have fin: "finite ?C" and le: "15000 * card ?C \<le> unat (a_refund A)"
    using cov by (simp_all add: covered_def)
  have sub: "?D \<subseteq> (if x = 0 \<and> ?o \<noteq> 0 then insert (a, k) ?C else ?C - {(a, k)})"
    using cleared_set [of "A\<lparr>a_refund := r\<rparr>" b a k x] aok b unfolding live_refund by blast
  have card: "card ?D \<le> card (if x = 0 \<and> ?o \<noteq> 0 then insert (a, k) ?C else ?C - {(a, k)})"
    using sub fin by (intro card_mono) auto
  have "15000 * card ?D \<le> unat r"
  proof (cases "x = 0 \<and> ?o \<noteq> 0")
    case True
    then have c: "card ?D \<le> (if (a, k) \<in> ?C then card ?C else card ?C + 1)"
      using card fin by (auto simp: card_insert_if split: if_splits)
    show ?thesis
    proof (cases "(a, k) \<in> ?C")
      case True': True
      then show ?thesis
        using c le step True cleared_iff [of k a A] by (auto simp: refund_step_def split: if_splits)
    next
      case False
      then have "unat (a_refund A) + 15000 \<le> unat r"
        using step True cleared_iff [of k a A] by (auto simp: refund_step_def)
      then show ?thesis using c le False by simp
    qed
  next
    case False
    then have c: "card ?D \<le> (if (a, k) \<in> ?C then card ?C - 1 else card ?C)"
      using card fin by (auto simp: card_Diff_singleton split: if_splits)
    show ?thesis
    proof (cases "(a, k) \<in> ?C")
      case True
      then have "0 < card ?C" using fin card_gt_0_iff by blast
      moreover have "unat (a_refund A) \<le> unat r + 15000"
        using step by (auto simp: refund_step_def split: if_splits)
      ultimately show ?thesis using c True le by simp
    next
      case F: False
      then have "unat (a_refund A) \<le> unat r"
        using step False cleared_iff [of k a A] by (auto simp: refund_step_def split: if_splits)
      then show ?thesis using c F le by simp
    qed
  qed
  moreover have "finite ?D"
    using sub fin by (meson finite_Diff finite_insert finite_subset if_split)
  ultimately show ?thesis
    by (simp add: covered_def)
qed

end
