(* ===== verification/State_Storage.thy ===== *)
theory State_Storage
  imports State_Revert
begin

text \<open>
  The storage of one account through its caches: slots are read from the storage trie into
  \<^verbatim>\<open>originStorage\<close>, written to \<^verbatim>\<open>dirtyStorage\<close>, moved to \<^verbatim>\<open>pendingStorage\<close> at the end of a transaction and
  written to the trie by \<^verbatim>\<open>updateTrie\<close>, which skips slots that have their original value. The trie that results holds exactly
  what \<^verbatim>\<open>GetState\<close> returned before. Trie values are RLP strings without leading zeroes.
\<close>

section \<open>Slots in the trie\<close>

lemma length_TrimLeftZeroes: "length (TrimLeftZeroes bs) \<le> length bs"
  by (induction bs) auto

lemma rlp_enc_short: "length bs \<le> 32 \<Longrightarrow> length (rlp_enc (Str bs)) \<le> 33"
  by (auto simp: rlp_head_def)

lemma bytes_hash_pad: "length bs \<le> 32 \<Longrightarrow> BytesToHash bs = of_nat (be_val bs)"
proof -
  assume "length bs \<le> 32"
  moreover have "be_val (replicate k 0 @ bs) = be_val bs" for k
    by (induction k) (simp_all add: be_val_Cons)
  ultimately show ?thesis
    by (simp add: BytesToHash_def setBytes_def bytes_hash_def)
qed

lemma decode_encode_slot: "decode_slot (Some (encode_slot v)) = v"
proof -
  let ?t = "TrimLeftZeroes (hash_bytes v)"
  have len: "length ?t \<le> 32"
    using length_TrimLeftZeroes [of "hash_bytes v"] by simp
  then have "length (rlp_enc (Str ?t)) \<le> 33"
    by (rule rlp_enc_short)
  then have e: "encode_slot v = rlp_enc (Str ?t)" and "Split (rlp_enc (Str ?t)) = Inr (item_kind (Str ?t), ?t, [])"
    using EncodeToBytes_eq [of "Str ?t"] Split_enc [of "Str ?t" "[]"] by (simp_all add: encode_slot_def)
  moreover have "rlp_enc (Str ?t) \<noteq> []"
    by (auto simp: rlp_head_def)
  moreover have "BytesToHash ?t = v"
    using TrimLeftZeroes_LeftPad [of "hash_bytes v"] bytes_hash_bytes [of v] len
    by (simp add: bytes_hash_pad bytes_hash_def)
  ultimately show ?thesis
    by (simp add: decode_slot_def)
qed

section \<open>Coherence of the caches\<close>

text \<open>Cached originals are what the trie holds, and every slot written has its original cached.\<close>

definition coherent :: "backend \<Rightarrow> stateObject \<Rightarrow> bool" where
  "coherent b o1 \<longleftrightarrow>
     fakeStorage o1 = None \<and>
     (\<forall>k v. originStorage o1 k = Some v \<longrightarrow> v = decode_slot (fst (getTrie b o1) k)) \<and>
     dom (dirtyStorage o1) \<union> dom (pendingStorage o1) \<subseteq> dom (originStorage o1)"

lemma coherent_newObject: "coherent b (newObject b a d)"
  by (simp add: coherent_def newObject_def)

lemma coherent_GetState:
  assumes "coherent b o1"
  shows "coherent b (snd (so_GetState b o1 k))" "k \<in> dom (originStorage (snd (so_GetState b o1 k)))"
  using assms
  by (auto simp: coherent_def so_GetState_def so_GetCommittedState_def getTrie_def Let_def
      split: option.splits prod.splits if_splits)

lemma coherent_GetCommittedState: "coherent b o1 \<Longrightarrow> coherent b (snd (so_GetCommittedState b o1 k))"
  by (auto simp: coherent_def so_GetCommittedState_def getTrie_def Let_def
      split: option.splits prod.splits if_splits)

lemma coherent_setState: "coherent b o1 \<Longrightarrow> k \<in> dom (originStorage o1) \<Longrightarrow> coherent b (so_setState k x o1)"
  by (auto simp: coherent_def so_setState_def getTrie_def Let_def split: option.splits)

lemma coherent_finalise: "coherent b o1 \<Longrightarrow> coherent b (so_finalise o1)"
  by (auto simp: coherent_def so_finalise_def getTrie_def Let_def split: option.splits)

lemma coherent_SetState:
  assumes "coherent b o1" "stateObjects (so_SetState b o1 k x s) (so_address o1) = Some o2"
  shows "coherent b o2"
proof -
  obtain prev o3 where g: "so_GetState b o1 k = (prev, o3)" by fastforce
  have "coherent b o3" "k \<in> dom (originStorage o3)" "so_address o3 = so_address o1"
    using coherent_GetState [OF assms(1), of k] so_GetState_same [OF g] g by simp_all
  then show ?thesis
    using assms g coherent_setState [of b o3 k x]
    by (auto simp: so_SetState_def coherent_def setStateObject_def append_entry_def split: if_splits)
qed

section \<open>Writing the trie\<close>

lemma view_finalise: "coherent b o1 \<Longrightarrow> v_state (ov b (so_finalise o1)) = v_state (ov b o1)"
  by (auto simp: ov_def coherent_def so_finalise_def so_GetState_def so_GetCommittedState_def getTrie_def Let_def
      fun_eq_iff map_add_def split: option.splits prod.splits)

text \<open>A finalised object: what is written and what \<^verbatim>\<open>GetState\<close> returns, by the trie below.\<close>

lemma finalised_view:
  assumes "coherent b o1" "dirtyStorage o1 = Map.empty" "so_trie o1 = Some t"
  shows "v_state (ov b o1) k = (case pendingStorage o1 k of Some v \<Rightarrow> v | None \<Rightarrow> decode_slot (t k))"
    and "v_committed (ov b o1) k = v_state (ov b o1) k"
    and "pendingStorage o1 k = Some v \<Longrightarrow> originStorage o1 k = Some (decode_slot (t k))"
  using assms
  by (auto simp: coherent_def ov_def so_GetState_def so_GetCommittedState_def getTrie_def Let_def
      split: option.splits)

definition slot_written :: "stateObject \<Rightarrow> hash \<Rightarrow> bool" where
  "slot_written o1 k \<longleftrightarrow>
     (case pendingStorage o1 k of
        None \<Rightarrow> False
      | Some v \<Rightarrow> v \<noteq> (case originStorage o1 k of None \<Rightarrow> 0 | Some w \<Rightarrow> w))"

lemma updateTrie_finalised:
  assumes "updateTrie b o1 = (t, o2)"
  obtains t0 o3 where "getTrie b (so_finalise o1) = (t0, o3)" "so_trie o3 = Some t0"
    "\<And>k. t k = (if slot_written o3 k
        then (if the (pendingStorage o3 k) = 0 then None else Some (encode_slot (the (pendingStorage o3 k))))
        else t0 k)"
    "o2 = o3\<lparr>originStorage := (\<lambda>k. if slot_written o3 k then pendingStorage o3 k else originStorage o3 k),
              pendingStorage := Map.empty, so_trie := Some t\<rparr>"
proof -
  obtain t0 o3 where g: "getTrie b (so_finalise o1) = (t0, o3)" by fastforce
  show thesis
    by (rule that [OF g]) (use assms g getTrie_again [OF g] in \<open>auto simp: updateTrie_def Let_def slot_written_def\<close>)
qed

lemma getTrie_view:
  assumes "getTrie b o1 = (t, o2)" "coherent b o1"
  shows "coherent b o2" "v_state (ov b o2) = v_state (ov b o1)" "dirtyStorage o2 = dirtyStorage o1"
proof -
  have o2: "o2 = o1\<lparr>so_trie := Some t\<rparr>"
    using getTrie_again [OF assms(1)] by blast
  have g: "getTrie b (o1\<lparr>so_trie := Some t\<rparr>) = (t, o1\<lparr>so_trie := Some t\<rparr>)"
    by (simp add: getTrie_def)
  show "coherent b o2" "dirtyStorage o2 = dirtyStorage o1"
    using assms o2 g by (simp_all add: coherent_def)
  have "v_state (ov b o2) k = v_state (ov b o1) k" for k
    using assms(1) o2 g
    by (simp add: ov_def so_GetState_def so_GetCommittedState_def Let_def split: option.split)
  then show "v_state (ov b o2) = v_state (ov b o1)"
    by (rule ext)
qed

lemma updateTrie_slot:
  assumes "coherent b o1" "updateTrie b o1 = (t, o2)"
  shows "decode_slot (t k) = v_state (ov b o1) k"
proof -
  from assms(2) obtain t0 o3 where o3: "getTrie b (so_finalise o1) = (t0, o3)" "so_trie o3 = Some t0"
    and t: "t k = (if slot_written o3 k
        then (if the (pendingStorage o3 k) = 0 then None else Some (encode_slot (the (pendingStorage o3 k))))
        else t0 k)"
    by (rule updateTrie_finalised) blast
  note v = getTrie_view [OF o3(1) coherent_finalise [OF assms(1)]]
  have d: "dirtyStorage o3 = Map.empty"
    using v(3) by (simp add: so_finalise_def)
  note f = finalised_view [OF v(1) d o3(2)]
  have "decode_slot (t k) = v_state (ov b o3) k"
  proof (cases "pendingStorage o3 k")
    case None
    then show ?thesis using t f(1) by (simp add: slot_written_def)
  next
    case (Some x)
    then show ?thesis using t f(1) f(3) [OF Some] decode_encode_slot [of x]
      by (auto simp: slot_written_def decode_slot_def split: option.splits)
  qed
  then show ?thesis using v(2) view_finalise [OF assms(1)] by simp
qed

lemma updateTrie_object:
  assumes "coherent b o1" "updateTrie b o1 = (t, o2)"
  shows "coherent b o2" "dirtyStorage o2 = Map.empty" "pendingStorage o2 = Map.empty" "so_trie o2 = Some t"
proof -
  from assms(2) obtain t0 o3 where o3: "getTrie b (so_finalise o1) = (t0, o3)" "so_trie o3 = Some t0"
    and t: "\<And>k. t k = (if slot_written o3 k
        then (if the (pendingStorage o3 k) = 0 then None else Some (encode_slot (the (pendingStorage o3 k))))
        else t0 k)"
    and o2: "o2 = o3\<lparr>originStorage := (\<lambda>k. if slot_written o3 k then pendingStorage o3 k else originStorage o3 k),
              pendingStorage := Map.empty, so_trie := Some t\<rparr>"
    by (rule updateTrie_finalised) blast
  note v = getTrie_view [OF o3(1) coherent_finalise [OF assms(1)]]
  show d: "dirtyStorage o2 = Map.empty" and "pendingStorage o2 = Map.empty" and "so_trie o2 = Some t"
    using v(3) o2 by (simp_all add: so_finalise_def)
  have "x = decode_slot (t k)" if "originStorage o2 k = Some x" for k x
  proof (cases "slot_written o3 k")
    case True
    then have "pendingStorage o3 k = Some x"
      using that o2 by simp
    then show ?thesis
      using True t [of k] decode_encode_slot [of x] by (simp add: decode_slot_def)
  next
    case False
    then show ?thesis
      using that o2 t [of k] v(1) o3(2) by (auto simp: coherent_def getTrie_def)
  qed
  moreover have "fakeStorage o2 = None"
    using v(1) o2 by (simp add: coherent_def)
  ultimately show "coherent b o2"
    using o2 d by (simp add: coherent_def getTrie_def)
qed

text \<open>C21: Writing the storage of an account to its trie loses nothing and invents nothing: when \<^verbatim>\<open>updateTrie\<close> is done,
  the slot that the trie holds under any key decodes to the value that \<^verbatim>\<open>GetState\<close> returned before, zero slots included,
  and the object, with its write caches emptied, returns the same current values and has them as committed
  ones; its caches stay coherent, as they are when an object is created and after every \<^verbatim>\<open>GetState\<close>, \<^verbatim>\<open>SetState\<close> and \<^verbatim>\<open>finalise\<close>.\<close>

theorem updateTrie_writes_view:
  assumes "coherent b o1" "updateTrie b o1 = (t, o2)"
  shows "(\<forall>k. decode_slot (t k) = v_state (ov b o1) k) \<and> v_state (ov b o2) = v_state (ov b o1) \<and>
    v_committed (ov b o2) = v_state (ov b o1) \<and> coherent b o2"
proof -
  note o2 = updateTrie_object [OF assms]
  have "v_state (ov b o2) k = v_state (ov b o1) k" "v_committed (ov b o2) k = v_state (ov b o1) k" for k
    using finalised_view(1,2) [OF o2(1,2,4), of k] o2(3) updateTrie_slot [OF assms, of k] by simp_all
  then show ?thesis
    using updateTrie_slot [OF assms] o2(1) by auto
qed

text \<open>An account of the empty database whose slot 1 has been set to 9.\<close>

definition demo_object :: stateObject where
  "demo_object = so_setState 1 9 (snd (so_GetState demo_db (newObject demo_db 7 (zero_Account demo_db)) 1))"

theorem updateTrie_writes_view_witness:
  "coherent demo_db demo_object \<and> decode_slot (fst (updateTrie demo_db demo_object) 1) = 9"
proof -
  have "coherent demo_db demo_object"
    unfolding demo_object_def using coherent_GetState [OF coherent_newObject] by (intro coherent_setState)
  moreover have "v_state (ov demo_db demo_object) 1 = 9"
    by code_simp
  moreover obtain t o2 where "updateTrie demo_db demo_object = (t, o2)" by fastforce
  ultimately show ?thesis
    using updateTrie_writes_view [of demo_db demo_object t o2] by auto
qed

end
