(* ===== verification/Evm_Memory.thy ===== *)
theory Evm_Memory
  imports Common_Math Common_Types
begin

text \<open>
  The data structures of the virtual machine in \<^verbatim>\<open>src/core/vm\<close>: the operand stack (\<^verbatim>\<open>stack.go\<close>), the byte
  memory (\<^verbatim>\<open>memory.go\<close>), the size computations of \<^verbatim>\<open>common.go\<close> and \<^verbatim>\<open>memory_table.go\<close>, and the analysis
  that tells instructions from the data of PUSH instructions (\<^verbatim>\<open>analysis.go\<close>). Stack items are big
  integers; the head of the list is the top of the stack, the last element of the Go slice. Integers
  are values here: the pool of \<^verbatim>\<open>intpool.go\<close>, which recycles objects that left the stack, is not
  visible. An access outside a slice is \<open>None\<close>.
\<close>

section \<open>Stack\<close>

type_synonym stack = "int list"

definition stack_push :: "int \<Rightarrow> stack \<Rightarrow> stack" where
  "stack_push d st = d # st"

fun stack_pop :: "stack \<Rightarrow> (int \<times> stack) option" where
  "stack_pop [] = None"
| "stack_pop (x # st) = Some (x, st)"

definition stack_len :: "stack \<Rightarrow> nat" where
  "stack_len st = length st"

definition stack_swap :: "nat \<Rightarrow> stack \<Rightarrow> stack option" where
  "stack_swap n st =
     (if 0 < n \<and> n \<le> length st then Some (st[0 := st ! (n - 1), n - 1 := st ! 0]) else None)"

definition stack_dup :: "nat \<Rightarrow> stack \<Rightarrow> stack option" where
  "stack_dup n st = (if 0 < n \<and> n \<le> length st then Some (stack_push (st ! (n - 1)) st) else None)"

fun stack_peek :: "stack \<Rightarrow> int option" where
  "stack_peek [] = None"
| "stack_peek (x # st) = Some x"

definition stack_Back :: "nat \<Rightarrow> stack \<Rightarrow> int option" where
  "stack_Back n st = (if n < length st then Some (st ! n) else None)"

section \<open>Memory\<close>

text \<open>The capacity of the backing array is part of the state: a slice of the memory that was handed out shares the
  array until \<^verbatim>\<open>Resize\<close> outgrows the capacity and \<^verbatim>\<open>append\<close> moves the store to a new one.\<close>

record memory =
  store :: bytes
  lastGasCost :: u64
  mem_cap :: nat

definition NewMemory :: memory where
  "NewMemory = \<lparr>store = [], lastGasCost = 0, mem_cap = 0\<rparr>"

definition mem_Len :: "memory \<Rightarrow> nat" where
  "mem_Len m = length (store m)"

text \<open>\<^verbatim>\<open>copy(dst[off:off+n], value)\<close> on a slice that holds the range.\<close>

definition copy_at :: "nat \<Rightarrow> nat \<Rightarrow> bytes \<Rightarrow> bytes \<Rightarrow> bytes" where
  "copy_at off n value dst =
     (let k = min n (length value) in take off dst @ take k value @ drop (off + k) dst)"

definition mem_Set :: "u64 \<Rightarrow> u64 \<Rightarrow> bytes \<Rightarrow> memory \<Rightarrow> memory option" where
  "mem_Set off sz value m =
     (if sz > 0 then
        (let e = off + sz in
         if unat e > mem_Len m then None
         else if off > e then None
         else Some (m\<lparr>store := copy_at (unat off) (unat e - unat off) value (store m)\<rparr>))
      else Some m)"

definition mem_Set32 :: "u64 \<Rightarrow> int \<Rightarrow> memory \<Rightarrow> memory option" where
  "mem_Set32 off val m =
     (let e = off + 32 in
      if unat e > mem_Len m then None
      else if off > e then None
      else Some (m\<lparr>store := copy_at (unat off) 32 (ReadBits val (replicate 32 0)) (store m)\<rparr>))"

text \<open>The capacity that \<^verbatim>\<open>append\<close> chooses is up to the Go runtime: the parameter \<open>grow\<close>, of the old capacity
  and the length needed.\<close>

definition mem_Resize :: "(nat \<Rightarrow> nat \<Rightarrow> nat) \<Rightarrow> u64 \<Rightarrow> memory \<Rightarrow> memory" where
  "mem_Resize grow sz m =
     (if mem_Len m < unat sz then
        m\<lparr>store := store m @ replicate (unat sz - mem_Len m) 0,
          mem_cap := (if unat sz \<le> mem_cap m then mem_cap m else max (unat sz) (grow (mem_cap m) (unat sz)))\<rparr>
      else m)"

text \<open>\<^verbatim>\<open>GetCopy\<close> and \<^verbatim>\<open>GetPtr\<close> take \<^verbatim>\<open>int64\<close> arguments. A range that starts inside the memory and leaves it
  is a panic here; Go would still read up to the capacity of the slice. The interpreter resizes the
  memory before it reads, so neither happens.\<close>

definition mem_range :: "int \<Rightarrow> int \<Rightarrow> memory \<Rightarrow> bytes option" where
  "mem_range off sz m =
     (if sz = 0 then Some []
      else if int (mem_Len m) > off then
        (if 0 \<le> off \<and> 0 \<le> sz \<and> off + sz \<le> int (mem_Len m)
         then Some (take (nat sz) (drop (nat off) (store m))) else None)
      else Some [])"

definition mem_GetCopy :: "int \<Rightarrow> int \<Rightarrow> memory \<Rightarrow> bytes option" where
  "mem_GetCopy off sz m = mem_range off sz m"

definition mem_GetPtr :: "int \<Rightarrow> int \<Rightarrow> memory \<Rightarrow> bytes option" where
  "mem_GetPtr off sz m = mem_range off sz m"

definition mem_setByte :: "int \<Rightarrow> byte \<Rightarrow> memory \<Rightarrow> memory option" where
  "mem_setByte off b m =
     (if 0 \<le> off \<and> off < int (mem_Len m) then Some (m\<lparr>store := (store m)[nat off := b]\<rparr>) else None)"

section \<open>Sizes\<close>

definition calcMemSize64WithUint :: "int \<Rightarrow> u64 \<Rightarrow> u64 \<times> bool" where
  "calcMemSize64WithUint off length64 =
     (if length64 = 0 then (0, False)
      else if \<not> big_IsUint64 off then (0, True)
      else (let offset64 = big_Uint64 off; val = offset64 + length64 in (val, val < offset64)))"

definition calcMemSize64 :: "int \<Rightarrow> int \<Rightarrow> u64 \<times> bool" where
  "calcMemSize64 off l =
     (if \<not> big_IsUint64 l then (0, True) else calcMemSize64WithUint off (big_Uint64 l))"

text \<open>\<^verbatim>\<open>int(size)\<close> is the signed reading; \<^verbatim>\<open>RightPadBytes\<close> pads to a negative length no more than to zero.\<close>

definition getData :: "bytes \<Rightarrow> u64 \<Rightarrow> u64 \<Rightarrow> bytes option" where
  "getData data start sz =
     (let len = of_nat (length data) :: u64;
          start = (if start > len then len else start);
          e = start + sz;
          e = (if e > len then len else e)
      in if start > e then None
         else Some (RightPadBytes (take (unat e - unat start) (drop (unat start) data)) (nat (sint sz))))"

definition getDataBig :: "bytes \<Rightarrow> int \<Rightarrow> int \<Rightarrow> bytes" where
  "getDataBig data start sz =
     (let dlen = int (length data);
          s = BigMin start dlen;
          e = BigMin (s + sz) dlen
      in RightPadBytes (take (unat (big_Uint64 e) - unat (big_Uint64 s)) (drop (unat (big_Uint64 s)) data))
           (nat (sint (big_Uint64 sz))))"

definition bigUint64 :: "int \<Rightarrow> u64 \<times> bool" where
  "bigUint64 v = (big_Uint64 v, \<not> big_IsUint64 v)"

definition toWordSize :: "u64 \<Rightarrow> u64" where
  "toWordSize sz = (if sz > (- 1) - 31 then (- 1) div 32 + 1 else (sz + 31) div 32)"

definition allZero :: "bytes \<Rightarrow> bool" where
  "allZero b \<longleftrightarrow> list_all (\<lambda>x. x = 0) b"

text \<open>\<^verbatim>\<open>memory_table.go\<close>: the size each instruction needs, from the stack.\<close>

type_synonym memorySizeFunc = "stack \<Rightarrow> (u64 \<times> bool) option"

definition back2 :: "(int \<Rightarrow> int \<Rightarrow> u64 \<times> bool) \<Rightarrow> nat \<Rightarrow> nat \<Rightarrow> memorySizeFunc" where
  "back2 f i j st = do { x \<leftarrow> stack_Back i st; y \<leftarrow> stack_Back j st; Some (f x y) }"

definition memorySha3 :: memorySizeFunc where "memorySha3 = back2 calcMemSize64 0 1"
definition memoryCallDataCopy :: memorySizeFunc where "memoryCallDataCopy = back2 calcMemSize64 0 2"
definition memoryReturnDataCopy :: memorySizeFunc where "memoryReturnDataCopy = back2 calcMemSize64 0 2"
definition memoryCodeCopy :: memorySizeFunc where "memoryCodeCopy = back2 calcMemSize64 0 2"
definition memoryExtCodeCopy :: memorySizeFunc where "memoryExtCodeCopy = back2 calcMemSize64 1 3"
definition memoryMLoad :: memorySizeFunc where
  "memoryMLoad st = do { x \<leftarrow> stack_Back 0 st; Some (calcMemSize64WithUint x 32) }"
definition memoryMStore8 :: memorySizeFunc where
  "memoryMStore8 st = do { x \<leftarrow> stack_Back 0 st; Some (calcMemSize64WithUint x 1) }"
definition memoryMStore :: memorySizeFunc where
  "memoryMStore st = do { x \<leftarrow> stack_Back 0 st; Some (calcMemSize64WithUint x 32) }"
definition memoryCreate :: memorySizeFunc where "memoryCreate = back2 calcMemSize64 1 2"
definition memoryCreate2 :: memorySizeFunc where "memoryCreate2 = back2 calcMemSize64 1 2"
definition memoryReturn :: memorySizeFunc where "memoryReturn = back2 calcMemSize64 0 1"
definition memoryRevert :: memorySizeFunc where "memoryRevert = back2 calcMemSize64 0 1"
definition memoryLog :: memorySizeFunc where "memoryLog = back2 calcMemSize64 0 1"

definition memory_call :: "nat \<Rightarrow> nat \<Rightarrow> memorySizeFunc" where
  "memory_call r a st =
     do {
       (x, overflow) \<leftarrow> back2 calcMemSize64 r (r + 1) st;
       if overflow then Some (0, True)
       else do {
         (y, overflow) \<leftarrow> back2 calcMemSize64 a (a + 1) st;
         if overflow then Some (0, True)
         else if x > y then Some (x, False) else Some (y, False)
       }
     }"

definition memoryCall :: memorySizeFunc where "memoryCall = memory_call 5 3"
definition memoryDelegateCall :: memorySizeFunc where "memoryDelegateCall = memory_call 4 2"
definition memoryStaticCall :: memorySizeFunc where "memoryStaticCall = memory_call 4 2"

text \<open>\<^verbatim>\<open>stack_table.go\<close>.\<close>

definition StackLimit :: nat where "StackLimit = 1024"

definition maxStack :: "nat \<Rightarrow> nat \<Rightarrow> int" where
  "maxStack pop push = int StackLimit + int pop - int push"

definition minStack :: "nat \<Rightarrow> nat \<Rightarrow> int" where
  "minStack pops push = int pops"

definition minSwapStack :: "nat \<Rightarrow> int" where "minSwapStack n = minStack n n"
definition maxSwapStack :: "nat \<Rightarrow> int" where "maxSwapStack n = maxStack n n"
definition minDupStack :: "nat \<Rightarrow> int" where "minDupStack n = minStack n (n + 1)"
definition maxDupStack :: "nat \<Rightarrow> int" where "maxDupStack n = maxStack n (n + 1)"

section \<open>Code analysis\<close>

text \<open>\<^verbatim>\<open>analysis.go\<close>: one bit per code position, set when the byte is an argument of a PUSH. The two loops
  over \<^verbatim>\<open>numbits\<close> are one recursion: once fewer than eight bits are left the first loop is over.\<close>

type_synonym bitvec = bytes

definition bv_set :: "nat \<Rightarrow> bitvec \<Rightarrow> bitvec option" where
  "bv_set pos bits =
     (let i = pos div 8 in
      if i < length bits then Some (bits[i := bits ! i OR drop_bit (pos mod 8) 0x80]) else None)"

definition bv_set8 :: "nat \<Rightarrow> bitvec \<Rightarrow> bitvec option" where
  "bv_set8 pos bits =
     (let i = pos div 8; m = drop_bit (pos mod 8) 0xFF in
      if i + 1 < length bits
      then Some (bits[i := bits ! i OR m, i + 1 := bits ! (i + 1) OR NOT m]) else None)"

definition codeSegment :: "bitvec \<Rightarrow> nat \<Rightarrow> bool option" where
  "codeSegment bits pos =
     (let i = pos div 8 in
      if i < length bits then Some (bits ! i AND drop_bit (pos mod 8) 0x80 = 0) else None)"

definition PUSH1 :: byte where "PUSH1 = 0x60"
definition PUSH32 :: byte where "PUSH32 = 0x7F"

fun mark_data :: "nat \<Rightarrow> nat \<Rightarrow> bitvec \<Rightarrow> bitvec option" where
  "mark_data numbits pc bits =
     (if 8 \<le> numbits then do { bits \<leftarrow> bv_set8 pc bits; mark_data (numbits - 8) (pc + 8) bits }
      else if 0 < numbits then do { bits \<leftarrow> bv_set pc bits; mark_data (numbits - 1) (pc + 1) bits }
      else Some bits)"

function codeBitmap_loop :: "bytes \<Rightarrow> nat \<Rightarrow> bitvec \<Rightarrow> bitvec option" where
  "codeBitmap_loop code pc bits =
     (if pc < length code then
        (let op = code ! pc in
         if PUSH1 \<le> op \<and> op \<le> PUSH32 then
           (let numbits = unat (op - PUSH1 + 1) in
            do { bits \<leftarrow> mark_data numbits (pc + 1) bits; codeBitmap_loop code (pc + 1 + numbits) bits })
         else codeBitmap_loop code (pc + 1) bits)
      else Some bits)"
  by auto
termination by (relation "measure (\<lambda>(code, pc, bits). length code - pc)") auto

definition codeBitmap :: "bytes \<Rightarrow> bitvec option" where
  "codeBitmap code = codeBitmap_loop code 0 (replicate (length code div 8 + 1 + 4) 0)"

declare mark_data.simps [simp del] codeBitmap_loop.simps [simp del]

text \<open>The reference: walk from instruction to instruction and see whether a position is hit.\<close>

definition push_bytes :: "byte \<Rightarrow> nat" where
  "push_bytes op = (if 0x60 \<le> op \<and> op \<le> 0x7F then unat op - 0x5F else 0)"

function instruction_at :: "bytes \<Rightarrow> nat \<Rightarrow> nat \<Rightarrow> bool" where
  "instruction_at code pc pos =
     (if pc < pos \<and> pc < length code then instruction_at code (pc + 1 + push_bytes (code ! pc)) pos
      else pc = pos)"
  by auto
termination by (relation "measure (\<lambda>(code, pc, pos). pos - pc)") auto

declare instruction_at.simps [simp del]

definition data_bit :: "bitvec \<Rightarrow> nat \<Rightarrow> bool" where
  "data_bit bits pos = bit (bits ! (pos div 8)) (7 - pos mod 8)"

lemma bit_80: "bit (drop_bit k (0x80 :: byte)) j \<longleftrightarrow> k + j = 7"
proof -
  have eq: "(0x80 :: byte) = push_bit 7 1"
    by (simp add: push_bit_eq_mult)
  show ?thesis
    unfolding eq bit_drop_bit_eq bit_push_bit_iff bit_1_iff by auto
qed

lemma bit_FF: "bit (drop_bit k (0xFF :: byte)) j \<longleftrightarrow> k + j < 8"
proof -
  have eq: "(0xFF :: byte) = mask 8"
    by (simp add: mask_eq_exp_minus_1)
  show ?thesis
    unfolding eq bit_drop_bit_eq bit_mask_iff by auto
qed

lemma pos_eq_iff: "q = pos \<longleftrightarrow> q div 8 = pos div 8 \<and> pos mod 8 + (7 - q mod 8) = 7" for q pos :: nat
proof -
  have "q mod 8 < 8" "pos mod 8 < 8" "q = pos \<longleftrightarrow> q div 8 = pos div 8 \<and> q mod 8 = pos mod 8"
    by (auto intro: mod_less_divisor) (metis div_mult_mod_eq)
  then show ?thesis
    by linarith
qed

lemma data_bit_set:
  assumes "pos div 8 < length bits"
  shows "\<exists>bits'. bv_set pos bits = Some bits' \<and> length bits' = length bits \<and>
           (\<forall>q. data_bit bits' q \<longleftrightarrow> data_bit bits q \<or> q = pos)"
proof (intro exI conjI allI)
  let ?b = "bits[pos div 8 := bits ! (pos div 8) OR drop_bit (pos mod 8) 0x80]"
  show "bv_set pos bits = Some ?b" "length ?b = length bits"
    using assms by (simp_all add: bv_set_def Let_def)
  show "data_bit ?b q \<longleftrightarrow> data_bit bits q \<or> q = pos" for q
    using assms pos_eq_iff [of q pos] by (auto simp: data_bit_def nth_list_update bit_or_iff bit_80)
qed

lemma pos_window_iff:
  "q \<in> {pos..<pos + 8} \<longleftrightarrow>
     (q div 8 = pos div 8 \<and> pos mod 8 + (7 - q mod 8) < 8) \<or>
     (q div 8 = pos div 8 + 1 \<and> \<not> pos mod 8 + (7 - q mod 8) < 8)" for q pos :: nat
proof -
  have q: "q = 8 * (q div 8) + q mod 8" "q mod 8 < 8" and p: "pos = 8 * (pos div 8) + pos mod 8" "pos mod 8 < 8"
    by simp_all
  consider "q div 8 < pos div 8" | "q div 8 = pos div 8" | "q div 8 = pos div 8 + 1" | "pos div 8 + 2 \<le> q div 8"
    by linarith
  then show ?thesis
    unfolding atLeastLessThan_iff using q p by cases linarith+
qed

lemma data_bit_set8:
  assumes "pos div 8 + 1 < length bits"
  shows "\<exists>bits'. bv_set8 pos bits = Some bits' \<and> length bits' = length bits \<and>
           (\<forall>q. data_bit bits' q \<longleftrightarrow> data_bit bits q \<or> q \<in> {pos..<pos + 8})"
proof (intro exI conjI allI)
  let ?i = "pos div 8" and ?m = "drop_bit (pos mod 8) 0xFF :: byte"
  let ?b = "bits[?i := bits ! ?i OR ?m, ?i + 1 := bits ! (?i + 1) OR NOT ?m]"
  show "bv_set8 pos bits = Some ?b" "length ?b = length bits"
    using assms by (simp_all add: bv_set8_def Let_def)
  show "data_bit ?b q \<longleftrightarrow> data_bit bits q \<or> q \<in> {pos..<pos + 8}" for q
    using assms unfolding pos_window_iff data_bit_def
    by (auto simp: nth_list_update bit_or_iff bit_not_iff bit_FF)
qed

lemma mark_data_correct:
  assumes "(pc + numbits) div 8 < length bits"
  shows "\<exists>bits'. mark_data numbits pc bits = Some bits' \<and> length bits' = length bits \<and>
           (\<forall>q. data_bit bits' q \<longleftrightarrow> data_bit bits q \<or> q \<in> {pc..<pc + numbits})"
  using assms
proof (induction numbits pc bits rule: mark_data.induct)
  case (1 numbits pc bits)
  consider (eight) "8 \<le> numbits" | (one) "0 < numbits" "\<not> 8 \<le> numbits" | (none) "numbits = 0"
    by auto
  then show ?case
  proof cases
    case eight
    then have "pc div 8 + 1 < length bits"
      using "1.prems" div_le_mono [of "pc + 8" "pc + numbits" 8] by (simp del: div_add_self2 add: div_add_self2)
    then obtain b where "bv_set8 pc bits = Some b" "length b = length bits"
      "\<forall>q. data_bit b q \<longleftrightarrow> data_bit bits q \<or> q \<in> {pc..<pc + 8}"
      using data_bit_set8 by blast
    with eight "1.IH"(1) [of b] "1.prems" show ?thesis
      by (subst mark_data.simps) auto
  next
    case one
    then obtain b where "bv_set pc bits = Some b" "length b = length bits"
      "\<forall>q. data_bit b q \<longleftrightarrow> data_bit bits q \<or> q = pc"
      using data_bit_set [of pc bits] "1.prems" div_le_mono [of pc "pc + numbits" 8] by auto
    with one "1.IH"(2) [of b] "1.prems" show ?thesis
      by (subst mark_data.simps) auto
  next
    case none
    then show ?thesis
      by (subst mark_data.simps) auto
  qed
qed

lemma push_bytes_eq:
  "PUSH1 \<le> op \<and> op \<le> PUSH32 \<Longrightarrow> unat (op - PUSH1 + 1) = push_bytes op \<and> push_bytes op \<le> 32"
  "\<not> (PUSH1 \<le> op \<and> op \<le> PUSH32) \<Longrightarrow> push_bytes op = 0"
proof -
  assume a: "PUSH1 \<le> op \<and> op \<le> PUSH32"
  have "op - PUSH1 + 1 = op - 0x5F"
    by (simp add: PUSH1_def)
  moreover have "(0x5F :: byte) \<le> op"
    using a by (simp add: PUSH1_def word_le_nat_alt)
  ultimately show "unat (op - PUSH1 + 1) = push_bytes op \<and> push_bytes op \<le> 32"
    using a by (auto simp: unat_sub push_bytes_def PUSH1_def PUSH32_def word_le_nat_alt)
qed (auto simp: push_bytes_def PUSH1_def PUSH32_def)

lemma instruction_at_step:
  assumes "pc < length code"
  shows "pc \<le> q \<and> \<not> instruction_at code pc q \<longleftrightarrow>
    q \<in> {pc + 1..<pc + 1 + push_bytes (code ! pc)} \<or>
    (pc + 1 + push_bytes (code ! pc) \<le> q \<and> \<not> instruction_at code (pc + 1 + push_bytes (code ! pc)) q)"
proof -
  have "q < p \<Longrightarrow> \<not> instruction_at code p q" for p
    by (subst instruction_at.simps) simp
  moreover have "pc < q \<Longrightarrow> instruction_at code pc q = instruction_at code (pc + 1 + push_bytes (code ! pc)) q"
    using assms by (subst instruction_at.simps) simp
  moreover have "instruction_at code pc pc"
    by (subst instruction_at.simps) simp
  ultimately show ?thesis
    by (cases "pc < q"; cases "q < pc + 1 + push_bytes (code ! pc)") auto
qed

lemma codeBitmap_loop_correct:
  assumes "length bits = length code div 8 + 5"
  shows "\<exists>bits'. codeBitmap_loop code pc bits = Some bits' \<and> length bits' = length bits \<and>
           (\<forall>q < length code. data_bit bits' q \<longleftrightarrow> data_bit bits q \<or> (pc \<le> q \<and> \<not> instruction_at code pc q))"
  using assms
proof (induction code pc bits rule: codeBitmap_loop.induct)
  case (1 code pc bits)
  let ?op = "code ! pc"
  consider (fin) "length code \<le> pc" | (push) "pc < length code" "PUSH1 \<le> ?op \<and> ?op \<le> PUSH32"
    | (other) "pc < length code" "\<not> (PUSH1 \<le> ?op \<and> ?op \<le> PUSH32)"
    by linarith
  then show ?case
  proof cases
    case fin
    then show ?thesis
      by (subst codeBitmap_loop.simps) auto
  next
    case push
    note n = push_bytes_eq(1) [OF push(2)]
    have "(pc + 1 + push_bytes ?op) div 8 < length bits"
      using push(1) n "1.prems" by (simp add: div_le_mono less_Suc_eq_le) linarith
    then obtain b where b: "mark_data (push_bytes ?op) (pc + 1) bits = Some b" "length b = length bits"
      "\<forall>q. data_bit b q \<longleftrightarrow> data_bit bits q \<or> q \<in> {pc + 1..<pc + 1 + push_bytes ?op}"
      using mark_data_correct by blast
    obtain b' where "codeBitmap_loop code (pc + 1 + push_bytes ?op) b = Some b'" "length b' = length bits"
      "\<forall>q < length code. data_bit b' q \<longleftrightarrow>
         data_bit b q \<or> (pc + 1 + push_bytes ?op \<le> q \<and> \<not> instruction_at code (pc + 1 + push_bytes ?op) q)"
      using "1.IH"(1) [OF push(1) refl push(2) refl, of b] "1.prems" n b by auto
    then show ?thesis
      using n b push by (subst codeBitmap_loop.simps) (auto simp: Let_def instruction_at_step)
  next
    case other
    obtain b' where "codeBitmap_loop code (pc + 1) bits = Some b'" "length b' = length bits"
      "\<forall>q < length code. data_bit b' q \<longleftrightarrow> data_bit bits q \<or> (pc + 1 \<le> q \<and> \<not> instruction_at code (pc + 1) q)"
      using "1.IH"(2) [OF other(1) refl other(2)] "1.prems" by auto
    then show ?thesis
      using push_bytes_eq(2) [OF other(2)] other
      by (subst codeBitmap_loop.simps) (auto simp: Let_def instruction_at_step)
  qed
qed

lemma and_80_eq_0: "k < 8 \<Longrightarrow> x AND drop_bit k (0x80 :: byte) = 0 \<longleftrightarrow> \<not> bit x (7 - k)"
proof -
  assume "k < 8"
  then have b: "bit (x AND drop_bit k (0x80 :: byte)) j \<longleftrightarrow> bit x (7 - k) \<and> j = 7 - k" for j
    by (cases "j = 7 - k") (auto simp: bit_and_iff bit_80)
  show ?thesis
    using b bit_eqI [of "x AND drop_bit k 0x80" 0] by (metis bit_0_eq bot_apply bot_bool_def)
qed

lemma codeSegment_data_bit:
  assumes "pos div 8 < length bits"
  shows "codeSegment bits pos = Some (\<not> data_bit bits pos)"
  using assms and_80_eq_0 [of "pos mod 8" "bits ! (pos div 8)"]
  unfolding codeSegment_def data_bit_def Let_def by (simp only: if_True mod_less_divisor)

lemma codeBitmap_correct:
  "\<exists>bits. codeBitmap code = Some bits \<and>
     (\<forall>pos < length code. codeSegment bits pos = Some (instruction_at code 0 pos))"
proof -
  let ?z = "replicate (length code div 8 + 1 + 4) (0 :: byte)"
  obtain b where b: "codeBitmap code = Some b" "length b = length ?z"
    "\<forall>q < length code. data_bit b q \<longleftrightarrow> data_bit ?z q \<or> (0 \<le> q \<and> \<not> instruction_at code 0 q)"
    using codeBitmap_loop_correct [of ?z code 0] by (auto simp: codeBitmap_def)
  have "\<not> data_bit ?z q" "q div 8 < length b" if "q < length code" for q
    using that div_le_mono [of q "length code" 8] b(2) by (auto simp: data_bit_def)
  with b show ?thesis
    by (auto simp: codeSegment_data_bit)
qed

end
