(* ===== verification/Evm_Base.thy ===== *)
theory Evm_Base
  imports Evm_Memory State_Db
begin

text \<open>
  The vocabulary of the virtual machine in \<^verbatim>\<open>src/core/vm\<close>: errors, the block and transaction context, contracts with
  their jump analysis (\<^verbatim>\<open>contract.go\<close>), the machine state, and the prices of \<^verbatim>\<open>src/params/protocol_params.go\<close>.

  A run ends in a result, in a Go panic, or, in this model, without fuel. A panic that comes from an
  analysis in the cache that is too short for the code has an outcome of its own: it needs
  two codes with the same hash. The flag that cancels a run from another goroutine, the tracer and the
  integer pool are not modelled.
\<close>

section \<open>Outcomes\<close>

datatype 'a go = Ret 'a | Panic | Stale | NoFuel

fun go_bind :: "'a go \<Rightarrow> ('a \<Rightarrow> 'b go) \<Rightarrow> 'b go" where
  "go_bind (Ret x) f = f x"
| "go_bind Panic f = Panic"
| "go_bind Stale f = Stale"
| "go_bind NoFuel f = NoFuel"

fun go_of :: "'a option \<Rightarrow> 'a go" where
  "go_of None = Panic"
| "go_of (Some x) = Ret x"

datatype vm_error =
    ErrOutOfGas | ErrCodeStoreOutOfGas | ErrDepth | ErrInsufficientBalance | ErrContractAddressCollision
  | errWriteProtection | errReturnDataOutOfBounds | errExecutionReverted | errMaxCodeSizeExceeded
  | errInvalidJump | errGasUintOverflow | errReentrancySentry
  | errInvalidOpcode byte | errStackUnderflow | errStackLimit
  | errPrecompile nat

section \<open>Prices\<close>

text \<open>\<^verbatim>\<open>params/protocol_params.go\<close>, and the step prices of \<^verbatim>\<open>gas.go\<close>.\<close>

abbreviation (input) "CallValueTransferGas \<equiv> (9000 :: u64)"
abbreviation (input) "CallNewAccountGas \<equiv> (25000 :: u64)"
abbreviation (input) "QuadCoeffDiv \<equiv> (512 :: u64)"
abbreviation (input) "LogDataGas \<equiv> (8 :: u64)"
abbreviation (input) "CallStipend \<equiv> (2300 :: u64)"
abbreviation (input) "Sha3Gas \<equiv> (30 :: u64)"
abbreviation (input) "Sha3WordGas \<equiv> (6 :: u64)"
abbreviation (input) "SstoreSetGas \<equiv> (20000 :: u64)"
abbreviation (input) "SstoreResetGas \<equiv> (5000 :: u64)"
abbreviation (input) "SstoreClearGas \<equiv> (5000 :: u64)"
abbreviation (input) "SstoreRefundGas \<equiv> (15000 :: u64)"
abbreviation (input) "SstoreSentryGasEIP2200 \<equiv> (2300 :: u64)"
abbreviation (input) "SstoreNoopGasEIP2200 \<equiv> (800 :: u64)"
abbreviation (input) "SstoreDirtyGasEIP2200 \<equiv> (800 :: u64)"
abbreviation (input) "SstoreInitGasEIP2200 \<equiv> (20000 :: u64)"
abbreviation (input) "SstoreInitRefundEIP2200 \<equiv> (19200 :: u64)"
abbreviation (input) "SstoreCleanGasEIP2200 \<equiv> (5000 :: u64)"
abbreviation (input) "SstoreCleanRefundEIP2200 \<equiv> (4200 :: u64)"
abbreviation (input) "SstoreClearRefundEIP2200 \<equiv> (15000 :: u64)"
abbreviation (input) "JumpdestGas \<equiv> (1 :: u64)"
abbreviation (input) "CreateDataGas \<equiv> (200 :: u64)"
abbreviation (input) "ExpGas \<equiv> (10 :: u64)"
abbreviation (input) "LogGas \<equiv> (375 :: u64)"
abbreviation (input) "CopyGas \<equiv> (3 :: u64)"
abbreviation (input) "LogTopicGas \<equiv> (375 :: u64)"
abbreviation (input) "CreateGas \<equiv> (32000 :: u64)"
abbreviation (input) "Create2Gas \<equiv> (32000 :: u64)"
abbreviation (input) "SelfdestructRefundGas \<equiv> (24000 :: u64)"
abbreviation (input) "MemoryGas \<equiv> (3 :: u64)"
abbreviation (input) "CallGasFrontier \<equiv> (40 :: u64)"
abbreviation (input) "CallGasEIP150 \<equiv> (700 :: u64)"
abbreviation (input) "BalanceGasFrontier \<equiv> (20 :: u64)"
abbreviation (input) "BalanceGasEIP150 \<equiv> (400 :: u64)"
abbreviation (input) "BalanceGasEIP1884 \<equiv> (700 :: u64)"
abbreviation (input) "ExtcodeSizeGasFrontier \<equiv> (20 :: u64)"
abbreviation (input) "ExtcodeSizeGasEIP150 \<equiv> (700 :: u64)"
abbreviation (input) "SloadGasFrontier \<equiv> (50 :: u64)"
abbreviation (input) "SloadGasEIP150 \<equiv> (200 :: u64)"
abbreviation (input) "SloadGasEIP1884 \<equiv> (800 :: u64)"
abbreviation (input) "ExtcodeHashGasConstantinople \<equiv> (400 :: u64)"
abbreviation (input) "ExtcodeHashGasEIP1884 \<equiv> (700 :: u64)"
abbreviation (input) "SelfdestructGasEIP150 \<equiv> (5000 :: u64)"
abbreviation (input) "ExpByteFrontier \<equiv> (10 :: u64)"
abbreviation (input) "ExpByteEIP158 \<equiv> (50 :: u64)"
abbreviation (input) "ExtcodeCopyBaseFrontier \<equiv> (20 :: u64)"
abbreviation (input) "ExtcodeCopyBaseEIP150 \<equiv> (700 :: u64)"
abbreviation (input) "CreateBySelfdestructGas \<equiv> (25000 :: u64)"
abbreviation (input) "GasQuickStep \<equiv> (2 :: u64)"
abbreviation (input) "GasFastestStep \<equiv> (3 :: u64)"
abbreviation (input) "GasFastStep \<equiv> (5 :: u64)"
abbreviation (input) "GasMidStep \<equiv> (8 :: u64)"
abbreviation (input) "GasSlowStep \<equiv> (10 :: u64)"
abbreviation (input) "GasExtStep \<equiv> (20 :: u64)"

abbreviation (input) "CallCreateDepth \<equiv> (1024 :: nat)"
abbreviation (input) "MaxCodeSize \<equiv> (24576 :: nat)"

section \<open>Conversions\<close>

definition BigToHash :: "int \<Rightarrow> hash" where
  "BigToHash x = BytesToHash (nat_bytes (nat \<bar>x\<bar>))"

definition BigToAddress :: "int \<Rightarrow> address" where
  "BigToAddress x = BytesToAddress (nat_bytes (nat \<bar>x\<bar>))"

definition SetBytes :: "bytes \<Rightarrow> int" where
  "SetBytes bs = int (be_val bs)"

definition CreateAddress :: "backend \<Rightarrow> address \<Rightarrow> u64 \<Rightarrow> address" where
  "CreateAddress b a nonce =
     BytesToAddress (drop 12 (hash_bytes (keccak256 b
       (EncodeToBytes (Lst [Str (addr_bytes a), Str (nat_bytes (unat nonce))])))))"

definition CreateAddress2 :: "backend \<Rightarrow> address \<Rightarrow> hash \<Rightarrow> bytes \<Rightarrow> address" where
  "CreateAddress2 b a salt inithash =
     BytesToAddress (drop 12 (hash_bytes (keccak256 b ([0xFF] @ addr_bytes a @ hash_bytes salt @ inithash))))"

section \<open>Machine\<close>

text \<open>A slice that an operation returns: bytes of its own, or a part of the memory of the running frame.\<close>

datatype slice = Own bytes | MemRef nat nat

fun slice_bytes :: "memory \<Rightarrow> slice \<Rightarrow> bytes" where
  "slice_bytes m (Own bs) = bs"
| "slice_bytes m (MemRef off n) = take n (drop off (store m))"

record contract =
  c_CallerAddress :: address
  c_self :: address
  c_analysis :: "bitvec option"
  c_Code :: bytes
  c_CodeHash :: hash
  c_CodeAddr :: address
  c_Input :: bytes
  c_Gas :: u64
  c_value :: int

text \<open>A precompiled contract returns fresh bytes or, as the identity contract does, the very slice it was
  given.\<close>

datatype ret_slice = Fresh bytes | Same

record precompile =
  RequiredGas :: "bytes \<Rightarrow> u64"
  pc_Run :: "bytes \<Rightarrow> vm_error + ret_slice"

text \<open>What a run reads and does not change: the fields of \<^verbatim>\<open>Context\<close>, the chain configuration, the
  interpreter configuration, the precompiled contracts of the two rule sets, and the library code behind the
  state.\<close>

record evm_env =
  ee_db :: backend
  ee_grow :: "nat \<Rightarrow> nat \<Rightarrow> nat"
  PrecompiledContractsByzantium :: "address \<rightharpoonup> precompile"
  PrecompiledContractsIstanbul :: "address \<rightharpoonup> precompile"
  IsSingularity :: bool
  ChainID :: int
  NoRecursion :: bool
  EnablePreimageRecording :: bool
  ExtraEips :: "nat list"
  GetHash :: "u64 \<Rightarrow> hash"
  Origin :: address
  GasPrice :: int
  TxNonce :: int
  Coinbase :: address
  GasLimit :: u64
  BlockNumber :: int
  BlockTime :: int
  Difficulty :: int

record evm =
  StateDB :: statedb
  evm_depth :: nat
  callGasTemp :: u64
  readOnly :: bool
  returnData :: slice
  jumpdests :: "hash \<rightharpoonup> bitvec"

record frame =
  f_pc :: u64
  f_mem :: memory
  f_stack :: stack
  f_contract :: contract

section \<open>Contracts\<close>

datatype contract_ref = AccountRef address | ContractRef contract

fun ref_Address :: "contract_ref \<Rightarrow> address" where
  "ref_Address (AccountRef a) = a"
| "ref_Address (ContractRef c) = c_self c"

text \<open>The map of jump analyses belongs to the outermost contract of a transaction and is shared by
  reference with the contracts it calls, so it is a part of the machine.\<close>

definition NewContract :: "contract_ref \<Rightarrow> address \<Rightarrow> int \<Rightarrow> u64 \<Rightarrow> evm \<Rightarrow> contract \<times> evm" where
  "NewContract caller object value gas e =
     (\<lparr>c_CallerAddress = ref_Address caller, c_self = object, c_analysis = None, c_Code = [], c_CodeHash = 0,
       c_CodeAddr = 0, c_Input = [], c_Gas = gas, c_value = value\<rparr>,
      case caller of ContractRef _ \<Rightarrow> e | AccountRef _ \<Rightarrow> e\<lparr>jumpdests := Map.empty\<rparr>)"

definition SetCallCode :: "address \<Rightarrow> hash \<Rightarrow> bytes \<Rightarrow> contract \<Rightarrow> contract" where
  "SetCallCode addr h code c = c\<lparr>c_Code := code, c_CodeHash := h, c_CodeAddr := addr\<rparr>"

definition AsDelegate :: "contract \<Rightarrow> contract \<Rightarrow> contract" where
  "AsDelegate parent c = c\<lparr>c_CallerAddress := c_CallerAddress parent, c_value := c_value parent\<rparr>"

definition GetByte :: "u64 \<Rightarrow> contract \<Rightarrow> byte" where
  "GetByte n c = (if unat n < length (c_Code c) then c_Code c ! unat n else 0)"

definition GetOp :: "u64 \<Rightarrow> contract \<Rightarrow> byte" where
  "GetOp n c = GetByte n c"

definition UseGas :: "u64 \<Rightarrow> contract \<Rightarrow> bool \<times> contract" where
  "UseGas gas c = (if c_Gas c < gas then (False, c) else (True, c\<lparr>c_Gas := c_Gas c - gas\<rparr>))"

abbreviation (input) "JUMPDEST \<equiv> (0x5B :: byte)"

definition validJumpdest :: "int \<Rightarrow> contract \<Rightarrow> evm \<Rightarrow> (bool \<times> contract \<times> evm) go" where
  "validJumpdest dest c e =
     (let udest = unat (big_Uint64 dest) in
      if big_BitLen dest \<ge> 63 \<or> udest \<ge> length (c_Code c) then Ret (False, c, e)
      else if c_Code c ! udest \<noteq> JUMPDEST then Ret (False, c, e)
      else if c_CodeHash c \<noteq> 0 then
        (case jumpdests e (c_CodeHash c) of
           Some analysis \<Rightarrow>
             (case codeSegment analysis udest of None \<Rightarrow> Stale | Some r \<Rightarrow> Ret (r, c, e))
         | None \<Rightarrow>
             go_of (do {
               analysis \<leftarrow> codeBitmap (c_Code c);
               r \<leftarrow> codeSegment analysis udest;
               Some (r, c, e\<lparr>jumpdests := (jumpdests e)(c_CodeHash c \<mapsto> analysis)\<rparr>)
             }))
      else
        go_of (do {
          analysis \<leftarrow> (case c_analysis c of Some a \<Rightarrow> Some a | None \<Rightarrow> codeBitmap (c_Code c));
          r \<leftarrow> codeSegment analysis udest;
          Some (r, c\<lparr>c_analysis := Some analysis\<rparr>, e)
        }))"

end
