(* ===== verification/Evm_Gas.thy ===== *)
theory Evm_Gas
  imports Evm_Base
begin

text \<open>
  The dynamic gas costs of \<^verbatim>\<open>src/core/vm/gas_table.go\<close> and \<^verbatim>\<open>gas.go\<close>, at their 64-bit width with the overflow
  checks of the code. A gas function reads the stack and the requested memory size; \<^verbatim>\<open>memoryGasCost\<close> records the total fee in the memory,
  SSTORE and SELFDESTRUCT move the refund counter and the calls leave the gas for the callee in
  \<^verbatim>\<open>callGasTemp\<close>.
\<close>

type_synonym gas_result = "vm_error + u64"

type_synonym gasFunc =
  "evm_env \<Rightarrow> contract \<Rightarrow> stack \<Rightarrow> memory \<Rightarrow> u64 \<Rightarrow> evm \<Rightarrow> (gas_result \<times> memory \<times> evm) option"

fun gas_then :: "gas_result \<Rightarrow> (u64 \<Rightarrow> gas_result) \<Rightarrow> gas_result" where
  "gas_then (Inl er) f = Inl er"
| "gas_then (Inr g) f = f g"

text \<open>The idiom \<^verbatim>\<open>if x, overflow = ...; overflow { return 0, errGasUintOverflow }\<close>.\<close>

definition checked :: "u64 \<times> bool \<Rightarrow> gas_result" where
  "checked r = (if snd r then Inl errGasUintOverflow else Inr (fst r))"

section \<open>Memory\<close>

definition memoryGasCost :: "memory \<Rightarrow> u64 \<Rightarrow> gas_result \<times> memory" where
  "memoryGasCost mem newMemSize =
     (if newMemSize = 0 then (Inr 0, mem)
      else if newMemSize > 0x1FFFFFFFE0 then (Inl errGasUintOverflow, mem)
      else
        (let newMemSizeWords = toWordSize newMemSize;
             newMemSize = newMemSizeWords * 32
         in if unat newMemSize > mem_Len mem then
              (let square = newMemSizeWords * newMemSizeWords;
                   linCoef = newMemSizeWords * MemoryGas;
                   quadCoef = square div QuadCoeffDiv;
                   newTotalFee = linCoef + quadCoef;
                   fee = newTotalFee - lastGasCost mem
               in (Inr fee, mem\<lparr>lastGasCost := newTotalFee\<rparr>))
            else (Inr 0, mem)))"

text \<open>Gas that depends on the memory and on one operand.\<close>

definition memory_gas_with :: "nat \<Rightarrow> (int \<Rightarrow> u64 \<Rightarrow> gas_result) \<Rightarrow> gasFunc" where
  "memory_gas_with stackpos f env c st mem memorySize e =
     (let (g, mem) = memoryGasCost mem memorySize in
      do { x \<leftarrow> stack_Back stackpos st; Some (gas_then g (f x), mem, e) })"

definition memoryCopierGas :: "nat \<Rightarrow> gasFunc" where
  "memoryCopierGas stackpos =
     memory_gas_with stackpos (\<lambda>len gas.
       gas_then (checked (bigUint64 len)) (\<lambda>words.
       gas_then (checked (SafeMul (toWordSize words) CopyGas)) (\<lambda>words.
       checked (SafeAdd gas words))))"

definition gasCallDataCopy :: gasFunc where "gasCallDataCopy = memoryCopierGas 2"
definition gasCodeCopy :: gasFunc where "gasCodeCopy = memoryCopierGas 2"
definition gasExtCodeCopy :: gasFunc where "gasExtCodeCopy = memoryCopierGas 3"
definition gasReturnDataCopy :: gasFunc where "gasReturnDataCopy = memoryCopierGas 2"

definition pureMemoryGascost :: gasFunc where
  "pureMemoryGascost env c st mem memorySize e =
     (let (g, mem) = memoryGasCost mem memorySize in Some (g, mem, e))"

definition gasReturn :: gasFunc where "gasReturn = pureMemoryGascost"
definition gasRevert :: gasFunc where "gasRevert = pureMemoryGascost"
definition gasMLoad :: gasFunc where "gasMLoad = pureMemoryGascost"
definition gasMStore8 :: gasFunc where "gasMStore8 = pureMemoryGascost"
definition gasMStore :: gasFunc where "gasMStore = pureMemoryGascost"
definition gasCreate :: gasFunc where "gasCreate = pureMemoryGascost"

text \<open>\<^verbatim>\<open>makeGasLog\<close> checks the size operand before it computes the memory fee.\<close>

definition makeGasLog :: "u64 \<Rightarrow> gasFunc" where
  "makeGasLog n env c st mem memorySize e =
     do {
       x \<leftarrow> stack_Back 1 st;
       case checked (bigUint64 x) of
         Inl er \<Rightarrow> Some (Inl er, mem, e)
       | Inr requestedSize \<Rightarrow>
           (let (g, mem) = memoryGasCost mem memorySize in
            Some
              (gas_then g (\<lambda>gas.
               gas_then (checked (SafeAdd gas LogGas)) (\<lambda>gas.
               gas_then (checked (SafeAdd gas (n * LogTopicGas))) (\<lambda>gas.
               gas_then (checked (SafeMul requestedSize LogDataGas)) (\<lambda>memorySizeGas.
               checked (SafeAdd gas memorySizeGas))))), mem, e))
     }"

definition word_gas :: "int \<Rightarrow> u64 \<Rightarrow> gas_result" where
  "word_gas len gas =
     gas_then (checked (bigUint64 len)) (\<lambda>wordGas.
     gas_then (checked (SafeMul (toWordSize wordGas) Sha3WordGas)) (\<lambda>wordGas.
     checked (SafeAdd gas wordGas)))"

definition gasSha3 :: gasFunc where "gasSha3 = memory_gas_with 1 word_gas"
definition gasCreate2 :: gasFunc where "gasCreate2 = memory_gas_with 2 word_gas"

section \<open>Exponentiation\<close>

definition gas_exp :: "u64 \<Rightarrow> gasFunc" where
  "gas_exp price env c st mem memorySize e =
     do {
       x \<leftarrow> stack_Back 1 st;
       let expByteLen = of_nat ((big_BitLen x + 7) div 8) in
       Some (checked (SafeAdd (expByteLen * price) ExpGas), mem, e)
     }"

definition gasExpFrontier :: gasFunc where "gasExpFrontier = gas_exp ExpByteFrontier"
definition gasExpEIP158 :: gasFunc where "gasExpEIP158 = gas_exp ExpByteEIP158"

section \<open>Storage\<close>

definition gasSStore :: gasFunc where
  "gasSStore env c st mem memorySize e =
     do {
       y \<leftarrow> stack_Back 1 st;
       x \<leftarrow> stack_Back 0 st;
       let (current, s) = GetState (ee_db env) (c_self c) (BigToHash x) (StateDB e) in
       if current = 0 \<and> y \<noteq> 0 then Some (Inr SstoreSetGas, mem, e\<lparr>StateDB := s\<rparr>)
       else if current \<noteq> 0 \<and> y = 0 then
         Some (Inr SstoreClearGas, mem, e\<lparr>StateDB := AddRefund SstoreRefundGas s\<rparr>)
       else Some (Inr SstoreResetGas, mem, e\<lparr>StateDB := s\<rparr>)
     }"

definition gasSStoreEIP2200 :: gasFunc where
  "gasSStoreEIP2200 env c st mem memorySize e =
     (if c_Gas c \<le> SstoreSentryGasEIP2200 then Some (Inl errReentrancySentry, mem, e)
      else do {
        y \<leftarrow> stack_Back 1 st;
        x \<leftarrow> stack_Back 0 st;
        let (current, s) = GetState (ee_db env) (c_self c) (BigToHash x) (StateDB e);
            val = BigToHash y in
        if current = val then Some (Inr SstoreNoopGasEIP2200, mem, e\<lparr>StateDB := s\<rparr>)
        else
          (let (original, s) = GetCommittedState (ee_db env) (c_self c) (BigToHash x) s in
           if original = current then
             (if original = 0 then Some (Inr SstoreInitGasEIP2200, mem, e\<lparr>StateDB := s\<rparr>)
              else
                (let s = (if val = 0 then AddRefund SstoreClearRefundEIP2200 s else s)
                 in Some (Inr SstoreCleanGasEIP2200, mem, e\<lparr>StateDB := s\<rparr>)))
           else do {
             s \<leftarrow> (if original \<noteq> 0 then
                     (if current = 0 then SubRefund SstoreClearRefundEIP2200 s
                      else if val = 0 then Some (AddRefund SstoreClearRefundEIP2200 s)
                      else Some s)
                   else Some s);
             let s = (if original = val then
                        (if original = 0 then AddRefund SstoreInitRefundEIP2200 s
                         else AddRefund SstoreCleanRefundEIP2200 s)
                      else s)
             in Some (Inr SstoreDirtyGasEIP2200, mem, e\<lparr>StateDB := s\<rparr>)
           })
      })"

section \<open>Calls\<close>

text \<open>\<^verbatim>\<open>callGas\<close>: all but one 64th of what is left after the base cost, or less if the caller asks for less.
  The subtraction may wrap around; then the total below exceeds the gas of the contract.\<close>

definition callGas :: "u64 \<Rightarrow> u64 \<Rightarrow> int \<Rightarrow> u64" where
  "callGas availableGas base callCost =
     (let availableGas = availableGas - base;
          gas = availableGas - availableGas div 64
      in if \<not> big_IsUint64 callCost \<or> gas < big_Uint64 callCost then gas else big_Uint64 callCost)"

definition call_gas_total :: "contract \<Rightarrow> gas_result \<Rightarrow> int \<Rightarrow> memory \<Rightarrow> evm \<Rightarrow> gas_result \<times> memory \<times> evm" where
  "call_gas_total c g callCost mem e =
     (case g of
        Inl er \<Rightarrow> (Inl er, mem, e)
      | Inr gas \<Rightarrow>
          (let t = callGas (c_Gas c) gas callCost
           in (checked (SafeAdd gas t), mem, e\<lparr>callGasTemp := t\<rparr>)))"

definition gasCall :: gasFunc where
  "gasCall env c st mem memorySize e =
     do {
       value \<leftarrow> stack_Back 2 st;
       addr \<leftarrow> stack_Back 1 st;
       callCost \<leftarrow> stack_Back 0 st;
       let (isEmpty, s) = (if value \<noteq> 0 then Empty (ee_db env) (BigToAddress addr) (StateDB e)
                           else (False, StateDB e));
           gas = (if value \<noteq> 0 \<and> isEmpty then CallNewAccountGas else 0)
               + (if value \<noteq> 0 then CallValueTransferGas else 0);
           (g, mem) = memoryGasCost mem memorySize;
           g = gas_then g (\<lambda>memoryGas. checked (SafeAdd gas memoryGas))
       in Some (call_gas_total c g callCost mem (e\<lparr>StateDB := s\<rparr>))
     }"

definition gasCallCode :: gasFunc where
  "gasCallCode env c st mem memorySize e =
     do {
       value \<leftarrow> stack_Back 2 st;
       callCost \<leftarrow> stack_Back 0 st;
       let (g, mem) = memoryGasCost mem memorySize;
           gas = (if value \<noteq> 0 then CallValueTransferGas else 0);
           g = gas_then g (\<lambda>memoryGas. checked (SafeAdd gas memoryGas))
       in Some (call_gas_total c g callCost mem e)
     }"

definition gasDelegateCall :: gasFunc where
  "gasDelegateCall env c st mem memorySize e =
     do {
       callCost \<leftarrow> stack_Back 0 st;
       let (g, mem) = memoryGasCost mem memorySize
       in Some (call_gas_total c g callCost mem e)
     }"

definition gasStaticCall :: gasFunc where
  "gasStaticCall env c st mem memorySize e =
     do {
       callCost \<leftarrow> stack_Back 0 st;
       let (g, mem) = memoryGasCost mem memorySize
       in Some (call_gas_total c g callCost mem e)
     }"

definition gasSelfdestruct :: gasFunc where
  "gasSelfdestruct env c st mem memorySize e =
     do {
       x \<leftarrow> stack_Back 0 st;
       let (isEmpty, s) = Empty (ee_db env) (BigToAddress x) (StateDB e);
           (pays, s) = (if isEmpty then (let (bal, s) = GetBalance (ee_db env) (c_self c) s in (bal \<noteq> 0, s))
                        else (False, s));
           gas = SelfdestructGasEIP150 + (if isEmpty \<and> pays then CreateBySelfdestructGas else 0);
           (dead, s) = HasSuicided (ee_db env) (c_self c) s;
           s = (if \<not> dead then AddRefund SelfdestructRefundGas s else s)
       in Some (Inr gas, mem, e\<lparr>StateDB := s\<rparr>)
     }"

end
