(* ===== verification/Evm_Instructions.thy ===== *)
theory Evm_Instructions
  imports Evm_Gas
begin

text \<open>
  The instructions of \<^verbatim>\<open>src/core/vm/instructions.go\<close> (and the small ones of \<^verbatim>\<open>eips.go\<close>) that do not start
  another contract, one definition per function of the code. An instruction takes the frame (program counter, memory, stack,
  contract) and the machine and returns its error or result slice with both changed; popping an
  empty stack is a panic. Big-integer operations are those of \<^verbatim>\<open>math/big\<close>.
\<close>

section \<open>Shape of an instruction\<close>

type_synonym exec_result = "((vm_error + slice) \<times> frame \<times> evm) go"

type_synonym runner =
  "contract \<Rightarrow> bytes \<Rightarrow> bool \<Rightarrow> evm \<Rightarrow> ((ret_slice \<times> vm_error option) \<times> contract \<times> evm) go"

type_synonym executionFunc = "evm_env \<Rightarrow> runner \<Rightarrow> frame \<Rightarrow> evm \<Rightarrow> exec_result"

text \<open>\<^verbatim>\<open>return nil, nil\<close> with a new stack.\<close>

definition next_stack :: "stack \<Rightarrow> frame \<Rightarrow> evm \<Rightarrow> exec_result" where
  "next_stack st f e = Ret (Inr (Own []), f\<lparr>f_stack := st\<rparr>, e)"

definition op_const :: "(evm_env \<Rightarrow> frame \<Rightarrow> evm \<Rightarrow> int) \<Rightarrow> executionFunc" where
  "op_const g env run f e = next_stack (stack_push (g env f e) (f_stack f)) f e"

definition op_unary :: "(int \<Rightarrow> int) \<Rightarrow> executionFunc" where
  "op_unary g env run f e =
     (case f_stack f of x # st \<Rightarrow> next_stack (stack_push (g x) st) f e | _ \<Rightarrow> Panic)"

definition op_binary :: "(int \<Rightarrow> int \<Rightarrow> int) \<Rightarrow> executionFunc" where
  "op_binary g env run f e =
     (case f_stack f of x # y # st \<Rightarrow> next_stack (stack_push (g x y) st) f e | _ \<Rightarrow> Panic)"

definition op_ternary :: "(int \<Rightarrow> int \<Rightarrow> int \<Rightarrow> int) \<Rightarrow> executionFunc" where
  "op_ternary g env run f e =
     (case f_stack f of x # y # z # st \<Rightarrow> next_stack (stack_push (g x y z) st) f e | _ \<Rightarrow> Panic)"

section \<open>Arithmetic\<close>

text \<open>Division of \<^verbatim>\<open>big.Int\<close> is Euclidean.\<close>

definition big_Div :: "int \<Rightarrow> int \<Rightarrow> int" where
  "big_Div x y = (if 0 < y then x div y else - (x div (- y)))"

definition big_Mod :: "int \<Rightarrow> int \<Rightarrow> int" where
  "big_Mod x y = x mod \<bar>y\<bar>"

definition bool_int :: "bool \<Rightarrow> int" where
  "bool_int p = (if p then 1 else 0)"

definition opAdd :: executionFunc where "opAdd = op_binary (\<lambda>x y. U256 (x + y))"
definition opSub :: executionFunc where "opSub = op_binary (\<lambda>x y. U256 (x - y))"
definition opMul :: executionFunc where "opMul = op_binary (\<lambda>x y. U256 (x * y))"

definition opDiv :: executionFunc where
  "opDiv = op_binary (\<lambda>x y. if y \<noteq> 0 then U256 (big_Div x y) else 0)"

definition opSdiv :: executionFunc where
  "opSdiv = op_binary (\<lambda>x y.
     let x = S256 x; y = S256 y in
     if y = 0 \<or> x = 0 then 0
     else if sgn x \<noteq> sgn y then U256 (- big_Div \<bar>x\<bar> \<bar>y\<bar>)
     else U256 (big_Div \<bar>x\<bar> \<bar>y\<bar>))"

definition opMod :: executionFunc where
  "opMod = op_binary (\<lambda>x y. if y = 0 then 0 else U256 (big_Mod x y))"

definition opSmod :: executionFunc where
  "opSmod = op_binary (\<lambda>x y.
     let x = S256 x; y = S256 y in
     if y = 0 then 0
     else if x < 0 then U256 (- big_Mod \<bar>x\<bar> \<bar>y\<bar>)
     else U256 (big_Mod \<bar>x\<bar> \<bar>y\<bar>))"

definition opExp :: executionFunc where
  "opExp = op_binary (\<lambda>base exponent.
     let cmpToOne = big_Cmp exponent 1 in
     if cmpToOne < 0 then 1
     else if base = 0 then 0
     else if cmpToOne = 0 then base
     else Exp base exponent)"

definition opSignExtend :: executionFunc where
  "opSignExtend env run f e =
     (case f_stack f of
        back # st \<Rightarrow>
          (if big_Cmp back 31 < 0 then
             (case st of
                num # st \<Rightarrow>
                  (let n = unat (big_Uint64 back * 8 + 7);
                       mask = push_bit n 1 - 1;
                       num = (if bit num n then num OR NOT mask else num AND mask)
                   in next_stack (stack_push (U256 num) st) f e)
              | [] \<Rightarrow> Panic)
           else next_stack st f e)
      | [] \<Rightarrow> Panic)"

definition opNot :: executionFunc where "opNot = op_unary (\<lambda>x. U256 (NOT x))"
definition opLt :: executionFunc where "opLt = op_binary (\<lambda>x y. bool_int (big_Cmp x y < 0))"
definition opGt :: executionFunc where "opGt = op_binary (\<lambda>x y. bool_int (big_Cmp x y > 0))"

definition opSlt :: executionFunc where
  "opSlt = op_binary (\<lambda>x y.
     let xSign = big_Cmp x tt255; ySign = big_Cmp y tt255 in
     if xSign \<ge> 0 \<and> ySign < 0 then 1
     else if xSign < 0 \<and> ySign \<ge> 0 then 0
     else bool_int (big_Cmp x y < 0))"

definition opSgt :: executionFunc where
  "opSgt = op_binary (\<lambda>x y.
     let xSign = big_Cmp x tt255; ySign = big_Cmp y tt255 in
     if xSign \<ge> 0 \<and> ySign < 0 then 0
     else if xSign < 0 \<and> ySign \<ge> 0 then 1
     else bool_int (big_Cmp x y > 0))"

definition opEq :: executionFunc where "opEq = op_binary (\<lambda>x y. bool_int (big_Cmp x y = 0))"
definition opIszero :: executionFunc where "opIszero = op_unary (\<lambda>x. if x > 0 then 0 else 1)"
definition opAnd :: executionFunc where "opAnd = op_binary (\<lambda>x y. x AND y)"
definition opOr :: executionFunc where "opOr = op_binary (\<lambda>x y. x OR y)"
definition opXor :: executionFunc where "opXor = op_binary (\<lambda>x y. x XOR y)"

definition opByte :: executionFunc where
  "opByte = op_binary (\<lambda>th val.
     if big_Cmp th 32 < 0 then uint (math_Byte val 32 (nat (big_Int64 th))) else 0)"

definition opAddmod :: executionFunc where
  "opAddmod = op_ternary (\<lambda>x y z. if big_Cmp z 0 > 0 then U256 (big_Mod (x + y) z) else 0)"

definition opMulmod :: executionFunc where
  "opMulmod = op_ternary (\<lambda>x y z. if big_Cmp z 0 > 0 then U256 (big_Mod (x * y) z) else 0)"

definition opSHL :: executionFunc where
  "opSHL = op_binary (\<lambda>shift val.
     let shift = U256 shift; val = U256 val in
     if big_Cmp shift 256 \<ge> 0 then 0 else U256 (push_bit (unat (big_Uint64 shift)) val))"

definition opSHR :: executionFunc where
  "opSHR = op_binary (\<lambda>shift val.
     let shift = U256 shift; val = U256 val in
     if big_Cmp shift 256 \<ge> 0 then 0 else U256 (drop_bit (unat (big_Uint64 shift)) val))"

definition opSAR :: executionFunc where
  "opSAR = op_binary (\<lambda>shift val.
     let shift = U256 shift; val = S256 val in
     if big_Cmp shift 256 \<ge> 0 then U256 (if val \<ge> 0 then 0 else - 1)
     else U256 (drop_bit (unat (big_Uint64 shift)) val))"

section \<open>Environment\<close>

text \<open>\<^verbatim>\<open>opSha3\<close>, with the hash of the memory range as the library function of the state backend.\<close>

definition opSha3 :: executionFunc where
  "opSha3 env run f e =
     (case f_stack f of
        offset # sz # st \<Rightarrow>
          go_of (do {
            data \<leftarrow> mem_GetPtr (big_Int64 offset) (big_Int64 sz) (f_mem f);
            let h = keccak256 (ee_db env) data;
                e = (if EnablePreimageRecording env then e\<lparr>StateDB := AddPreimage h data (StateDB e)\<rparr> else e) in
            Some (Inr (Own []), f\<lparr>f_stack := stack_push (SetBytes (hash_bytes h)) st\<rparr>, e)
          })
      | _ \<Rightarrow> Panic)"

definition opAddress :: executionFunc where
  "opAddress = op_const (\<lambda>env f e. SetBytes (addr_bytes (c_self (f_contract f))))"

definition opBalance :: executionFunc where
  "opBalance env run f e =
     (case f_stack f of
        slot # st \<Rightarrow>
          (let (bal, s) = GetBalance (ee_db env) (BigToAddress slot) (StateDB e)
           in next_stack (stack_push bal st) f (e\<lparr>StateDB := s\<rparr>))
      | [] \<Rightarrow> Panic)"

definition opOrigin :: executionFunc where
  "opOrigin = op_const (\<lambda>env f e. SetBytes (addr_bytes (Origin env)))"
definition opCaller :: executionFunc where
  "opCaller = op_const (\<lambda>env f e. SetBytes (addr_bytes (c_CallerAddress (f_contract f))))"
definition opCallValue :: executionFunc where
  "opCallValue = op_const (\<lambda>env f e. c_value (f_contract f))"

definition opCallDataLoad :: executionFunc where
  "opCallDataLoad env run f e =
     (case f_stack f of
        x # st \<Rightarrow> next_stack (stack_push (SetBytes (getDataBig (c_Input (f_contract f)) x 32)) st) f e
      | [] \<Rightarrow> Panic)"

definition opCallDataSize :: executionFunc where
  "opCallDataSize = op_const (\<lambda>env f e. int (length (c_Input (f_contract f))))"

text \<open>\<^verbatim>\<open>memory.Set(memOffset.Uint64(), length.Uint64(), data)\<close>.\<close>

definition mem_write :: "int \<Rightarrow> int \<Rightarrow> bytes \<Rightarrow> stack \<Rightarrow> frame \<Rightarrow> evm \<Rightarrow> exec_result" where
  "mem_write memOffset len data st f e =
     go_of (do {
       m \<leftarrow> mem_Set (big_Uint64 memOffset) (big_Uint64 len) data (f_mem f);
       Some (Inr (Own []), f\<lparr>f_mem := m, f_stack := st\<rparr>, e)
     })"

definition opCallDataCopy :: executionFunc where
  "opCallDataCopy env run f e =
     (case f_stack f of
        memOffset # dataOffset # len # st \<Rightarrow>
          mem_write memOffset len (getDataBig (c_Input (f_contract f)) dataOffset len) st f e
      | _ \<Rightarrow> Panic)"

definition opReturnDataSize :: executionFunc where
  "opReturnDataSize = op_const (\<lambda>env f e. int (length (slice_bytes (f_mem f) (returnData e))))"

definition opReturnDataCopy :: executionFunc where
  "opReturnDataCopy env run f e =
     (case f_stack f of
        memOffset # dataOffset # len # st \<Rightarrow>
          (let end1 = dataOffset + len;
               rd = slice_bytes (f_mem f) (returnData e)
           in if \<not> big_IsUint64 end1 \<or> int (length rd) < uint (big_Uint64 end1)
              then Ret (Inl errReturnDataOutOfBounds, f\<lparr>f_stack := st\<rparr>, e)
              else if big_Uint64 dataOffset > big_Uint64 end1 then Panic
              else mem_write memOffset len
                     (take (unat (big_Uint64 end1) - unat (big_Uint64 dataOffset)) (drop (unat (big_Uint64 dataOffset)) rd))
                     st f e)
      | _ \<Rightarrow> Panic)"

definition opExtCodeSize :: executionFunc where
  "opExtCodeSize env run f e =
     (case f_stack f of
        slot # st \<Rightarrow>
          (let (n, s) = GetCodeSize (ee_db env) (BigToAddress slot) (StateDB e)
           in next_stack (stack_push (int n) st) f (e\<lparr>StateDB := s\<rparr>))
      | [] \<Rightarrow> Panic)"

definition opCodeSize :: executionFunc where
  "opCodeSize = op_const (\<lambda>env f e. int (length (c_Code (f_contract f))))"

definition opCodeCopy :: executionFunc where
  "opCodeCopy env run f e =
     (case f_stack f of
        memOffset # codeOffset # len # st \<Rightarrow>
          mem_write memOffset len (getDataBig (c_Code (f_contract f)) codeOffset len) st f e
      | _ \<Rightarrow> Panic)"

definition opExtCodeCopy :: executionFunc where
  "opExtCodeCopy env run f e =
     (case f_stack f of
        addr # memOffset # codeOffset # len # st \<Rightarrow>
          (let (code, s) = GetCode (ee_db env) (BigToAddress addr) (StateDB e)
           in mem_write memOffset len (getDataBig code codeOffset len) st f (e\<lparr>StateDB := s\<rparr>))
      | _ \<Rightarrow> Panic)"

definition opExtCodeHash :: executionFunc where
  "opExtCodeHash env run f e =
     (case f_stack f of
        slot # st \<Rightarrow>
          (let addr = BigToAddress slot;
               (isEmpty, s) = Empty (ee_db env) addr (StateDB e)
           in if isEmpty then next_stack (stack_push 0 st) f (e\<lparr>StateDB := s\<rparr>)
              else
                (let (h, s) = GetCodeHash (ee_db env) addr s
                 in next_stack (stack_push (SetBytes (hash_bytes h)) st) f (e\<lparr>StateDB := s\<rparr>)))
      | [] \<Rightarrow> Panic)"

definition opGasprice :: executionFunc where "opGasprice = op_const (\<lambda>env f e. GasPrice env)"

definition opBlockhash :: executionFunc where
  "opBlockhash env run f e =
     (case f_stack f of
        num # st \<Rightarrow>
          (let n = BlockNumber env - 257
           in if big_Cmp num n > 0 \<and> big_Cmp num (BlockNumber env) < 0
              then next_stack (stack_push (SetBytes (hash_bytes (GetHash env (big_Uint64 num)))) st) f e
              else next_stack (stack_push 0 st) f e)
      | [] \<Rightarrow> Panic)"

definition opCoinbase :: executionFunc where
  "opCoinbase = op_const (\<lambda>env f e. SetBytes (addr_bytes (Coinbase env)))"
definition opTimestamp :: executionFunc where "opTimestamp = op_const (\<lambda>env f e. U256 (BlockTime env))"
definition opNumber :: executionFunc where "opNumber = op_const (\<lambda>env f e. U256 (BlockNumber env))"
definition opDifficulty :: executionFunc where "opDifficulty = op_const (\<lambda>env f e. U256 (Difficulty env))"
definition opGasLimit :: executionFunc where "opGasLimit = op_const (\<lambda>env f e. U256 (uint (GasLimit env)))"

definition opSelfBalance :: executionFunc where
  "opSelfBalance env run f e =
     (let (bal, s) = GetBalance (ee_db env) (c_self (f_contract f)) (StateDB e)
      in next_stack (stack_push bal (f_stack f)) f (e\<lparr>StateDB := s\<rparr>))"

definition opChainID :: executionFunc where "opChainID = op_const (\<lambda>env f e. ChainID env)"
definition opNonce :: executionFunc where "opNonce = op_const (\<lambda>env f e. TxNonce env)"

section \<open>Memory, storage and control flow\<close>

definition opPop :: executionFunc where
  "opPop env run f e = (case f_stack f of x # st \<Rightarrow> next_stack st f e | [] \<Rightarrow> Panic)"

definition opMload :: executionFunc where
  "opMload env run f e =
     (case f_stack f of
        v # st \<Rightarrow>
          go_of (do {
            data \<leftarrow> mem_GetPtr (big_Int64 v) 32 (f_mem f);
            Some (Inr (Own []), f\<lparr>f_stack := stack_push (SetBytes data) st\<rparr>, e)
          })
      | [] \<Rightarrow> Panic)"

definition opMstore :: executionFunc where
  "opMstore env run f e =
     (case f_stack f of
        mStart # val # st \<Rightarrow>
          go_of (do {
            m \<leftarrow> mem_Set32 (big_Uint64 mStart) val (f_mem f);
            Some (Inr (Own []), f\<lparr>f_mem := m, f_stack := st\<rparr>, e)
          })
      | _ \<Rightarrow> Panic)"

definition opMstore8 :: executionFunc where
  "opMstore8 env run f e =
     (case f_stack f of
        off # val # st \<Rightarrow>
          go_of (do {
            m \<leftarrow> mem_setByte (big_Int64 off) (word_of_int (big_Int64 val)) (f_mem f);
            Some (Inr (Own []), f\<lparr>f_mem := m, f_stack := st\<rparr>, e)
          })
      | _ \<Rightarrow> Panic)"

definition opSload :: executionFunc where
  "opSload env run f e =
     (case f_stack f of
        loc # st \<Rightarrow>
          (let (v, s) = GetState (ee_db env) (c_self (f_contract f)) (BigToHash loc) (StateDB e)
           in next_stack (stack_push (SetBytes (hash_bytes v)) st) f (e\<lparr>StateDB := s\<rparr>))
      | [] \<Rightarrow> Panic)"

definition opSstore :: executionFunc where
  "opSstore env run f e =
     (case f_stack f of
        loc # val # st \<Rightarrow>
          next_stack st f
            (e\<lparr>StateDB := SetState (ee_db env) (c_self (f_contract f)) (BigToHash loc) (BigToHash val) (StateDB e)\<rparr>)
      | _ \<Rightarrow> Panic)"

definition jump_to :: "int \<Rightarrow> stack \<Rightarrow> frame \<Rightarrow> evm \<Rightarrow> exec_result" where
  "jump_to pos st f e =
     go_bind (validJumpdest pos (f_contract f) e) (\<lambda>(valid, c, e).
       if \<not> valid then Ret (Inl errInvalidJump, f\<lparr>f_stack := st, f_contract := c\<rparr>, e)
       else Ret (Inr (Own []), f\<lparr>f_pc := big_Uint64 pos, f_stack := st, f_contract := c\<rparr>, e))"

definition opJump :: executionFunc where
  "opJump env run f e = (case f_stack f of pos # st \<Rightarrow> jump_to pos st f e | [] \<Rightarrow> Panic)"

definition opJumpi :: executionFunc where
  "opJumpi env run f e =
     (case f_stack f of
        pos # cond # st \<Rightarrow>
          (if cond \<noteq> 0 then jump_to pos st f e
           else Ret (Inr (Own []), f\<lparr>f_pc := f_pc f + 1, f_stack := st\<rparr>, e))
      | _ \<Rightarrow> Panic)"

definition opJumpdest :: executionFunc where
  "opJumpdest env run f e = Ret (Inr (Own []), f, e)"

definition opPc :: executionFunc where "opPc = op_const (\<lambda>env f e. uint (f_pc f))"
definition opMsize :: executionFunc where "opMsize = op_const (\<lambda>env f e. int (mem_Len (f_mem f)))"
definition opGas :: executionFunc where "opGas = op_const (\<lambda>env f e. uint (c_Gas (f_contract f)))"

text \<open>\<^verbatim>\<open>opReturn\<close> and \<^verbatim>\<open>opRevert\<close> end the frame: nothing writes its memory any more, so the slice counts as the caller's own.\<close>

definition mem_result :: "frame \<Rightarrow> evm \<Rightarrow> exec_result" where
  "mem_result f e =
     (case f_stack f of
        offset # sz # st \<Rightarrow>
          go_of (do {
            ret \<leftarrow> mem_GetPtr (big_Int64 offset) (big_Int64 sz) (f_mem f);
            Some (Inr (Own ret), f\<lparr>f_stack := st\<rparr>, e)
          })
      | _ \<Rightarrow> Panic)"

definition opReturn :: executionFunc where "opReturn env run f e = mem_result f e"
definition opRevert :: executionFunc where "opRevert env run f e = mem_result f e"

definition opStop :: executionFunc where
  "opStop env run f e = Ret (Inr (Own []), f, e)"

definition opSuicide :: executionFunc where
  "opSuicide env run f e =
     (case f_stack f of
        x # st \<Rightarrow>
          (let b = ee_db env;
               (bal, s) = GetBalance b (c_self (f_contract f)) (StateDB e);
               s = AddBalance b (BigToAddress x) bal s;
               (_, s) = Suicide b (c_self (f_contract f)) s
           in next_stack st f (e\<lparr>StateDB := s\<rparr>))
      | [] \<Rightarrow> Panic)"

section \<open>Families\<close>

definition makeLog :: "nat \<Rightarrow> executionFunc" where
  "makeLog sz env run f e =
     (case f_stack f of
        mStart # mSize # st \<Rightarrow>
          (if length st < sz then Panic
           else
             go_of (do {
               d \<leftarrow> mem_GetCopy (big_Int64 mStart) (big_Int64 mSize) (f_mem f);
               let l = \<lparr>lg_Address = c_self (f_contract f), lg_Topics = map BigToHash (take sz st), lg_Data = d,
                        lg_BlockNumber = big_Uint64 (BlockNumber env), lg_TxHash = 0, lg_TxIndex = 0,
                        lg_BlockHash = 0, lg_Index = 0\<rparr> in
               Some (Inr (Own []), f\<lparr>f_stack := drop sz st\<rparr>, e\<lparr>StateDB := AddLog l (StateDB e)\<rparr>)
             }))
      | _ \<Rightarrow> Panic)"

definition opPush1 :: executionFunc where
  "opPush1 env run f e =
     (let codeLen = length (c_Code (f_contract f));
          pc = f_pc f + 1;
          integer = (if unat pc < codeLen then uint (c_Code (f_contract f) ! unat pc) else 0)
      in Ret (Inr (Own []), f\<lparr>f_pc := pc, f_stack := stack_push integer (f_stack f)\<rparr>, e))"

text \<open>\<^verbatim>\<open>int( *pc + 1)\<close> is exact: the program counter stays close to the code, far below the sign bit.\<close>

definition makePush :: "u64 \<Rightarrow> nat \<Rightarrow> executionFunc" where
  "makePush sz pushByteSize env run f e =
     (let code = c_Code (f_contract f);
          codeLen = length code;
          startMin = min codeLen (unat (f_pc f + 1));
          endMin = min codeLen (startMin + pushByteSize);
          integer = SetBytes (RightPadBytes (take (endMin - startMin) (drop startMin code)) pushByteSize)
      in Ret (Inr (Own []), f\<lparr>f_pc := f_pc f + sz, f_stack := stack_push integer (f_stack f)\<rparr>, e))"

definition makeDup :: "nat \<Rightarrow> executionFunc" where
  "makeDup sz env run f e =
     go_of (do { st \<leftarrow> stack_dup sz (f_stack f); Some (Inr (Own []), f\<lparr>f_stack := st\<rparr>, e) })"

definition makeSwap :: "nat \<Rightarrow> executionFunc" where
  "makeSwap sz env run f e =
     go_of (do { st \<leftarrow> stack_swap (sz + 1) (f_stack f); Some (Inr (Own []), f\<lparr>f_stack := st\<rparr>, e) })"

end
