(* ===== verification/Evm_Calls.thy ===== *)
theory Evm_Calls
  imports Evm_Instructions
begin

text \<open>
  Message calls and contract creation: \<^verbatim>\<open>Call\<close>, \<^verbatim>\<open>CallCode\<close>, \<^verbatim>\<open>DelegateCall\<close>, \<^verbatim>\<open>StaticCall\<close>, \<^verbatim>\<open>Create\<close> and
  \<^verbatim>\<open>Create2\<close> of \<^verbatim>\<open>src/core/vm/evm.go\<close>, with \<^verbatim>\<open>CanTransfer\<close> and \<^verbatim>\<open>Transfer\<close> of \<^verbatim>\<open>src/core/evm.go\<close>, and the instructions
  that issue them. Running the callee is the parameter \<open>run\<close>; the theory \<^verbatim>\<open>Evm_Run\<close> ties the knot.
\<close>

section \<open>Transfers and precompiled contracts\<close>

definition CanTransfer :: "backend \<Rightarrow> address \<Rightarrow> int \<Rightarrow> statedb \<Rightarrow> bool \<times> statedb" where
  "CanTransfer b addr amount s = (let (bal, s) = GetBalance b addr s in (big_Cmp bal amount \<ge> 0, s))"

definition Transfer :: "backend \<Rightarrow> address \<Rightarrow> address \<Rightarrow> int \<Rightarrow> statedb \<Rightarrow> statedb" where
  "Transfer b sender recipient amount s = AddBalance b recipient amount (SubBalance b sender amount s)"

definition precompiles :: "evm_env \<Rightarrow> address \<rightharpoonup> precompile" where
  "precompiles env =
     (if IsSingularity env then PrecompiledContractsIstanbul env else PrecompiledContractsByzantium env)"

definition RunPrecompiledContract ::
  "precompile \<Rightarrow> bytes \<Rightarrow> contract \<Rightarrow> (ret_slice \<times> vm_error option) \<times> contract" where
  "RunPrecompiledContract p input c =
     (let gas = RequiredGas p input; (ok, c) = UseGas gas c in
      if ok then
        (case pc_Run p input of
           Inl er \<Rightarrow> ((Fresh [], Some er), c)
         | Inr r \<Rightarrow> ((r, None), c))
      else ((Fresh [], Some ErrOutOfGas), c))"

type_synonym interpreter =
  "contract \<Rightarrow> bytes \<Rightarrow> bool \<Rightarrow> evm \<Rightarrow> ((bytes \<times> vm_error option) \<times> contract \<times> evm) go"

definition evm_run :: "evm_env \<Rightarrow> interpreter \<Rightarrow> runner" where
  "evm_run env interp c input ro e =
     (case precompiles env (c_CodeAddr c) of
        Some p \<Rightarrow> (let (r, c) = RunPrecompiledContract p input c in Ret (r, c, e))
      | None \<Rightarrow> go_bind (interp c input ro e) (\<lambda>((ret, err), c, e). Ret ((Fresh ret, err), c, e)))"

section \<open>Message calls\<close>

type_synonym call_result = "((ret_slice \<times> u64 \<times> vm_error option) \<times> evm) go"

text \<open>The common end of the four calls: on an error the state goes back to the snapshot, and all gas is
  gone unless the callee reverted.\<close>

definition finish_call ::
  "evm_env \<Rightarrow> nat \<Rightarrow> ((ret_slice \<times> vm_error option) \<times> contract \<times> evm) go \<Rightarrow> call_result" where
  "finish_call env snapshot r =
     go_bind r (\<lambda>((ret, err), c, e).
       case err of
         None \<Rightarrow> Ret ((ret, c_Gas c, None), e)
       | Some er \<Rightarrow>
           (case RevertToSnapshot (ee_db env) snapshot (StateDB e) of
              None \<Rightarrow> Panic
            | Some s \<Rightarrow>
                (let c = (if er \<noteq> errExecutionReverted then snd (UseGas (c_Gas c) c) else c)
                 in Ret ((ret, c_Gas c, Some er), e\<lparr>StateDB := s\<rparr>))))"

text \<open>\<^verbatim>\<open>contract.SetCallCode(&addr, evm.StateDB.GetCodeHash(addr), evm.StateDB.GetCode(addr))\<close>.\<close>

definition load_code :: "evm_env \<Rightarrow> address \<Rightarrow> contract \<Rightarrow> evm \<Rightarrow> contract \<times> evm" where
  "load_code env addr c e =
     (let (h, s) = GetCodeHash (ee_db env) addr (StateDB e);
          (code, s) = GetCode (ee_db env) addr s
      in (SetCallCode addr h code c, e\<lparr>StateDB := s\<rparr>))"

definition Call ::
  "evm_env \<Rightarrow> runner \<Rightarrow> contract_ref \<Rightarrow> address \<Rightarrow> bytes \<Rightarrow> u64 \<Rightarrow> int \<Rightarrow> evm \<Rightarrow> call_result" where
  "Call env run caller addr input gas value e =
     (if NoRecursion env \<and> evm_depth e > 0 then Ret ((Fresh [], gas, None), e)
      else if evm_depth e > CallCreateDepth then Ret ((Fresh [], gas, Some ErrDepth), e)
      else
        (let b = ee_db env;
             (can, s) = CanTransfer b (ref_Address caller) value (StateDB e)
         in if \<not> can then Ret ((Fresh [], gas, Some ErrInsufficientBalance), e\<lparr>StateDB := s\<rparr>)
            else
              (let (snapshot, s) = Snapshot s;
                   (exist, s) = Exist b addr s
               in if \<not> exist \<and> precompiles env addr = None \<and> value = 0
                  then Ret ((Fresh [], gas, None), e\<lparr>StateDB := s\<rparr>)
                  else
                    (let s = (if \<not> exist then CreateAccount b addr s else s);
                         s = Transfer b (ref_Address caller) addr value s;
                         (c, e) = NewContract caller addr value gas (e\<lparr>StateDB := s\<rparr>);
                         (c, e) = load_code env addr c e
                     in finish_call env snapshot (run c input False e)))))"

definition CallCode ::
  "evm_env \<Rightarrow> runner \<Rightarrow> contract_ref \<Rightarrow> address \<Rightarrow> bytes \<Rightarrow> u64 \<Rightarrow> int \<Rightarrow> evm \<Rightarrow> call_result" where
  "CallCode env run caller addr input gas value e =
     (if NoRecursion env \<and> evm_depth e > 0 then Ret ((Fresh [], gas, None), e)
      else if evm_depth e > CallCreateDepth then Ret ((Fresh [], gas, Some ErrDepth), e)
      else
        (let (can, s) = CanTransfer (ee_db env) (ref_Address caller) value (StateDB e)
         in if \<not> can then Ret ((Fresh [], gas, Some ErrInsufficientBalance), e\<lparr>StateDB := s\<rparr>)
            else
              (let (snapshot, s) = Snapshot s;
                   (c, e) = NewContract caller (ref_Address caller) value gas (e\<lparr>StateDB := s\<rparr>);
                   (c, e) = load_code env addr c e
               in finish_call env snapshot (run c input False e))))"

text \<open>The caller of a delegate call is a contract.\<close>

definition DelegateCall ::
  "evm_env \<Rightarrow> runner \<Rightarrow> contract \<Rightarrow> address \<Rightarrow> bytes \<Rightarrow> u64 \<Rightarrow> evm \<Rightarrow> call_result" where
  "DelegateCall env run parent addr input gas e =
     (if NoRecursion env \<and> evm_depth e > 0 then Ret ((Fresh [], gas, None), e)
      else if evm_depth e > CallCreateDepth then Ret ((Fresh [], gas, Some ErrDepth), e)
      else
        (let (snapshot, s) = Snapshot (StateDB e);
             (c, e) = NewContract (ContractRef parent) (c_self parent) 0 gas (e\<lparr>StateDB := s\<rparr>);
             (c, e) = load_code env addr (AsDelegate parent c) e
         in finish_call env snapshot (run c input False e)))"

definition StaticCall ::
  "evm_env \<Rightarrow> runner \<Rightarrow> contract_ref \<Rightarrow> address \<Rightarrow> bytes \<Rightarrow> u64 \<Rightarrow> evm \<Rightarrow> call_result" where
  "StaticCall env run caller addr input gas e =
     (if NoRecursion env \<and> evm_depth e > 0 then Ret ((Fresh [], gas, None), e)
      else if evm_depth e > CallCreateDepth then Ret ((Fresh [], gas, Some ErrDepth), e)
      else
        (let (snapshot, s) = Snapshot (StateDB e);
             (c, e) = NewContract caller addr 0 gas (e\<lparr>StateDB := s\<rparr>);
             (c, e) = load_code env addr c e;
             e = e\<lparr>StateDB := AddBalance (ee_db env) addr 0 (StateDB e)\<rparr>
         in finish_call env snapshot (run c input True e)))"

section \<open>Contract creation\<close>

type_synonym create_result = "((bytes \<times> address \<times> u64 \<times> vm_error option) \<times> evm) go"

text \<open>The end of \<^verbatim>\<open>create\<close>, after the init code has run: pay for the code and store it, or go back. The input
  of the init code is nil.\<close>

definition finish_create ::
  "evm_env \<Rightarrow> nat \<Rightarrow> address \<Rightarrow> ((ret_slice \<times> vm_error option) \<times> contract \<times> evm) go \<Rightarrow> create_result" where
  "finish_create env snapshot addr r =
     go_bind r (\<lambda>((ret, err), c, e).
       let ret = (case ret of Fresh bs \<Rightarrow> bs | Same \<Rightarrow> []);
           maxCodeSizeExceeded = length ret > MaxCodeSize;
           (err, c, e) =
             (if err = None \<and> \<not> maxCodeSizeExceeded then
                (let createDataGas = of_nat (length ret) * CreateDataGas;
                     (ok, c) = UseGas createDataGas c
                 in if ok then (None, c, e\<lparr>StateDB := SetCode (ee_db env) addr ret (StateDB e)\<rparr>)
                    else (Some ErrCodeStoreOutOfGas, c, e))
              else (err, c, e))
       in if maxCodeSizeExceeded \<or> err \<noteq> None then
            (case RevertToSnapshot (ee_db env) snapshot (StateDB e) of
               None \<Rightarrow> Panic
             | Some s \<Rightarrow>
                 (let c = (if err \<noteq> Some errExecutionReverted then snd (UseGas (c_Gas c) c) else c);
                      err = (if maxCodeSizeExceeded \<and> err = None then Some errMaxCodeSizeExceeded else err)
                  in Ret ((ret, addr, c_Gas c, err), e\<lparr>StateDB := s\<rparr>)))
          else Ret ((ret, addr, c_Gas c, err), e))"

definition create ::
  "evm_env \<Rightarrow> runner \<Rightarrow> contract_ref \<Rightarrow> bytes \<Rightarrow> hash \<Rightarrow> u64 \<Rightarrow> int \<Rightarrow> address \<Rightarrow> evm \<Rightarrow> create_result" where
  "create env run caller code codeHash gas value addr e =
     (if evm_depth e > CallCreateDepth then Ret (([], 0, gas, Some ErrDepth), e)
      else
        (let b = ee_db env;
             (can, s) = CanTransfer b (ref_Address caller) value (StateDB e)
         in if \<not> can then Ret (([], 0, gas, Some ErrInsufficientBalance), e\<lparr>StateDB := s\<rparr>)
            else
              (let (nonce, s) = GetNonce b (ref_Address caller) s;
                   s = SetNonce b (ref_Address caller) (nonce + 1) s;
                   (contractHash, s) = GetCodeHash b addr s;
                   (n, s) = GetNonce b addr s
               in if n \<noteq> 0 \<or> (contractHash \<noteq> 0 \<and> contractHash \<noteq> emptyCodeHash b)
                  then Ret (([], 0, 0, Some ErrContractAddressCollision), e\<lparr>StateDB := s\<rparr>)
                  else
                    (let (snapshot, s) = Snapshot s;
                         s = CreateAccount b addr s;
                         s = SetNonce b addr 1 s;
                         s = Transfer b (ref_Address caller) addr value s;
                         (c, e) = NewContract caller addr value gas (e\<lparr>StateDB := s\<rparr>);
                         c = SetCallCode addr codeHash code c
                     in if NoRecursion env \<and> evm_depth e > 0 then Ret (([], addr, gas, None), e)
                        else finish_create env snapshot addr (run c [] False e)))))"

definition evm_Create ::
  "evm_env \<Rightarrow> runner \<Rightarrow> contract_ref \<Rightarrow> bytes \<Rightarrow> u64 \<Rightarrow> int \<Rightarrow> evm \<Rightarrow> create_result" where
  "evm_Create env run caller code gas value e =
     (let (nonce, s) = GetNonce (ee_db env) (ref_Address caller) (StateDB e);
          addr = CreateAddress (ee_db env) (ref_Address caller) nonce
      in create env run caller code 0 gas value addr (e\<lparr>StateDB := s\<rparr>))"

definition evm_Create2 ::
  "evm_env \<Rightarrow> runner \<Rightarrow> contract_ref \<Rightarrow> bytes \<Rightarrow> u64 \<Rightarrow> int \<Rightarrow> int \<Rightarrow> evm \<Rightarrow> create_result" where
  "evm_Create2 env run caller code gas endowment salt e =
     (let h = keccak256 (ee_db env) code;
          addr = CreateAddress2 (ee_db env) (ref_Address caller) (BigToHash salt) (hash_bytes h)
      in create env run caller code h gas endowment addr e)"

section \<open>The call instructions\<close>

text \<open>The argument range as bytes and as the slice of the memory it is.\<close>

definition mem_args :: "int \<Rightarrow> int \<Rightarrow> memory \<Rightarrow> (bytes \<times> slice) option" where
  "mem_args off sz m =
     do {
       args \<leftarrow> mem_GetPtr (big_Int64 off) (big_Int64 sz) m;
       Some (args, if args = [] then Own [] else MemRef (nat (big_Int64 off)) (length args))
     }"

fun ret_to_slice :: "slice \<Rightarrow> ret_slice \<Rightarrow> slice" where
  "ret_to_slice input (Fresh bs) = Own bs"
| "ret_to_slice input Same = input"

text \<open>The common end of the call instructions: push the flag, copy the output into the memory, take back the gas that is left.\<close>

definition finish_op_call :: "int \<Rightarrow> int \<Rightarrow> slice \<Rightarrow> stack \<Rightarrow> frame \<Rightarrow> call_result \<Rightarrow> exec_result" where
  "finish_op_call retOffset retSize args st f r =
     go_bind r (\<lambda>((ret, returnGas, err), e).
       let sl = ret_to_slice args ret;
           st = stack_push (if err \<noteq> None then 0 else 1) st;
           c = f_contract f in
       go_of (do {
         m \<leftarrow> (if err = None \<or> err = Some errExecutionReverted
               then mem_Set (big_Uint64 retOffset) (big_Uint64 retSize) (slice_bytes (f_mem f) sl) (f_mem f)
               else Some (f_mem f));
         Some (Inr sl, f\<lparr>f_mem := m, f_stack := st, f_contract := c\<lparr>c_Gas := c_Gas c + returnGas\<rparr>\<rparr>, e)
       }))"

definition opCall :: executionFunc where
  "opCall env run f e =
     (case f_stack f of
        _ # addr # value # inOffset # inSize # retOffset # retSize # st \<Rightarrow>
          (let value = U256 value;
               gas = callGasTemp e + (if value \<noteq> 0 then CallStipend else 0)
           in go_bind (go_of (mem_args inOffset inSize (f_mem f))) (\<lambda>(args, sl).
                finish_op_call retOffset retSize sl st f
                  (Call env run (ContractRef (f_contract f)) (BigToAddress addr) args gas value e)))
      | _ \<Rightarrow> Panic)"

definition opCallCode :: executionFunc where
  "opCallCode env run f e =
     (case f_stack f of
        _ # addr # value # inOffset # inSize # retOffset # retSize # st \<Rightarrow>
          (let value = U256 value;
               gas = callGasTemp e + (if value \<noteq> 0 then CallStipend else 0)
           in go_bind (go_of (mem_args inOffset inSize (f_mem f))) (\<lambda>(args, sl).
                finish_op_call retOffset retSize sl st f
                  (CallCode env run (ContractRef (f_contract f)) (BigToAddress addr) args gas value e)))
      | _ \<Rightarrow> Panic)"

definition opDelegateCall :: executionFunc where
  "opDelegateCall env run f e =
     (case f_stack f of
        _ # addr # inOffset # inSize # retOffset # retSize # st \<Rightarrow>
          go_bind (go_of (mem_args inOffset inSize (f_mem f))) (\<lambda>(args, sl).
            finish_op_call retOffset retSize sl st f
              (DelegateCall env run (f_contract f) (BigToAddress addr) args (callGasTemp e) e))
      | _ \<Rightarrow> Panic)"

definition opStaticCall :: executionFunc where
  "opStaticCall env run f e =
     (case f_stack f of
        _ # addr # inOffset # inSize # retOffset # retSize # st \<Rightarrow>
          go_bind (go_of (mem_args inOffset inSize (f_mem f))) (\<lambda>(args, sl).
            finish_op_call retOffset retSize sl st f
              (StaticCall env run (ContractRef (f_contract f)) (BigToAddress addr) args (callGasTemp e) e))
      | _ \<Rightarrow> Panic)"

definition finish_op_create :: "stack \<Rightarrow> frame \<Rightarrow> create_result \<Rightarrow> exec_result" where
  "finish_op_create st f r =
     go_bind r (\<lambda>((res, addr, returnGas, suberr), e).
       let st = stack_push (if suberr \<noteq> None then 0 else SetBytes (addr_bytes addr)) st;
           c = f_contract f;
           f = f\<lparr>f_stack := st, f_contract := c\<lparr>c_Gas := c_Gas c + returnGas\<rparr>\<rparr>
       in if suberr = Some errExecutionReverted then Ret (Inr (Own res), f, e)
          else Ret (Inr (Own []), f, e))"

definition opCreate :: executionFunc where
  "opCreate env run f e =
     (case f_stack f of
        value # offset # sz # st \<Rightarrow>
          go_bind (go_of (mem_GetCopy (big_Int64 offset) (big_Int64 sz) (f_mem f))) (\<lambda>input.
            let gas = c_Gas (f_contract f);
                gas = gas - gas div 64;
                (_, c) = UseGas gas (f_contract f)
            in finish_op_create st (f\<lparr>f_contract := c\<rparr>) (evm_Create env run (ContractRef c) input gas value e))
      | _ \<Rightarrow> Panic)"

definition opCreate2 :: executionFunc where
  "opCreate2 env run f e =
     (case f_stack f of
        endowment # offset # sz # salt # st \<Rightarrow>
          go_bind (go_of (mem_GetCopy (big_Int64 offset) (big_Int64 sz) (f_mem f))) (\<lambda>input.
            let gas = c_Gas (f_contract f);
                gas = gas - gas div 64;
                (_, c) = UseGas gas (f_contract f)
            in finish_op_create st (f\<lparr>f_contract := c\<rparr>) (evm_Create2 env run (ContractRef c) input gas endowment salt e))
      | _ \<Rightarrow> Panic)"

end
