(* ===== verification/Evm_Table.thy ===== *)
theory Evm_Table
  imports Evm_Calls
begin

text \<open>
  The instruction tables of \<^verbatim>\<open>src/core/vm/jump_table.go\<close> with the switches of \<^verbatim>\<open>eips.go\<close>: for each opcode its
  instruction, its prices, the stack it needs and may leave, the memory it needs and its flags. The tables of
  later rule sets change earlier ones; \<^verbatim>\<open>NewEVMInterpreter\<close> picks one.
\<close>

section \<open>Operations\<close>

record operation =
  o_execute :: executionFunc
  o_constantGas :: u64
  o_dynamicGas :: "gasFunc option"
  o_minStack :: int
  o_maxStack :: int
  o_memorySize :: "memorySizeFunc option"
  o_halts :: bool
  o_jumps :: bool
  o_writes :: bool
  o_valid :: bool
  o_reverts :: bool
  o_returns :: bool

type_synonym JumpTable = "byte \<Rightarrow> operation"

text \<open>The zero value of the Go struct, an opcode that is not defined.\<close>

definition no_operation :: operation where
  "no_operation =
     \<lparr>o_execute = (\<lambda>env run f e. Panic), o_constantGas = 0, o_dynamicGas = None, o_minStack = 0, o_maxStack = 0,
      o_memorySize = None, o_halts = False, o_jumps = False, o_writes = False, o_valid = False, o_reverts = False,
      o_returns = False\<rparr>"

text \<open>An instruction that takes \<open>pops\<close> items and leaves \<open>push\<close>, with the other fields zero.\<close>

definition operation_of :: "executionFunc \<Rightarrow> u64 \<Rightarrow> nat \<Rightarrow> nat \<Rightarrow> operation" where
  "operation_of ex gas pops push =
     no_operation\<lparr>o_execute := ex, o_constantGas := gas, o_minStack := minStack pops push,
                  o_maxStack := maxStack pops push, o_valid := True\<rparr>"

text \<open>The opcodes of \<^verbatim>\<open>opcodes.go\<close>.\<close>

abbreviation (input) "OP_STOP \<equiv> (0x00 :: byte)"
abbreviation (input) "OP_ADD \<equiv> (0x01 :: byte)"
abbreviation (input) "OP_MUL \<equiv> (0x02 :: byte)"
abbreviation (input) "OP_SUB \<equiv> (0x03 :: byte)"
abbreviation (input) "OP_DIV \<equiv> (0x04 :: byte)"
abbreviation (input) "OP_SDIV \<equiv> (0x05 :: byte)"
abbreviation (input) "OP_MOD \<equiv> (0x06 :: byte)"
abbreviation (input) "OP_SMOD \<equiv> (0x07 :: byte)"
abbreviation (input) "OP_ADDMOD \<equiv> (0x08 :: byte)"
abbreviation (input) "OP_MULMOD \<equiv> (0x09 :: byte)"
abbreviation (input) "OP_EXP \<equiv> (0x0A :: byte)"
abbreviation (input) "OP_SIGNEXTEND \<equiv> (0x0B :: byte)"
abbreviation (input) "OP_LT \<equiv> (0x10 :: byte)"
abbreviation (input) "OP_GT \<equiv> (0x11 :: byte)"
abbreviation (input) "OP_SLT \<equiv> (0x12 :: byte)"
abbreviation (input) "OP_SGT \<equiv> (0x13 :: byte)"
abbreviation (input) "OP_EQ \<equiv> (0x14 :: byte)"
abbreviation (input) "OP_ISZERO \<equiv> (0x15 :: byte)"
abbreviation (input) "OP_AND \<equiv> (0x16 :: byte)"
abbreviation (input) "OP_OR \<equiv> (0x17 :: byte)"
abbreviation (input) "OP_XOR \<equiv> (0x18 :: byte)"
abbreviation (input) "OP_NOT \<equiv> (0x19 :: byte)"
abbreviation (input) "OP_BYTE \<equiv> (0x1A :: byte)"
abbreviation (input) "OP_SHL \<equiv> (0x1B :: byte)"
abbreviation (input) "OP_SHR \<equiv> (0x1C :: byte)"
abbreviation (input) "OP_SAR \<equiv> (0x1D :: byte)"
abbreviation (input) "OP_SHA3 \<equiv> (0x20 :: byte)"
abbreviation (input) "OP_ADDRESS \<equiv> (0x30 :: byte)"
abbreviation (input) "OP_BALANCE \<equiv> (0x31 :: byte)"
abbreviation (input) "OP_ORIGIN \<equiv> (0x32 :: byte)"
abbreviation (input) "OP_CALLER \<equiv> (0x33 :: byte)"
abbreviation (input) "OP_CALLVALUE \<equiv> (0x34 :: byte)"
abbreviation (input) "OP_CALLDATALOAD \<equiv> (0x35 :: byte)"
abbreviation (input) "OP_CALLDATASIZE \<equiv> (0x36 :: byte)"
abbreviation (input) "OP_CALLDATACOPY \<equiv> (0x37 :: byte)"
abbreviation (input) "OP_CODESIZE \<equiv> (0x38 :: byte)"
abbreviation (input) "OP_CODECOPY \<equiv> (0x39 :: byte)"
abbreviation (input) "OP_GASPRICE \<equiv> (0x3A :: byte)"
abbreviation (input) "OP_EXTCODESIZE \<equiv> (0x3B :: byte)"
abbreviation (input) "OP_EXTCODECOPY \<equiv> (0x3C :: byte)"
abbreviation (input) "OP_RETURNDATASIZE \<equiv> (0x3D :: byte)"
abbreviation (input) "OP_RETURNDATACOPY \<equiv> (0x3E :: byte)"
abbreviation (input) "OP_EXTCODEHASH \<equiv> (0x3F :: byte)"
abbreviation (input) "OP_BLOCKHASH \<equiv> (0x40 :: byte)"
abbreviation (input) "OP_COINBASE \<equiv> (0x41 :: byte)"
abbreviation (input) "OP_TIMESTAMP \<equiv> (0x42 :: byte)"
abbreviation (input) "OP_NUMBER \<equiv> (0x43 :: byte)"
abbreviation (input) "OP_DIFFICULTY \<equiv> (0x44 :: byte)"
abbreviation (input) "OP_GASLIMIT \<equiv> (0x45 :: byte)"
abbreviation (input) "OP_CHAINID \<equiv> (0x46 :: byte)"
abbreviation (input) "OP_SELFBALANCE \<equiv> (0x47 :: byte)"
abbreviation (input) "OP_NONCE \<equiv> (0x48 :: byte)"
abbreviation (input) "OP_POP \<equiv> (0x50 :: byte)"
abbreviation (input) "OP_MLOAD \<equiv> (0x51 :: byte)"
abbreviation (input) "OP_MSTORE \<equiv> (0x52 :: byte)"
abbreviation (input) "OP_MSTORE8 \<equiv> (0x53 :: byte)"
abbreviation (input) "OP_SLOAD \<equiv> (0x54 :: byte)"
abbreviation (input) "OP_SSTORE \<equiv> (0x55 :: byte)"
abbreviation (input) "OP_JUMP \<equiv> (0x56 :: byte)"
abbreviation (input) "OP_JUMPI \<equiv> (0x57 :: byte)"
abbreviation (input) "OP_PC \<equiv> (0x58 :: byte)"
abbreviation (input) "OP_MSIZE \<equiv> (0x59 :: byte)"
abbreviation (input) "OP_GAS \<equiv> (0x5A :: byte)"
abbreviation (input) "OP_JUMPDEST \<equiv> (0x5B :: byte)"
abbreviation (input) "OP_PUSH1 \<equiv> (0x60 :: byte)"
abbreviation (input) "OP_LOG0 \<equiv> (0xA0 :: byte)"
abbreviation (input) "OP_LOG1 \<equiv> (0xA1 :: byte)"
abbreviation (input) "OP_LOG2 \<equiv> (0xA2 :: byte)"
abbreviation (input) "OP_LOG3 \<equiv> (0xA3 :: byte)"
abbreviation (input) "OP_LOG4 \<equiv> (0xA4 :: byte)"
abbreviation (input) "OP_CREATE \<equiv> (0xF0 :: byte)"
abbreviation (input) "OP_CALL \<equiv> (0xF1 :: byte)"
abbreviation (input) "OP_CALLCODE \<equiv> (0xF2 :: byte)"
abbreviation (input) "OP_RETURN \<equiv> (0xF3 :: byte)"
abbreviation (input) "OP_DELEGATECALL \<equiv> (0xF4 :: byte)"
abbreviation (input) "OP_CREATE2 \<equiv> (0xF5 :: byte)"
abbreviation (input) "OP_STATICCALL \<equiv> (0xFA :: byte)"
abbreviation (input) "OP_REVERT \<equiv> (0xFD :: byte)"
abbreviation (input) "OP_SELFDESTRUCT \<equiv> (0xFF :: byte)"

section \<open>Frontier\<close>

definition frontier_arithmetic :: "(byte \<times> operation) list" where
  "frontier_arithmetic =
     [(OP_STOP, (operation_of opStop 0 0 0)\<lparr>o_halts := True\<rparr>),
      (OP_ADD, operation_of opAdd GasFastestStep 2 1),
      (OP_MUL, operation_of opMul GasFastStep 2 1),
      (OP_SUB, operation_of opSub GasFastestStep 2 1),
      (OP_DIV, operation_of opDiv GasFastStep 2 1),
      (OP_SDIV, operation_of opSdiv GasFastStep 2 1),
      (OP_MOD, operation_of opMod GasFastStep 2 1),
      (OP_SMOD, operation_of opSmod GasFastStep 2 1),
      (OP_ADDMOD, operation_of opAddmod GasMidStep 3 1),
      (OP_MULMOD, operation_of opMulmod GasMidStep 3 1),
      (OP_EXP, (operation_of opExp 0 2 1)\<lparr>o_dynamicGas := Some gasExpFrontier\<rparr>),
      (OP_SIGNEXTEND, operation_of opSignExtend GasFastStep 2 1)]"

definition frontier_comparison :: "(byte \<times> operation) list" where
  "frontier_comparison =
     [(OP_LT, operation_of opLt GasFastestStep 2 1),
      (OP_GT, operation_of opGt GasFastestStep 2 1),
      (OP_SLT, operation_of opSlt GasFastestStep 2 1),
      (OP_SGT, operation_of opSgt GasFastestStep 2 1),
      (OP_EQ, operation_of opEq GasFastestStep 2 1),
      (OP_ISZERO, operation_of opIszero GasFastestStep 1 1),
      (OP_AND, operation_of opAnd GasFastestStep 2 1),
      (OP_XOR, operation_of opXor GasFastestStep 2 1),
      (OP_OR, operation_of opOr GasFastestStep 2 1),
      (OP_NOT, operation_of opNot GasFastestStep 1 1),
      (OP_BYTE, operation_of opByte GasFastestStep 2 1),
      (OP_SHA3, (operation_of opSha3 Sha3Gas 2 1)\<lparr>o_dynamicGas := Some gasSha3, o_memorySize := Some memorySha3\<rparr>)]"

definition frontier_environment :: "(byte \<times> operation) list" where
  "frontier_environment =
     [(OP_ADDRESS, operation_of opAddress GasQuickStep 0 1),
      (OP_BALANCE, operation_of opBalance BalanceGasFrontier 1 1),
      (OP_ORIGIN, operation_of opOrigin GasQuickStep 0 1),
      (OP_CALLER, operation_of opCaller GasQuickStep 0 1),
      (OP_CALLVALUE, operation_of opCallValue GasQuickStep 0 1),
      (OP_CALLDATALOAD, operation_of opCallDataLoad GasFastestStep 1 1),
      (OP_CALLDATASIZE, operation_of opCallDataSize GasQuickStep 0 1),
      (OP_CALLDATACOPY, (operation_of opCallDataCopy GasFastestStep 3 0)\<lparr>o_dynamicGas := Some gasCallDataCopy, o_memorySize := Some memoryCallDataCopy\<rparr>),
      (OP_CODESIZE, operation_of opCodeSize GasQuickStep 0 1),
      (OP_CODECOPY, (operation_of opCodeCopy GasFastestStep 3 0)\<lparr>o_dynamicGas := Some gasCodeCopy, o_memorySize := Some memoryCodeCopy\<rparr>),
      (OP_GASPRICE, operation_of opGasprice GasQuickStep 0 1),
      (OP_EXTCODESIZE, operation_of opExtCodeSize ExtcodeSizeGasFrontier 1 1),
      (OP_EXTCODECOPY, (operation_of opExtCodeCopy ExtcodeCopyBaseFrontier 4 0)\<lparr>o_dynamicGas := Some gasExtCodeCopy, o_memorySize := Some memoryExtCodeCopy\<rparr>)]"

definition frontier_block :: "(byte \<times> operation) list" where
  "frontier_block =
     [(OP_BLOCKHASH, operation_of opBlockhash GasExtStep 1 1),
      (OP_COINBASE, operation_of opCoinbase GasQuickStep 0 1),
      (OP_TIMESTAMP, operation_of opTimestamp GasQuickStep 0 1),
      (OP_NUMBER, operation_of opNumber GasQuickStep 0 1),
      (OP_DIFFICULTY, operation_of opDifficulty GasQuickStep 0 1),
      (OP_GASLIMIT, operation_of opGasLimit GasQuickStep 0 1)]"

definition frontier_storage :: "(byte \<times> operation) list" where
  "frontier_storage =
     [(OP_POP, operation_of opPop GasQuickStep 1 0),
      (OP_MLOAD, (operation_of opMload GasFastestStep 1 1)\<lparr>o_dynamicGas := Some gasMLoad, o_memorySize := Some memoryMLoad\<rparr>),
      (OP_MSTORE, (operation_of opMstore GasFastestStep 2 0)\<lparr>o_dynamicGas := Some gasMStore, o_memorySize := Some memoryMStore\<rparr>),
      (OP_MSTORE8, (operation_of opMstore8 GasFastestStep 2 0)\<lparr>o_dynamicGas := Some gasMStore8, o_memorySize := Some memoryMStore8\<rparr>),
      (OP_SLOAD, operation_of opSload SloadGasFrontier 1 1),
      (OP_SSTORE, (operation_of opSstore 0 2 0)\<lparr>o_dynamicGas := Some gasSStore, o_writes := True\<rparr>),
      (OP_JUMP, (operation_of opJump GasMidStep 1 0)\<lparr>o_jumps := True\<rparr>),
      (OP_JUMPI, (operation_of opJumpi GasSlowStep 2 0)\<lparr>o_jumps := True\<rparr>),
      (OP_PC, operation_of opPc GasQuickStep 0 1),
      (OP_MSIZE, operation_of opMsize GasQuickStep 0 1),
      (OP_GAS, operation_of opGas GasQuickStep 0 1),
      (OP_JUMPDEST, operation_of opJumpdest JumpdestGas 0 0),
      (OP_PUSH1, operation_of opPush1 GasFastestStep 0 1)]"

definition frontier_push_low :: "(byte \<times> operation) list" where
  "frontier_push_low =
     map (\<lambda>n. (of_nat (0x5F + n), operation_of (makePush (of_nat n) n) GasFastestStep 0 1)) [2..<17]"

definition frontier_push_high :: "(byte \<times> operation) list" where
  "frontier_push_high =
     map (\<lambda>n. (of_nat (0x5F + n), operation_of (makePush (of_nat n) n) GasFastestStep 0 1)) [17..<33]"

definition frontier_dup :: "(byte \<times> operation) list" where
  "frontier_dup =
     map (\<lambda>n. (of_nat (0x7F + n), (operation_of (makeDup n) GasFastestStep 0 1)\<lparr>o_minStack := minDupStack n, o_maxStack := maxDupStack n\<rparr>)) [1..<17]"

definition frontier_swap :: "(byte \<times> operation) list" where
  "frontier_swap =
     map (\<lambda>n. (of_nat (0x8F + n), (operation_of (makeSwap n) GasFastestStep 0 0)\<lparr>o_minStack := minSwapStack (n + 1), o_maxStack := maxSwapStack (n + 1)\<rparr>)) [1..<17]"

definition frontier_log :: "(byte \<times> operation) list" where
  "frontier_log =
     [(OP_LOG0, (operation_of (makeLog 0) 0 2 0)\<lparr>o_dynamicGas := Some (makeGasLog 0), o_memorySize := Some memoryLog, o_writes := True\<rparr>),
      (OP_LOG1, (operation_of (makeLog 1) 0 3 0)\<lparr>o_dynamicGas := Some (makeGasLog 1), o_memorySize := Some memoryLog, o_writes := True\<rparr>),
      (OP_LOG2, (operation_of (makeLog 2) 0 4 0)\<lparr>o_dynamicGas := Some (makeGasLog 2), o_memorySize := Some memoryLog, o_writes := True\<rparr>),
      (OP_LOG3, (operation_of (makeLog 3) 0 5 0)\<lparr>o_dynamicGas := Some (makeGasLog 3), o_memorySize := Some memoryLog, o_writes := True\<rparr>),
      (OP_LOG4, (operation_of (makeLog 4) 0 6 0)\<lparr>o_dynamicGas := Some (makeGasLog 4), o_memorySize := Some memoryLog, o_writes := True\<rparr>)]"

definition frontier_calls :: "(byte \<times> operation) list" where
  "frontier_calls =
     [(OP_CREATE, (operation_of opCreate CreateGas 3 1)\<lparr>o_dynamicGas := Some gasCreate, o_memorySize := Some memoryCreate, o_writes := True, o_returns := True\<rparr>),
      (OP_CALL, (operation_of opCall CallGasFrontier 7 1)\<lparr>o_dynamicGas := Some gasCall, o_memorySize := Some memoryCall, o_returns := True\<rparr>),
      (OP_CALLCODE, (operation_of opCallCode CallGasFrontier 7 1)\<lparr>o_dynamicGas := Some gasCallCode, o_memorySize := Some memoryCall, o_returns := True\<rparr>),
      (OP_RETURN, (operation_of opReturn 0 2 0)\<lparr>o_dynamicGas := Some gasReturn, o_memorySize := Some memoryReturn, o_halts := True\<rparr>),
      (OP_SELFDESTRUCT, (operation_of opSuicide 0 1 0)\<lparr>o_dynamicGas := Some gasSelfdestruct, o_halts := True, o_writes := True\<rparr>)]"

text \<open>The table as a Go array literal: the opcodes it does not name are invalid.\<close>

definition newFrontierInstructionSet :: JumpTable where
  "newFrontierInstructionSet op =
     (case map_of (frontier_arithmetic @ frontier_comparison @ frontier_environment @ frontier_block @ frontier_storage @ frontier_push_low @ frontier_push_high @ frontier_dup @ frontier_swap @ frontier_log @ frontier_calls) op of
        None \<Rightarrow> no_operation
      | Some x \<Rightarrow> x)"

section \<open>Later rule sets\<close>

definition newHomesteadInstructionSet :: JumpTable where
  "newHomesteadInstructionSet =
     newFrontierInstructionSet
       (OP_DELEGATECALL := (operation_of opDelegateCall CallGasFrontier 6 1)
          \<lparr>o_dynamicGas := Some gasDelegateCall, o_memorySize := Some memoryDelegateCall, o_returns := True\<rparr>)"

definition set_constantGas :: "byte \<Rightarrow> u64 \<Rightarrow> JumpTable \<Rightarrow> JumpTable" where
  "set_constantGas op gas jt = jt(op := (jt op)\<lparr>o_constantGas := gas\<rparr>)"

definition set_dynamicGas :: "byte \<Rightarrow> gasFunc \<Rightarrow> JumpTable \<Rightarrow> JumpTable" where
  "set_dynamicGas op g jt = jt(op := (jt op)\<lparr>o_dynamicGas := Some g\<rparr>)"

definition newTangerineWhistleInstructionSet :: JumpTable where
  "newTangerineWhistleInstructionSet =
     (let jt = newHomesteadInstructionSet;
          jt = set_constantGas OP_BALANCE BalanceGasEIP150 jt;
          jt = set_constantGas OP_EXTCODESIZE ExtcodeSizeGasEIP150 jt;
          jt = set_constantGas OP_SLOAD SloadGasEIP150 jt;
          jt = set_constantGas OP_EXTCODECOPY ExtcodeCopyBaseEIP150 jt;
          jt = set_constantGas OP_CALL CallGasEIP150 jt;
          jt = set_constantGas OP_CALLCODE CallGasEIP150 jt;
          jt = set_constantGas OP_DELEGATECALL CallGasEIP150 jt
      in jt)"

definition newSpuriousDragonInstructionSet :: JumpTable where
  "newSpuriousDragonInstructionSet = set_dynamicGas OP_EXP gasExpEIP158 newTangerineWhistleInstructionSet"

definition newByzantiumInstructionSet :: JumpTable where
  "newByzantiumInstructionSet =
     newSpuriousDragonInstructionSet
       (OP_STATICCALL := (operation_of opStaticCall CallGasEIP150 6 1)
          \<lparr>o_dynamicGas := Some gasStaticCall, o_memorySize := Some memoryStaticCall, o_returns := True\<rparr>,
        OP_RETURNDATASIZE := operation_of opReturnDataSize GasQuickStep 0 1,
        OP_RETURNDATACOPY := (operation_of opReturnDataCopy GasFastestStep 3 0)
          \<lparr>o_dynamicGas := Some gasReturnDataCopy, o_memorySize := Some memoryReturnDataCopy\<rparr>,
        OP_REVERT := (operation_of opRevert 0 2 0)
          \<lparr>o_dynamicGas := Some gasRevert, o_memorySize := Some memoryRevert, o_reverts := True, o_returns := True\<rparr>)"

definition newConstantinopleInstructionSet :: JumpTable where
  "newConstantinopleInstructionSet =
     newByzantiumInstructionSet
       (OP_SHL := operation_of opSHL GasFastestStep 2 1,
        OP_SHR := operation_of opSHR GasFastestStep 2 1,
        OP_SAR := operation_of opSAR GasFastestStep 2 1,
        OP_EXTCODEHASH := operation_of opExtCodeHash ExtcodeHashGasConstantinople 1 1,
        OP_CREATE2 := (operation_of opCreate2 Create2Gas 4 1)
          \<lparr>o_dynamicGas := Some gasCreate2, o_memorySize := Some memoryCreate2, o_writes := True, o_returns := True\<rparr>)"

text \<open>\<^verbatim>\<open>eips.go\<close>.\<close>

definition enable1344 :: "JumpTable \<Rightarrow> JumpTable" where
  "enable1344 jt = jt(OP_CHAINID := operation_of opChainID GasQuickStep 0 1)"

definition enable1884 :: "JumpTable \<Rightarrow> JumpTable" where
  "enable1884 jt =
     (let jt = set_constantGas OP_BALANCE BalanceGasEIP1884 jt;
          jt = set_constantGas OP_EXTCODEHASH ExtcodeHashGasEIP1884 jt;
          jt = set_constantGas OP_SLOAD SloadGasEIP1884 jt
      in jt(OP_SELFBALANCE := operation_of opSelfBalance GasFastStep 0 1))"

definition enable2200 :: "JumpTable \<Rightarrow> JumpTable" where
  "enable2200 jt = set_dynamicGas OP_SSTORE gasSStoreEIP2200 jt"

definition enableNonce :: "JumpTable \<Rightarrow> JumpTable" where
  "enableNonce jt = jt(OP_NONCE := operation_of opNonce GasQuickStep 0 1)"

definition EnableEIP :: "nat \<Rightarrow> JumpTable \<Rightarrow> JumpTable option" where
  "EnableEIP eipNum jt =
     (if eipNum = 2200 then Some (enable2200 jt)
      else if eipNum = 1884 then Some (enable1884 jt)
      else if eipNum = 1344 then Some (enable1344 jt)
      else None)"

definition newSingularityInstructionSet :: JumpTable where
  "newSingularityInstructionSet = enable2200 (enable1884 (enable1344 newConstantinopleInstructionSet))"

text \<open>The loop of \<^verbatim>\<open>NewEVMInterpreter\<close> over \<^verbatim>\<open>cfg.ExtraEips\<close>. It ranges over the array as it was at the start; a number that
  \<^verbatim>\<open>EnableEIP\<close> does not know is cut out of the slice in place, so the later elements move under the
  loop. \<open>n\<close> rounds are left, \<open>i\<close> is the index, \<open>arr\<close> the backing array and \<open>len\<close> the length of the slice.\<close>

fun enable_loop :: "nat \<Rightarrow> nat \<Rightarrow> nat list \<Rightarrow> nat \<Rightarrow> JumpTable \<Rightarrow> (nat list \<times> JumpTable) option" where
  "enable_loop 0 i arr len jt = Some (take len arr, jt)"
| "enable_loop (Suc n) i arr len jt =
     (case EnableEIP (arr ! i) jt of
        Some jt \<Rightarrow> enable_loop n (i + 1) arr len jt
      | None \<Rightarrow>
          (if len < i + 1 then None
           else enable_loop n (i + 1) (take i arr @ take (len - (i + 1)) (drop (i + 1) arr) @ drop (len - 1) arr)
                  (len - 1) jt))"

text \<open>The table and the list of active EIPs that \<^verbatim>\<open>NewEVMInterpreter\<close> builds when the configuration brings no table.\<close>

definition NewEVMInterpreter :: "evm_env \<Rightarrow> (nat list \<times> JumpTable) option" where
  "NewEVMInterpreter env =
     map_option (\<lambda>(eips, jt). (eips, enableNonce jt))
       (enable_loop (length (ExtraEips env)) 0 (ExtraEips env) (length (ExtraEips env))
         (if IsSingularity env then newSingularityInstructionSet else newConstantinopleInstructionSet))"

text \<open>The table of a machine; there is no machine when building it panics.\<close>

definition interpreter_table :: "evm_env \<Rightarrow> JumpTable" where
  "interpreter_table env = (case NewEVMInterpreter env of Some (_, jt) \<Rightarrow> jt | None \<Rightarrow> \<lambda>_. no_operation)"


section \<open>The extra EIPs\<close>

definition known_eip :: "nat \<Rightarrow> bool" where
  "known_eip n \<longleftrightarrow> n = 2200 \<or> n = 1884 \<or> n = 1344"

lemma EnableEIP_known: "EnableEIP n jt = None \<longleftrightarrow> \<not> known_eip n"
  by (simp add: EnableEIP_def known_eip_def)

lemma enable_loop_known:
  assumes "list_all known_eip (drop i arr)" "i + n = length arr"
  shows "enable_loop n i arr (length arr) jt = Some (arr, fold (\<lambda>eip jt. the (EnableEIP eip jt)) (drop i arr) jt)"
  using assms
proof (induction n arbitrary: i jt)
  case (Suc n)
  then have d: "drop i arr = arr ! i # drop (i + 1) arr"
    by (simp add: Cons_nth_drop_Suc)
  then obtain jt' where "EnableEIP (arr ! i) jt = Some jt'"
    using Suc.prems(1) EnableEIP_known [of "arr ! i" jt] by auto
  then show ?case
    using Suc.IH [of "i + 1" jt'] Suc.prems d by simp
qed simp



end
