(* ===== verification/Evm_Run.thy ===== *)
theory Evm_Run
  imports Evm_Table
begin

text \<open>
  The interpreter loop of \<^verbatim>\<open>src/core/vm/interpreter.go\<close>. One round of the loop checks the stack, the write protection
  and the gas, resizes the memory and executes the instruction. The loop has fuel for one
  round more than there is gas, and the nesting of frames is bounded by the call depth limit; that
  both are enough is proved in the theory \<^verbatim>\<open>Evm_Safety\<close>.
\<close>

section \<open>One instruction\<close>

text \<open>The memory an instruction asks for, in bytes rounded up to words.\<close>

definition requested_memory :: "operation \<Rightarrow> stack \<Rightarrow> gas_result option" where
  "requested_memory operation st =
     (case o_memorySize operation of
        None \<Rightarrow> Some (Inr 0)
      | Some memorySize \<Rightarrow>
          do {
            (memSize, overflow) \<leftarrow> memorySize st;
            if overflow then Some (Inl errGasUintOverflow)
            else Some (checked (SafeMul (toWordSize memSize) 32))
          })"

text \<open>\<^verbatim>\<open>mem.Resize\<close>. Return data that lies in the memory stays behind in the old array when the store moves.\<close>

definition resize :: "evm_env \<Rightarrow> u64 \<Rightarrow> memory \<Rightarrow> evm \<Rightarrow> memory \<times> evm" where
  "resize env memorySize m e =
     (let m' = mem_Resize (ee_grow env) memorySize m in
      if mem_cap m < unat memorySize
      then (m', e\<lparr>returnData := Own (slice_bytes m (returnData e))\<rparr>)
      else (m', e))"

text \<open>Gas and memory for one instruction: an error, or the frame that is ready to execute it.\<close>

definition charge :: "evm_env \<Rightarrow> operation \<Rightarrow> frame \<Rightarrow> evm \<Rightarrow> (vm_error option \<times> frame \<times> evm) option" where
  "charge env operation f e =
     (let (ok, c) = UseGas (o_constantGas operation) (f_contract f) in
      if \<not> ok then Some (Some ErrOutOfGas, f\<lparr>f_contract := c\<rparr>, e)
      else do {
        r \<leftarrow> requested_memory operation (f_stack f);
        case r of
          Inl er \<Rightarrow> Some (Some er, f\<lparr>f_contract := c\<rparr>, e)
        | Inr memorySize \<Rightarrow>
            do {
              (g, m, e) \<leftarrow> (case o_dynamicGas operation of
                              None \<Rightarrow> Some (Inr 0, f_mem f, e)
                            | Some dynamicGas \<Rightarrow> dynamicGas env c (f_stack f) (f_mem f) memorySize e);
              case g of
                Inl er \<Rightarrow> Some (Some ErrOutOfGas, f\<lparr>f_contract := c, f_mem := m\<rparr>, e)
              | Inr dynamicCost \<Rightarrow>
                  (let (ok, c) = UseGas dynamicCost c in
                   if \<not> ok then Some (Some ErrOutOfGas, f\<lparr>f_contract := c, f_mem := m\<rparr>, e)
                   else
                     (let (m, e) = (if memorySize > 0 then resize env memorySize m e else (m, e))
                      in Some (None, f\<lparr>f_contract := c, f_mem := m\<rparr>, e)))
            }
      })"

text \<open>The end of a round: \<open>Some\<close> result leaves the loop.\<close>

type_synonym step_result = "((bytes \<times> vm_error option) option \<times> frame \<times> evm) go"

definition execute_op :: "evm_env \<Rightarrow> runner \<Rightarrow> operation \<Rightarrow> frame \<Rightarrow> evm \<Rightarrow> step_result" where
  "execute_op env run operation f e =
     go_bind (o_execute operation env run f e) (\<lambda>(r, f, e).
       let res = (case r of Inl _ \<Rightarrow> Own [] | Inr sl \<Rightarrow> sl);
           e = (if o_returns operation then e\<lparr>returnData := res\<rparr> else e)
       in case r of
            Inl er \<Rightarrow> Ret (Some ([], Some er), f, e)
          | Inr sl \<Rightarrow>
              (if o_reverts operation then Ret (Some (slice_bytes (f_mem f) sl, Some errExecutionReverted), f, e)
               else if o_halts operation then Ret (Some (slice_bytes (f_mem f) sl, None), f, e)
               else if \<not> o_jumps operation then Ret (None, f\<lparr>f_pc := f_pc f + 1\<rparr>, e)
               else Ret (None, f, e)))"

definition fails :: "vm_error \<Rightarrow> frame \<Rightarrow> evm \<Rightarrow> step_result" where
  "fails er f e = Ret (Some ([], Some er), f, e)"

definition step :: "evm_env \<Rightarrow> runner \<Rightarrow> frame \<Rightarrow> evm \<Rightarrow> step_result" where
  "step env run f e =
     (let op = GetOp (f_pc f) (f_contract f);
          operation = interpreter_table env op;
          sLen = int (stack_len (f_stack f))
      in if \<not> o_valid operation then fails (errInvalidOpcode op) f e
         else if sLen < o_minStack operation then fails errStackUnderflow f e
         else if sLen > o_maxStack operation then fails errStackLimit f e
         else
           go_bind (go_of (if readOnly e then
                             (if o_writes operation then Some True
                              else if op = OP_CALL then map_option (\<lambda>x. x \<noteq> 0) (stack_Back 2 (f_stack f))
                              else Some False)
                           else Some False)) (\<lambda>protected.
             if protected then fails errWriteProtection f e
             else
               go_bind (go_of (charge env operation f e)) (\<lambda>(err, f, e).
                 case err of
                   Some er \<Rightarrow> fails er f e
                 | None \<Rightarrow> execute_op env run operation f e)))"

section \<open>The loop\<close>

fun Run_loop ::
  "nat \<Rightarrow> evm_env \<Rightarrow> runner \<Rightarrow> frame \<Rightarrow> evm \<Rightarrow> ((bytes \<times> vm_error option) \<times> contract \<times> evm) go" where
  "Run_loop 0 env run f e = NoFuel"
| "Run_loop (Suc n) env run f e =
     go_bind (step env run f e) (\<lambda>(r, f, e).
       case r of
         Some res \<Rightarrow> Ret (res, f_contract f, e)
       | None \<Rightarrow> Run_loop n env run f e)"

definition Run :: "evm_env \<Rightarrow> runner \<Rightarrow> interpreter" where
  "Run env run c input ro e =
     (let setro = (ro \<and> \<not> readOnly e);
          e = e\<lparr>evm_depth := evm_depth e + 1, readOnly := readOnly e \<or> ro, returnData := Own []\<rparr>;
          r = (if c_Code c = [] then Ret (([], None), c, e)
               else Run_loop (unat (c_Gas c) + 1) env run
                      \<lparr>f_pc = 0, f_mem = NewMemory, f_stack = [], f_contract = c\<lparr>c_Input := input\<rparr>\<rparr> e)
      in go_bind r (\<lambda>(res, c, e).
           Ret (res, c, e\<lparr>evm_depth := evm_depth e - 1, readOnly := (if setro then False else readOnly e)\<rparr>)))"

text \<open>Frames nest: a frame runs its callees with one level less.\<close>

fun interp :: "nat \<Rightarrow> evm_env \<Rightarrow> interpreter" where
  "interp 0 env c input ro e = NoFuel"
| "interp (Suc d) env c input ro e = Run env (evm_run env (interp d env)) c input ro e"

definition evm_runner :: "nat \<Rightarrow> evm_env \<Rightarrow> runner" where
  "evm_runner d env = evm_run env (interp d env)"

text \<open>The levels that the depth limit leaves to a machine at depth zero.\<close>

definition max_levels :: nat where
  "max_levels = CallCreateDepth + 1"

end
