(* ===== verification/Evm_Arith.thy ===== *)
theory Evm_Arith
  imports Evm_Instructions
begin

text \<open>
  The arithmetic instructions work on unbounded integers and cut the result back to 256 bits. On
  stack items that are 256-bit words they compute the operations of that word type: modular arithmetic, signed and
  unsigned division with zero for a zero divisor, comparisons, shifts and sign extension.
\<close>

section \<open>What an instruction computes\<close>

type_synonym w256 = "256 word"

definition computes1 :: "executionFunc \<Rightarrow> (w256 \<Rightarrow> w256) \<Rightarrow> bool" where
  "computes1 op w \<longleftrightarrow>
     (\<forall>env run f e a st. op env run (f\<lparr>f_stack := uint a # st\<rparr>) e = next_stack (uint (w a) # st) f e)"

definition computes2 :: "executionFunc \<Rightarrow> (w256 \<Rightarrow> w256 \<Rightarrow> w256) \<Rightarrow> bool" where
  "computes2 op w \<longleftrightarrow>
     (\<forall>env run f e a b st.
        op env run (f\<lparr>f_stack := uint a # uint b # st\<rparr>) e = next_stack (uint (w a b) # st) f e)"

definition computes3 :: "executionFunc \<Rightarrow> (w256 \<Rightarrow> w256 \<Rightarrow> w256 \<Rightarrow> w256) \<Rightarrow> bool" where
  "computes3 op w \<longleftrightarrow>
     (\<forall>env run f e a b c st.
        op env run (f\<lparr>f_stack := uint a # uint b # uint c # st\<rparr>) e = next_stack (uint (w a b c) # st) f e)"

lemma next_stack_update [simp]: "next_stack st (f\<lparr>f_stack := x\<rparr>) e = next_stack st f e"
  by (simp add: next_stack_def)

lemma computes1_op: "(\<And>a. g (uint a) = uint (w a)) \<Longrightarrow> computes1 (op_unary g) w"
  by (simp add: computes1_def op_unary_def stack_push_def)

lemma computes2_op: "(\<And>a b. g (uint a) (uint b) = uint (w a b)) \<Longrightarrow> computes2 (op_binary g) w"
  by (simp add: computes2_def op_binary_def stack_push_def)

lemma computes3_op: "(\<And>a b c. g (uint a) (uint b) (uint c) = uint (w a b c)) \<Longrightarrow> computes3 (op_ternary g) w"
  by (simp add: computes3_def op_ternary_def stack_push_def)

text \<open>Word operations as the integers that the code computes with.\<close>

lemma uint_w256: "uint (a :: w256) < tt256"
  using unsigned_less [of a, where ?'a = int] by simp

lemmas uint_w256_less [simp] = uint_w256 [simplified]

lemma U256_uint [simp]: "U256 (uint (a :: w256)) = uint a"
  by (rule U256_small [OF unsigned_greater_eq uint_w256])

lemma S256_uint: "S256 (uint (a :: w256)) = sint a"
  using S256_sint [OF unsigned_greater_eq uint_w256] by simp

lemma bool_int_uint: "bool_int p = uint (if p then 1 else 0 :: w256)"
  by (simp add: bool_int_def)

lemma bool_word_uint: "(if p then 1 else 0) = uint (if p then 1 else 0 :: w256)"
  by simp

lemma uint_eq_0: "uint (b :: w256) = 0 \<longleftrightarrow> b = 0"
  by (simp add: uint_0_iff)

lemma big_Div_nonneg: "0 \<le> y \<Longrightarrow> big_Div x y = x div y"
  by (auto simp: big_Div_def)

lemma computes_Add: "computes2 opAdd (+)"
  unfolding opAdd_def by (rule computes2_op) (simp add: U256_word)

lemma computes_Sub: "computes2 opSub (-)"
  unfolding opSub_def by (rule computes2_op) (simp add: U256_word)

lemma computes_Mul: "computes2 opMul (*)"
  unfolding opMul_def by (rule computes2_op) (simp add: U256_word)

lemma computes_Div: "computes2 opDiv (div)"
  unfolding opDiv_def
  by (rule computes2_op) (simp add: big_Div_nonneg uint_eq_0 U256_word uint_div [symmetric])

lemma computes_Mod: "computes2 opMod (\<lambda>a b. if b = 0 then 0 else a mod b)"
  unfolding opMod_def
  by (rule computes2_op) (simp add: big_Mod_def uint_eq_0 U256_word uint_mod [symmetric])

lemma computes_Sdiv:
  "computes2 opSdiv (\<lambda>a b. word_of_int (sgn (sint a) * sgn (sint b) * (\<bar>sint a\<bar> div \<bar>sint b\<bar>)))"
  unfolding opSdiv_def
proof (rule computes2_op)
  fix a b :: w256
  show "(let x = S256 (uint a); y = S256 (uint b) in
     if y = 0 \<or> x = 0 then 0
     else if sgn x \<noteq> sgn y then U256 (- big_Div \<bar>x\<bar> \<bar>y\<bar>)
     else U256 (big_Div \<bar>x\<bar> \<bar>y\<bar>)) =
     uint (word_of_int (sgn (sint a) * sgn (sint b) * (\<bar>sint a\<bar> div \<bar>sint b\<bar>)) :: w256)"
    unfolding S256_uint Let_def U256_word
    by (auto simp: big_Div_nonneg sgn_if)
qed

lemma computes_Smod:
  "computes2 opSmod (\<lambda>a b. if b = 0 then 0 else word_of_int (sgn (sint a) * (\<bar>sint a\<bar> mod \<bar>sint b\<bar>)))"
  unfolding opSmod_def
proof (rule computes2_op)
  fix a b :: w256
  have "sint b = 0 \<longleftrightarrow> b = 0"
    by (metis sint_0 signed_word_eqI)
  then show "(let x = S256 (uint a); y = S256 (uint b) in
     if y = 0 then 0
     else if x < 0 then U256 (- big_Mod \<bar>x\<bar> \<bar>y\<bar>)
     else U256 (big_Mod \<bar>x\<bar> \<bar>y\<bar>)) =
     uint (if b = 0 then 0 else word_of_int (sgn (sint a) * (\<bar>sint a\<bar> mod \<bar>sint b\<bar>)) :: w256)"
    unfolding S256_uint Let_def U256_word
    by (auto simp: big_Mod_def sgn_if)
qed


lemma uint_pos: "0 < uint (a :: w256) \<longleftrightarrow> a \<noteq> 0"
  using uint_0_iff [of a] unsigned_greater_eq [of a, where ?'a = int] by linarith

lemma uint_eq: "uint (a :: w256) = uint b \<longleftrightarrow> a = b"
  by (simp add: word_uint_eq_iff)

lemma computes_Exp: "computes2 opExp (\<lambda>a b. a ^ unat b)"
  unfolding opExp_def
proof (rule computes2_op)
  fix a b :: w256
  have pow: "uint (a ^ n) = uint a ^ n mod tt256" for n
    by (induction n) (simp_all add: uint_word_ariths mod_mult_right_eq)
  have n: "nat (uint b) = unat b"
    by simp
  show "(let cmpToOne = big_Cmp (uint b) 1 in
     if cmpToOne < 0 then 1 else if uint a = 0 then 0 else if cmpToOne = 0 then uint a else Exp (uint a) (uint b)) =
     uint (a ^ unat b)"
  proof (cases "uint b < 1 \<or> uint a = 0 \<or> uint b = 1")
    case True
    then consider "b = 0" | "uint b \<ge> 1" "a = 0" | "uint b = 1"
      using uint_pos [of b] uint_0_iff [of a] by linarith
    then show ?thesis
    proof cases
      case 2
      then have "0 < unat b" using n by linarith
      then show ?thesis using 2 by (auto simp: Let_def power_0_left)
    next
      case 3
      then have "unat b = 1" using n by linarith
      then show ?thesis using 3 by (auto simp: Let_def)
    qed (simp add: Let_def)
  next
    case False
    then show ?thesis using Exp_correct [of "uint b" "uint a"] pow [of "unat b"] n by (simp add: Let_def)
  qed
qed

lemma computes_Not: "computes1 opNot (\<lambda>a. NOT a)"
  unfolding opNot_def
proof (rule computes1_op)
  fix a :: w256
  have "word_of_int (NOT (uint a)) = NOT a"
    by (rule bit_word_eqI) (simp add: bit_simps)
  then show "U256 (NOT (uint a)) = uint (NOT a)"
    by (simp add: U256_word)
qed

lemma computes_Lt: "computes2 opLt (\<lambda>a b. if a < b then 1 else 0)"
  unfolding opLt_def by (rule computes2_op) (simp add: bool_int_def word_less_def)

lemma computes_Gt: "computes2 opGt (\<lambda>a b. if b < a then 1 else 0)"
  unfolding opGt_def by (rule computes2_op) (simp add: bool_int_def word_less_def)

lemma signed_less:
  "0 \<le> x \<Longrightarrow> x < 2 * h \<Longrightarrow> 0 \<le> y \<Longrightarrow> y < 2 * h \<Longrightarrow>
     (if x < h then x else x - 2 * h) < (if y < h then y else y - 2 * h) \<longleftrightarrow>
     (h \<le> x \<and> y < h) \<or> ((h \<le> x \<longleftrightarrow> h \<le> y) \<and> x < y)" for x y h :: int
  by auto

lemma sless_uint:
  fixes a b :: w256
  shows "a <s b \<longleftrightarrow> (tt255 \<le> uint a \<and> uint b < tt255) \<or> ((tt255 \<le> uint a \<longleftrightarrow> tt255 \<le> uint b) \<and> uint a < uint b)"
proof -
  have "sint c = (if uint c < tt255 then uint c else uint c - 2 * tt255)" for c :: w256
    using S256_uint [of c] by (auto simp: S256_def)
  moreover have "uint c < 2 * tt255" for c :: w256
    using uint_w256 [of c] by simp
  ultimately show ?thesis
    using signed_less [of "uint a" tt255 "uint b", OF unsigned_greater_eq _ unsigned_greater_eq]
    by (simp only: word_sless_alt)
qed

lemma computes_Slt: "computes2 opSlt (\<lambda>a b. if a <s b then 1 else 0)"
  unfolding opSlt_def by (rule computes2_op) (auto simp: Let_def bool_int_def sless_uint)

lemma computes_Sgt: "computes2 opSgt (\<lambda>a b. if b <s a then 1 else 0)"
  unfolding opSgt_def by (rule computes2_op) (auto simp: Let_def bool_int_def sless_uint)

lemma computes_Eq: "computes2 opEq (\<lambda>a b. if a = b then 1 else 0)"
  unfolding opEq_def by (rule computes2_op) (simp add: bool_int_def uint_eq)

lemma computes_Iszero: "computes1 opIszero (\<lambda>a. if a = 0 then 1 else 0)"
  unfolding opIszero_def
  by (rule computes1_op) (simp add: uint_pos)

lemma computes_And: "computes2 opAnd (AND)"
  unfolding opAnd_def by (rule computes2_op) (simp add: uint_and)

lemma computes_Or: "computes2 opOr (OR)"
  unfolding opOr_def by (rule computes2_op) (simp add: uint_or)

lemma computes_Xor: "computes2 opXor (XOR)"
  unfolding opXor_def by (rule computes2_op) (simp add: uint_xor)

lemma computes_Addmod:
  "computes3 opAddmod (\<lambda>a b c. if c = 0 then 0 else word_of_int ((uint a + uint b) mod uint c))"
  unfolding opAddmod_def
  by (rule computes3_op) (auto simp: big_Mod_def U256_word uint_pos)

lemma computes_Mulmod:
  "computes3 opMulmod (\<lambda>a b c. if c = 0 then 0 else word_of_int ((uint a * uint b) mod uint c))"
  unfolding opMulmod_def
  by (rule computes3_op) (auto simp: big_Mod_def U256_word uint_pos)


section \<open>Bytes, shifts and sign extension\<close>

lemma big_Uint64_uint: "uint (a :: w256) < 2 ^ 64 \<Longrightarrow> unat (big_Uint64 (uint a)) = unat a"
  using uint_big_Uint64 [of "uint a"] by (metis nat_uint_eq unsigned_greater_eq)

lemma push_bit_large: "256 \<le> n \<Longrightarrow> push_bit n (a :: w256) = 0"
  by (rule bit_word_eqI) (simp add: bit_simps)

lemma drop_bit_large: "256 \<le> n \<Longrightarrow> drop_bit n (a :: w256) = 0"
  by (rule bit_word_eqI) (auto simp: bit_simps dest: bit_imp_le_length)

lemma U256_push_bit: "U256 (push_bit n (uint (a :: w256))) = uint (push_bit n a)"
  unfolding U256_word by (rule arg_cong [of _ _ uint]) (rule bit_word_eqI, auto simp: bit_simps)

lemma U256_drop_bit: "U256 (drop_bit n (uint (a :: w256))) = uint (drop_bit n a)"
  unfolding U256_word by (rule arg_cong [of _ _ uint]) (rule bit_word_eqI, auto simp: bit_simps)

lemma computes_SHL: "computes2 opSHL (\<lambda>s v. push_bit (unat s) v)"
  unfolding opSHL_def
proof (rule computes2_op)
  fix s v :: w256
  have n: "unat s = nat (uint s)" by simp
  show "(let shift = U256 (uint s); val = U256 (uint v) in
     if big_Cmp shift 256 \<ge> 0 then 0 else U256 (push_bit (unat (big_Uint64 shift)) val)) = uint (push_bit (unat s) v)"
  proof (cases "uint s < 256")
    case True
    then show ?thesis using big_Uint64_uint [of s] U256_push_bit [of "unat s" v] by (simp add: Let_def)
  next
    case False
    then have "256 \<le> unat s" using n by linarith
    then show ?thesis using False push_bit_large [of "unat s" v] by (simp add: Let_def)
  qed
qed

lemma computes_SHR: "computes2 opSHR (\<lambda>s v. drop_bit (unat s) v)"
  unfolding opSHR_def
proof (rule computes2_op)
  fix s v :: w256
  have n: "unat s = nat (uint s)" by simp
  show "(let shift = U256 (uint s); val = U256 (uint v) in
     if big_Cmp shift 256 \<ge> 0 then 0 else U256 (drop_bit (unat (big_Uint64 shift)) val)) = uint (drop_bit (unat s) v)"
  proof (cases "uint s < 256")
    case True
    then show ?thesis using big_Uint64_uint [of s] U256_drop_bit [of "unat s" v] by (simp add: Let_def)
  next
    case False
    then have "256 \<le> unat s" using n by linarith
    then show ?thesis using False drop_bit_large [of "unat s" v] by (simp add: Let_def)
  qed
qed

lemma U256_signed_drop_bit: "U256 (drop_bit n (sint (a :: w256))) = uint (signed_drop_bit n a)"
proof -
  have "word_of_int (drop_bit n (sint a)) = signed_drop_bit n a"
    by (rule signed_word_eqI) (simp add: sint_signed_drop_bit_eq [symmetric])
  then show ?thesis by (simp add: U256_word)
qed

lemma drop_bit_sign: "256 \<le> n \<Longrightarrow> drop_bit n (sint (a :: w256)) = (if 0 \<le> sint a then 0 else - 1)"
proof -
  assume n: "256 \<le> n"
  have r: "- (2 ^ 255) \<le> sint a" "sint a < 2 ^ 255"
    using sint_greater_eq [of a] sint_lt [of a] by simp_all
  have m: "(2 :: int) ^ 255 \<le> 2 ^ n" using n by (intro power_increasing) auto
  show ?thesis
  proof (cases "0 \<le> sint a")
    case True
    have "sint a div 2 ^ n = 0"
      by (rule div_pos_pos_trivial) (use True r(2) m in linarith)+
    then show ?thesis using True by (simp add: drop_bit_eq_div)
  next
    case False
    have "sint a div 2 ^ n = - 1"
      by (rule int_div_pos_eq [where r = "sint a + 2 ^ n"]) (use False r(1) m in linarith)+
    then show ?thesis using False by (simp add: drop_bit_eq_div)
  qed
qed

lemma computes_SAR: "computes2 opSAR (\<lambda>s v. signed_drop_bit (unat s) v)"
  unfolding opSAR_def
proof (rule computes2_op)
  fix s v :: w256
  have n: "unat s = nat (uint s)" by simp
  show "(let shift = U256 (uint s); val = S256 (uint v) in
     if big_Cmp shift 256 \<ge> 0 then U256 (if val \<ge> 0 then 0 else - 1)
     else U256 (drop_bit (unat (big_Uint64 shift)) val)) = uint (signed_drop_bit (unat s) v)"
  proof (cases "uint s < 256")
    case True
    then show ?thesis using big_Uint64_uint [of s] U256_signed_drop_bit [of "unat s" v]
      by (simp add: Let_def S256_uint)
  next
    case False
    then have "256 \<le> unat s" using n by linarith
    then show ?thesis using False drop_bit_sign [of "unat s" v] U256_signed_drop_bit [of "unat s" v]
      by (simp add: Let_def S256_uint split: if_splits)
  qed
qed

lemma signed_take_bit_mask:
  "bit x n \<Longrightarrow> x OR NOT (2 ^ n - 1) = signed_take_bit n x"
  "\<not> bit x n \<Longrightarrow> x AND (2 ^ n - 1) = signed_take_bit n x" for x :: int
proof -
  have m: "2 ^ n - 1 = (mask n :: int)"
    by (simp add: mask_eq_exp_minus_1)
  show "bit x n \<Longrightarrow> x OR NOT (2 ^ n - 1) = signed_take_bit n x"
    "\<not> bit x n \<Longrightarrow> x AND (2 ^ n - 1) = signed_take_bit n x"
    unfolding m by (rule bit_eqI; auto simp: bit_simps min_def)+
qed

definition sign_extend :: "w256 \<Rightarrow> w256 \<Rightarrow> w256" where
  "sign_extend k v = (if uint k < 31 then word_of_int (signed_take_bit (8 * unat k + 7) (uint v)) else v)"

lemma computes_SignExtend: "computes2 opSignExtend sign_extend"
proof -
  have "unat (big_Uint64 (uint k) * 8 + 7) = 8 * unat k + 7" if "uint k < 31" for k :: w256
  proof -
    have "unat (big_Uint64 (uint k)) = unat k"
      using that by (intro big_Uint64_uint) simp
    moreover have "unat k < 31" using that nat_less_eq_zless [of "uint k" 31] by simp
    ultimately show ?thesis
      by (simp add: unat_word_ariths)
  qed
  then show ?thesis
    by (simp add: computes2_def opSignExtend_def sign_extend_def Let_def signed_take_bit_mask U256_word stack_push_def)
qed

lemma computes_Byte: "computes2 opByte (\<lambda>i v. if uint i < 32 then drop_bit (8 * (31 - unat i)) v AND 0xFF else 0)"
  unfolding opByte_def
proof (rule computes2_op)
  fix i v :: w256
  show "(if big_Cmp (uint i) 32 < 0 then uint (math_Byte (uint v) 32 (nat (big_Int64 (uint i)))) else 0) =
    uint (if uint i < 32 then drop_bit (8 * (31 - unat i)) v AND 0xFF else 0)"
  proof (cases "uint i < 32")
    case True
    then have i: "unat i < 32" "big_Int64 (uint i) = uint i"
      using big_Int64_small [of "uint i"] nat_less_eq_zless [of "uint i" 32] by simp_all
    have "unat (math_Byte (uint v) 32 (unat i)) = unat v div 256 ^ (31 - unat i) mod 256"
      using i(1) by (simp add: math_Byte_def bigEndianByteAt_correct)
    moreover have "unat (drop_bit (8 * (31 - unat i)) v AND 0xFF) = unat v div 256 ^ (31 - unat i) mod 256"
    proof -
      have m: "(0xFF :: w256) = mask 8" by (simp add: mask_eq_exp_minus_1)
      show ?thesis
        unfolding m take_bit_eq_mask [symmetric] unsigned_take_bit_eq unat_drop_bit_eq
        by (simp add: drop_bit_eq_div take_bit_eq_mod power_mult)
    qed
    ultimately show ?thesis
      using True i by (simp add: nat_uint_eq) (metis uint_nat)
  qed simp
qed

text \<open>C22: The arithmetic and logic instructions are the operations of 256-bit words. With words on the stack, each of them
  pops its operands and pushes exactly the word that the operation has on the type of 256-bit words, and changes nothing else:
  addition, subtraction, multiplication, exponentiation and the bitwise
  operations modulo 2 to the 256; unsigned division and remainder, with zero for a zero divisor;
  signed division towards zero and the remainder with the sign of the dividend; comparisons; addition and multiplication modulo a third operand without
  intermediate overflow; shifts, with all bits out for a large shift; byte selection and sign
  extension.\<close>

theorem arithmetic_words:
  "computes2 opAdd (+) \<and> computes2 opSub (-) \<and> computes2 opMul (*) \<and>
   computes2 opDiv (div) \<and>
   computes2 opSdiv (\<lambda>a b. word_of_int (sgn (sint a) * sgn (sint b) * (\<bar>sint a\<bar> div \<bar>sint b\<bar>))) \<and>
   computes2 opMod (\<lambda>a b. if b = 0 then 0 else a mod b) \<and>
   computes2 opSmod (\<lambda>a b. if b = 0 then 0 else word_of_int (sgn (sint a) * (\<bar>sint a\<bar> mod \<bar>sint b\<bar>))) \<and>
   computes3 opAddmod (\<lambda>a b c. if c = 0 then 0 else word_of_int ((uint a + uint b) mod uint c)) \<and>
   computes3 opMulmod (\<lambda>a b c. if c = 0 then 0 else word_of_int ((uint a * uint b) mod uint c)) \<and>
   computes2 opExp (\<lambda>a b. a ^ unat b) \<and> computes2 opSignExtend sign_extend \<and>
   computes2 opLt (\<lambda>a b. if a < b then 1 else 0) \<and> computes2 opGt (\<lambda>a b. if b < a then 1 else 0) \<and>
   computes2 opSlt (\<lambda>a b. if a <s b then 1 else 0) \<and> computes2 opSgt (\<lambda>a b. if b <s a then 1 else 0) \<and>
   computes2 opEq (\<lambda>a b. if a = b then 1 else 0) \<and> computes1 opIszero (\<lambda>a. if a = 0 then 1 else 0) \<and>
   computes2 opAnd (AND) \<and> computes2 opOr (OR) \<and> computes2 opXor (XOR) \<and> computes1 opNot (\<lambda>a. NOT a) \<and>
   computes2 opByte (\<lambda>i v. if uint i < 32 then drop_bit (8 * (31 - unat i)) v AND 0xFF else 0) \<and>
   computes2 opSHL (\<lambda>s v. push_bit (unat s) v) \<and> computes2 opSHR (\<lambda>s v. drop_bit (unat s) v) \<and>
   computes2 opSAR (\<lambda>s v. signed_drop_bit (unat s) v)"
  by (intro conjI computes_Add computes_Sub computes_Mul computes_Div computes_Sdiv computes_Mod computes_Smod
      computes_Addmod computes_Mulmod computes_Exp computes_SignExtend computes_Lt computes_Gt computes_Slt
      computes_Sgt computes_Eq computes_Iszero computes_And computes_Or computes_Xor computes_Not computes_Byte
      computes_SHL computes_SHR computes_SAR)

end
