(* ===== verification/Evm_Jump.thy ===== *)
theory Evm_Jump
  imports Evm_Base
begin

text \<open>
  Jump destinations. A jump is valid exactly when its target is a JUMPDEST that an instruction-by-instruction walk
  of the code hits; a JUMPDEST byte in the data of a PUSH is not one. The bit vector analysis and its two caches do not change the answer.
\<close>

definition jump_target :: "bytes \<Rightarrow> int \<Rightarrow> bool" where
  "jump_target code dest \<longleftrightarrow>
     0 \<le> dest \<and> dest < int (length code) \<and> code ! nat dest = JUMPDEST \<and> instruction_at code 0 (nat dest)"

text \<open>The analyses in the caches belong to the code of the contract.\<close>

definition analysis_ok :: "contract \<Rightarrow> evm \<Rightarrow> bool" where
  "analysis_ok c e \<longleftrightarrow>
     (\<forall>bits. jumpdests e (c_CodeHash c) = Some bits \<longrightarrow> codeBitmap (c_Code c) = Some bits) \<and>
     (\<forall>bits. c_analysis c = Some bits \<longrightarrow> codeBitmap (c_Code c) = Some bits)"

lemma validJumpdest_cases:
  assumes "analysis_ok c e" "codeBitmap (c_Code c) = Some bits" "codeSegment bits udest = Some r"
    and "udest = unat (big_Uint64 dest)" "\<not> (big_BitLen dest \<ge> 63 \<or> udest \<ge> length (c_Code c))"
    and "c_Code c ! udest = JUMPDEST"
  shows "\<exists>c' e'. validJumpdest dest c e = Ret (r, c', e') \<and>
           c' = c\<lparr>c_analysis := c_analysis c'\<rparr> \<and> e' = e\<lparr>jumpdests := jumpdests e'\<rparr> \<and> analysis_ok c' e'"
  using assms by (auto simp: validJumpdest_def analysis_ok_def Let_def split: option.splits)

lemma validJumpdest_false:
  assumes "udest = unat (big_Uint64 dest)"
    and "big_BitLen dest \<ge> 63 \<or> udest \<ge> length (c_Code c) \<or> c_Code c ! udest \<noteq> JUMPDEST"
  shows "validJumpdest dest c e = Ret (False, c, e)"
  using assms by (auto simp: validJumpdest_def Let_def)

lemma big_Uint64_small: "0 \<le> x \<Longrightarrow> x < 2 ^ 64 \<Longrightarrow> unat (big_Uint64 x) = nat x"
  using uint_big_Uint64 [of x] by (metis nat_uint_eq)

lemma big_BitLen_63: "0 \<le> dest \<Longrightarrow> 63 \<le> big_BitLen dest \<longleftrightarrow> 2 ^ 62 \<le> dest"
  using big_BitLen_le [of dest 62] by linarith

text \<open>C23: Jumps go to instructions. For a code of realistic size, whatever the caches hold of this code, \<^verbatim>\<open>validJumpdest\<close>
  neither panics nor fails, accepts a destination exactly when it is inside the code, holds a JUMPDEST byte and is the start of an
  instruction of the code, counting from the first one and skipping PUSH data; it changes nothing but the caches, and these keep
  belonging to the code.\<close>

theorem validJumpdest_iff:
  assumes "analysis_ok c e" "0 \<le> dest" "length (c_Code c) < 2 ^ 62"
  shows "\<exists>c' e'. validJumpdest dest c e = Ret (jump_target (c_Code c) dest, c', e') \<and>
           c' = c\<lparr>c_analysis := c_analysis c'\<rparr> \<and> e' = e\<lparr>jumpdests := jumpdests e'\<rparr> \<and> analysis_ok c' e'"
proof -
  let ?u = "unat (big_Uint64 dest)"
  obtain bits where b: "codeBitmap (c_Code c) = Some bits"
    "\<forall>pos < length (c_Code c). codeSegment bits pos = Some (instruction_at (c_Code c) 0 pos)"
    using codeBitmap_correct by blast
  show ?thesis
  proof (cases "dest < 2 ^ 62")
    case True
    then have u: "?u = nat dest" "\<not> 63 \<le> big_BitLen dest"
      using assms(2) big_BitLen_63 [of dest] by (auto intro: big_Uint64_small)
    show ?thesis
    proof (cases "nat dest < length (c_Code c) \<and> c_Code c ! nat dest = JUMPDEST")
      case inside: True
      then have "jump_target (c_Code c) dest = instruction_at (c_Code c) 0 ?u"
        using assms(2) u by (auto simp: jump_target_def)
      moreover have "codeSegment bits ?u = Some (instruction_at (c_Code c) 0 ?u)"
        using b(2) inside u by simp
      ultimately show ?thesis
        using validJumpdest_cases [OF assms(1) b(1) _ refl, of dest] inside u by simp
    next
      case False
      then have "\<not> jump_target (c_Code c) dest"
        using assms(2) by (auto simp: jump_target_def)
      then show ?thesis
        using validJumpdest_false [OF refl, of dest c e] False u assms(1) by fastforce
    qed
  next
    case False
    then have "\<not> jump_target (c_Code c) dest"
      using assms(3) by (auto simp: jump_target_def)
    then show ?thesis
      using validJumpdest_false [OF refl, of dest c e] False assms(1,2) big_BitLen_63 [of dest] by fastforce
  qed
qed

text \<open>PUSH1 JUMPDEST JUMPDEST: the first JUMPDEST byte is data, the second an instruction.\<close>

definition demo_contract :: contract where
  "demo_contract =
     \<lparr>c_CallerAddress = 0, c_self = 1, c_analysis = None, c_Code = [0x60, 0x5B, 0x5B], c_CodeHash = 0,
      c_CodeAddr = 1, c_Input = [], c_Gas = 100, c_value = 0\<rparr>"

definition demo_machine :: evm where
  "demo_machine =
     \<lparr>StateDB = statedb_New Map.empty, evm_depth = 0, callGasTemp = 0, readOnly = False, returnData = Own [],
      jumpdests = Map.empty\<rparr>"

theorem validJumpdest_iff_witness:
  "\<not> jump_target (c_Code demo_contract) 1 \<and> jump_target (c_Code demo_contract) 2 \<and>
   (\<exists>c' e'. validJumpdest 1 demo_contract demo_machine = Ret (False, c', e')) \<and>
   (\<exists>c' e'. validJumpdest 2 demo_contract demo_machine = Ret (True, c', e'))"
proof -
  have t: "\<not> jump_target (c_Code demo_contract) 1" "jump_target (c_Code demo_contract) 2"
    by code_simp+
  have ok: "analysis_ok demo_contract demo_machine" "length (c_Code demo_contract) < 2 ^ 62"
    by (simp_all add: analysis_ok_def demo_contract_def demo_machine_def)
  show ?thesis
    using validJumpdest_iff [OF ok(1) _ ok(2), of 1] validJumpdest_iff [OF ok(1) _ ok(2), of 2] t by auto
qed

end
