(* ===== verification/Evm_Bounds.thy ===== *)
theory Evm_Bounds
  imports Evm_Gas
begin

text \<open>
  Sizes and prices of the memory: the size functions compute the end of the range or report an
  overflow, a memory of that size takes every access to the range, and the fee of the memory is the quadratic formula
  at full precision, charged once.
\<close>

section \<open>Ranges\<close>

lemma unat_big_Uint64: "0 \<le> x \<Longrightarrow> x < 2 ^ 64 \<Longrightarrow> unat (big_Uint64 x) = nat x"
  using uint_big_Uint64 [of x] by (simp flip: nat_uint_eq)

lemma u64_add_carry:
  fixes x y :: u64
  shows "x + y < x \<longleftrightarrow> 2 ^ 64 \<le> unat x + unat y" "\<not> x + y < x \<Longrightarrow> unat (x + y) = unat x + unat y"
proof -
  have u: "unat (x + y) = (unat x + unat y) mod 2 ^ 64" "unat x < 2 ^ 64" "unat y < 2 ^ 64"
    using unat_u64_less [of x] unat_u64_less [of y] by (simp_all add: unat_word_ariths)
  show iff: "x + y < x \<longleftrightarrow> 2 ^ 64 \<le> unat x + unat y"
    using u by (auto simp: word_less_nat_alt mod_if)
  show "\<not> x + y < x \<Longrightarrow> unat (x + y) = unat x + unat y"
    using iff u by simp
qed

text \<open>The size of a range that is not empty is its end, or an overflow.\<close>

lemma calcMemSize64WithUint_correct:
  "snd (calcMemSize64WithUint off n) \<longleftrightarrow> n \<noteq> 0 \<and> \<not> (0 \<le> off \<and> off + uint n < 2 ^ 64)"
  "\<not> snd (calcMemSize64WithUint off n) \<Longrightarrow>
     uint (fst (calcMemSize64WithUint off n)) = (if n = 0 then 0 else off + uint n)"
proof -
  let ?o = "big_Uint64 off"
  have sum: "(?o + n < ?o \<longleftrightarrow> \<not> off + uint n < 2 ^ 64) \<and> (\<not> ?o + n < ?o \<longrightarrow> uint (?o + n) = off + uint n)"
    if "0 \<le> off" "off < 2 ^ 64"
  proof -
    have o: "int (unat ?o) = off" using unat_big_Uint64 [OF that] that by simp
    have n: "int (unat n) = uint n" by simp
    have "?o + n < ?o \<longleftrightarrow> 2 ^ 64 \<le> int (unat ?o + unat n)"
      unfolding u64_add_carry(1) by (metis of_nat_le_iff of_nat_numeral of_nat_power)
    moreover have "uint (?o + n) = int (unat ?o + unat n)" if "\<not> ?o + n < ?o"
      using u64_add_carry(2) [OF that] by (metis uint_nat)
    ultimately show ?thesis
      unfolding of_nat_add o n by linarith
  qed
  have ge: "off < 2 ^ 64" if "off + uint n < 2 ^ 64"
    using that uint_ge_0 [of n] by linarith
  show "snd (calcMemSize64WithUint off n) \<longleftrightarrow> n \<noteq> 0 \<and> \<not> (0 \<le> off \<and> off + uint n < 2 ^ 64)"
    using sum ge unfolding calcMemSize64WithUint_def Let_def big_IsUint64_iff by force
  show "\<not> snd (calcMemSize64WithUint off n) \<Longrightarrow>
     uint (fst (calcMemSize64WithUint off n)) = (if n = 0 then 0 else off + uint n)"
    using sum unfolding calcMemSize64WithUint_def Let_def big_IsUint64_iff by (auto split: if_splits)
qed

definition in_range :: "int \<Rightarrow> int \<Rightarrow> nat \<Rightarrow> bool" where
  "in_range off n len \<longleftrightarrow> n = 0 \<or> 0 \<le> off \<and> 0 < n \<and> off + n \<le> int len"

lemma calcMemSize64WithUint_range:
  assumes "calcMemSize64WithUint off n = (sz, False)" "unat sz \<le> len"
  shows "in_range off (uint n) len"
proof (cases "n = 0")
  case False
  have "0 \<le> off" and sz: "uint sz = off + uint n"
    using assms(1) calcMemSize64WithUint_correct [of off n] False by auto
  moreover have "0 < uint n"
    using False by (metis uint_0_iff uint_ge_0 order_le_neq_trans)
  moreover have "uint sz \<le> int len"
    using assms(2) by (metis of_nat_le_iff uint_nat)
  ultimately show ?thesis
    by (simp add: in_range_def)
qed (simp add: in_range_def)

lemma calcMemSize64_range:
  assumes "calcMemSize64 off l = (sz, False)" "unat sz \<le> len"
  shows "in_range off l len"
proof -
  have l: "0 \<le> l" "l < 2 ^ 64" and c: "calcMemSize64WithUint off (big_Uint64 l) = (sz, False)"
    using assms(1) by (auto simp: calcMemSize64_def split: if_splits)
  then show ?thesis
    using calcMemSize64WithUint_range [OF c assms(2)] uint_big_Uint64 [OF l] by simp
qed

section \<open>Accesses\<close>

abbreviation (input) "max_memory \<equiv> (0x1FFFFFFFE0 :: nat)"

lemma in_range_int64:
  "in_range off n len \<Longrightarrow> len \<le> max_memory \<Longrightarrow> n \<noteq> 0 \<Longrightarrow> big_Int64 off = off \<and> big_Int64 n = n"
  by (auto simp: in_range_def intro!: big_Int64_small)

lemma in_range_uint64:
  "in_range off n len \<Longrightarrow> len \<le> max_memory \<Longrightarrow> n \<noteq> 0 \<Longrightarrow>
     unat (big_Uint64 off) = nat off \<and> unat (big_Uint64 n) = nat n"
  by (auto simp: in_range_def intro!: unat_big_Uint64)

lemma mem_range_ok:
  assumes "in_range off n (mem_Len m)" "mem_Len m \<le> max_memory"
  shows "mem_range (big_Int64 off) (big_Int64 n) m = Some (take (nat n) (drop (nat off) (store m)))"
proof (cases "n = 0")
  case False
  then show ?thesis
    using in_range_int64 [OF assms False] assms by (auto simp: mem_range_def in_range_def)
qed (simp add: mem_range_def big_Int64_small)

lemma length_copy_at: "off + n \<le> length dst \<Longrightarrow> length (copy_at off n v dst) = length dst"
  by (simp add: copy_at_def Let_def)

lemma mem_Set_ok:
  assumes "in_range off n (mem_Len m)" "mem_Len m \<le> max_memory"
  shows "mem_Set (big_Uint64 off) (big_Uint64 n) v m =
           Some (if n = 0 then m else m\<lparr>store := copy_at (nat off) (nat n) v (store m)\<rparr>)"
proof (cases "n = 0")
  case False
  have o: "unat (big_Uint64 off) = nat off" "unat (big_Uint64 n) = nat n"
    using in_range_uint64 [OF assms False] by auto
  have r: "0 \<le> off" "0 < n" "off + n \<le> int (mem_Len m)" "mem_Len m \<le> max_memory"
    using assms False by (auto simp: in_range_def)
  have "nat off + nat n < 2 ^ 64"
    using r by simp
  then have nc: "\<not> big_Uint64 off + big_Uint64 n < big_Uint64 off"
    using u64_add_carry(1) [of "big_Uint64 off" "big_Uint64 n"] o by simp
  note sum = u64_add_carry(2) [OF nc]
  have "big_Uint64 n \<noteq> 0"
    using o(2) r(2) by (metis unat_0 less_irrefl zero_less_nat_eq)
  then have "0 < big_Uint64 n" by (simp add: word_neq_0_conv)
  then show ?thesis
    using o r nc sum False by (simp add: mem_Set_def Let_def mem_Len_def nat_le_iff)
qed (simp add: mem_Set_def big_Uint64_def)

lemma mem_Set_len:
  assumes "in_range off n (mem_Len m)" "mem_Len m \<le> max_memory"
  shows "\<exists>m'. mem_Set (big_Uint64 off) (big_Uint64 n) v m = Some m' \<and> mem_Len m' = mem_Len m"
  using mem_Set_ok [OF assms, of v] assms(1) length_copy_at [of "nat off" "nat n" "store m" v]
  by (auto simp: mem_Len_def in_range_def split: if_splits)

lemma mem_Set32_ok:
  assumes "in_range off 32 (mem_Len m)" "mem_Len m \<le> max_memory"
  shows "\<exists>m'. mem_Set32 (big_Uint64 off) val m = Some m' \<and> mem_Len m' = mem_Len m"
proof -
  have o: "unat (big_Uint64 off) = nat off"
    using in_range_uint64 [OF assms] by auto
  have r: "0 \<le> off" "off + 32 \<le> int (mem_Len m)" "mem_Len m \<le> max_memory"
    using assms by (auto simp: in_range_def)
  have nc: "\<not> big_Uint64 off + 32 < big_Uint64 off"
    using u64_add_carry(1) [of "big_Uint64 off" 32] o r by simp
  note sum = u64_add_carry(2) [OF nc]
  have "unat (big_Uint64 off + 32) = nat off + 32" "nat off + 32 \<le> length (store m)"
    using sum o r by (simp_all add: mem_Len_def)
  then show ?thesis
    using nc o length_copy_at [of "nat off" 32 "store m"]
    by (simp add: mem_Set32_def Let_def mem_Len_def)
qed

lemma mem_setByte_ok:
  assumes "in_range off 1 (mem_Len m)" "mem_Len m \<le> max_memory"
  shows "\<exists>m'. mem_setByte (big_Int64 off) x m = Some m' \<and> mem_Len m' = mem_Len m"
  using in_range_int64 [OF assms] assms(1) by (auto simp: mem_setByte_def mem_Len_def in_range_def)

section \<open>The memory fee\<close>

lemma toWordSize_correct: "unat (toWordSize n) = (unat n + 31) div 32"
proof (cases "n > (- 1) - 31")
  case True
  have "unat ((- 1 :: u64) - 31) = 2 ^ 64 - 32" by simp
  then have "2 ^ 64 - 32 < unat n" "unat n < 2 ^ 64"
    using True unat_u64_less [of n] by (auto simp: word_less_nat_alt)
  then have "(unat n + 31) div 32 = 2 ^ 59"
    by (intro div_nat_eqI) auto
  then show ?thesis using True by (simp add: toWordSize_def)
next
  case False
  have "unat ((- 1 :: u64) - 31) = 2 ^ 64 - 32" by simp
  then have "unat n + 31 < 2 ^ 64"
    using False unat_u64_less [of n] by (auto simp: word_less_nat_alt not_less)
  then have "unat (n + 31) = unat n + 31"
    by (simp add: unat_word_ariths)
  then show ?thesis using False by (simp add: toWordSize_def unat_div)
qed

text \<open>The reference: three gas per word and the square of the words by 512.\<close>

definition memory_fee :: "nat \<Rightarrow> nat" where
  "memory_fee words = 3 * words + words * words div 512"

lemma memory_fee_mono: "m \<le> n \<Longrightarrow> memory_fee m \<le> memory_fee n"
  unfolding memory_fee_def by (intro add_mono div_le_mono mult_le_mono) auto

lemma memory_fee_bound: "words \<le> 2 ^ 32 \<Longrightarrow> memory_fee words < 2 ^ 60"
proof -
  assume "words \<le> 2 ^ 32"
  then have "memory_fee words \<le> memory_fee (2 ^ 32)" by (rule memory_fee_mono)
  then show ?thesis by (simp add: memory_fee_def)
qed


text \<open>The fee of the current size has been paid.\<close>

definition memory_paid :: "memory \<Rightarrow> bool" where
  "memory_paid m \<longleftrightarrow>
     mem_Len m \<le> max_memory \<and> mem_Len m mod 32 = 0 \<and> unat (lastGasCost m) = memory_fee (mem_Len m div 32)"

lemma unat_fee:
  fixes w :: u64
  assumes "unat w < 2 ^ 32"
  shows "unat (w * 3 + w * w div 512) = memory_fee (unat w)"
proof -
  have "unat w * unat w \<le> (2 ^ 32 - 1) * (2 ^ 32 - 1)"
    using assms by (intro mult_le_mono) auto
  then have sq: "unat (w * w) = unat w * unat w"
    by (simp add: unat_word_ariths)
  have lin: "unat (w * 3) = unat w * 3"
    using assms by (simp add: unat_word_ariths)
  have "unat (w * w div 512) = unat w * unat w div 512"
    by (simp add: unat_div sq)
  moreover have "unat w * 3 + unat w * unat w div 512 < 2 ^ 64"
    using memory_fee_bound [of "unat w"] assms by (simp add: memory_fee_def)
  ultimately show ?thesis
    using lin by (simp add: unat_word_ariths memory_fee_def)
qed

lemma unat_words:
  assumes "unat n \<le> max_memory"
  shows "unat (toWordSize n) < 2 ^ 32" "unat (toWordSize n * 32) = (unat n + 31) div 32 * 32"
    "(unat n + 31) div 32 * 32 \<le> max_memory"
proof -
  show le: "unat (toWordSize n) < 2 ^ 32"
    using assms unfolding toWordSize_correct by (simp add: less_mult_imp_div_less)
  then show "unat (toWordSize n * 32) = (unat n + 31) div 32 * 32"
    unfolding toWordSize_correct [symmetric] by (simp add: unat_word_ariths)
  show "(unat n + 31) div 32 * 32 \<le> max_memory"
    using le unfolding toWordSize_correct by simp
qed

lemma memoryGasCost_store: "store (snd (memoryGasCost m n)) = store m" "mem_cap (snd (memoryGasCost m n)) = mem_cap m"
  by (simp_all add: memoryGasCost_def Let_def)

lemma memoryGasCost_limit: "fst (memoryGasCost m n) = Inr g \<Longrightarrow> unat n \<le> max_memory"
  by (auto simp: memoryGasCost_def Let_def word_less_nat_alt split: if_splits)

text \<open>C33: Memory costs what the formula says, at 64 bits. From a memory whose size is paid for, \<^verbatim>\<open>memoryGasCost\<close> refuses exactly
  the sizes above \<^verbatim>\<open>0x1FFFFFFFE0\<close>; otherwise the fee is the difference of the quadratic prices of the new and the
  old size in words (zero when the memory does not grow), without overflow, and after \<^verbatim>\<open>Resize\<close> to the whole
  words the larger memory is paid for.\<close>

theorem memoryGasCost_exact:
  assumes "memory_paid m"
  shows "case memoryGasCost m n of
           (Inl er, m') \<Rightarrow> max_memory < unat n \<and> er = errGasUintOverflow \<and> m' = m
         | (Inr fee, m') \<Rightarrow>
             unat n \<le> max_memory \<and>
             unat fee = memory_fee (max (mem_Len m div 32) ((unat n + 31) div 32)) - memory_fee (mem_Len m div 32) \<and>
             memory_paid (mem_Resize grow (toWordSize n * 32) m') \<and>
             mem_Len (mem_Resize grow (toWordSize n * 32) m') = max (mem_Len m) ((unat n + 31) div 32 * 32)"
proof (cases "unat n \<le> max_memory")
  case False
  then show ?thesis by (auto simp: memoryGasCost_def word_less_nat_alt)
next
  case True
  note w = unat_words [OF True]
  let ?w = "(unat n + 31) div 32" and ?l = "mem_Len m div 32"
  have len: "mem_Len m = ?l * 32"
    using assms by (auto simp: memory_paid_def)
  have nlim: "\<not> n > 0x1FFFFFFFE0" using True by (simp add: word_less_nat_alt)
  show ?thesis
  proof (cases "?l < ?w")
    case False
    then have "memoryGasCost m n = (Inr 0, m)" "\<not> mem_Len m < ?w * 32"
      using nlim w(2) len by (auto simp: memoryGasCost_def Let_def)
    then show ?thesis
      using True False assms w(2) by (simp add: mem_Resize_def max_def)
  next
    case less: True
    let ?T = "toWordSize n * 3 + toWordSize n * toWordSize n div 512"
    have "n \<noteq> 0" using less by auto
    then have g: "memoryGasCost m n = (Inr (?T - lastGasCost m), m\<lparr>lastGasCost := ?T\<rparr>)"
      using nlim w(2) len less by (simp add: memoryGasCost_def Let_def)
    have t: "unat ?T = memory_fee ?w"
      using unat_fee [OF w(1)] by (simp add: toWordSize_correct)
    have old: "unat (lastGasCost m) = memory_fee ?l" using assms by (simp add: memory_paid_def)
    then have "lastGasCost m \<le> ?T"
      using t memory_fee_mono [of ?l ?w] less by (simp add: word_le_nat_alt)
    then have fee: "unat (?T - lastGasCost m) = memory_fee ?w - memory_fee ?l"
      using t old by (simp add: unat_sub)
    have rs: "mem_Len (mem_Resize grow (toWordSize n * 32) (m\<lparr>lastGasCost := ?T\<rparr>)) = ?w * 32"
      "lastGasCost (mem_Resize grow (toWordSize n * 32) (m\<lparr>lastGasCost := ?T\<rparr>)) = ?T"
      using w(2) len less by (simp_all add: mem_Resize_def mem_Len_def)
    show ?thesis
      using g fee rs t w(3) True less len by (simp add: memory_paid_def max_def)
  qed
qed

theorem memoryGasCost_exact_witness:
  "memoryGasCost NewMemory 65 = (Inr 9, NewMemory\<lparr>lastGasCost := 9\<rparr>) \<and>
   memory_paid (mem_Resize (\<lambda>_ n. n) 96 (NewMemory\<lparr>lastGasCost := 9\<rparr>))"
proof -
  have "memory_paid NewMemory" by (simp add: memory_paid_def NewMemory_def mem_Len_def memory_fee_def)
  moreover have "memoryGasCost NewMemory 65 = (Inr 9, NewMemory\<lparr>lastGasCost := 9\<rparr>)" "toWordSize 65 * 32 = 96"
    by code_simp+
  ultimately show ?thesis
    using memoryGasCost_exact [of NewMemory 65 "\<lambda>_ n. n"] by simp
qed

end
