(* ===== verification/Evm_Plain.thy ===== *)
theory Evm_Plain
  imports Evm_Calls Evm_Bounds State_Flow
begin

text \<open>
  The instructions that start no other contract are safe: on a well-formed frame, with the stack and the memory
  that the interpreter guarantees, they return, keep the frame well-formed and the gas as it is,
  and change the state only in ways that can be reverted.
\<close>

section \<open>Well-formed machines\<close>

fun go_sat :: "('a \<Rightarrow> bool) \<Rightarrow> 'a go \<Rightarrow> bool" where
  "go_sat P (Ret x) = P x"
| "go_sat P Panic = False"
| "go_sat P Stale = True"
| "go_sat P NoFuel = False"

lemma go_sat_bind: "go_sat Q r \<Longrightarrow> (\<And>x. Q x \<Longrightarrow> go_sat P (f x)) \<Longrightarrow> go_sat P (go_bind r f)"
  by (cases r) auto

lemma go_sat_mono: "go_sat Q r \<Longrightarrow> (\<And>x. Q x \<Longrightarrow> P x) \<Longrightarrow> go_sat P r"
  by (cases r) auto

text \<open>A jump analysis that a contract keeps is that of its code.\<close>

definition contract_ok :: "contract \<Rightarrow> bool" where
  "contract_ok c \<longleftrightarrow> 0 \<le> c_value c \<and> (\<forall>bits. c_analysis c = Some bits \<longrightarrow> codeBitmap (c_Code c) = Some bits)"

definition frame_ok :: "frame \<Rightarrow> bool" where
  "frame_ok f \<longleftrightarrow>
     list_all (\<lambda>x. 0 \<le> x) (f_stack f) \<and> length (f_stack f) \<le> StackLimit \<and> mem_Len (f_mem f) \<le> max_memory \<and>
     contract_ok (f_contract f)"

definition evm_ok :: "evm_env \<Rightarrow> bool \<Rightarrow> evm \<Rightarrow> bool" where
  "evm_ok env p e \<longleftrightarrow> sinv (ee_db env) p (StateDB e)"

definition same_level :: "evm \<Rightarrow> evm \<Rightarrow> bool" where
  "same_level e e' \<longleftrightarrow> evm_depth e' = evm_depth e \<and> readOnly e' = readOnly e"

definition env_ok :: "evm_env \<Rightarrow> bool" where
  "env_ok env \<longleftrightarrow> empty_storage (ee_db env) \<and> 0 \<le> GasPrice env \<and> 0 \<le> ChainID env \<and> 0 \<le> TxNonce env"

definition mem_ready :: "memorySizeFunc option \<Rightarrow> frame \<Rightarrow> bool" where
  "mem_ready need f =
     (case need of
        None \<Rightarrow> True
      | Some memorySize \<Rightarrow> (\<exists>sz. memorySize (f_stack f) = Some (sz, False) \<and> unat sz \<le> mem_Len (f_mem f)))"

text \<open>An instruction that takes \<open>pops\<close> items and leaves \<open>push\<close>. The flag \<open>w\<close> says that it writes, so it is not executed in a
  read-only frame.\<close>

fun plain_post :: "evm_env \<Rightarrow> bool \<Rightarrow> frame \<Rightarrow> evm \<Rightarrow> (vm_error + slice) \<times> frame \<times> evm \<Rightarrow> bool" where
  "plain_post env p f e (r, f', e') \<longleftrightarrow>
     frame_ok f' \<and> c_Gas (f_contract f') = c_Gas (f_contract f) \<and>
     moves (ee_db env) p (readOnly e) (StateDB e) (StateDB e') \<and> same_level e e'"

definition exec_plain ::
  "evm_env \<Rightarrow> bool \<Rightarrow> nat \<Rightarrow> nat \<Rightarrow> bool \<Rightarrow> memorySizeFunc option \<Rightarrow> executionFunc \<Rightarrow> bool" where
  "exec_plain env p pops push w need ex \<longleftrightarrow>
     (\<forall>run f e.
        frame_ok f \<and> evm_ok env p e \<and> pops \<le> length (f_stack f) \<and> length (f_stack f) + push \<le> StackLimit + pops \<and>
        (w \<longrightarrow> \<not> readOnly e) \<and> mem_ready need f \<longrightarrow>
        go_sat (plain_post env p f e) (ex env run f e))"

lemma exec_plainI:
  assumes "\<And>run f e. frame_ok f \<Longrightarrow> evm_ok env p e \<Longrightarrow> pops \<le> length (f_stack f) \<Longrightarrow>
      length (f_stack f) + push \<le> StackLimit + pops \<Longrightarrow> (w \<Longrightarrow> \<not> readOnly e) \<Longrightarrow> mem_ready need f \<Longrightarrow>
      go_sat (plain_post env p f e) (ex env run f e)"
  shows "exec_plain env p pops push w need ex"
  unfolding exec_plain_def using assms by simp

lemma frame_okD:
  assumes "frame_ok f"
  shows "list_all (\<lambda>x. 0 \<le> x) (f_stack f)" "length (f_stack f) \<le> StackLimit" "mem_Len (f_mem f) \<le> max_memory"
    "0 \<le> c_value (f_contract f)" "contract_ok (f_contract f)"
  using assms by (simp_all add: frame_ok_def contract_ok_def)

lemma contract_ok_simps [simp]:
  "contract_ok (c\<lparr>c_Gas := g\<rparr>) = contract_ok c" "contract_ok (c\<lparr>c_Input := i\<rparr>) = contract_ok c"
  by (simp_all add: contract_ok_def)

lemma same_level_simps [simp]:
  "same_level e e" "same_level e (e'\<lparr>StateDB := s\<rparr>) = same_level e e'" "same_level e (e'\<lparr>jumpdests := j\<rparr>) = same_level e e'"
  "same_level e (e'\<lparr>returnData := d\<rparr>) = same_level e e'" "same_level e (e'\<lparr>callGasTemp := g\<rparr>) = same_level e e'"
  by (simp_all add: same_level_def)

lemma evm_ok_simps [simp]:
  "evm_ok env p (e\<lparr>jumpdests := j\<rparr>) = evm_ok env p e" "evm_ok env p (e\<lparr>returnData := d\<rparr>) = evm_ok env p e"
  "evm_ok env p (e\<lparr>callGasTemp := g\<rparr>) = evm_ok env p e" "evm_ok env p (e\<lparr>evm_depth := n\<rparr>) = evm_ok env p e"
  "evm_ok env p (e\<lparr>readOnly := r\<rparr>) = evm_ok env p e"
  by (simp_all add: evm_ok_def)

lemma evm_ok_moves: "evm_ok env p e \<Longrightarrow> moves (ee_db env) p ro (StateDB e) (StateDB e)"
  by (simp add: evm_ok_def moves_refl)

section \<open>Computing instructions\<close>

lemma exec_next:
  assumes "frame_ok f" "evm_ok env p e" "list_all (\<lambda>x. 0 \<le> x) st" "length st \<le> StackLimit"
  shows "go_sat (plain_post env p f e) (next_stack st f e)"
  using assms by (simp add: next_stack_def frame_ok_def evm_ok_moves)

lemma exec_const:
  assumes "\<And>f e. frame_ok f \<Longrightarrow> evm_ok env p e \<Longrightarrow> 0 \<le> g env f e"
  shows "exec_plain env p 0 1 w need (op_const g)"
  by (rule exec_plainI) (use assms frame_okD in \<open>simp add: op_const_def stack_push_def exec_next\<close>)

lemma exec_unary:
  assumes g: "\<And>x. 0 \<le> x \<Longrightarrow> 0 \<le> g x"
  shows "exec_plain env p 1 1 w need (op_unary g)"
proof (rule exec_plainI, goal_cases)
  case (1 run f e)
  then obtain x st where "f_stack f = x # st" by (cases "f_stack f") auto
  then show ?case
    using 1 frame_okD(1,2) [OF 1(1)] by (simp add: op_unary_def stack_push_def exec_next g)
qed

lemma exec_binary:
  assumes g: "\<And>x y. 0 \<le> x \<Longrightarrow> 0 \<le> y \<Longrightarrow> 0 \<le> g x y"
  shows "exec_plain env p 2 1 w need (op_binary g)"
proof (rule exec_plainI, goal_cases)
  case (1 run f e)
  then obtain x y st where "f_stack f = x # y # st" by (auto simp: Suc_le_length_iff numeral_eq_Suc)
  then show ?case
    using 1 frame_okD(1,2) [OF 1(1)] by (simp add: op_binary_def stack_push_def exec_next g)
qed

lemma exec_ternary:
  assumes g: "\<And>x y z. 0 \<le> x \<Longrightarrow> 0 \<le> y \<Longrightarrow> 0 \<le> z \<Longrightarrow> 0 \<le> g x y z"
  shows "exec_plain env p 3 1 w need (op_ternary g)"
proof (rule exec_plainI, goal_cases)
  case (1 run f e)
  then obtain x y z st where "f_stack f = x # y # z # st" by (auto simp: Suc_le_length_iff numeral_eq_Suc)
  then show ?case
    using 1 frame_okD(1,2) [OF 1(1)] by (simp add: op_ternary_def stack_push_def exec_next g)
qed

named_theorems plain_ops

lemma nonneg_ite: "0 \<le> x \<Longrightarrow> 0 \<le> y \<Longrightarrow> 0 \<le> (if c then x else y :: int)"
  by simp

lemma exec_arithmetic [plain_ops]:
  "exec_plain env p 2 1 w need opAdd" "exec_plain env p 2 1 w need opSub" "exec_plain env p 2 1 w need opMul"
  "exec_plain env p 2 1 w need opDiv" "exec_plain env p 2 1 w need opSdiv" "exec_plain env p 2 1 w need opMod"
  "exec_plain env p 2 1 w need opSmod" "exec_plain env p 3 1 w need opAddmod" "exec_plain env p 3 1 w need opMulmod"
  unfolding opAdd_def opSub_def opMul_def opDiv_def opSdiv_def opMod_def opSmod_def opAddmod_def opMulmod_def Let_def
  by (intro exec_binary exec_ternary nonneg_ite U256_range(1) order_refl)+

lemma exec_shifts [plain_ops]:
  "exec_plain env p 1 1 w need opNot" "exec_plain env p 2 1 w need opSHL"
  "exec_plain env p 2 1 w need opSHR" "exec_plain env p 2 1 w need opSAR" "exec_plain env p 2 1 w need opByte"
  unfolding opNot_def opSHL_def opSHR_def opSAR_def opByte_def Let_def
  by (intro exec_unary exec_binary nonneg_ite U256_range(1) order_refl uint_ge_0)+

lemma exec_comparison [plain_ops]:
  "exec_plain env p 2 1 w need opLt" "exec_plain env p 2 1 w need opGt" "exec_plain env p 2 1 w need opSlt"
  "exec_plain env p 2 1 w need opSgt" "exec_plain env p 2 1 w need opEq" "exec_plain env p 1 1 w need opIszero"
  unfolding opLt_def opGt_def opSlt_def opSgt_def opEq_def opIszero_def Let_def bool_int_def
  by (intro exec_unary exec_binary nonneg_ite order_refl zero_le_one)+

lemma exec_bits [plain_ops]:
  "exec_plain env p 2 1 w need opAnd" "exec_plain env p 2 1 w need opOr" "exec_plain env p 2 1 w need opXor"
  "exec_plain env p 2 1 w need opExp"
  unfolding opAnd_def opOr_def opXor_def opExp_def Let_def
  by (rule exec_binary; simp add: Exp_correct)+


lemma exec_SignExtend [plain_ops]: "exec_plain env p 2 1 w need opSignExtend"
proof (rule exec_plainI, goal_cases)
  case (1 run f e)
  then obtain x y st where "f_stack f = x # y # st" by (auto simp: Suc_le_length_iff numeral_eq_Suc)
  then show ?case
    using 1 frame_okD(1,2) [OF 1(1)] U256_range(1)
    by (auto simp: opSignExtend_def stack_push_def Let_def intro!: exec_next)
qed

section \<open>The context\<close>

lemma SetBytes_nonneg [simp]: "0 \<le> SetBytes bs"
  by (simp add: SetBytes_def)

lemma exec_context [plain_ops]:
  assumes "env_ok env"
  shows "exec_plain env p 0 1 w need opAddress" "exec_plain env p 0 1 w need opOrigin"
    "exec_plain env p 0 1 w need opCaller" "exec_plain env p 0 1 w need opCallValue"
    "exec_plain env p 0 1 w need opCallDataSize" "exec_plain env p 0 1 w need opReturnDataSize"
    "exec_plain env p 0 1 w need opCodeSize" "exec_plain env p 0 1 w need opGasprice"
    "exec_plain env p 0 1 w need opCoinbase" "exec_plain env p 0 1 w need opTimestamp"
    "exec_plain env p 0 1 w need opNumber" "exec_plain env p 0 1 w need opDifficulty"
    "exec_plain env p 0 1 w need opGasLimit" "exec_plain env p 0 1 w need opChainID"
    "exec_plain env p 0 1 w need opNonce" "exec_plain env p 0 1 w need opPc"
    "exec_plain env p 0 1 w need opMsize" "exec_plain env p 0 1 w need opGas"
  unfolding opAddress_def opOrigin_def opCaller_def opCallValue_def opCallDataSize_def opReturnDataSize_def
    opCodeSize_def opGasprice_def opCoinbase_def opTimestamp_def opNumber_def opDifficulty_def opGasLimit_def
    opChainID_def opNonce_def opPc_def opMsize_def opGas_def
  by (rule exec_const; use assms frame_okD(4) in \<open>simp add: env_ok_def\<close>)+

text \<open>A new stack on a state that has been looked at.\<close>

lemma exec_looked:
  assumes "frame_ok f" "moves (ee_db env) p (readOnly e) (StateDB e) s" "list_all (\<lambda>x. 0 \<le> x) st"
    "length st \<le> StackLimit"
  shows "go_sat (plain_post env p f e) (next_stack st f (e\<lparr>StateDB := s\<rparr>))"
  using assms by (simp add: next_stack_def frame_ok_def)

lemma GetBalance_nonneg: "sinv b p s \<Longrightarrow> 0 \<le> fst (GetBalance b a s)"
  using sinv_balance [of b p s a] by (simp add: reads_abs a_read_balance [of _ _ b])

lemma pop1: "1 \<le> length (f_stack f) \<Longrightarrow> \<exists>x st. f_stack f = x # st"
  by (cases "f_stack f") auto

lemma pop2: "2 \<le> length (f_stack f) \<Longrightarrow> \<exists>x y st. f_stack f = x # y # st"
  by (auto simp: Suc_le_length_iff numeral_eq_Suc)

lemma pop3: "3 \<le> length (f_stack f) \<Longrightarrow> \<exists>x y z st. f_stack f = x # y # z # st"
  by (auto simp: Suc_le_length_iff numeral_eq_Suc)

lemma pop4: "4 \<le> length (f_stack f) \<Longrightarrow> \<exists>x y z u st. f_stack f = x # y # z # u # st"
  by (auto simp: Suc_le_length_iff numeral_eq_Suc)

lemma exec_Balance [plain_ops]: "exec_plain env p 1 1 w need opBalance"
proof (rule exec_plainI, goal_cases)
  case (1 run f e)
  then obtain x st where st: "f_stack f = x # st" using pop1 by blast
  obtain bal s where g: "GetBalance (ee_db env) (BigToAddress x) (StateDB e) = (bal, s)" by fastforce
  have inv: "sinv (ee_db env) p (StateDB e)" using 1 by (simp add: evm_ok_def)
  show ?case
    using 1 st g frame_okD(1,2) [OF 1(1)] GetBalance_nonneg [OF inv, of "BigToAddress x"]
      moves_reads(3) [OF inv, of "readOnly e" "BigToAddress x"]
    by (simp add: opBalance_def stack_push_def exec_looked)
qed

lemma exec_SelfBalance [plain_ops]: "exec_plain env p 0 1 w need opSelfBalance"
proof (rule exec_plainI, goal_cases)
  case (1 run f e)
  let ?a = "c_self (f_contract f)"
  obtain bal s where g: "GetBalance (ee_db env) ?a (StateDB e) = (bal, s)" by fastforce
  have inv: "sinv (ee_db env) p (StateDB e)" using 1 by (simp add: evm_ok_def)
  show ?case
    using 1 g frame_okD(1,2) [OF 1(1)] GetBalance_nonneg [OF inv, of ?a] moves_reads(3) [OF inv, of "readOnly e" ?a]
    by (simp add: opSelfBalance_def stack_push_def exec_looked)
qed

lemma exec_ExtCodeSize [plain_ops]: "exec_plain env p 1 1 w need opExtCodeSize"
proof (rule exec_plainI, goal_cases)
  case (1 run f e)
  then obtain x st where st: "f_stack f = x # st" using pop1 by blast
  obtain n s where g: "GetCodeSize (ee_db env) (BigToAddress x) (StateDB e) = (n, s)" by fastforce
  have inv: "sinv (ee_db env) p (StateDB e)" using 1 by (simp add: evm_ok_def)
  show ?case
    using 1 st g frame_okD(1,2) [OF 1(1)] moves_reads(5) [OF inv, of "readOnly e" "BigToAddress x"]
    by (simp add: opExtCodeSize_def stack_push_def exec_looked)
qed

lemma exec_ExtCodeHash [plain_ops]: "exec_plain env p 1 1 w need opExtCodeHash"
proof (rule exec_plainI, goal_cases)
  case (1 run f e)
  let ?b = "ee_db env"
  obtain x st where st: "f_stack f = x # st" using 1 pop1 by blast
  obtain n s where g: "Empty ?b (BigToAddress x) (StateDB e) = (n, s)" by fastforce
  obtain h t where h: "GetCodeHash ?b (BigToAddress x) s = (h, t)" by fastforce
  have inv: "sinv ?b p (StateDB e)" using 1 by (simp add: evm_ok_def)
  have m: "moves ?b p (readOnly e) (StateDB e) s"
    using moves_reads(2) [OF inv, of "readOnly e" "BigToAddress x"] g by simp
  have "moves ?b p (readOnly e) (StateDB e) t"
    using moves_trans [OF m] moves_reads(6) [OF moves_sinv [OF m inv], of "readOnly e" "BigToAddress x"] h by simp
  with m show ?case
    using 1 st g h frame_okD(1,2) [OF 1(1)] by (simp add: opExtCodeHash_def stack_push_def exec_looked)
qed

lemma exec_Sload [plain_ops]: "exec_plain env p 1 1 w need opSload"
proof (rule exec_plainI, goal_cases)
  case (1 run f e)
  let ?a = "c_self (f_contract f)"
  obtain x st where st: "f_stack f = x # st" using 1 pop1 by blast
  obtain v s where g: "GetState (ee_db env) ?a (BigToHash x) (StateDB e) = (v, s)" by fastforce
  have inv: "sinv (ee_db env) p (StateDB e)" using 1 by (simp add: evm_ok_def)
  show ?case
    using 1 st g frame_okD(1,2) [OF 1(1)] moves_reads(9) [OF inv, of "readOnly e" ?a "BigToHash x"]
    by (simp add: opSload_def stack_push_def exec_looked)
qed

lemma exec_small [plain_ops]:
  "exec_plain env p 1 1 w need opCallDataLoad" "exec_plain env p 1 1 w need opBlockhash"
  "exec_plain env p 1 0 w need opPop"
proof -
  show "exec_plain env p 1 1 w need opCallDataLoad"
  proof (rule exec_plainI, goal_cases)
    case (1 run f e)
    then show ?case
      using pop1 [of f] frame_okD(1,2) [OF 1(1)] by (auto simp: opCallDataLoad_def stack_push_def intro!: exec_next)
  qed
  show "exec_plain env p 1 1 w need opBlockhash"
  proof (rule exec_plainI, goal_cases)
    case (1 run f e)
    then show ?case
      using pop1 [of f] frame_okD(1,2) [OF 1(1)] by (auto simp: opBlockhash_def stack_push_def Let_def intro!: exec_next)
  qed
  show "exec_plain env p 1 0 w need opPop"
  proof (rule exec_plainI, goal_cases)
    case (1 run f e)
    then show ?case
      using pop1 [of f] frame_okD(1,2) [OF 1(1)] by (auto simp: opPop_def intro!: exec_next)
  qed
qed


section \<open>Memory\<close>

lemma ready_range:
  "mem_ready (Some (back2 calcMemSize64 i j)) f \<Longrightarrow> in_range (f_stack f ! i) (f_stack f ! j) (mem_Len (f_mem f))"
  by (auto simp: mem_ready_def back2_def stack_Back_def split: bind_splits if_splits intro: calcMemSize64_range)

lemma ready_fixed:
  assumes "mem_ready (Some (\<lambda>st. do { x \<leftarrow> stack_Back 0 st; Some (calcMemSize64WithUint x n) })) f"
  shows "in_range (f_stack f ! 0) (uint n) (mem_Len (f_mem f))"
  using assms
  by (auto simp: mem_ready_def stack_Back_def split: bind_splits if_splits intro: calcMemSize64WithUint_range)

lemmas memory_sizes = memorySha3_def memoryCallDataCopy_def memoryReturnDataCopy_def memoryCodeCopy_def
  memoryExtCodeCopy_def memoryReturn_def memoryRevert_def memoryLog_def memoryCreate_def memoryCreate2_def

lemma exec_mem_write:
  assumes "frame_ok f" "moves (ee_db env) p (readOnly e) (StateDB e) s" "list_all (\<lambda>x. 0 \<le> x) st"
    "length st \<le> StackLimit" "in_range off n (mem_Len (f_mem f))"
  shows "go_sat (plain_post env p f e) (mem_write off n data st f (e\<lparr>StateDB := s\<rparr>))"
  using mem_Set_len [OF assms(5) frame_okD(3) [OF assms(1)], of data] assms
  by (auto simp: mem_write_def frame_ok_def)

lemma exec_copies [plain_ops]:
  "exec_plain env p 3 0 w (Some memoryCallDataCopy) opCallDataCopy"
  "exec_plain env p 3 0 w (Some memoryCodeCopy) opCodeCopy"
proof -
  have "go_sat (plain_post env p f e) (mem_write x z data st f e)"
    if "frame_ok f" "evm_ok env p e" "f_stack f = x # y # z # st" "mem_ready (Some (back2 calcMemSize64 0 2)) f"
    for f e x y z st data
    using that frame_okD(1,2) [OF that(1)] ready_range [OF that(4)]
      exec_mem_write [where s = "StateDB e" and e = e] evm_ok_moves [OF that(2), of "readOnly e"] by simp
  note writes = this
  show "exec_plain env p 3 0 w (Some memoryCallDataCopy) opCallDataCopy"
  proof (rule exec_plainI, goal_cases)
    case (1 run f e)
    then show ?case
      using pop3 [of f] by (auto simp: opCallDataCopy_def memory_sizes intro!: writes)
  qed
  show "exec_plain env p 3 0 w (Some memoryCodeCopy) opCodeCopy"
  proof (rule exec_plainI, goal_cases)
    case (1 run f e)
    then show ?case
      using pop3 [of f] by (auto simp: opCodeCopy_def memory_sizes intro!: writes)
  qed
qed

lemma exec_ExtCodeCopy [plain_ops]: "exec_plain env p 4 0 w (Some memoryExtCodeCopy) opExtCodeCopy"
proof (rule exec_plainI, goal_cases)
  case (1 run f e)
  obtain x y z u st where st: "f_stack f = x # y # z # u # st" using pop4 [of f] 1(3) by blast
  obtain c s where g: "GetCode (ee_db env) (BigToAddress x) (StateDB e) = (c, s)" by fastforce
  have inv: "sinv (ee_db env) p (StateDB e)" using 1 by (simp add: evm_ok_def)
  have r: "in_range y u (mem_Len (f_mem f))"
    using ready_range [of 1 3 f] 1(6) st by (simp add: memory_sizes)
  have m: "moves (ee_db env) p (readOnly e) (StateDB e) s"
    using moves_reads(8) [OF inv, of "readOnly e" "BigToAddress x"] g by simp
  show ?case
    using exec_mem_write [OF 1(1) m _ _ r, of st] frame_okD(1,2) [OF 1(1)] st g by (simp add: opExtCodeCopy_def)
qed

lemma exec_ReturnDataCopy [plain_ops]: "exec_plain env p 3 0 w (Some memoryReturnDataCopy) opReturnDataCopy"
proof (rule exec_plainI, goal_cases)
  case (1 run f e)
  obtain x y z st where st: "f_stack f = x # y # z # st" using pop3 [of f] 1(3) by blast
  note ok = frame_okD [OF 1(1)]
  have nn: "0 \<le> y" "0 \<le> z" using ok(1) st by auto
  have r: "in_range x z (mem_Len (f_mem f))"
    using ready_range [of 0 2 f] 1(6) st by (simp add: memory_sizes)
  have le: "\<not> big_Uint64 y > big_Uint64 (y + z)" if "big_IsUint64 (y + z)"
  proof -
    have "y < 2 ^ 64" "y + z < 2 ^ 64" using that nn by auto
    then show ?thesis
      using nn uint_big_Uint64 [of y] uint_big_Uint64 [of "y + z"] by (simp add: word_less_def)
  qed
  have m: "moves (ee_db env) p (readOnly e) (StateDB e) (StateDB e)" by (rule evm_ok_moves [OF 1(2)])
  show ?case
    using exec_mem_write [OF 1(1) m _ _ r, of st] ok le m st 1(1)
    by (simp add: opReturnDataCopy_def Let_def frame_ok_def del: big_IsUint64_iff)
qed

lemma exec_Sha3 [plain_ops]: "exec_plain env p 2 1 w (Some memorySha3) opSha3"
proof (rule exec_plainI, goal_cases)
  case (1 run f e)
  obtain x y st where st: "f_stack f = x # y # st" using pop2 [of f] 1(3) by blast
  have r: "in_range x y (mem_Len (f_mem f))"
    using ready_range [of 0 1 f] 1(6) st by (simp add: memory_sizes)
  have inv: "sinv (ee_db env) p (StateDB e)" using 1(2) by (simp add: evm_ok_def)
  show ?case
    using mem_range_ok [OF r frame_okD(3) [OF 1(1)]] 1(1) st evm_ok_moves [OF 1(2)] moves_AddPreimage [OF inv]
    by (simp add: opSha3_def mem_GetPtr_def Let_def frame_ok_def stack_push_def)
qed

lemma exec_Mload [plain_ops]: "exec_plain env p 1 1 w (Some memoryMLoad) opMload"
proof (rule exec_plainI, goal_cases)
  case (1 run f e)
  obtain x st where st: "f_stack f = x # st" using pop1 [of f] 1(3) by blast
  have r: "in_range x 32 (mem_Len (f_mem f))"
    using ready_fixed [of 32 f] 1(6) st by (simp add: memoryMLoad_def [abs_def])
  show ?case
    using mem_range_ok [OF r frame_okD(3) [OF 1(1)]] 1(1) st evm_ok_moves [OF 1(2)] big_Int64_small [of 32]
    by (simp add: opMload_def mem_GetPtr_def frame_ok_def stack_push_def)
qed

lemma exec_Mstore [plain_ops]: "exec_plain env p 2 0 w (Some memoryMStore) opMstore"
proof (rule exec_plainI, goal_cases)
  case (1 run f e)
  obtain x y st where st: "f_stack f = x # y # st" using pop2 [of f] 1(3) by blast
  have r: "in_range x 32 (mem_Len (f_mem f))"
    using ready_fixed [of 32 f] 1(6) st by (simp add: memoryMStore_def [abs_def])
  show ?case
    using mem_Set32_ok [OF r frame_okD(3) [OF 1(1)], of y] 1(1) st evm_ok_moves [OF 1(2)]
    by (auto simp: opMstore_def frame_ok_def)
qed

lemma exec_Mstore8 [plain_ops]: "exec_plain env p 2 0 w (Some memoryMStore8) opMstore8"
proof (rule exec_plainI, goal_cases)
  case (1 run f e)
  obtain x y st where st: "f_stack f = x # y # st" using pop2 [of f] 1(3) by blast
  have r: "in_range x 1 (mem_Len (f_mem f))"
    using ready_fixed [of 1 f] 1(6) st by (simp add: memoryMStore8_def [abs_def])
  show ?case
    using mem_setByte_ok [OF r frame_okD(3) [OF 1(1)], of "word_of_int (big_Int64 y)"] 1(1) st evm_ok_moves [OF 1(2)]
    by (auto simp: opMstore8_def frame_ok_def)
qed

lemma exec_results [plain_ops]:
  "exec_plain env p 2 0 w (Some memoryReturn) opReturn" "exec_plain env p 2 0 w (Some memoryRevert) opRevert"
proof -
  have "go_sat (plain_post env p f e) (mem_result f e)"
    if "frame_ok f" "evm_ok env p e" "2 \<le> length (f_stack f)" "mem_ready (Some (back2 calcMemSize64 0 1)) f" for f e
  proof -
    have "\<exists>x y st. f_stack f = x # y # st" using pop2 [OF that(3)] .
    then obtain x y st where st: "f_stack f = x # y # st" by blast
    show ?thesis
      using mem_range_ok [OF ready_range [OF that(4)] frame_okD(3) [OF that(1)]] that(1) st evm_ok_moves [OF that(2)]
      by (simp add: mem_result_def mem_GetPtr_def frame_ok_def)
  qed
  then show "exec_plain env p 2 0 w (Some memoryReturn) opReturn" "exec_plain env p 2 0 w (Some memoryRevert) opRevert"
    by (simp_all add: exec_plain_def opReturn_def opRevert_def memory_sizes)
qed


section \<open>Control flow\<close>

lemma validJumpdest_safe:
  assumes "contract_ok c"
  shows "go_sat (\<lambda>(ok, c', e'). contract_ok c' \<and> c_Gas c' = c_Gas c \<and> StateDB e' = StateDB e \<and> same_level e e')
    (validJumpdest dest c e)"
proof -
  let ?u = "unat (big_Uint64 dest)"
  obtain bits where b: "codeBitmap (c_Code c) = Some bits"
    "\<forall>pos < length (c_Code c). codeSegment bits pos = Some (instruction_at (c_Code c) 0 pos)"
    using codeBitmap_correct by blast
  show ?thesis
  proof (cases "63 \<le> big_BitLen dest \<or> length (c_Code c) \<le> ?u \<or> c_Code c ! ?u \<noteq> JUMPDEST")
    case True
    then show ?thesis using assms by (auto simp: validJumpdest_def Let_def)
  next
    case False
    then have "codeSegment bits ?u = Some (instruction_at (c_Code c) 0 ?u)" using b(2) by simp
    then show ?thesis
      using False b(1) assms
      by (auto simp: validJumpdest_def Let_def contract_ok_def split: option.split)
  qed
qed

lemma exec_jump_to:
  assumes "frame_ok f" "evm_ok env p e" "list_all (\<lambda>x. 0 \<le> x) st" "length st \<le> StackLimit"
  shows "go_sat (plain_post env p f e) (jump_to pos st f e)"
  unfolding jump_to_def
  by (rule go_sat_bind [OF validJumpdest_safe [OF frame_okD(5) [OF assms(1)], of e pos]])
    (use assms evm_ok_moves [OF assms(2)] in \<open>auto simp: frame_ok_def\<close>)

lemma exec_jumps [plain_ops]: "exec_plain env p 1 0 w need opJump" "exec_plain env p 2 0 w need opJumpi"
proof -
  show "exec_plain env p 1 0 w need opJump"
  proof (rule exec_plainI, goal_cases)
    case (1 run f e)
    then show ?case
      using pop1 [of f] frame_okD(1,2) [OF 1(1)] by (auto simp: opJump_def intro!: exec_jump_to)
  qed
  show "exec_plain env p 2 0 w need opJumpi"
  proof (rule exec_plainI, goal_cases)
    case (1 run f e)
    obtain x y st where st: "f_stack f = x # y # st" using pop2 [of f] 1(3) by blast
    then show ?case
      using 1(1) frame_okD(1,2) [OF 1(1)] exec_jump_to [OF 1(1,2), of st x] evm_ok_moves [OF 1(2)]
      by (simp add: opJumpi_def frame_ok_def)
  qed
qed

lemma exec_markers [plain_ops]: "exec_plain env p 0 0 w need opJumpdest" "exec_plain env p 0 0 w need opStop"
  by (rule exec_plainI; simp add: opJumpdest_def opStop_def evm_ok_moves)+

lemma exec_Suicide [plain_ops]: "exec_plain env p 1 0 True need opSuicide"
proof (rule exec_plainI, goal_cases)
  case (1 run f e)
  let ?b = "ee_db env" and ?a = "c_self (f_contract f)"
  obtain x st where st: "f_stack f = x # st" using pop1 [of f] 1(3) by blast
  have inv: "sinv ?b p (StateDB e)" using 1(2) by (simp add: evm_ok_def)
  obtain bal s where g: "GetBalance ?b ?a (StateDB e) = (bal, s)" by fastforce
  have m: "moves ?b p False (StateDB e) s" and bal: "bal = a_read v_balance 0 ?a (absS ?b s)"
    using moves_reads(3) [OF inv, of False ?a] reads_abs(3,4) [of ?b ?a "StateDB e"] g by simp_all
  let ?t = "AddBalance ?b (BigToAddress x) bal s"
  have "moves ?b p False (StateDB e) (snd (Suicide ?b ?a ?t))"
    using moves_trans [OF m moves_selfdestruct [OF moves_sinv [OF m inv] bal]] .
  then show ?case
    using st g 1(5) frame_okD(1,2) [OF 1(1)] exec_looked [OF 1(1), of env p e] by (simp add: opSuicide_def split_beta Let_def)
qed

section \<open>Families\<close>

lemma exec_Log [plain_ops]: "exec_plain env p (n + 2) 0 True (Some memoryLog) (makeLog n)"
proof (rule exec_plainI, goal_cases)
  case (1 run f e)
  have "2 \<le> length (f_stack f)" using 1(3) by simp
  then obtain x y st where st: "f_stack f = x # y # st" using pop2 [of f] by blast
  have r: "in_range x y (mem_Len (f_mem f))"
    using ready_range [of 0 1 f] 1(6) st by (simp add: memory_sizes)
  have inv: "sinv (ee_db env) p (StateDB e)" using 1(2) by (simp add: evm_ok_def)
  have "list_all (\<lambda>x. 0 \<le> x) (drop n st)" "length (drop n st) \<le> StackLimit"
    using frame_okD(1,2) [OF 1(1)] st by (auto simp: list_all_iff dest: in_set_dropD)
  then show ?case
    using mem_range_ok [OF r frame_okD(3) [OF 1(1)]] 1(1,3,5) st moves_AddLog [OF inv]
    by (simp add: makeLog_def mem_GetCopy_def Let_def frame_ok_def)
qed

lemma exec_pushes [plain_ops]: "exec_plain env p 0 1 w need opPush1" "exec_plain env p 0 1 w need (makePush sz n)"
  by (rule exec_plainI; auto simp: opPush1_def makePush_def Let_def stack_push_def frame_ok_def evm_ok_moves)+

lemma exec_Dup [plain_ops]: "0 < n \<Longrightarrow> exec_plain env p n (n + 1) w need (makeDup n)"
proof (rule exec_plainI, goal_cases)
  case (1 run f e)
  then have "0 \<le> f_stack f ! (n - 1)"
    using frame_okD(1) [of f] by (simp add: list_all_length)
  then show ?case
    using 1 frame_okD [OF 1(2)] by (simp add: makeDup_def stack_dup_def stack_push_def frame_ok_def evm_ok_moves)
qed

lemma list_all_update: "list_all P xs \<Longrightarrow> P x \<Longrightarrow> list_all P (xs[i := x])"
  by (auto simp: list_all_iff dest!: set_update_subset_insert [THEN subsetD])

lemma exec_Swap [plain_ops]: "exec_plain env p (n + 1) (n + 1) w need (makeSwap n)"
proof (rule exec_plainI, goal_cases)
  case (1 run f e)
  have "n < length (f_stack f)" "0 < length (f_stack f)" using 1(3) by linarith+
  then have "0 \<le> f_stack f ! n" "0 \<le> f_stack f ! 0"
    using frame_okD(1) [OF 1(1)] unfolding list_all_length by blast+
  then have "list_all (\<lambda>x. 0 \<le> x) ((f_stack f)[0 := f_stack f ! n, n := f_stack f ! 0])"
    using frame_okD(1) [OF 1(1)] by (intro list_all_update)
  then show ?case
    using 1 frame_okD [OF 1(1)] by (simp add: makeSwap_def stack_swap_def frame_ok_def evm_ok_moves)
qed

end
