(* ===== verification/Evm_Charge.thy ===== *)
theory Evm_Charge
  imports Evm_Run Evm_Plain
begin

text \<open>
  Paying for an instruction. A gas function leaves the memory and the accounts alone and returns at least
  its base price; once the gas is paid, the memory has been resized to what the instruction needs. The relation \<open>evolves\<close> says
  what a run may do to the machine: use gas, change the state revertibly, and earn refunds of at most
  24 gas per gas spent.
\<close>

section \<open>Progress of a machine\<close>

abbreviation refund_of :: "evm \<Rightarrow> nat" where
  "refund_of e \<equiv> unat (sd_refund (StateDB e))"

definition budget :: "u64 \<Rightarrow> evm \<Rightarrow> bool" where
  "budget g e \<longleftrightarrow> refund_of e + 24 * unat g < 2 ^ 64"

definition leaves :: "evm_env \<Rightarrow> u64 \<Rightarrow> evm \<Rightarrow> u64 \<Rightarrow> evm \<Rightarrow> bool" where
  "leaves env g e g' e' \<longleftrightarrow>
     extends (ee_db env) (StateDB e) (StateDB e') \<and> unat g' \<le> unat g \<and> same_level e e'"

definition evolves :: "evm_env \<Rightarrow> bool \<Rightarrow> bool \<Rightarrow> u64 \<Rightarrow> evm \<Rightarrow> u64 \<Rightarrow> evm \<Rightarrow> bool" where
  "evolves env p ro g e g' e' \<longleftrightarrow>
     leaves env g e g' e' \<and> ainv p (absS (ee_db env) (StateDB e')) \<and>
     refund_of e' + 24 * unat g' \<le> refund_of e + 24 * unat g \<and>
     (ro \<longrightarrow> pure (ee_db env) (absS (ee_db env) (StateDB e)) (absS (ee_db env) (StateDB e'))) \<and>
     funds (absS (ee_db env) (StateDB e')) \<le> funds (absS (ee_db env) (StateDB e))"

lemma a_refund_absS [simp]: "a_refund (absS b s) = sd_refund s"
  by (simp add: absS_def)

lemma same_level_trans: "same_level e e1 \<Longrightarrow> same_level e1 e2 \<Longrightarrow> same_level e e2"
  by (simp add: same_level_def)

lemma leaves_trans: "leaves env g e g1 e1 \<Longrightarrow> leaves env g1 e1 g2 e2 \<Longrightarrow> leaves env g e g2 e2"
  unfolding leaves_def by (meson extends_trans same_level_trans le_trans)

lemma evolves_trans: "evolves env p ro g e g1 e1 \<Longrightarrow> evolves env p ro g1 e1 g2 e2 \<Longrightarrow> evolves env p ro g e g2 e2"
  unfolding evolves_def by (meson leaves_trans pure_trans le_trans order_trans)

lemma evolves_leaves: "evolves env p ro g e g' e' \<Longrightarrow> leaves env g e g' e'"
  by (simp add: evolves_def)

lemma evolves_ok: "evolves env p ro g e g' e' \<Longrightarrow> evm_ok env p e \<Longrightarrow> evm_ok env p e'"
  unfolding evolves_def leaves_def evm_ok_def sinv_def using extends_state_ok by blast

lemma evolves_budget: "evolves env p ro g e g' e' \<Longrightarrow> budget g e \<Longrightarrow> budget g' e'"
  unfolding evolves_def budget_def by linarith

lemma evolves_mono: "evolves env p ro g e g' e' \<Longrightarrow> (ro' \<Longrightarrow> ro) \<Longrightarrow> evolves env p ro' g e g' e'"
  by (auto simp: evolves_def)

lemma moves_evolves:
  assumes "moves (ee_db env) p ro (StateDB e) (StateDB e')" "same_level e e'" "unat g' \<le> unat g"
  shows "evolves env p ro g e g' e'"
  using assms by (simp add: moves_def evolves_def leaves_def)

lemma moves_weaken: "moves b p True s t \<Longrightarrow> moves b p ro s t"
  by (auto simp: moves_def)

section \<open>Gas functions\<close>

definition gas_plain :: "evm_env \<Rightarrow> bool \<Rightarrow> nat \<Rightarrow> bool \<Rightarrow> nat \<Rightarrow> gasFunc \<Rightarrow> bool" where
  "gas_plain env p pops m lo dg \<longleftrightarrow>
     (\<forall>c st mem sz e. evm_ok env p e \<and> pops \<le> length st \<longrightarrow>
        (\<exists>g mem' e'. dg env c st mem sz e = Some (g, mem', e') \<and> store mem' = store mem \<and>
           moves (ee_db env) p True (StateDB e) (StateDB e') \<and> same_level e e' \<and>
           (\<forall>x. g = Inr x \<longrightarrow> lo \<le> unat x \<and> (m \<longrightarrow> unat sz \<le> max_memory))))"

lemma gas_then_Inr: "gas_then g f = Inr x \<longleftrightarrow> (\<exists>y. g = Inr y \<and> f y = Inr x)"
  by (cases g) auto

lemma checked_Inr: "checked r = Inr x \<longleftrightarrow> \<not> snd r \<and> x = fst r"
  by (auto simp: checked_def)

lemma checked_add_ge: "checked (SafeAdd x y) = Inr z \<Longrightarrow> unat z = unat x + unat y"
  using u64_add_carry [of x y] by (auto simp: checked_Inr SafeAdd_correct)

named_theorems plain_gas

lemma gas_memory_with: "k < pops \<Longrightarrow> gas_plain env p pops True 0 (memory_gas_with k f)"
  unfolding gas_plain_def memory_gas_with_def
  by (auto simp: stack_Back_def split_beta gas_then_Inr memoryGasCost_store evm_ok_moves dest: memoryGasCost_limit)

lemma gas_memory [plain_gas]:
  "gas_plain env p 3 True 0 gasCallDataCopy" "gas_plain env p 3 True 0 gasCodeCopy" "gas_plain env p 4 True 0 gasExtCodeCopy"
  "gas_plain env p 3 True 0 gasReturnDataCopy" "gas_plain env p 2 True 0 gasSha3" "gas_plain env p 3 True 0 gasCreate2"
  by (simp_all add: gas_memory_with gasCallDataCopy_def gasCodeCopy_def gasExtCodeCopy_def gasReturnDataCopy_def memoryCopierGas_def
      gasSha3_def gasCreate2_def)

lemma gas_pure: "gas_plain env p pops True 0 pureMemoryGascost"
  unfolding gas_plain_def pureMemoryGascost_def
  by (auto simp: split_beta memoryGasCost_store evm_ok_moves dest: memoryGasCost_limit)

lemma gas_pures [plain_gas]:
  "gas_plain env p pops True 0 gasReturn" "gas_plain env p pops True 0 gasRevert" "gas_plain env p pops True 0 gasMLoad"
  "gas_plain env p pops True 0 gasMStore8" "gas_plain env p pops True 0 gasMStore" "gas_plain env p pops True 0 gasCreate"
  by (simp_all add: gasReturn_def gasRevert_def gasMLoad_def gasMStore8_def gasMStore_def gasCreate_def gas_pure)

lemma gas_Log [plain_gas]: "2 \<le> pops \<Longrightarrow> gas_plain env p pops True 375 (makeGasLog n)"
  unfolding gas_plain_def makeGasLog_def
  by (auto simp: stack_Back_def split_beta gas_then_Inr memoryGasCost_store evm_ok_moves
      dest!: memoryGasCost_limit checked_add_ge split: sum.split)

lemma gas_Exp [plain_gas]: "gas_plain env p 2 False 10 gasExpFrontier" "gas_plain env p 2 False 10 gasExpEIP158"
  unfolding gas_plain_def gasExpFrontier_def gasExpEIP158_def gas_exp_def
  by (auto simp: stack_Back_def evm_ok_moves Let_def dest: checked_add_ge)


section \<open>One instruction after its constant price\<close>

definition pay :: "evm_env \<Rightarrow> u64 \<Rightarrow> u64 \<Rightarrow> memory \<Rightarrow> frame \<Rightarrow> evm \<Rightarrow> vm_error option \<times> frame \<times> evm" where
  "pay env memorySize dynamicCost m f e =
     (let (ok, c) = UseGas dynamicCost (f_contract f) in
      if \<not> ok then (Some ErrOutOfGas, f\<lparr>f_contract := c, f_mem := m\<rparr>, e)
      else
        (let (m, e) = (if memorySize > 0 then resize env memorySize m e else (m, e))
         in (None, f\<lparr>f_contract := c, f_mem := m\<rparr>, e)))"

definition dyn_charge :: "evm_env \<Rightarrow> operation \<Rightarrow> frame \<Rightarrow> evm \<Rightarrow> (vm_error option \<times> frame \<times> evm) option" where
  "dyn_charge env op f e =
     do {
       r \<leftarrow> requested_memory op (f_stack f);
       case r of
         Inl er \<Rightarrow> Some (Some er, f, e)
       | Inr memorySize \<Rightarrow>
           do {
             (g, m, e) \<leftarrow> (case o_dynamicGas op of
                             None \<Rightarrow> Some (Inr 0, f_mem f, e)
                           | Some dynamicGas \<Rightarrow> dynamicGas env (f_contract f) (f_stack f) (f_mem f) memorySize e);
             case g of
               Inl er \<Rightarrow> Some (Some ErrOutOfGas, f\<lparr>f_mem := m\<rparr>, e)
             | Inr dynamicCost \<Rightarrow>
                 Some (pay env memorySize dynamicCost m f e)
           }
     }"

lemma charge_split:
  "charge env op f e =
     (let (ok, c) = UseGas (o_constantGas op) (f_contract f) in
      if \<not> ok then Some (Some ErrOutOfGas, f\<lparr>f_contract := c\<rparr>, e)
      else dyn_charge env op (f\<lparr>f_contract := c\<rparr>) e)"
  by (simp add: charge_def dyn_charge_def pay_def split_beta Let_def if_distrib [of Some]
      cong: if_cong sum.case_cong option.case_cong)

definition need_ok :: "nat \<Rightarrow> memorySizeFunc option \<Rightarrow> bool" where
  "need_ok pops need \<longleftrightarrow> (\<forall>ms st. need = Some ms \<longrightarrow> pops \<le> length st \<longrightarrow> ms st \<noteq> None)"

text \<open>The memory an instruction asks for covers what its size function said.\<close>

lemma requested_memory_cases:
  assumes "need_ok pops (o_memorySize op)" "pops \<le> length st"
  obtains er where "requested_memory op st = Some (Inl er)"
  | sz where "requested_memory op st = Some (Inr sz)"
      "\<And>f. f_stack f = st \<Longrightarrow> unat sz \<le> mem_Len (f_mem f) \<Longrightarrow> mem_ready (o_memorySize op) f"
proof (cases "o_memorySize op")
  case None
  then show ?thesis
    using that(2) by (simp add: requested_memory_def mem_ready_def)
next
  case (Some ms)
  then obtain sz ov where ms: "ms st = Some (sz, ov)"
    using assms by (fastforce simp: need_ok_def)
  show ?thesis
  proof (cases "ov \<or> snd (SafeMul (toWordSize sz) 32)")
    case True
    then show ?thesis
      using that(1) Some ms by (auto simp: requested_memory_def checked_def split: if_splits)
  next
    case False
    then have lt: "unat (toWordSize sz) * 32 < 2 ^ 64"
      by (simp add: SafeMul_correct)
    have "unat (toWordSize sz * 32) = (unat sz + 31) div 32 * 32"
      using lt by (simp add: unat_word_ariths toWordSize_correct)
    then have "unat sz \<le> unat (toWordSize sz * 32)" by simp
    moreover have "requested_memory op st = Some (Inr (toWordSize sz * 32))"
      using Some ms False by (simp add: requested_memory_def checked_def SafeMul_correct)
    ultimately show ?thesis
      using that(2) Some ms False by (fastforce simp: mem_ready_def)
  qed
qed

lemma UseGas_cases:
  obtains "UseGas g c = (False, c)" | "UseGas g c = (True, c\<lparr>c_Gas := c_Gas c - g\<rparr>)" "unat (c_Gas c - g) + unat g = unat (c_Gas c)"
proof (cases "c_Gas c < g")
  case True
  then show ?thesis by (intro that(1)) (simp add: UseGas_def)
next
  case False
  then have "g \<le> c_Gas c" by simp
  then have "unat (c_Gas c - g) = unat (c_Gas c) - unat g" "unat g \<le> unat (c_Gas c)"
    by (simp_all add: unat_sub word_le_nat_alt)
  then show ?thesis using False by (intro that(2)) (simp_all add: UseGas_def)
qed

lemma resize_ok:
  assumes "resize env sz m e = (m', e')"
  shows "mem_Len m' = max (mem_Len m) (unat sz)" "StateDB e' = StateDB e" "same_level e e'"
    "callGasTemp e' = callGasTemp e"
  using assms by (auto simp: resize_def Let_def mem_Resize_def mem_Len_def split: if_splits)

text \<open>What charging leaves behind: on success a frame that is ready to execute.\<close>

fun charged :: "evm_env \<Rightarrow> bool \<Rightarrow> nat \<Rightarrow> operation \<Rightarrow> frame \<Rightarrow> evm \<Rightarrow> vm_error option \<times> frame \<times> evm \<Rightarrow> bool" where
  "charged env p lo op f e (err, f', e') \<longleftrightarrow>
     moves (ee_db env) p True (StateDB e) (StateDB e') \<and> same_level e e' \<and>
     unat (c_Gas (f_contract f')) \<le> unat (c_Gas (f_contract f)) \<and>
     (err = None \<longrightarrow>
        frame_ok f' \<and> f_stack f' = f_stack f \<and> mem_ready (o_memorySize op) f' \<and>
        unat (c_Gas (f_contract f')) + lo \<le> unat (c_Gas (f_contract f)))"

definition dyn_plain :: "evm_env \<Rightarrow> bool \<Rightarrow> nat \<Rightarrow> nat \<Rightarrow> operation \<Rightarrow> bool" where
  "dyn_plain env p pops lo op \<longleftrightarrow>
     need_ok pops (o_memorySize op) \<and>
     (case o_dynamicGas op of
        None \<Rightarrow> o_memorySize op = None \<and> lo = 0
      | Some dg \<Rightarrow> gas_plain env p pops (o_memorySize op \<noteq> None) lo dg)"

lemma pay_ok:
  assumes f: "frame_ok f" and sz: "o_memorySize op \<noteq> None \<Longrightarrow> unat sz \<le> max_memory" "o_memorySize op = None \<Longrightarrow> sz = 0"
    and ready: "\<And>f'. f_stack f' = f_stack f \<Longrightarrow> unat sz \<le> mem_Len (f_mem f') \<Longrightarrow> mem_ready (o_memorySize op) f'"
    and m: "store m = store (f_mem f)" "moves (ee_db env) p True (StateDB e) (StateDB e1)" "same_level e e1"
  shows "charged env p (unat x) op f e (pay env sz x m f e1)" "callGasTemp (snd (snd (pay env sz x m f e1))) = callGasTemp e1"
proof -
  have "charged env p (unat x) op f e (pay env sz x m f e1) \<and> callGasTemp (snd (snd (pay env sz x m f e1))) = callGasTemp e1"
  proof (cases rule: UseGas_cases [of x "f_contract f"])
    case 1
    then show ?thesis using m by (simp add: pay_def)
  next
    case 2
    have len: "mem_Len m \<le> max_memory"
      using frame_okD(3) [OF f] m(1) by (simp add: mem_Len_def)
    obtain m2 e2 where r: "(if sz > 0 then resize env sz m e1 else (m, e1)) = (m2, e2)" by fastforce
    have m2: "mem_Len m2 \<le> max_memory" "unat sz \<le> mem_Len m2" "StateDB e2 = StateDB e1" "same_level e1 e2"
      "callGasTemp e2 = callGasTemp e1"
      using r sz len resize_ok [of env sz m e1 m2 e2] by (auto simp: word_gt_0 split: if_splits)
    have "contract_ok (f_contract f\<lparr>c_Gas := c_Gas (f_contract f) - x\<rparr>)"
      using frame_okD(5) [OF f] by simp
    then have "frame_ok (f\<lparr>f_contract := (f_contract f)\<lparr>c_Gas := c_Gas (f_contract f) - x\<rparr>, f_mem := m2\<rparr>)"
      using f m2(1) by (simp add: frame_ok_def)
    then show ?thesis
      using 2 r m m2 same_level_trans [OF m(3) m2(4)] by (simp add: ready pay_def)
  qed
  then show "charged env p (unat x) op f e (pay env sz x m f e1)" "callGasTemp (snd (snd (pay env sz x m f e1))) = callGasTemp e1" by auto
qed


lemma charged_lo: "charged env p lo op f e res \<Longrightarrow> lo' \<le> lo \<Longrightarrow> charged env p lo' op f e res"
  by (cases res) auto

lemma dyn_charge_paid:
  assumes need: "need_ok pops (o_memorySize op)" and f: "frame_ok f" "evm_ok env p e" "pops \<le> length (f_stack f)"
    and dg: "o_dynamicGas op = Some dg"
      "\<And>sz. \<exists>g m e1. dg env (f_contract f) (f_stack f) (f_mem f) sz e = Some (g, m, e1) \<and> store m = store (f_mem f) \<and>
         moves (ee_db env) p True (StateDB e) (StateDB e1) \<and> same_level e e1 \<and>
         (\<forall>x. g = Inr x \<longrightarrow> Q x e1 \<and> (o_memorySize op \<noteq> None \<longrightarrow> unat sz \<le> max_memory))"
  shows "\<exists>res. dyn_charge env op f e = Some res \<and> charged env p 0 op f e res \<and>
           (fst res = None \<longrightarrow>
              (\<exists>x e1. charged env p (unat x) op f e res \<and> callGasTemp (snd (snd res)) = callGasTemp e1 \<and> Q x e1))"
proof (cases rule: requested_memory_cases [OF need f(3)])
  case (1 er)
  then show ?thesis using evm_ok_moves [OF f(2)] by (simp add: dyn_charge_def)
next
  case (2 sz)
  obtain g m e1 where d: "dg env (f_contract f) (f_stack f) (f_mem f) sz e = Some (g, m, e1)"
    "store m = store (f_mem f)" "moves (ee_db env) p True (StateDB e) (StateDB e1)" "same_level e e1"
    "\<And>x. g = Inr x \<Longrightarrow> Q x e1 \<and> (o_memorySize op \<noteq> None \<longrightarrow> unat sz \<le> max_memory)"
    using dg(2) [of sz] by blast
  show ?thesis
  proof (cases g)
    case (Inl er)
    then show ?thesis using d(1,3,4) dg(1) 2(1) by (simp add: dyn_charge_def)
  next
    case (Inr x)
    have c: "charged env p (unat x) op f e (pay env sz x m f e1)"
      "callGasTemp (snd (snd (pay env sz x m f e1))) = callGasTemp e1"
      by (rule pay_ok [OF f(1) _ _ 2(2) d(2,3,4)]; use d(5) [OF Inr] 2(1) in \<open>auto simp: requested_memory_def\<close>)+
    show ?thesis
      using d(1) d(5) [OF Inr] dg(1) 2(1) Inr c charged_lo [OF c(1), of 0] by (auto simp: dyn_charge_def)
  qed
qed

lemma dyn_charge_plain:
  assumes dyn: "dyn_plain env p pops lo op" and f: "frame_ok f" "evm_ok env p e" "pops \<le> length (f_stack f)"
  shows "\<exists>res. dyn_charge env op f e = Some res \<and> charged env p lo op f e res"
proof (cases "o_dynamicGas op")
  case None
  then have n: "o_memorySize op = None" "lo = 0" using dyn by (simp_all add: dyn_plain_def)
  have "charged env p 0 op f e (pay env 0 0 (f_mem f) f e)"
    using pay_ok(1) [OF f(1), of op 0 "f_mem f" env p e e 0] n evm_ok_moves [OF f(2)] by (simp add: mem_ready_def)
  then show ?thesis
    using n None by (simp add: dyn_charge_def requested_memory_def)
next
  case (Some dg)
  have need: "need_ok pops (o_memorySize op)" and g: "gas_plain env p pops (o_memorySize op \<noteq> None) lo dg"
    using dyn Some by (simp_all add: dyn_plain_def)
  have paid: "\<exists>h m e1. dg env (f_contract f) (f_stack f) (f_mem f) sz e = Some (h, m, e1) \<and> store m = store (f_mem f) \<and>
      moves (ee_db env) p True (StateDB e) (StateDB e1) \<and> same_level e e1 \<and>
      (\<forall>x. h = Inr x \<longrightarrow> lo \<le> unat x \<and> (o_memorySize op \<noteq> None \<longrightarrow> unat sz \<le> max_memory))" for sz
    using g f(2,3) unfolding gas_plain_def by blast
  obtain res where res: "dyn_charge env op f e = Some res" "charged env p 0 op f e res"
    "fst res = None \<longrightarrow>
       (\<exists>(x :: u64) (e1 :: evm). charged env p (unat x) op f e res \<and> callGasTemp (snd (snd res)) = callGasTemp e1 \<and> lo \<le> unat x)"
    using dyn_charge_paid [OF need f Some paid] by (elim exE conjE) (rule that)
  moreover have "charged env p lo op f e res"
    using res(2,3) charged_lo by (cases "fst res"; cases res) auto
  ultimately show ?thesis by blast
qed

section \<open>Executing\<close>

text \<open>What a callee that runs at its level may do.\<close>

fun run_post :: "evm_env \<Rightarrow> bool \<Rightarrow> bool \<Rightarrow> contract \<Rightarrow> evm \<Rightarrow> ('r \<times> vm_error option) \<times> contract \<times> evm \<Rightarrow> bool" where
  "run_post env p ro c e ((ret, err), c', e') \<longleftrightarrow>
     leaves env (c_Gas c) e (c_Gas c') e' \<and>
     (err = None \<longrightarrow> evolves env p ro (c_Gas c) e (c_Gas c') e')"

definition runs_at :: "nat \<Rightarrow> evm \<Rightarrow> bool" where
  "runs_at d e \<longleftrightarrow> evm_depth e \<le> CallCreateDepth \<and> CallCreateDepth + 1 \<le> evm_depth e + d"

definition runner_ok :: "evm_env \<Rightarrow> bool \<Rightarrow> nat \<Rightarrow> runner \<Rightarrow> bool" where
  "runner_ok env p d run \<longleftrightarrow>
     (\<forall>c input ro e. evm_ok env p e \<and> contract_ok c \<and> budget (c_Gas c) e \<and> runs_at d e \<longrightarrow>
        go_sat (run_post env p (readOnly e \<or> ro) c e) (run c input ro e))"

definition inside :: "nat \<Rightarrow> evm \<Rightarrow> bool" where
  "inside d e \<longleftrightarrow> 1 \<le> evm_depth e \<and> CallCreateDepth + 1 \<le> evm_depth e + d"

fun exec_post :: "evm_env \<Rightarrow> bool \<Rightarrow> frame \<Rightarrow> evm \<Rightarrow> (vm_error + slice) \<times> frame \<times> evm \<Rightarrow> bool" where
  "exec_post env p f e (r, f', e') \<longleftrightarrow>
     frame_ok f' \<and> evolves env p (readOnly e) (c_Gas (f_contract f)) e (c_Gas (f_contract f')) e'"

definition exec_safe ::
  "evm_env \<Rightarrow> bool \<Rightarrow> nat \<Rightarrow> nat \<Rightarrow> nat \<Rightarrow> bool \<Rightarrow> memorySizeFunc option \<Rightarrow> executionFunc \<Rightarrow> bool" where
  "exec_safe env p d pops push w need ex \<longleftrightarrow>
     (\<forall>run f e.
        runner_ok env p d run \<and> inside d e \<and> budget (c_Gas (f_contract f)) e \<and>
        frame_ok f \<and> evm_ok env p e \<and> pops \<le> length (f_stack f) \<and> length (f_stack f) + push \<le> StackLimit + pops \<and>
        (w \<longrightarrow> \<not> readOnly e) \<and> mem_ready need f \<longrightarrow>
        go_sat (exec_post env p f e) (ex env run f e))"

lemma plain_exec_post: "plain_post env p f e x \<Longrightarrow> exec_post env p f e x"
  by (cases x) (auto intro: moves_evolves)

lemma exec_plain_safe: "exec_plain env p pops push w need ex \<Longrightarrow> exec_safe env p d pops push w need ex"
  unfolding exec_plain_def exec_safe_def by (blast intro: go_sat_mono plain_exec_post)


section \<open>One round of the loop\<close>

definition body :: "evm_env \<Rightarrow> runner \<Rightarrow> operation \<Rightarrow> frame \<Rightarrow> evm \<Rightarrow> step_result" where
  "body env run op f e =
     go_bind (go_of (dyn_charge env op f e)) (\<lambda>(err, f, e).
       case err of
         Some er \<Rightarrow> fails er f e
       | None \<Rightarrow> execute_op env run op f e)"

fun step_post :: "evm_env \<Rightarrow> bool \<Rightarrow> nat \<Rightarrow> frame \<Rightarrow> evm \<Rightarrow> (bytes \<times> vm_error option) option \<times> frame \<times> evm \<Rightarrow> bool" where
  "step_post env p lo f e (r, f', e') \<longleftrightarrow>
     leaves env (c_Gas (f_contract f)) e (c_Gas (f_contract f')) e' \<and>
     ((\<forall>ret er. r \<noteq> Some (ret, Some er)) \<longrightarrow>
        evolves env p (readOnly e) (c_Gas (f_contract f)) e (c_Gas (f_contract f')) e') \<and>
     (r = None \<longrightarrow> frame_ok f' \<and> unat (c_Gas (f_contract f')) + lo \<le> unat (c_Gas (f_contract f)))"

definition body_ok :: "evm_env \<Rightarrow> bool \<Rightarrow> nat \<Rightarrow> nat \<Rightarrow> bool \<Rightarrow> operation \<Rightarrow> bool" where
  "body_ok env p d lo iscall op \<longleftrightarrow>
     (\<forall>run f e.
        runner_ok env p d run \<and> inside d e \<and> budget (c_Gas (f_contract f)) e \<and> frame_ok f \<and> evm_ok env p e \<and>
        o_minStack op \<le> int (length (f_stack f)) \<and> int (length (f_stack f)) \<le> o_maxStack op \<and>
        (o_writes op \<longrightarrow> \<not> readOnly e) \<and> (iscall \<and> readOnly e \<longrightarrow> f_stack f ! 2 = 0) \<longrightarrow>
        go_sat (step_post env p lo f e) (body env run op f e))"

lemma leaves_simps [simp]:
  "leaves env g e g' (e'\<lparr>returnData := d\<rparr>) = leaves env g e g' e'"
  "evolves env p ro g e g' (e'\<lparr>returnData := d\<rparr>) = evolves env p ro g e g' e'"
  by (simp_all add: leaves_def evolves_def)

lemma frame_ok_pc [simp]: "frame_ok (f\<lparr>f_pc := x\<rparr>) = frame_ok f"
  by (simp add: frame_ok_def)

fun done_post :: "evm_env \<Rightarrow> bool \<Rightarrow> nat \<Rightarrow> frame \<Rightarrow> evm \<Rightarrow> (vm_error + slice) \<times> frame \<times> evm \<Rightarrow> bool" where
  "done_post env p lo f e (r, f', e') \<longleftrightarrow>
     frame_ok f' \<and> evolves env p (readOnly e) (c_Gas (f_contract f)) e (c_Gas (f_contract f')) e' \<and>
     unat (c_Gas (f_contract f')) + lo \<le> unat (c_Gas (f_contract f))"

lemma execute_op_post:
  assumes "go_sat (done_post env p lo f e) (o_execute op env run f1 e1)"
  shows "go_sat (step_post env p lo f e) (execute_op env run op f1 e1)"
  unfolding execute_op_def
proof (rule go_sat_bind [OF assms], goal_cases)
  case (1 x)
  obtain r f2 e2 where x: "x = (r, f2, e2)" by (metis prod_cases3)
  then have e2: "evolves env p (readOnly e) (c_Gas (f_contract f)) e (c_Gas (f_contract f2)) e2"
    using 1 by simp
  show ?case
    using 1 x e2 evolves_leaves [OF e2] by (auto simp: Let_def split: sum.split)
qed

lemma exec_post_done:
  assumes "go_sat (exec_post env p f1 e1) r"
    and ev: "evolves env p (readOnly e) (c_Gas (f_contract f)) e (c_Gas (f_contract f1)) e1"
    and lo: "unat (c_Gas (f_contract f1)) + lo \<le> unat (c_Gas (f_contract f))"
  shows "go_sat (done_post env p lo f e) r"
proof (rule go_sat_mono [OF assms(1)])
  fix x
  assume x: "exec_post env p f1 e1 x"
  obtain r f2 e2 where x': "x = (r, f2, e2)" by (metis prod_cases3)
  have "readOnly e1 = readOnly e" using ev by (simp add: evolves_def leaves_def same_level_def)
  then have "evolves env p (readOnly e) (c_Gas (f_contract f)) e (c_Gas (f_contract f2)) e2"
    using x x' evolves_trans [OF ev] by simp
  moreover have "unat (c_Gas (f_contract f2)) \<le> unat (c_Gas (f_contract f1))"
    using x x' by (simp add: evolves_def leaves_def)
  ultimately show "done_post env p lo f e x"
    using x x' lo by simp
qed

lemma charged_evolves:
  assumes "charged env p lo op f e (err, f', e')"
  shows "evolves env p ro (c_Gas (f_contract f)) e (c_Gas (f_contract f')) e'"
  using assms by (auto intro: moves_evolves moves_weaken)

lemma plain_entry:
  assumes dyn: "dyn_plain env p pops lo op"
    and ex: "exec_safe env p d pops push (o_writes op) (o_memorySize op) (o_execute op)"
    and st: "o_minStack op = minStack pops push" "o_maxStack op = maxStack pops push"
  shows "body_ok env p d lo iscall op"
  unfolding body_ok_def
proof (intro allI impI, elim conjE, goal_cases)
  case (1 run f e)
  have n: "pops \<le> length (f_stack f)" "length (f_stack f) + push \<le> StackLimit + pops"
    using 1 st by (auto simp: minStack_def maxStack_def)
  obtain err f1 e1 where d: "dyn_charge env op f e = Some (err, f1, e1)" and c: "charged env p lo op f e (err, f1, e1)"
    using dyn_charge_plain [OF dyn 1(4,5) n(1)] by (metis prod_cases3)
  note ev = charged_evolves [OF c]
  show ?case
  proof (cases err)
    case (Some er)
    then show ?thesis
      using d ev evolves_leaves [OF ev] by (simp add: body_def fails_def)
  next
    case None
    then have f1: "frame_ok f1" "f_stack f1 = f_stack f" "mem_ready (o_memorySize op) f1"
      "unat (c_Gas (f_contract f1)) + lo \<le> unat (c_Gas (f_contract f))" "same_level e e1"
      using c by simp_all
    have "go_sat (exec_post env p f1 e1) (o_execute op env run f1 e1)"
      using ex 1 f1 n evolves_ok [OF ev] evolves_budget [OF ev]
      by (simp add: exec_safe_def same_level_def inside_def)
    then show ?thesis
      using d None execute_op_post [OF exec_post_done [OF _ ev f1(4)]] by (simp add: body_def)
  qed
qed

end
