(* ===== verification/Evm_Frames.thy ===== *)
theory Evm_Frames
  imports Evm_Charge
begin

text \<open>
  Message calls and contract creation on a callee that behaves: they use no more gas than they are given,
  keep the machine well-formed, and a call that fails leaves the state as it was.
\<close>

section \<open>The end of a call\<close>

fun call_post :: "evm_env \<Rightarrow> bool \<Rightarrow> bool \<Rightarrow> u64 \<Rightarrow> evm \<Rightarrow> (ret_slice \<times> u64 \<times> vm_error option) \<times> evm \<Rightarrow> bool" where
  "call_post env p ro g e ((ret, left, err), e') \<longleftrightarrow>
     evolves env p ro g e left e' \<and>
     (err \<noteq> None \<longrightarrow> absS (ee_db env) (StateDB e') = absS (ee_db env) (StateDB e))"

lemma call_post_ro: "call_post env p True g e x \<Longrightarrow> call_post env p ro g e x"
  by (cases x; cases "fst x"; cases "snd (fst x)") (auto intro: evolves_mono)

lemma reverted_evolves:
  assumes "sinv (ee_db env) p (StateDB e0)" "absS (ee_db env) u = absS (ee_db env) (StateDB e0)"
    "extends (ee_db env) (StateDB e0) u" "same_level e0 e'" "unat g' \<le> unat g"
  shows "evolves env p ro g e0 g' (e'\<lparr>StateDB := u\<rparr>)"
proof -
  have "sd_refund u = sd_refund (StateDB e0)"
    using assms(2) by (metis a_refund_absS)
  then show ?thesis
    using assms by (simp add: evolves_def leaves_def sinv_def)
qed

lemma finish_call_ok:
  assumes inv: "sinv (ee_db env) p (StateDB e0)" and gas: "c_Gas c = g" and lvl: "same_level e0 e1"
    and m: "moves (ee_db env) p ro0 (snd (Snapshot (StateDB e0))) (StateDB e1)"
    and run: "go_sat (run_post env p ro c e1) r" "ro0 \<Longrightarrow> ro"
  shows "go_sat (call_post env p ro0 g e0) (finish_call env (fst (Snapshot (StateDB e0))) r)"
  unfolding finish_call_def
proof (rule go_sat_bind [OF run(1)], goal_cases)
  case (1 x)
  obtain ret err c' e' where x: "x = ((ret, err), c', e')" by (metis prod.exhaust)
  have m0: "moves (ee_db env) p ro0 (StateDB e0) (StateDB e1)"
    using moves_trans [OF moves_Snapshot [OF inv] m] .
  have l: "leaves env (c_Gas c) e1 (c_Gas c') e'" using 1 x by simp
  then have lv: "same_level e0 e'" and g: "unat (c_Gas c') \<le> unat g"
    using gas same_level_trans [OF lvl] by (simp_all add: leaves_def)
  show ?case
  proof (cases err)
    case None
    have "evolves env p ro0 g e0 g e1"
      using moves_evolves [OF m0 lvl] by simp
    then have "evolves env p ro0 g e0 (c_Gas c') e'"
      using 1 x None gas run(2) by (auto elim!: evolves_trans intro: evolves_mono)
    then show ?thesis using x None by simp
  next
    case (Some er)
    have "extends (ee_db env) (snd (Snapshot (StateDB e0))) (StateDB e')"
      using m l extends_trans by (auto simp: moves_def leaves_def)
    then obtain u where u: "RevertToSnapshot (ee_db env) (fst (Snapshot (StateDB e0))) (StateDB e') = Some u"
      "absS (ee_db env) u = absS (ee_db env) (StateDB e0)" "extends (ee_db env) (StateDB e0) u"
      using revert_to_start inv unfolding sinv_def by blast
    have "unat (c_Gas (snd (UseGas (c_Gas c') c'))) \<le> unat g"
      using g by (simp add: UseGas_def)
    then show ?thesis
      using x Some u g reverted_evolves [OF inv u(2,3) lv] by (simp add: Let_def)
  qed
qed

section \<open>Payments\<close>

lemma moves_Transfer:
  assumes "sinv b p s" "0 \<le> x" "x \<le> a_read v_balance 0 sender (absS b s)" "ro \<Longrightarrow> x = 0"
  shows "moves b p ro s (Transfer b sender recipient x s)"
proof (cases "x = 0")
  case True
  have "moves b p ro s (SubBalance b sender 0 s)" by (rule moves_touch [OF assms(1)])
  then show ?thesis
    using True moves_trans [OF _ moves_touch(1)] moves_sinv [OF _ assms(1)] by (simp add: Transfer_def)
next
  case False
  then have "\<not> ro" using assms(4) by blast
  have m: "pays_by b p (- x) s (SubBalance b sender x s)" by (rule pays_SubBalance [OF assms(1,3)])
  then have "moves b p False s (Transfer b sender recipient x s)"
    using moves_pays(2) [OF pays_trans [OF m pays_AddBalance [OF pays_sinv [OF m assms(1)] assms(2)]]] by (simp add: Transfer_def)
  then show ?thesis using \<open>\<not> ro\<close> by simp
qed

lemma CanTransfer_ok:
  assumes "sinv b p s" "CanTransfer b a x s = (can, t)"
  shows "moves b p ro s t" "absS b t = absS b s" "can \<longleftrightarrow> x \<le> a_read v_balance 0 a (absS b s)"
  using assms moves_reads(3) [OF assms(1), of ro a] reads_abs(3,4) [of b a s]
  by (auto simp: CanTransfer_def big_Cmp_def split: prod.splits if_splits)

lemma load_code_ok:
  assumes "evm_ok env p e" "load_code env addr c e = (c', e')"
  shows "moves (ee_db env) p ro (StateDB e) (StateDB e')" "same_level e e'" "c_Gas c' = c_Gas c"
    "c_analysis c = None \<Longrightarrow> 0 \<le> c_value c \<Longrightarrow> contract_ok c'" "readOnly e' = readOnly e"
proof -
  obtain h s where h: "GetCodeHash (ee_db env) addr (StateDB e) = (h, s)" by fastforce
  obtain code t where t: "GetCode (ee_db env) addr s = (code, t)" by fastforce
  have inv: "sinv (ee_db env) p (StateDB e)" using assms(1) by (simp add: evm_ok_def)
  have m: "moves (ee_db env) p ro (StateDB e) s"
    using moves_reads(6) [OF inv, of ro addr] h by simp
  have "moves (ee_db env) p ro s t"
    using moves_reads(8) [OF moves_sinv [OF m inv], of ro addr] t by simp
  then show "moves (ee_db env) p ro (StateDB e) (StateDB e')" "same_level e e'" "c_Gas c' = c_Gas c"
    "c_analysis c = None \<Longrightarrow> 0 \<le> c_value c \<Longrightarrow> contract_ok c'" "readOnly e' = readOnly e"
    using assms(2) h t moves_trans [OF m] by (auto simp: load_code_def SetCallCode_def contract_ok_def)
qed

lemma NewContract_ok:
  assumes "NewContract caller object value g e = (c, e')"
  shows "StateDB e' = StateDB e" "same_level e e'" "c_Gas c = g" "c_analysis c = None" "c_value c = value"
    "evm_depth e' = evm_depth e" "readOnly e' = readOnly e"
  using assms by (auto simp: NewContract_def split: contract_ref.splits)


section \<open>The four calls\<close>

lemma call_run:
  assumes run: "runner_ok env p d run" and e0: "evm_ok env p e0" "budget g e0" "runs_at d e0"
    and m: "moves (ee_db env) p ro0 (snd (Snapshot (StateDB e0))) (StateDB e1)" and lvl: "same_level e0 e1"
    and c: "contract_ok c" "c_Gas c = g" and ro: "ro0 \<Longrightarrow> readOnly e0 \<or> ro"
  shows "go_sat (call_post env p ro0 g e0) (finish_call env (fst (Snapshot (StateDB e0))) (run c input ro e1))"
proof -
  have inv: "sinv (ee_db env) p (StateDB e0)" using e0(1) by (simp add: evm_ok_def)
  have m0: "moves (ee_db env) p ro0 (StateDB e0) (StateDB e1)"
    using moves_trans [OF moves_Snapshot [OF inv] m] .
  then have "evm_ok env p e1" "sd_refund (StateDB e1) = sd_refund (StateDB e0)"
    using moves_sinv [OF m0 inv] by (simp_all add: evm_ok_def moves_def)
  moreover have "runs_at d e1" "readOnly e1 = readOnly e0"
    using e0(3) lvl by (simp_all add: runs_at_def same_level_def)
  ultimately have "budget (c_Gas c) e1" "evm_ok env p e1" "runs_at d e1" "readOnly e1 = readOnly e0"
    using e0(2) c(2) by (simp_all add: budget_def)
  then have "go_sat (run_post env p (readOnly e0 \<or> ro) c e1) (run c input ro e1)"
    using run [unfolded runner_ok_def, rule_format, of e1 c ro input] c(1) by simp
  then show ?thesis
    by (rule finish_call_ok [OF inv c(2) lvl m _ ro])
qed

text \<open>Reading first: the call starts from a state that only was looked at.\<close>

lemma call_post_looked:
  assumes "moves (ee_db env) p (readOnly e) (StateDB e) s" "absS (ee_db env) s = absS (ee_db env) (StateDB e)"
    "go_sat (call_post env p (readOnly e) g (e\<lparr>StateDB := s\<rparr>)) r"
  shows "go_sat (call_post env p (readOnly e) g e) r"
proof -
  have ev: "evolves env p (readOnly e) g e g (e\<lparr>StateDB := s\<rparr>)"
    using assms(1) by (intro moves_evolves) simp_all
  show ?thesis
  proof (rule go_sat_mono [OF assms(3)])
    fix x assume "call_post env p (readOnly e) g (e\<lparr>StateDB := s\<rparr>) x"
    then show "call_post env p (readOnly e) g e x"
      using evolves_trans [OF ev] assms(2) by (cases x; cases "fst x"; cases "snd (fst x)") auto
  qed
qed

lemma evolves_refl: "evm_ok env p e \<Longrightarrow> evolves env p ro g e g e"
  by (simp add: evolves_def leaves_def evm_ok_def sinv_def)

lemma call_load:
  assumes "NewContract caller object value g e = (c, e1)" "load_code env addr c e1 = (c', e2)"
    and "evm_ok env p e" "0 \<le> value"
  shows "moves (ee_db env) p ro (StateDB e) (StateDB e2)" "same_level e e2" "contract_ok c'" "c_Gas c' = g"
proof -
  note nc = NewContract_ok [OF assms(1)]
  have "evm_ok env p e1" using nc(1) assms(3) by (simp add: evm_ok_def)
  note lc = load_code_ok [OF this assms(2)]
  show "moves (ee_db env) p ro (StateDB e) (StateDB e2)" "same_level e e2" "contract_ok c'" "c_Gas c' = g"
    using lc(1,3,4) nc same_level_trans [OF nc(2) lc(2)] assms(4) by simp_all
qed

text \<open>The payment of a call, after the account of the callee has been created if it is missing.\<close>

lemma call_pay:
  assumes inv: "sinv b p s" and ex: "Exist b addr s = (exist, s2)"
    and v: "0 \<le> value" "ro \<Longrightarrow> value = 0" "value \<le> a_read v_balance 0 sender (absS b s)"
  shows "moves b p ro s s2" "moves b p ro s (Transfer b sender addr value (if \<not> exist then CreateAccount b addr s2 else s2))"
proof -
  have m2: "moves b p ro s s2" "absS b s2 = absS b s"
    using moves_reads(1) [OF inv, of ro addr] reads_abs(1) [of b addr s] ex by simp_all
  note inv2 = moves_sinv [OF m2(1) inv]
  have live: "\<not> exist \<Longrightarrow> live (absS b s2) addr = None"
    using reads_abs(2) [of b addr s] ex m2(2) by (auto simp: a_read_def split: option.splits)
  let ?s3 = "if \<not> exist then CreateAccount b addr s2 else s2"
  have m3: "moves b p ro s ?s3"
    using moves_trans [OF m2(1) moves_CreateAccount [OF inv2]] live m2(1) by simp
  note inv3 = moves_sinv [OF m3 inv]
  have "a_read v_balance 0 sender (absS b s2) \<le> a_read v_balance 0 sender (absS b ?s3)"
    using create_balance [of "absS b s2" sender b addr] inv2 CreateAccount_abs [OF sinv_aok [OF inv2]]
    by (simp add: sinv_def ainv_def)
  then have bal: "value \<le> a_read v_balance 0 sender (absS b ?s3)"
    using v(3) m2(2) by simp
  show "moves b p ro s s2" by (rule m2(1))
  show "moves b p ro s (Transfer b sender addr value ?s3)"
    using moves_trans [OF m3 moves_Transfer [OF inv3 v(1) bal v(2)]] .
qed

text \<open>A state that was looked at and then saved.\<close>

lemma call_start:
  assumes "evm_ok env p e" "budget g e" "CallCreateDepth + 1 \<le> evm_depth e + d" "\<not> evm_depth e > CallCreateDepth"
    and "moves (ee_db env) p ro (StateDB e) s"
  shows "evm_ok env p (e\<lparr>StateDB := s\<rparr>)" "budget g (e\<lparr>StateDB := s\<rparr>)" "runs_at d (e\<lparr>StateDB := s\<rparr>)"
    "sinv (ee_db env) p (snd (Snapshot s))" "moves (ee_db env) p ro s (snd (Snapshot s))"
proof -
  have inv: "sinv (ee_db env) p s" using moves_sinv [OF assms(5)] assms(1) by (simp add: evm_ok_def)
  show "evm_ok env p (e\<lparr>StateDB := s\<rparr>)" "budget g (e\<lparr>StateDB := s\<rparr>)" "runs_at d (e\<lparr>StateDB := s\<rparr>)"
    using inv assms by (simp_all add: evm_ok_def budget_def runs_at_def moves_def)
  show "sinv (ee_db env) p (snd (Snapshot s))" "moves (ee_db env) p ro s (snd (Snapshot s))"
    using moves_Snapshot [OF inv] moves_sinv [OF moves_Snapshot [OF inv] inv] by blast+
qed

lemma Call_ok:
  assumes run: "runner_ok env p d run" and e: "evm_ok env p e" "budget g e" "CallCreateDepth + 1 \<le> evm_depth e + d"
    and v: "0 \<le> value" "readOnly e \<Longrightarrow> value = 0"
  shows "go_sat (call_post env p (readOnly e) g e) (Call env run caller addr input g value e)"
proof (cases "NoRecursion env \<and> evm_depth e > 0 \<or> evm_depth e > CallCreateDepth")
  case True
  then show ?thesis using evolves_refl [OF e(1)] by (auto simp: Call_def)
next
  case False
  let ?b = "ee_db env" and ?a = "ref_Address caller"
  obtain can s where can: "CanTransfer ?b ?a value (StateDB e) = (can, s)" by fastforce
  have inv: "sinv ?b p (StateDB e)" using e(1) by (simp add: evm_ok_def)
  note cs = CanTransfer_ok [OF inv can]
  have deep: "\<not> evm_depth e > CallCreateDepth" using False by blast
  note st = call_start [OF e deep cs(1)]
  let ?e0 = "e\<lparr>StateDB := s\<rparr>"
  obtain revid s1 where sn: "Snapshot s = (revid, s1)" by fastforce
  obtain exist s2 where ex: "Exist ?b addr s1 = (exist, s2)" by fastforce
  show ?thesis
  proof (cases can)
    case no: False
    have "evolves env p (readOnly e) g e g ?e0"
      using cs(1) by (intro moves_evolves) simp_all
    then show ?thesis
      using can False cs(2) no by (auto simp: Call_def)
  next
    case True
    have inv1: "sinv ?b p s1" and abs1: "absS ?b s1 = absS ?b s"
      using st(4) absS_Snapshot [of ?b s] sn by simp_all
    then have bal: "value \<le> a_read v_balance 0 ?a (absS ?b s1)" using cs(2,3) True by simp
    let ?s4 = "Transfer ?b ?a addr value (if \<not> exist then CreateAccount ?b addr s2 else s2)"
    note pay = call_pay [OF inv1 ex v(1,2) bal]
    obtain c e4 where nc: "NewContract caller addr value g (e\<lparr>StateDB := ?s4\<rparr>) = (c, e4)" by fastforce
    obtain c5 e5 where lc: "load_code env addr c e4 = (c5, e5)" by fastforce
    have "evm_ok env p (e\<lparr>StateDB := ?s4\<rparr>)" using moves_sinv [OF pay(2) inv1] by (simp add: evm_ok_def)
    note ld = call_load [OF nc lc this v(1)]
    have "moves ?b p (readOnly e) s1 (StateDB e5)"
      using moves_trans [OF pay(2)] ld(1) by simp
    then have "go_sat (call_post env p (readOnly e) g ?e0) (finish_call env (fst (Snapshot (StateDB ?e0))) (run c5 input False e5))"
      using sn ld(2,3,4) by (intro call_run [OF run st(1,2,3)]) (simp_all add: same_level_def)
    moreover have "evolves env p (readOnly e) g ?e0 g (e\<lparr>StateDB := s2\<rparr>)"
      using moves_trans [OF st(5) [of "readOnly e"], of s2] pay(1) sn by (intro moves_evolves) (simp_all add: same_level_def)
    ultimately have "go_sat (call_post env p (readOnly e) g ?e0) (Call env run caller addr input g value e)"
      using False True can sn ex nc lc by (auto simp: Call_def Let_def)
    then show ?thesis by (rule call_post_looked [OF cs(1,2)])
  qed
qed

lemma CallCode_ok:
  assumes run: "runner_ok env p d run" and e: "evm_ok env p e" "budget g e" "CallCreateDepth + 1 \<le> evm_depth e + d"
    and v: "0 \<le> value"
  shows "go_sat (call_post env p (readOnly e) g e) (CallCode env run caller addr input g value e)"
proof (cases "NoRecursion env \<and> evm_depth e > 0 \<or> evm_depth e > CallCreateDepth")
  case True
  then show ?thesis using evolves_refl [OF e(1)] by (auto simp: CallCode_def)
next
  case False
  let ?b = "ee_db env" and ?a = "ref_Address caller"
  obtain can s where can: "CanTransfer ?b ?a value (StateDB e) = (can, s)" by fastforce
  have inv: "sinv ?b p (StateDB e)" using e(1) by (simp add: evm_ok_def)
  note cs = CanTransfer_ok [OF inv can]
  have deep: "\<not> evm_depth e > CallCreateDepth" using False by blast
  note st = call_start [OF e deep cs(1)]
  let ?e0 = "e\<lparr>StateDB := s\<rparr>"
  obtain revid s1 where sn: "Snapshot s = (revid, s1)" by fastforce
  show ?thesis
  proof (cases can)
    case no: False
    have "evolves env p (readOnly e) g e g ?e0"
      using cs(1) by (intro moves_evolves) simp_all
    then show ?thesis
      using can False cs(2) no by (auto simp: CallCode_def)
  next
    case True
    obtain c e4 where nc: "NewContract caller ?a value g (e\<lparr>StateDB := s1\<rparr>) = (c, e4)" by fastforce
    obtain c5 e5 where lc: "load_code env addr c e4 = (c5, e5)" by fastforce
    have "evm_ok env p (e\<lparr>StateDB := s1\<rparr>)" using st(4) sn by (simp add: evm_ok_def)
    note ld = call_load [OF nc lc this v]
    have "go_sat (call_post env p (readOnly e) g ?e0) (finish_call env (fst (Snapshot (StateDB ?e0))) (run c5 input False e5))"
      using sn ld by (intro call_run [OF run st(1,2,3)]) (simp_all add: same_level_def)
    then have "go_sat (call_post env p (readOnly e) g ?e0) (CallCode env run caller addr input g value e)"
      using False True can sn nc lc by (auto simp: CallCode_def Let_def)
    then show ?thesis by (rule call_post_looked [OF cs(1,2)])
  qed
qed


lemma DelegateCall_ok:
  assumes run: "runner_ok env p d run" and e: "evm_ok env p e" "budget g e" "CallCreateDepth + 1 \<le> evm_depth e + d"
    and v: "0 \<le> c_value parent"
  shows "go_sat (call_post env p (readOnly e) g e) (DelegateCall env run parent addr input g e)"
proof (cases "NoRecursion env \<and> evm_depth e > 0 \<or> evm_depth e > CallCreateDepth")
  case True
  then show ?thesis using evolves_refl [OF e(1)] by (auto simp: DelegateCall_def)
next
  case False
  have deep: "\<not> evm_depth e > CallCreateDepth" using False by blast
  have self: "moves (ee_db env) p (readOnly e) (StateDB e) (StateDB e)" by (rule evm_ok_moves [OF e(1)])
  note st = call_start [OF e deep self, simplified]
  obtain revid s1 where sn: "Snapshot (StateDB e) = (revid, s1)" by fastforce
  obtain c e4 where nc: "NewContract (ContractRef parent) (c_self parent) 0 g (e\<lparr>StateDB := s1\<rparr>) = (c, e4)" by fastforce
  obtain c5 e5 where lc: "load_code env addr (AsDelegate parent c) e4 = (c5, e5)" by fastforce
  note n = NewContract_ok [OF nc]
  have "evm_ok env p e4" using st(4) sn n(1) by (simp add: evm_ok_def)
  note ld = load_code_ok [OF this lc]
  have c5: "contract_ok c5" "c_Gas c5 = g"
    using ld(3,4) n v by (simp_all add: AsDelegate_def)
  have "go_sat (call_post env p (readOnly e) g e) (finish_call env (fst (Snapshot (StateDB e))) (run c5 input False e5))"
    using sn ld(1) n same_level_trans [OF n(2) ld(2)]
    by (intro call_run [OF run st(1,2,3) _ _ c5]) (simp_all add: same_level_def)
  then show ?thesis
    using False sn nc lc by (auto simp: DelegateCall_def)
qed

lemma StaticCall_ok:
  assumes run: "runner_ok env p d run" and e: "evm_ok env p e" "budget g e" "CallCreateDepth + 1 \<le> evm_depth e + d"
  shows "go_sat (call_post env p True g e) (StaticCall env run caller addr input g e)"
proof (cases "NoRecursion env \<and> evm_depth e > 0 \<or> evm_depth e > CallCreateDepth")
  case True
  then show ?thesis using evolves_refl [OF e(1)] by (auto simp: StaticCall_def)
next
  case False
  let ?b = "ee_db env"
  have deep: "\<not> evm_depth e > CallCreateDepth" using False by blast
  have self: "moves ?b p True (StateDB e) (StateDB e)" by (rule evm_ok_moves [OF e(1)])
  note st = call_start [OF e deep self, simplified]
  obtain revid s1 where sn: "Snapshot (StateDB e) = (revid, s1)" by fastforce
  obtain c e4 where nc: "NewContract caller addr 0 g (e\<lparr>StateDB := s1\<rparr>) = (c, e4)" by fastforce
  obtain c5 e5 where lc: "load_code env addr c e4 = (c5, e5)" by fastforce
  have ok1: "evm_ok env p (e\<lparr>StateDB := s1\<rparr>)" using st(4) sn by (simp add: evm_ok_def)
  note ld = call_load [OF nc lc ok1 order_refl]
  let ?e6 = "e5\<lparr>StateDB := AddBalance ?b addr 0 (StateDB e5)\<rparr>"
  have "sinv ?b p (StateDB e5)"
    using moves_sinv [OF ld(1)] ok1 by (simp add: evm_ok_def)
  then have "moves ?b p True s1 (StateDB ?e6)"
    using moves_trans [OF ld(1) [of True] moves_touch(1)] by simp
  then have "go_sat (call_post env p True g e) (finish_call env (fst (Snapshot (StateDB e))) (run c5 input True ?e6))"
    using sn ld by (intro call_run [OF run st(1,2,3)]) (simp_all add: same_level_def)
  then show ?thesis
    using False sn nc lc by (auto simp: StaticCall_def)
qed

section \<open>Contract creation\<close>

text \<open>A creation that fails leaves the state as it was, up to the nonce of the creator.\<close>

definition bump :: "backend \<Rightarrow> address \<Rightarrow> astate \<Rightarrow> astate" where
  "bump b a A = a_update b a (\<lambda>v. v\<lparr>v_nonce := a_read v_nonce 0 a A + 1\<rparr>) A"

fun create_post ::
  "evm_env \<Rightarrow> bool \<Rightarrow> address \<Rightarrow> u64 \<Rightarrow> evm \<Rightarrow> (bytes \<times> address \<times> u64 \<times> vm_error option) \<times> evm \<Rightarrow> bool" where
  "create_post env p a g e ((ret, addr, left, err), e') \<longleftrightarrow>
     evolves env p False g e left e' \<and>
     (err \<noteq> None \<longrightarrow>
        absS (ee_db env) (StateDB e') \<in>
          {absS (ee_db env) (StateDB e), bump (ee_db env) a (absS (ee_db env) (StateDB e))})"

text \<open>The end of a creation, from the state with the snapshot on.\<close>

fun created_post :: "evm_env \<Rightarrow> bool \<Rightarrow> u64 \<Rightarrow> evm \<Rightarrow> (bytes \<times> address \<times> u64 \<times> vm_error option) \<times> evm \<Rightarrow> bool" where
  "created_post env p g e ((ret, addr, left, err), e') \<longleftrightarrow>
     evolves env p False g e left e' \<and>
     (err \<noteq> None \<longrightarrow> absS (ee_db env) (StateDB e') = absS (ee_db env) (StateDB e))"

lemma UseGas_le: "unat (c_Gas (snd (UseGas g c))) \<le> unat (c_Gas c)"
  by (cases rule: UseGas_cases [of g c]) auto

lemma finish_create_ok:
  assumes inv: "sinv (ee_db env) p (StateDB e0)" and gas: "c_Gas c = g" and lvl: "same_level e0 e1"
    and m: "moves (ee_db env) p False (snd (Snapshot (StateDB e0))) (StateDB e1)"
    and run: "go_sat (run_post env p ro c e1) r"
  shows "go_sat (created_post env p g e0) (finish_create env (fst (Snapshot (StateDB e0))) addr r)"
  unfolding finish_create_def
proof (rule go_sat_bind [OF run], goal_cases)
  case (1 x)
  obtain ret err c' e' where x: "x = ((ret, err), c', e')" by (metis prod.exhaust)
  let ?ret = "case ret of Fresh bs \<Rightarrow> bs | Same \<Rightarrow> []"
  have m0: "moves (ee_db env) p False (StateDB e0) (StateDB e1)"
    using moves_trans [OF moves_Snapshot [OF inv] m] .
  have l: "leaves env (c_Gas c) e1 (c_Gas c') e'" using 1 x by simp
  then have lv: "same_level e0 e'" and g: "unat (c_Gas c') \<le> unat g"
    and ext: "extends (ee_db env) (snd (Snapshot (StateDB e0))) (StateDB e')"
    using gas same_level_trans [OF lvl] extends_trans m by (auto simp: leaves_def moves_def)
  obtain u where u: "RevertToSnapshot (ee_db env) (fst (Snapshot (StateDB e0))) (StateDB e') = Some u"
    "absS (ee_db env) u = absS (ee_db env) (StateDB e0)" "extends (ee_db env) (StateDB e0) u"
    using revert_to_start ext inv unfolding sinv_def by blast
  have fail: "created_post env p g e0 ((?ret, addr, left, Some er), e'\<lparr>StateDB := u\<rparr>)" if "unat left \<le> unat g" for left er
    using reverted_evolves [OF inv u(2,3) lv that] u(2) by simp
  let ?q = "of_nat (length ?ret) * 200 :: u64"
  show ?case
  proof (cases "err = None \<and> \<not> length ?ret > MaxCodeSize \<and> fst (UseGas ?q c')")
    case True
    have ev: "evolves env p False g e0 (c_Gas c') e'"
      using moves_evolves [OF m0 lvl, of g g] 1 x True gas by (auto elim!: evolves_trans intro: evolves_mono)
    have "sinv (ee_db env) p (StateDB e')"
      using evolves_ok [OF ev] inv by (simp add: evm_ok_def)
    then have "evolves env p False (c_Gas c') e' (c_Gas (snd (UseGas ?q c'))) (e'\<lparr>StateDB := SetCode (ee_db env) addr ?ret (StateDB e')\<rparr>)"
      using moves_SetCode UseGas_le by (intro moves_evolves) simp_all
    then show ?thesis
      using x True evolves_trans [OF ev] by (simp add: split_beta Let_def)
  next
    case False
    obtain ok c2 where q: "UseGas ?q c' = (ok, c2)" by fastforce
    have le: "unat (c_Gas c2) \<le> unat g" "unat (c_Gas (snd (UseGas (c_Gas c') c'))) \<le> unat g"
      "unat (c_Gas (snd (UseGas (c_Gas c2) c2))) \<le> unat g"
      using UseGas_le [of ?q c'] UseGas_le [of "c_Gas c'" c'] UseGas_le [of "c_Gas c2" c2] g q by simp_all
    consider er where "err = Some er" | "err = None" "length ?ret > MaxCodeSize" | "err = None" "\<not> length ?ret > MaxCodeSize" "\<not> ok"
      using False q by (cases err) auto
    then show ?thesis
      by cases (use x q u(1) fail g le in \<open>simp_all add: Let_def\<close>)
  qed
qed


text \<open>The nonce of the creator goes up before anything else.\<close>

lemma create_prepare:
  assumes inv: "sinv b p s" and n: "GetNonce b a s = (nonce, s1)"
    and h: "GetCodeHash b addr (SetNonce b a (nonce + 1) s1) = (hsh, s3)" and n2: "GetNonce b addr s3 = (n', s4)"
  shows "moves b p False s s4" "absS b s4 = bump b a (absS b s)"
proof -
  have m1: "moves b p False s s1" "absS b s1 = absS b s" "nonce = a_read v_nonce 0 a (absS b s)"
    using moves_reads(4) [OF inv, of False a] reads_abs(5,6) [of b a s] n by simp_all
  note inv1 = moves_sinv [OF m1(1) inv]
  let ?s2 = "SetNonce b a (nonce + 1) s1"
  have m2: "moves b p False s ?s2" by (rule moves_trans [OF m1(1) moves_SetNonce [OF inv1]])
  note inv2 = moves_sinv [OF m2 inv]
  have m3: "moves b p False s s3" "absS b s3 = absS b ?s2"
    using moves_trans [OF m2 moves_reads(6) [OF inv2, of False addr]] reads_abs(7) [of b addr ?s2] h by simp_all
  note inv3 = moves_sinv [OF m3(1) inv]
  show "moves b p False s s4"
    using moves_trans [OF m3(1) moves_reads(4) [OF inv3, of False addr]] n2 by simp
  show "absS b s4 = bump b a (absS b s)"
    using reads_abs(5) [of b addr s3] n2 m3(2) SetNonce_abs [OF sinv_aok [OF inv1]] m1(2,3) by (simp add: bump_def)
qed

lemma bump_balance:
  "aok A \<Longrightarrow> a_read v_balance 0 x (bump b a A) = a_read v_balance 0 x A"
  unfolding bump_def a_read_def by (subst live_update) (auto simp: keeps_place_def split: option.split)

lemma create_account:
  assumes inv: "sinv b p s" and v: "0 \<le> value" "value \<le> a_read v_balance 0 sender (absS b s)"
  shows "moves b p False s (Transfer b sender addr value (SetNonce b addr 1 (CreateAccount b addr s)))"
proof -
  have m1: "moves b p False s (CreateAccount b addr s)" by (rule moves_CreateAccount [OF inv]) simp
  note inv1 = moves_sinv [OF m1 inv]
  let ?s2 = "SetNonce b addr 1 (CreateAccount b addr s)"
  have m2: "moves b p False s ?s2" by (rule moves_trans [OF m1 moves_SetNonce [OF inv1]])
  note inv2 = moves_sinv [OF m2 inv]
  have "a_read v_balance 0 sender (absS b ?s2) = a_read v_balance 0 sender (absS b (CreateAccount b addr s))"
    unfolding SetNonce_abs [OF sinv_aok [OF inv1]] a_read_def
    by (subst live_update [OF sinv_aok [OF inv1]]) (auto simp: keeps_place_def split: option.split)
  moreover have "a_read v_balance 0 sender (absS b s) \<le> a_read v_balance 0 sender (absS b (CreateAccount b addr s))"
    using create_balance [of "absS b s" sender b addr] inv CreateAccount_abs [OF sinv_aok [OF inv]]
    by (simp add: sinv_def ainv_def)
  ultimately show ?thesis
    using moves_trans [OF m2 moves_Transfer [OF inv2 v(1)]] v(2) by simp
qed

lemma create_run:
  assumes run: "runner_ok env p d run" and e0: "evm_ok env p e0" "budget g e0" "runs_at d e0"
    and m: "moves (ee_db env) p False (snd (Snapshot (StateDB e0))) (StateDB e1)" and lvl: "same_level e0 e1"
    and c: "contract_ok c" "c_Gas c = g"
  shows "go_sat (created_post env p g e0) (finish_create env (fst (Snapshot (StateDB e0))) addr (run c input ro e1))"
proof -
  have inv: "sinv (ee_db env) p (StateDB e0)" using e0(1) by (simp add: evm_ok_def)
  have m0: "moves (ee_db env) p False (StateDB e0) (StateDB e1)"
    using moves_trans [OF moves_Snapshot [OF inv] m] .
  then have "evm_ok env p e1" "sd_refund (StateDB e1) = sd_refund (StateDB e0)"
    using moves_sinv [OF m0 inv] by (simp_all add: evm_ok_def moves_def)
  moreover have "runs_at d e1"
    using e0(3) lvl by (simp add: runs_at_def same_level_def)
  ultimately have "go_sat (run_post env p (readOnly e1 \<or> ro) c e1) (run c input ro e1)"
    using run [unfolded runner_ok_def, rule_format, of e1 c ro input] c e0(2) by (simp add: budget_def)
  then show ?thesis
    by (rule finish_create_ok [OF inv c(2) lvl m])
qed

text \<open>The creation proper, once the nonce is up and the address is free.\<close>

definition create_at ::
  "evm_env \<Rightarrow> runner \<Rightarrow> contract_ref \<Rightarrow> bytes \<Rightarrow> hash \<Rightarrow> u64 \<Rightarrow> int \<Rightarrow> address \<Rightarrow> evm \<Rightarrow> create_result" where
  "create_at env run caller code h g value addr e =
     (let b = ee_db env; (snapshot, s) = Snapshot (StateDB e);
          s = Transfer b (ref_Address caller) addr value (SetNonce b addr 1 (CreateAccount b addr s));
          (c, e) = NewContract caller addr value g (e\<lparr>StateDB := s\<rparr>);
          c = SetCallCode addr h code c
      in if NoRecursion env \<and> evm_depth e > 0 then Ret (([], addr, g, None), e)
         else finish_create env snapshot addr (run c [] False e))"

lemma create_at_ok:
  assumes run: "runner_ok env p d run" and e: "evm_ok env p e" "budget g e" "runs_at d e"
    and v: "0 \<le> value" "value \<le> a_read v_balance 0 (ref_Address caller) (absS (ee_db env) (StateDB e))"
  shows "go_sat (created_post env p g e) (create_at env run caller code h g value addr e)"
proof -
  let ?b = "ee_db env" and ?a = "ref_Address caller"
  have inv: "sinv ?b p (StateDB e)" using e(1) by (simp add: evm_ok_def)
  obtain revid s where sn: "Snapshot (StateDB e) = (revid, s)" by fastforce
  have m: "moves ?b p False (StateDB e) s" and abs: "absS ?b s = absS ?b (StateDB e)"
    using moves_Snapshot [OF inv] absS_Snapshot [of ?b "StateDB e"] sn by (metis snd_conv)+
  note m8 = create_account [OF moves_sinv [OF m inv] v(1), unfolded abs, OF v(2), of addr]
  let ?s8 = "Transfer ?b ?a addr value (SetNonce ?b addr 1 (CreateAccount ?b addr s))"
  obtain c e9 where nc: "NewContract caller addr value g (e\<lparr>StateDB := ?s8\<rparr>) = (c, e9)" by fastforce
  note nc' = NewContract_ok [OF nc]
  have "contract_ok (SetCallCode addr h code c)" "c_Gas (SetCallCode addr h code c) = g"
    using nc' v by (simp_all add: SetCallCode_def contract_ok_def)
  then have "go_sat (created_post env p g e)
      (finish_create env (fst (Snapshot (StateDB e))) addr (run (SetCallCode addr h code c) [] False e9))"
    using sn m8 nc' by (intro create_run [OF run e]) (simp_all add: same_level_def)
  moreover have "evolves env p False g e g e9"
    using moves_trans [OF m m8] nc' by (intro moves_evolves) (simp_all add: same_level_def)
  ultimately show ?thesis
    using sn nc by (auto simp: create_at_def Let_def)
qed

lemma create_ok:
  assumes run: "runner_ok env p d run" and e: "evm_ok env p e" "budget g e" "CallCreateDepth + 1 \<le> evm_depth e + d"
    and v: "0 \<le> value"
  shows "go_sat (create_post env p (ref_Address caller) g e) (create env run caller code h g value addr e)"
proof (cases "evm_depth e > CallCreateDepth")
  case True
  then show ?thesis using evolves_refl [OF e(1)] by (simp add: create_def)
next
  case deep: False
  let ?b = "ee_db env" and ?a = "ref_Address caller"
  obtain can s where can: "CanTransfer ?b ?a value (StateDB e) = (can, s)" by fastforce
  have inv: "sinv ?b p (StateDB e)" using e(1) by (simp add: evm_ok_def)
  note cs = CanTransfer_ok [OF inv can]
  note inv0 = moves_sinv [OF cs(1) inv]
  obtain nonce s1 where n: "GetNonce ?b ?a s = (nonce, s1)" by fastforce
  obtain hsh s3 where hs: "GetCodeHash ?b addr (SetNonce ?b ?a (nonce + 1) s1) = (hsh, s3)" by fastforce
  obtain n' s4 where n': "GetNonce ?b addr s3 = (n', s4)" by fastforce
  note pre = create_prepare [OF inv0 n hs n']
  have m4: "moves ?b p False (StateDB e) s4" using moves_trans [OF cs(1) pre(1)] .
  let ?e0 = "e\<lparr>StateDB := s4\<rparr>"
  have ev: "evolves env p False g e g (e\<lparr>StateDB := s\<rparr>)" "evolves env p False g e g ?e0" "evolves env p False g e 0 ?e0"
    using cs(1) m4 by (auto intro!: moves_evolves)
  show ?thesis
  proof (cases "can \<and> \<not> (n' \<noteq> 0 \<or> hsh \<noteq> 0 \<and> hsh \<noteq> emptyCodeHash ?b)")
    case False
    then show ?thesis
      using can n hs n' deep ev cs(2) pre(2) by (auto simp: create_def Let_def)
  next
    case True
    have st: "evm_ok env p ?e0" "budget g ?e0" "runs_at d ?e0"
      using m4 moves_sinv [OF m4 inv] e deep by (simp_all add: evm_ok_def budget_def runs_at_def moves_def)
    have "value \<le> a_read v_balance 0 ?a (absS ?b s4)"
      using True cs(2,3) pre(2) bump_balance [OF sinv_aok [OF inv0], of ?a ?b ?a] by simp
    then have "go_sat (created_post env p g ?e0) (create_at env run caller code h g value addr ?e0)"
      using create_at_ok [OF run st v] by simp
    then have "go_sat (create_post env p ?a g e) (create_at env run caller code h g value addr ?e0)"
    proof (rule go_sat_mono)
      fix x assume "created_post env p g ?e0 x"
      then show "create_post env p ?a g e x"
        using evolves_trans [OF ev(2)] pre(2) cs(2)
        by (cases x; cases "fst x"; cases "snd (fst x)"; cases "snd (snd (fst x))") auto
    qed
    moreover have "create env run caller code h g value addr e = create_at env run caller code h g value addr ?e0"
      using True can n hs n' deep by (auto simp: create_def create_at_def Let_def)
    ultimately show ?thesis by simp
  qed
qed

end
