(* ===== verification/Evm_Entries.thy ===== *)
theory Evm_Entries
  imports Evm_Frames
begin

text \<open>
  The instructions that do more than compute: creating and calling, which run other frames, and storing and
  self-destructing, which earn refunds. For each of them one round of the loop, after the constant price, is safe.
\<close>

section \<open>Gas that comes back\<close>

lemma evolves_back:
  assumes "evolves env p ro g e left e'" "unat k + unat g \<le> unat G"
  shows "evolves env p ro G e (k + left) e'" "unat (k + left) \<le> unat k + unat g"
proof -
  have "unat left \<le> unat g" using assms(1) by (simp add: evolves_def leaves_def)
  then have "unat (k + left) = unat k + unat left"
    using assms(2) unat_u64_less [of G] by (simp add: unat_word_ariths)
  then show "evolves env p ro G e (k + left) e'" "unat (k + left) \<le> unat k + unat g"
    using assms \<open>unat left \<le> unat g\<close> by (auto simp: evolves_def leaves_def)
qed

lemma budget_less: "budget G e \<Longrightarrow> unat g \<le> unat G \<Longrightarrow> budget g e"
  by (simp add: budget_def)

fun spent_post :: "evm_env \<Rightarrow> bool \<Rightarrow> u64 \<Rightarrow> evm \<Rightarrow> (vm_error + slice) \<times> frame \<times> evm \<Rightarrow> bool" where
  "spent_post env p G e (r, f', e') \<longleftrightarrow> frame_ok f' \<and> evolves env p (readOnly e) G e (c_Gas (f_contract f')) e'"

lemma exec_post_spent: "exec_post env p f e = spent_post env p (c_Gas (f_contract f)) e"
  by (auto simp: fun_eq_iff)

section \<open>Creating instructions\<close>

lemma finish_op_create_ok:
  assumes f: "frame_ok f" and st: "list_all (\<lambda>x. 0 \<le> x) st" "length st + 1 \<le> StackLimit"
    and k: "unat (c_Gas (f_contract f)) + unat g \<le> unat G"
    and r: "go_sat (create_post env p a g e) r" and ro: "\<not> readOnly e"
  shows "go_sat (spent_post env p G e) (finish_op_create st f r)"
  unfolding finish_op_create_def
proof (rule go_sat_bind [OF r], goal_cases)
  case (1 x)
  obtain ret addr left err e' where x: "x = ((ret, addr, left, err), e')" by (metis prod.exhaust)
  have "evolves env p (readOnly e) G e (c_Gas (f_contract f) + left) e'"
    using 1 x evolves_back(1) [OF _ k] ro by simp
  moreover have "frame_ok (f\<lparr>f_stack := stack_push v st,
      f_contract := (f_contract f)\<lparr>c_Gas := c_Gas (f_contract f) + left\<rparr>\<rparr>)" if "0 \<le> v" for v
    using f st that by (simp add: frame_ok_def stack_push_def)
  ultimately show ?case
    using x by (simp add: Let_def)
qed

lemma create_gas:
  fixes c :: contract
  defines "g \<equiv> c_Gas c - c_Gas c div 64"
  shows "snd (UseGas g c) = c\<lparr>c_Gas := c_Gas c - g\<rparr>" "unat (c_Gas c - g) + unat g = unat (c_Gas c)"
proof -
  have "c_Gas c div 64 \<le> c_Gas c" by (simp add: word_le_nat_alt unat_div)
  then have "g \<le> c_Gas c" by (simp add: g_def word_le_nat_alt unat_sub)
  then show "snd (UseGas g c) = c\<lparr>c_Gas := c_Gas c - g\<rparr>" "unat (c_Gas c - g) + unat g = unat (c_Gas c)"
    by (auto simp: UseGas_def unat_sub word_le_nat_alt word_less_nat_alt)
qed

lemma evm_Create_ok:
  assumes "runner_ok env p d run" "evm_ok env p e" "budget g e" "CallCreateDepth + 1 \<le> evm_depth e + d" "0 \<le> value"
    and ro: "\<not> readOnly e"
  shows "\<exists>a. go_sat (create_post env p a g e) (evm_Create env run caller code g value e)"
    "\<exists>a. go_sat (create_post env p a g e) (evm_Create2 env run caller code g value salt e)"
proof -
  let ?a = "ref_Address caller" and ?b = "ee_db env"
  obtain n s where n: "GetNonce ?b ?a (StateDB e) = (n, s)" by fastforce
  have inv: "sinv ?b p (StateDB e)" using assms(2) by (simp add: evm_ok_def)
  have m: "moves ?b p False (StateDB e) s" and abs: "absS ?b s = absS ?b (StateDB e)"
    using moves_reads(4) [OF inv, of False ?a] reads_abs(5) [of ?b ?a "StateDB e"] n by simp_all
  let ?e0 = "e\<lparr>StateDB := s\<rparr>"
  have "evm_ok env p ?e0" "budget g ?e0" "CallCreateDepth + 1 \<le> evm_depth ?e0 + d"
    using m moves_sinv [OF m inv] assms(3,4) by (simp_all add: evm_ok_def budget_def moves_def)
  note post = create_ok [OF assms(1) this assms(5), of caller code 0 "CreateAddress ?b ?a n"]
  have ev: "evolves env p False g e g ?e0" using m by (intro moves_evolves) simp_all
  have "go_sat (create_post env p ?a g e) (create env run caller code 0 g value (CreateAddress ?b ?a n) ?e0)"
  proof (rule go_sat_mono [OF post])
    fix x assume "create_post env p ?a g ?e0 x"
    then show "create_post env p ?a g e x"
      using evolves_trans [OF ev] abs
      by (cases x; cases "fst x"; cases "snd (fst x)"; cases "snd (snd (fst x))") auto
  qed
  then show "\<exists>a. go_sat (create_post env p a g e) (evm_Create env run caller code g value e)"
    using n by (auto simp: evm_Create_def)
  show "\<exists>a. go_sat (create_post env p a g e) (evm_Create2 env run caller code g value salt e)"
    unfolding evm_Create2_def Let_def by (rule exI) (rule create_ok [OF assms(1-5)])
qed

lemma exec_creates:
  "exec_safe env p d 3 1 True (Some memoryCreate) opCreate" "exec_safe env p d 4 1 True (Some memoryCreate2) opCreate2"
proof -
  have gives: "go_sat (exec_post env p f e) (finish_op_create st (f\<lparr>f_contract := snd (UseGas g (f_contract f))\<rparr>) r)"
    if "frame_ok f" "list_all (\<lambda>x. 0 \<le> x) st" "length st + 1 \<le> StackLimit" "go_sat (create_post env p a g e) r"
      "\<not> readOnly e" "g = c_Gas (f_contract f) - c_Gas (f_contract f) div 64" for f e st r a g
    unfolding exec_post_spent
    using create_gas [of "f_contract f"] that by (intro finish_op_create_ok [OF _ that(2,3) _ that(4,5)]) (auto simp: frame_ok_def)
  have le: "unat (c_Gas c - c_Gas c div 64) \<le> unat (c_Gas c)" for c :: contract
    using create_gas(2) [of c] by linarith
  show "exec_safe env p d 3 1 True (Some memoryCreate) opCreate"
    unfolding exec_safe_def
  proof (intro allI impI, elim conjE, goal_cases)
    case (1 run f e)
    obtain v off sz st where st: "f_stack f = v # off # sz # st" using pop3 [of f] 1 by auto
    have r: "in_range off sz (mem_Len (f_mem f))" using ready_range [of 1 2 f] 1 st by (simp add: memory_sizes)
    let ?g = "c_Gas (f_contract f) - c_Gas (f_contract f) div 64"
    have "budget ?g e" using budget_less [OF _ le] 1 by blast
    then obtain a where "go_sat (create_post env p a ?g e)
        (evm_Create env run (ContractRef (snd (UseGas ?g (f_contract f)))) (take (nat sz) (drop (nat off) (store (f_mem f)))) ?g v e)"
      using evm_Create_ok(1) 1 st frame_okD(1) [of f] by (fastforce simp: inside_def)
    then show ?case
      using gives [of f st a ?g e] 1 st frame_okD(1,2) [of f] mem_range_ok [OF r frame_okD(3)]
      by (simp add: opCreate_def mem_GetCopy_def Let_def split_beta)
  qed
  show "exec_safe env p d 4 1 True (Some memoryCreate2) opCreate2"
    unfolding exec_safe_def
  proof (intro allI impI, elim conjE, goal_cases)
    case (1 run f e)
    obtain v off sz salt st where st: "f_stack f = v # off # sz # salt # st" using pop4 [of f] 1 by auto
    have r: "in_range off sz (mem_Len (f_mem f))" using ready_range [of 1 2 f] 1 st by (simp add: memory_sizes)
    let ?g = "c_Gas (f_contract f) - c_Gas (f_contract f) div 64"
    have "budget ?g e" using budget_less [OF _ le] 1 by blast
    then obtain a where "go_sat (create_post env p a ?g e)
        (evm_Create2 env run (ContractRef (snd (UseGas ?g (f_contract f)))) (take (nat sz) (drop (nat off) (store (f_mem f)))) ?g v salt e)"
      using evm_Create_ok(2) 1 st frame_okD(1) [of f] by (fastforce simp: inside_def)
    then show ?case
      using gives [of f st a ?g e] 1 st frame_okD(1,2) [of f] mem_range_ok [OF r frame_okD(3)]
      by (simp add: opCreate2_def mem_GetCopy_def Let_def split_beta)
  qed
qed


section \<open>Calling instructions\<close>

lemma ready_call:
  assumes "mem_ready (Some (memory_call r a)) f"
  shows "in_range (f_stack f ! r) (f_stack f ! (r + 1)) (mem_Len (f_mem f))"
    "in_range (f_stack f ! a) (f_stack f ! (a + 1)) (mem_Len (f_mem f))"
proof -
  obtain x y sz where xy: "back2 calcMemSize64 r (r + 1) (f_stack f) = Some (x, False)"
    "back2 calcMemSize64 a (a + 1) (f_stack f) = Some (y, False)" and "sz = (if x > y then x else y)"
    "unat sz \<le> mem_Len (f_mem f)"
    using assms by (auto simp: mem_ready_def memory_call_def split: bind_splits if_splits)
  then have "unat x \<le> mem_Len (f_mem f)" "unat y \<le> mem_Len (f_mem f)"
    by (auto simp: word_less_nat_alt split: if_splits)
  then show "in_range (f_stack f ! r) (f_stack f ! (r + 1)) (mem_Len (f_mem f))"
    "in_range (f_stack f ! a) (f_stack f ! (a + 1)) (mem_Len (f_mem f))"
    using ready_range [of r "r + 1" f] ready_range [of a "a + 1" f] xy by (auto simp: mem_ready_def)
qed

lemma mem_args_ok:
  assumes "in_range off n (mem_Len (f_mem f))" "frame_ok f"
  shows "\<exists>args sl. mem_args off n (f_mem f) = Some (args, sl)"
  using mem_range_ok [OF assms(1) frame_okD(3) [OF assms(2)]] by (simp add: mem_args_def mem_GetPtr_def)

lemma finish_op_call_ok:
  assumes f: "frame_ok f" and st: "list_all (\<lambda>x. 0 \<le> x) st" "length st + 1 \<le> StackLimit"
    and k: "unat (c_Gas (f_contract f)) + unat g \<le> unat G"
    and r: "go_sat (call_post env p (readOnly e) g e) r" and rng: "in_range off n (mem_Len (f_mem f))"
  shows "go_sat (spent_post env p G e) (finish_op_call off n sl st f r)"
  unfolding finish_op_call_def
proof (rule go_sat_bind [OF r], goal_cases)
  case (1 x)
  obtain ret left err e' where x: "x = ((ret, left, err), e')" by (metis prod.exhaust)
  have ev: "evolves env p (readOnly e) G e (c_Gas (f_contract f) + left) e'"
    using 1 x evolves_back(1) [OF _ k] by simp
  obtain m where m: "mem_Set (big_Uint64 off) (big_Uint64 n) (slice_bytes (f_mem f) (ret_to_slice sl ret)) (f_mem f) = Some m"
    "mem_Len m = mem_Len (f_mem f)"
    using mem_Set_len [OF rng frame_okD(3) [OF f]] by blast
  have "frame_ok (f\<lparr>f_mem := m, f_stack := stack_push v st,
      f_contract := (f_contract f)\<lparr>c_Gas := c_Gas (f_contract f) + left\<rparr>\<rparr>)"
    "frame_ok (f\<lparr>f_stack := stack_push v st,
      f_contract := (f_contract f)\<lparr>c_Gas := c_Gas (f_contract f) + left\<rparr>\<rparr>)"
    if "0 \<le> v" for v
    using f st that m(2) by (simp_all add: frame_ok_def stack_push_def)
  then show ?case
    using x ev m by (simp add: Let_def)
qed

text \<open>A calling instruction. The gas of the callee has been paid for, with 9000 for a payment; the callee gets 2300 of them.\<close>

definition exec_call :: "evm_env \<Rightarrow> bool \<Rightarrow> nat \<Rightarrow> nat \<Rightarrow> bool \<Rightarrow> bool \<Rightarrow> memorySizeFunc \<Rightarrow> executionFunc \<Rightarrow> bool" where
  "exec_call env p d pops pays iscall need ex \<longleftrightarrow>
     (\<forall>run f e G.
        runner_ok env p d run \<and> inside d e \<and> budget G e \<and> frame_ok f \<and> evm_ok env p e \<and>
        pops \<le> length (f_stack f) \<and> mem_ready (Some need) f \<and> (iscall \<and> readOnly e \<longrightarrow> f_stack f ! 2 = 0) \<and>
        unat (c_Gas (f_contract f)) + unat (callGasTemp e) + (if pays \<and> f_stack f ! 2 \<noteq> 0 then 9000 else 0) \<le> unat G \<longrightarrow>
        go_sat (spent_post env p G e) (ex env run f e))"

lemma pop6: "6 \<le> length (f_stack f) \<Longrightarrow> \<exists>x y z u v w st. f_stack f = x # y # z # u # v # w # st"
  by (auto simp: Suc_le_length_iff numeral_eq_Suc)

lemma pop7: "7 \<le> length (f_stack f) \<Longrightarrow> \<exists>x y z u v w t st. f_stack f = x # y # z # u # v # w # t # st"
  by (auto simp: Suc_le_length_iff numeral_eq_Suc)

text \<open>The stipend does not overflow, and stays below what the payment costs.\<close>

lemma stipend:
  fixes t G k :: u64
  assumes "unat k + unat t + (if v \<noteq> 0 then 9000 else 0) \<le> unat G"
  shows "unat k + unat (t + (if U256 v \<noteq> 0 then 2300 else 0)) \<le> unat G"
proof -
  have "U256 v \<noteq> 0 \<Longrightarrow> v \<noteq> 0" by auto
  then show ?thesis
    using assms unat_u64_less [of G] by (auto simp: unat_word_ariths split: if_splits)
qed

lemma exec_call_value:
  "exec_call env p d 7 True True memoryCall opCall" "exec_call env p d 7 True iscall memoryCall opCallCode"
proof -
  show "exec_call env p d 7 True True memoryCall opCall"
    unfolding exec_call_def
  proof (intro allI impI, elim conjE, goal_cases)
    case (1 run f e G)
    obtain x addr v io isz ro rs st where st: "f_stack f = x # addr # v # io # isz # ro # rs # st" using pop7 [of f] 1 by auto
    have r: "in_range ro rs (mem_Len (f_mem f))" "in_range io isz (mem_Len (f_mem f))"
      using ready_call [of 5 3 f] 1 st by (simp_all add: memoryCall_def)
    obtain args sl where a: "mem_args io isz (f_mem f) = Some (args, sl)" using mem_args_ok [OF r(2)] 1 by blast
    let ?g = "callGasTemp e + (if U256 v \<noteq> 0 then 2300 else 0)"
    have k: "unat (c_Gas (f_contract f)) + unat ?g \<le> unat G"
      using stipend [of "c_Gas (f_contract f)" "callGasTemp e" v G] 1 st by simp
    then have "budget ?g e" using budget_less 1 by (metis add_leD2)
    then have "go_sat (call_post env p (readOnly e) ?g e)
        (Call env run (ContractRef (f_contract f)) (BigToAddress addr) args ?g (U256 v) e)"
      using 1 st by (intro Call_ok) (auto simp: inside_def)
    then show ?case
      using 1 a st k r(1) frame_okD(1,2) [of f]
      by (simp add: opCall_def Let_def finish_op_call_ok)
  qed
  show "exec_call env p d 7 True iscall memoryCall opCallCode"
    unfolding exec_call_def
  proof (intro allI impI, elim conjE, goal_cases)
    case (1 run f e G)
    obtain x addr v io isz ro rs st where st: "f_stack f = x # addr # v # io # isz # ro # rs # st" using pop7 [of f] 1 by auto
    have r: "in_range ro rs (mem_Len (f_mem f))" "in_range io isz (mem_Len (f_mem f))"
      using ready_call [of 5 3 f] 1 st by (simp_all add: memoryCall_def)
    obtain args sl where a: "mem_args io isz (f_mem f) = Some (args, sl)" using mem_args_ok [OF r(2)] 1 by blast
    let ?g = "callGasTemp e + (if U256 v \<noteq> 0 then 2300 else 0)"
    have k: "unat (c_Gas (f_contract f)) + unat ?g \<le> unat G"
      using stipend [of "c_Gas (f_contract f)" "callGasTemp e" v G] 1 st by simp
    then have "budget ?g e" using budget_less 1 by (metis add_leD2)
    then have "go_sat (call_post env p (readOnly e) ?g e)
        (CallCode env run (ContractRef (f_contract f)) (BigToAddress addr) args ?g (U256 v) e)"
      using 1 st by (intro CallCode_ok) (auto simp: inside_def)
    then show ?case
      using 1 a st k r(1) frame_okD(1,2) [of f]
      by (simp add: opCallCode_def Let_def finish_op_call_ok)
  qed
qed

lemma exec_call_free:
  "exec_call env p d 6 False iscall memoryDelegateCall opDelegateCall"
  "exec_call env p d 6 False iscall memoryStaticCall opStaticCall"
proof -
  show "exec_call env p d 6 False iscall memoryDelegateCall opDelegateCall"
    unfolding exec_call_def
  proof (intro allI impI, elim conjE, goal_cases)
    case (1 run f e G)
    obtain x addr io isz ro rs st where st: "f_stack f = x # addr # io # isz # ro # rs # st" using pop6 [of f] 1 by auto
    have r: "in_range ro rs (mem_Len (f_mem f))" "in_range io isz (mem_Len (f_mem f))"
      using ready_call [of 4 2 f] 1 st by (simp_all add: memoryDelegateCall_def)
    obtain args sl where a: "mem_args io isz (f_mem f) = Some (args, sl)" using mem_args_ok [OF r(2)] 1 by blast
    have k: "unat (c_Gas (f_contract f)) + unat (callGasTemp e) \<le> unat G" using 1 by simp
    then have "budget (callGasTemp e) e" using budget_less 1 by (metis add_leD2)
    then have "go_sat (call_post env p (readOnly e) (callGasTemp e) e)
        (DelegateCall env run (f_contract f) (BigToAddress addr) args (callGasTemp e) e)"
      using 1 frame_okD(4) [of f] by (intro DelegateCall_ok) (auto simp: inside_def)
    then show ?case
      using 1 a st k r(1) frame_okD(1,2) [of f] by (simp add: opDelegateCall_def finish_op_call_ok)
  qed
  show "exec_call env p d 6 False iscall memoryStaticCall opStaticCall"
    unfolding exec_call_def
  proof (intro allI impI, elim conjE, goal_cases)
    case (1 run f e G)
    obtain x addr io isz ro rs st where st: "f_stack f = x # addr # io # isz # ro # rs # st" using pop6 [of f] 1 by auto
    have r: "in_range ro rs (mem_Len (f_mem f))" "in_range io isz (mem_Len (f_mem f))"
      using ready_call [of 4 2 f] 1 st by (simp_all add: memoryStaticCall_def)
    obtain args sl where a: "mem_args io isz (f_mem f) = Some (args, sl)" using mem_args_ok [OF r(2)] 1 by blast
    have k: "unat (c_Gas (f_contract f)) + unat (callGasTemp e) \<le> unat G" using 1 by simp
    then have "budget (callGasTemp e) e" using budget_less 1 by (metis add_leD2)
    then have "go_sat (call_post env p (readOnly e) (callGasTemp e) e)
        (StaticCall env run (ContractRef (f_contract f)) (BigToAddress addr) args (callGasTemp e) e)"
      using 1 by (intro go_sat_mono [OF StaticCall_ok call_post_ro]) (auto simp: inside_def)
    then show ?case
      using 1 a st k r(1) frame_okD(1,2) [of f] by (simp add: opStaticCall_def finish_op_call_ok)
  qed
qed

text \<open>The price of a call covers the gas that is set aside for the callee.\<close>

definition gas_call :: "evm_env \<Rightarrow> bool \<Rightarrow> nat \<Rightarrow> bool \<Rightarrow> gasFunc \<Rightarrow> bool" where
  "gas_call env p pops pays dg \<longleftrightarrow>
     (\<forall>c st mem sz e. evm_ok env p e \<and> pops \<le> length st \<longrightarrow>
        (\<exists>g mem' e'. dg env c st mem sz e = Some (g, mem', e') \<and> store mem' = store mem \<and>
           moves (ee_db env) p True (StateDB e) (StateDB e') \<and> same_level e e' \<and>
           (\<forall>x. g = Inr x \<longrightarrow>
              unat (callGasTemp e') + (if pays \<and> st ! 2 \<noteq> 0 then 9000 else 0) \<le> unat x \<and> unat sz \<le> max_memory)))"

lemma call_gas_total_ok:
  assumes "\<And>y. g = Inr y \<Longrightarrow> lo \<le> unat y"
  obtains r t where "call_gas_total c g cost mem e = (r, mem, e\<lparr>callGasTemp := t\<rparr>)"
    "\<And>x. r = Inr x \<Longrightarrow> (\<exists>y. g = Inr y) \<and> unat t + lo \<le> unat x"
proof (cases g)
  case (Inl er)
  then show ?thesis using that [of "Inl er" "callGasTemp e"] by (simp add: call_gas_total_def)
next
  case (Inr y)
  then show ?thesis
    using that assms checked_add_ge [of y] by (fastforce simp: call_gas_total_def Let_def)
qed

lemma gas_call_free:
  "0 < pops \<Longrightarrow> gas_call env p pops False gasDelegateCall" "0 < pops \<Longrightarrow> gas_call env p pops False gasStaticCall"
  unfolding gas_call_def
proof (safe, goal_cases)
  case (1 c st mem sz e)
  obtain r t where "call_gas_total c (fst (memoryGasCost mem sz)) (st ! 0) (snd (memoryGasCost mem sz)) e =
      (r, snd (memoryGasCost mem sz), e\<lparr>callGasTemp := t\<rparr>)"
    "\<And>x. r = Inr x \<Longrightarrow> (\<exists>y. fst (memoryGasCost mem sz) = Inr y) \<and> unat t + 0 \<le> unat x"
    by (rule call_gas_total_ok [where lo = 0]) auto
  then show ?case
    using 1 by (auto simp: gasDelegateCall_def stack_Back_def split_beta memoryGasCost_store evm_ok_moves same_level_def dest: memoryGasCost_limit)
next
  case (2 c st mem sz e)
  obtain r t where "call_gas_total c (fst (memoryGasCost mem sz)) (st ! 0) (snd (memoryGasCost mem sz)) e =
      (r, snd (memoryGasCost mem sz), e\<lparr>callGasTemp := t\<rparr>)"
    "\<And>x. r = Inr x \<Longrightarrow> (\<exists>y. fst (memoryGasCost mem sz) = Inr y) \<and> unat t + 0 \<le> unat x"
    by (rule call_gas_total_ok [where lo = 0]) auto
  then show ?case
    using 2 by (auto simp: gasStaticCall_def stack_Back_def split_beta memoryGasCost_store evm_ok_moves same_level_def dest: memoryGasCost_limit)
qed

lemma paid_gas:
  assumes "lo \<le> unat base"
  obtains r t where "call_gas_total c (gas_then (fst (memoryGasCost mem sz)) (\<lambda>g. checked (SafeAdd base g))) cost m e =
      (r, m, e\<lparr>callGasTemp := t\<rparr>)"
    "\<And>x. r = Inr x \<Longrightarrow> unat t + lo \<le> unat x \<and> unat sz \<le> max_memory"
proof -
  let ?g = "gas_then (fst (memoryGasCost mem sz)) (\<lambda>g. checked (SafeAdd base g))"
  have "lo \<le> unat y" if "?g = Inr y" for y
    using that assms by (auto simp: gas_then_Inr dest!: checked_add_ge)
  then obtain r t where "call_gas_total c ?g cost m e = (r, m, e\<lparr>callGasTemp := t\<rparr>)"
    "\<And>x. r = Inr x \<Longrightarrow> (\<exists>y. ?g = Inr y) \<and> unat t + lo \<le> unat x"
    using call_gas_total_ok [of ?g lo c cost m e] by blast
  then show ?thesis
    by (intro that) (auto simp: gas_then_Inr dest: memoryGasCost_limit)
qed

lemma gas_call_value:
  "gas_call env p 7 True gasCall" "gas_call env p 7 True gasCallCode"
  unfolding gas_call_def
proof (safe, goal_cases)
  case (1 c st mem sz e)
  define v where "v = st ! 2"
  obtain em s where s: "(if v \<noteq> 0 then Empty (ee_db env) (BigToAddress (st ! 1)) (StateDB e) else (False, StateDB e)) = (em, s)"
    by fastforce
  have "sinv (ee_db env) p (StateDB e)" using 1 by (simp add: evm_ok_def)
  note rd = moves_reads(2) [OF this, of True "BigToAddress (st ! 1)"]
  have m: "moves (ee_db env) p True (StateDB e) s"
    using rd s evm_ok_moves [OF 1(1)] by (cases "v = 0") (auto simp: prod_eq_iff)
  let ?b = "(if v \<noteq> 0 \<and> em then 25000 else 0) + (if v \<noteq> 0 then 9000 else 0) :: u64"
  let ?g = "gas_then (fst (memoryGasCost mem sz)) (\<lambda>g. checked (SafeAdd ?b g))"
  obtain r t where r: "call_gas_total c ?g (st ! 0) (snd (memoryGasCost mem sz)) (e\<lparr>StateDB := s\<rparr>) =
      (r, snd (memoryGasCost mem sz), e\<lparr>StateDB := s, callGasTemp := t\<rparr>)"
    "\<And>x. r = Inr x \<Longrightarrow> unat t + (if v \<noteq> 0 then 9000 else 0) \<le> unat x \<and> unat sz \<le> max_memory"
    by (rule paid_gas [of "if v \<noteq> 0 then 9000 else 0" ?b c mem sz "st ! 0" "snd (memoryGasCost mem sz)" "e\<lparr>StateDB := s\<rparr>"]) auto
  have "gasCall env c st mem sz e = (let (isEmpty, s) =
      (if v \<noteq> 0 then Empty (ee_db env) (BigToAddress (st ! 1)) (StateDB e) else (False, StateDB e))
    in Some (call_gas_total c (gas_then (fst (memoryGasCost mem sz))
         (\<lambda>g. checked (SafeAdd ((if v \<noteq> 0 \<and> isEmpty then 25000 else 0) + (if v \<noteq> 0 then 9000 else 0)) g)))
         (st ! 0) (snd (memoryGasCost mem sz)) (e\<lparr>StateDB := s\<rparr>)))"
    using 1 by (auto simp: gasCall_def stack_Back_def split_beta v_def Let_def)
  then have "gasCall env c st mem sz e = Some (r, snd (memoryGasCost mem sz), e\<lparr>StateDB := s, callGasTemp := t\<rparr>)"
    unfolding s by (simp add: r(1) del: if_not_P)
  then show ?case
    using m r(2) by (simp add: memoryGasCost_store same_level_def v_def [symmetric])
next
  case (2 c st mem sz e)
  define v where "v = st ! 2"
  let ?b = "if v \<noteq> 0 then 9000 else 0 :: u64"
  obtain r t where "call_gas_total c (gas_then (fst (memoryGasCost mem sz)) (\<lambda>g. checked (SafeAdd ?b g))) (st ! 0)
      (snd (memoryGasCost mem sz)) e = (r, snd (memoryGasCost mem sz), e\<lparr>callGasTemp := t\<rparr>)"
    "\<And>x. r = Inr x \<Longrightarrow> unat t + (if v \<noteq> 0 then 9000 else 0) \<le> unat x \<and> unat sz \<le> max_memory"
    by (rule paid_gas [of "if v \<noteq> 0 then 9000 else 0" ?b c mem sz "st ! 0" "snd (memoryGasCost mem sz)" e]) auto
  then show ?case
    using 2 by (subgoal_tac "st \<noteq> []")
      (auto simp: gasCallCode_def stack_Back_def split_beta memoryGasCost_store same_level_def v_def [symmetric] evm_ok_moves)
qed

lemma call_entry:
  assumes need: "need_ok pops (Some ms)" and dg: "gas_call env p pops pays dg" and ex: "exec_call env p d pops pays iscall ms (o_execute op)"
    and op: "o_memorySize op = Some ms" "o_dynamicGas op = Some dg" "o_minStack op = minStack pops push"
  shows "body_ok env p d 0 iscall op"
  unfolding body_ok_def
proof (intro allI impI, elim conjE, goal_cases)
  case (1 run f e)
  have n: "pops \<le> length (f_stack f)" using 1 op(3) by (simp add: minStack_def)
  let ?nine = "if pays \<and> f_stack f ! 2 \<noteq> 0 then 9000 else 0 :: nat"
  have paid: "\<exists>g m e1. dg env (f_contract f) (f_stack f) (f_mem f) sz e = Some (g, m, e1) \<and> store m = store (f_mem f) \<and>
      moves (ee_db env) p True (StateDB e) (StateDB e1) \<and> same_level e e1 \<and>
      (\<forall>x. g = Inr x \<longrightarrow> unat (callGasTemp e1) + ?nine \<le> unat x \<and> (o_memorySize op \<noteq> None \<longrightarrow> unat sz \<le> max_memory))" for sz
    using dg 1(5) n unfolding gas_call_def by metis
  have need': "need_ok pops (o_memorySize op)" using need op by simp
  obtain err f1 e1 where d: "dyn_charge env op f e = Some (err, f1, e1)" "charged env p 0 op f e (err, f1, e1)"
    "err = None \<longrightarrow> (\<exists>(x :: u64) (e2 :: evm). charged env p (unat x) op f e (err, f1, e1) \<and>
       callGasTemp e1 = callGasTemp e2 \<and> unat (callGasTemp e2) + ?nine \<le> unat x)"
    using dyn_charge_paid [OF need' 1(4,5) n op(2) paid] by (metis fst_conv snd_conv prod_cases3)
  note ev = charged_evolves [OF d(2)]
  show ?case
  proof (cases err)
    case (Some er)
    then show ?thesis using d ev evolves_leaves [OF ev] by (simp add: body_def fails_def)
  next
    case None
    then have f1: "frame_ok f1" "f_stack f1 = f_stack f" "mem_ready (Some ms) f1" "same_level e e1"
      and lo: "unat (c_Gas (f_contract f1)) + unat (callGasTemp e1) + ?nine \<le> unat (c_Gas (f_contract f))"
      using d(2,3) op by auto
    have ev1: "evolves env p ro (c_Gas (f_contract f)) e (c_Gas (f_contract f)) e1" for ro
      using d(2) by (auto intro: moves_evolves moves_weaken)
    have "go_sat (spent_post env p (c_Gas (f_contract f)) e1) (o_execute op env run f1 e1)"
      using ex 1 f1 n lo evolves_ok [OF ev1] evolves_budget [OF ev1]
      by (simp add: exec_call_def same_level_def inside_def)
    then have "go_sat (done_post env p 0 f e) (o_execute op env run f1 e1)"
    proof (rule go_sat_mono)
      fix x assume x: "spent_post env p (c_Gas (f_contract f)) e1 x"
      obtain r f2 e2 where x': "x = (r, f2, e2)" by (metis prod_cases3)
      have "evolves env p (readOnly e) (c_Gas (f_contract f)) e (c_Gas (f_contract f2)) e2"
        using x x' evolves_trans [OF ev1] f1(4) by (simp add: same_level_def)
      then show "done_post env p 0 f e x" using x x' by (simp add: evolves_def leaves_def)
    qed
    then show ?thesis using d None execute_op_post by (simp add: body_def)
  qed
qed


section \<open>Instructions that earn refunds\<close>

text \<open>Only the refund counter changed.\<close>

definition refunded :: "backend \<Rightarrow> statedb \<Rightarrow> statedb \<Rightarrow> bool" where
  "refunded b s t \<longleftrightarrow> extends b s t \<and> absS b t = (absS b s)\<lparr>a_refund := sd_refund t\<rparr>"

lemma refunded_trans: "refunded b s t \<Longrightarrow> refunded b t u \<Longrightarrow> refunded b s u"
  unfolding refunded_def using extends_trans by auto

lemma refunded_ok: "refunded b s t \<Longrightarrow> state_ok b s \<Longrightarrow> state_ok b t"
  unfolding refunded_def by (blast intro: extends_state_ok)

lemma refunded_same:
  assumes "journaled b s t" "absS b t = absS b s"
  shows "refunded b s t" "sd_refund t = sd_refund s"
proof -
  show r: "sd_refund t = sd_refund s" using arg_cong [OF assms(2), of a_refund] by simp
  have "(absS b s)\<lparr>a_refund := sd_refund s\<rparr> = absS b s" by (simp add: absS_def)
  then show "refunded b s t" using assms r by (simp add: refunded_def extends_journaled)
qed

lemma refunded_reads:
  assumes "state_ok b s"
  shows "refunded b s (snd (GetState b a k s))" "sd_refund (snd (GetState b a k s)) = sd_refund s"
    "refunded b s (snd (GetCommittedState b a k s))" "sd_refund (snd (GetCommittedState b a k s)) = sd_refund s"
    "refunded b s (snd (Empty b a s))" "sd_refund (snd (Empty b a s)) = sd_refund s"
    "refunded b s (snd (GetBalance b a s))" "sd_refund (snd (GetBalance b a s)) = sd_refund s"
    "refunded b s (snd (HasSuicided b a s))" "sd_refund (snd (HasSuicided b a s)) = sd_refund s"
proof -
  have aok: "aok (absS b s)" using assms by (rule state_ok_aok)
  note same = journaled_readers [OF aok] journaled_GetState [OF aok] reads_abs GetState_abs [OF aok]
  show "refunded b s (snd (GetState b a k s))" "sd_refund (snd (GetState b a k s)) = sd_refund s"
    "refunded b s (snd (GetCommittedState b a k s))" "sd_refund (snd (GetCommittedState b a k s)) = sd_refund s"
    "refunded b s (snd (Empty b a s))" "sd_refund (snd (Empty b a s)) = sd_refund s"
    "refunded b s (snd (GetBalance b a s))" "sd_refund (snd (GetBalance b a s)) = sd_refund s"
    "refunded b s (snd (HasSuicided b a s))" "sd_refund (snd (HasSuicided b a s)) = sd_refund s"
    by (rule refunded_same(1) refunded_same(2) [where b = b]; use same in simp)+
qed

lemma refunded_AddRefund:
  "state_ok b s \<Longrightarrow> refunded b s (AddRefund g s)" "sd_refund (AddRefund g s) = sd_refund s + g"
proof -
  show r: "sd_refund (AddRefund g s) = sd_refund s + g" by (simp add: AddRefund_def)
  show "refunded b s (AddRefund g s)" if "state_ok b s"
    using that by (simp add: refunded_def extends_journaled journaled_AddRefund state_ok_aok AddRefund_abs r)
qed

lemma refunded_SubRefund:
  assumes "state_ok b s" "unat g \<le> unat (sd_refund s)"
  shows "\<exists>t. SubRefund g s = Some t \<and> refunded b s t \<and> unat (sd_refund t) + unat g = unat (sd_refund s)"
proof -
  let ?t = "(append_entry (refundChange (sd_refund s)) s)\<lparr>sd_refund := sd_refund s - g\<rparr>"
  have t: "SubRefund g s = Some ?t"
    using assms(2) by (simp add: SubRefund_def append_entry_def word_less_nat_alt)
  have "refunded b s ?t"
    using journaled_SubRefund [OF state_ok_aok [OF assms(1)] t] SubRefund_abs' [OF t, of b]
    by (simp add: refunded_def extends_journaled)
  then show ?thesis
    using t assms(2) by (auto simp: unat_sub word_le_nat_alt)
qed

lemma unat_plus_below:
  fixes x y :: u64
  shows "unat x + unat y < 2 ^ 64 \<Longrightarrow> unat (x + y) = unat x + unat y"
  by (simp add: unat_word_ariths)

lemma cleared_refund:
  assumes "covered A" "(a, k) \<in> cleared A"
  shows "15000 \<le> unat (a_refund A)"
proof -
  have "0 < card (cleared A)" using assms card_gt_0_iff by (force simp: covered_def)
  then have "15000 \<le> 15000 * card (cleared A)" by simp
  then show ?thesis using assms(1) unfolding covered_def by linarith
qed

text \<open>The price of a storage write, and what it does to the refund counter.\<close>

definition gas_sstore :: "evm_env \<Rightarrow> bool \<Rightarrow> gasFunc \<Rightarrow> bool" where
  "gas_sstore env p dg \<longleftrightarrow>
     (\<forall>c st mem sz e. evm_ok env p e \<and> 2 \<le> length st \<longrightarrow>
        (\<exists>g s. dg env c st mem sz e = Some (g, mem, e\<lparr>StateDB := s\<rparr>) \<and> refunded (ee_db env) (StateDB e) s \<and>
           (\<forall>x. g = Inr x \<longrightarrow> refund_of e + 24 * unat x < 2 ^ 64 \<longrightarrow>
              800 \<le> unat x \<and> unat (sd_refund s) \<le> refund_of e + 24 * unat x \<and>
              (p \<longrightarrow> refund_step (a_read (\<lambda>v. v_committed v (BigToHash (st ! 0))) 0 (c_self c) (absS (ee_db env) (StateDB e)))
                 (a_read (\<lambda>v. v_state v (BigToHash (st ! 0))) 0 (c_self c) (absS (ee_db env) (StateDB e)))
                 (BigToHash (st ! 1)) (refund_of e) (unat (sd_refund s))))))"

lemma gas_sstore_legacy: "gas_sstore env False gasSStore"
  unfolding gas_sstore_def
proof (intro allI impI, elim conjE, goal_cases)
  case (1 c st mem sz e)
  let ?b = "ee_db env"
  obtain cur s where g: "GetState ?b (c_self c) (BigToHash (st ! 0)) (StateDB e) = (cur, s)" by fastforce
  have ok: "state_ok ?b (StateDB e)" using 1 by (simp add: evm_ok_def sinv_def)
  have r: "refunded ?b (StateDB e) s" "sd_refund s = sd_refund (StateDB e)"
    using refunded_reads(1,2) [OF ok, of "c_self c" "BigToHash (st ! 0)"] g by simp_all
  have "refunded ?b (StateDB e) (AddRefund 15000 s)"
    using refunded_trans [OF r(1) refunded_AddRefund(1) [OF refunded_ok [OF r(1) ok]]] .
  moreover have "unat (sd_refund s + 15000) \<le> refund_of e + 15000"
    using r(2) by (simp add: unat_word_ariths)
  moreover have "st \<noteq> []" "1 < length st" using 1 by auto
  ultimately show ?case
    using g r by (auto simp: gasSStore_def stack_Back_def refunded_AddRefund(2))
qed

text \<open>The two counters of EIP-2200: clearing and restoring.\<close>

lemma dirty_refund:
  assumes ok: "state_ok b s" and cov: "original \<noteq> 0 \<and> current = 0 \<Longrightarrow> 15000 \<le> unat (sd_refund s)"
    and ne: "current \<noteq> val" "original \<noteq> current"
  obtains t u where "(if original \<noteq> 0 then
       (if current = 0 then SubRefund 15000 s else if val = 0 then Some (AddRefund 15000 s) else Some s) else Some s) = Some t"
    "(if original = val then (if original = 0 then AddRefund 19200 t else AddRefund 4200 t) else t) = u"
    "refunded b s u"
    "unat (sd_refund s) + 19200 < 2 ^ 64 \<Longrightarrow>
       unat (sd_refund u) \<le> unat (sd_refund s) + 19200 \<and>
       refund_step original current val (unat (sd_refund s)) (unat (sd_refund u))"
proof -
  let ?lift = "\<lambda>t. (if original = val then (if original = 0 then AddRefund 19200 t else AddRefund 4200 t) else t)"
  consider "original \<noteq> 0 \<and> current = 0" | "original \<noteq> 0 \<and> current \<noteq> 0 \<and> val = 0" | "original = 0 \<or> current \<noteq> 0 \<and> val \<noteq> 0"
    by blast
  then show ?thesis
  proof cases
    case 1
    then obtain t where t: "SubRefund 15000 s = Some t" "refunded b s t" "unat (sd_refund t) + 15000 = unat (sd_refund s)"
      using refunded_SubRefund [OF ok, of 15000] cov by auto
    have "refunded b t (AddRefund 4200 t)" using refunded_AddRefund(1) refunded_ok [OF t(2) ok] by blast
    then have "refunded b s (?lift t)" using 1 t(2) refunded_trans [OF t(2)] by auto
    moreover have "unat (sd_refund t + 4200) = unat (sd_refund t) + 4200" if "unat (sd_refund s) + 19200 < 2 ^ 64"
      using that t(3) by (subst unat_plus_below) auto
    ultimately show ?thesis
      using 1 t ne by (intro that [of t "?lift t"]) (auto simp: refund_step_def refunded_AddRefund(2))
  next
    case 2
    have "refunded b s (AddRefund 15000 s)" by (rule refunded_AddRefund(1) [OF ok])
    moreover have "unat (sd_refund s + 15000) = unat (sd_refund s) + 15000" if "unat (sd_refund s) + 19200 < 2 ^ 64"
      using that by (subst unat_plus_below) auto
    ultimately show ?thesis
      using 2 by (intro that [of "AddRefund 15000 s" "AddRefund 15000 s"]) (auto simp: refund_step_def refunded_AddRefund(2))
  next
    case 3
    have "refunded b s (?lift s)" using refunded_AddRefund(1) [OF ok] by (simp add: refunded_def)
    moreover have "unat (sd_refund s + 4200) = unat (sd_refund s) + 4200" "unat (sd_refund s + 19200) = unat (sd_refund s) + 19200"
      if "unat (sd_refund s) + 19200 < 2 ^ 64"
      using that by (subst unat_plus_below; auto)+
    ultimately show ?thesis
      using 3 ne by (intro that [of s "?lift s"]) (auto simp: refund_step_def refunded_AddRefund(2))
  qed
qed

lemma gas_sstore_2200: "gas_sstore env True gasSStoreEIP2200"
  unfolding gas_sstore_def
proof (intro allI impI, elim conjE, goal_cases)
  case (1 c st mem sz e)
  let ?b = "ee_db env" and ?a = "c_self c" and ?k = "BigToHash (st ! 0)" and ?val = "BigToHash (st ! 1)"
  let ?A = "absS ?b (StateDB e)"
  obtain cur s where g: "GetState ?b ?a ?k (StateDB e) = (cur, s)" by fastforce
  obtain orig t where h: "GetCommittedState ?b ?a ?k s = (orig, t)" by fastforce
  have ok: "state_ok ?b (StateDB e)" and cov: "covered ?A" using 1 by (simp_all add: evm_ok_def sinv_def ainv_def)
  have r: "refunded ?b (StateDB e) s" "sd_refund s = sd_refund (StateDB e)"
    using refunded_reads(1,2) [OF ok, of ?a ?k] g by simp_all
  have s: "state_ok ?b s" "absS ?b s = ?A" using refunded_ok [OF r(1) ok] GetState_abs(1) [OF state_ok_aok [OF ok], of ?a ?k] g by auto
  have r2: "refunded ?b s t" "sd_refund t = sd_refund (StateDB e)"
    using refunded_reads(3,4) [OF s(1), of ?a ?k] h r(2) by simp_all
  have t: "refunded ?b (StateDB e) t" "state_ok ?b t"
    using refunded_trans [OF r(1) r2(1)] refunded_ok [OF r2(1) s(1)] .
  have cur: "cur = a_read (\<lambda>v. v_state v ?k) 0 ?a ?A" and orig: "orig = a_read (\<lambda>v. v_committed v ?k) 0 ?a ?A"
    using GetState_abs(2) [OF state_ok_aok [OF ok], of ?a ?k] GetState_abs(4) [OF state_ok_aok [OF s(1)], of ?a ?k] g h s(2) by simp_all
  have len: "st \<noteq> []" "Suc 0 < length st" using 1 by auto
  consider "c_Gas c \<le> 2300" | "\<not> c_Gas c \<le> 2300" "cur = ?val" | "\<not> c_Gas c \<le> 2300" "cur \<noteq> ?val" "orig = cur"
    | "\<not> c_Gas c \<le> 2300" "cur \<noteq> ?val" "orig \<noteq> cur" by blast
  then show ?case
  proof cases
    case 1
    have "refunded ?b (StateDB e) (StateDB e)" by (simp add: refunded_def absS_def)
    with 1 show ?thesis by (intro exI [of _ "Inl errReentrancySentry"] exI [of _ "StateDB e"]) (simp add: gasSStoreEIP2200_def)
  next
    case 2
    then have "gasSStoreEIP2200 env c st mem sz e = Some (Inr 800, mem, e\<lparr>StateDB := s\<rparr>)"
      using g len by (simp add: gasSStoreEIP2200_def stack_Back_def)
    then show ?thesis
      using r 2 by (intro exI [of _ "Inr 800"] exI [of _ s]) (auto simp: refund_step_def cur [symmetric])
  next
    case 3
    let ?s = "if orig \<noteq> 0 \<and> ?val = 0 then AddRefund 15000 t else t"
    have "gasSStoreEIP2200 env c st mem sz e = Some (Inr (if orig = 0 then 20000 else 5000), mem, e\<lparr>StateDB := ?s\<rparr>)"
      using 3 g h len by (simp add: gasSStoreEIP2200_def stack_Back_def Let_def)
    moreover have "refunded ?b (StateDB e) ?s"
      using t refunded_trans [OF t(1) refunded_AddRefund(1) [OF t(2)]] by simp
    moreover have "unat (sd_refund ?s) = refund_of e + (if orig \<noteq> 0 \<and> ?val = 0 then 15000 else 0)"
      if "refund_of e + 120000 < 2 ^ 64"
      using that r2(2) unat_plus_below [of "sd_refund t" 15000] by (simp add: refunded_AddRefund(2))
    ultimately show ?thesis
      using 3 by (intro exI [of _ "Inr (if orig = 0 then 20000 else 5000)"] exI [of _ ?s])
        (auto simp: refund_step_def cur [symmetric] orig [symmetric])
  next
    case 4
    have enough: "15000 \<le> unat (sd_refund t)" if "orig \<noteq> 0 \<and> cur = 0"
      using that cleared_refund [OF cov, of ?a ?k] cleared_iff [of ?k ?a ?A] cur orig r2(2) by simp
    obtain t1 u where u: "(if orig \<noteq> 0 then
        (if cur = 0 then SubRefund 15000 t else if ?val = 0 then Some (AddRefund 15000 t) else Some t) else Some t) = Some t1"
      "(if orig = ?val then (if orig = 0 then AddRefund 19200 t1 else AddRefund 4200 t1) else t1) = u"
      "refunded ?b t u"
      "unat (sd_refund t) + 19200 < 2 ^ 64 \<Longrightarrow> unat (sd_refund u) \<le> unat (sd_refund t) + 19200 \<and>
         refund_step orig cur ?val (unat (sd_refund t)) (unat (sd_refund u))"
      by (rule dirty_refund [OF t(2) enough 4(2,3)]) (assumption | rule that)+
    have "gasSStoreEIP2200 env c st mem sz e = Some (Inr 800, mem, e\<lparr>StateDB := u\<rparr>)"
      using 4 g h len u(1) unfolding u(2) [symmetric] gasSStoreEIP2200_def by (auto simp: stack_Back_def split: if_splits)
    then show ?thesis
      using u(4) r2(2) refunded_trans [OF t(1) u(3)]
      by (intro exI [of _ "Inr 800"] exI [of _ u]) (simp add: cur [symmetric] orig [symmetric])
  qed
qed

text \<open>An instruction that is charged for before its refund is known to fit: a charge that fails leaves an error behind.\<close>

lemma refund_entry:
  assumes op: "o_memorySize op = None" "o_dynamicGas op = Some dg" "o_minStack op = minStack pops push" "o_writes op"
    and dg: "\<And>c st mem e. evm_ok env p e \<Longrightarrow> pops \<le> length st \<Longrightarrow>
        \<exists>g s. dg env c st mem 0 e = Some (g, mem, e\<lparr>StateDB := s\<rparr>) \<and> refunded (ee_db env) (StateDB e) s"
    and ex: "\<And>run f e x s f1. frame_ok f \<Longrightarrow> evm_ok env p e \<Longrightarrow> pops \<le> length (f_stack f) \<Longrightarrow> \<not> readOnly e \<Longrightarrow>
        dg env (f_contract f) (f_stack f) (f_mem f) 0 e = Some (Inr x, f_mem f, e\<lparr>StateDB := s\<rparr>) \<Longrightarrow>
        refunded (ee_db env) (StateDB e) s \<Longrightarrow> refund_of e + 24 * unat x < 2 ^ 64 \<Longrightarrow>
        f1 = f\<lparr>f_contract := (f_contract f)\<lparr>c_Gas := c_Gas (f_contract f) - x\<rparr>\<rparr> \<Longrightarrow>
        unat (c_Gas (f_contract f1)) + unat x = unat (c_Gas (f_contract f)) \<Longrightarrow>
        go_sat (done_post env p lo f e) (o_execute op env run f1 (e\<lparr>StateDB := s\<rparr>))"
  shows "body_ok env p d lo iscall op"
  unfolding body_ok_def
proof (intro allI impI, elim conjE, goal_cases)
  case (1 run f e)
  have n: "pops \<le> length (f_stack f)" using 1 op(3) by (simp add: minStack_def)
  obtain g s where d: "dg env (f_contract f) (f_stack f) (f_mem f) 0 e = Some (g, f_mem f, e\<lparr>StateDB := s\<rparr>)"
    and r: "refunded (ee_db env) (StateDB e) s"
    using dg [OF 1(5) n] by blast
  have lv: "leaves env (c_Gas (f_contract f)) e (c_Gas (f_contract f)) (e\<lparr>StateDB := s\<rparr>)"
    using r by (simp add: leaves_def refunded_def same_level_def)
  show ?case
  proof (cases g)
    case (Inl er)
    then show ?thesis using d op lv by (simp add: body_def dyn_charge_def requested_memory_def fails_def)
  next
    case (Inr x)
    have dc: "dyn_charge env op f e = Some (pay env 0 x (f_mem f) f (e\<lparr>StateDB := s\<rparr>))"
      using Inr d op by (simp add: dyn_charge_def requested_memory_def)
    show ?thesis
    proof (cases rule: UseGas_cases [of x "f_contract f"])
      case 1
      then show ?thesis using dc lv by (simp add: body_def pay_def fails_def)
    next
      case 2
      have "24 * unat x \<le> 24 * unat (c_Gas (f_contract f))" using 2(2) by linarith
      then have "refund_of e + 24 * unat x < 2 ^ 64" using 1(3) unfolding budget_def by linarith
      then have "go_sat (done_post env p lo f e) (o_execute op env run (f\<lparr>f_contract := (f_contract f)\<lparr>c_Gas := c_Gas (f_contract f) - x\<rparr>\<rparr>)
          (e\<lparr>StateDB := s\<rparr>))"
        using ex [OF 1(4,5) n _ d [unfolded Inr] r _ refl] 1(8) op(4) 2(2) by simp
      then show ?thesis
        using dc 2(1) execute_op_post by (simp add: body_def pay_def)
    qed
  qed
qed

lemma StateDB_inj: "e\<lparr>StateDB := s\<rparr> = e\<lparr>StateDB := t\<rparr> \<longleftrightarrow> s = t"
  for e :: evm
  by (auto dest: arg_cong [of _ _ StateDB])

lemma nonneg_balance: "nonneg A \<Longrightarrow> aok A \<Longrightarrow> 0 \<le> v_balance (case live A a of None \<Rightarrow> fresh b a | Some v \<Rightarrow> v)"
  using live_Some [of A a] by (auto simp: nonneg_def split: option.split)

lemma SetState_evolves:
  assumes ok: "evm_ok env p e" "env_ok env" "refunded (ee_db env) (StateDB e) s" and g: "unat g' + unat x = unat g"
    and r: "unat (sd_refund s) \<le> refund_of e + 24 * unat x"
    and step: "p \<Longrightarrow> refund_step (a_read (\<lambda>v. v_committed v k) 0 a (absS (ee_db env) (StateDB e)))
        (a_read (\<lambda>v. v_state v k) 0 a (absS (ee_db env) (StateDB e))) y (refund_of e) (unat (sd_refund s))"
  shows "evolves env p False g e g' (e\<lparr>StateDB := SetState (ee_db env) a k y s\<rparr>)"
proof -
  let ?b = "ee_db env" and ?A = "absS (ee_db env) (StateDB e)"
  have e: "state_ok ?b (StateDB e)" "ainv p ?A" using ok(1) by (simp_all add: evm_ok_def sinv_def)
  note aok = state_ok_aok [OF e(1)] state_ok_aok [OF refunded_ok [OF ok(3) e(1)]]
  have abs: "absS ?b (SetState ?b a k y s) = a_update ?b a (aset_state k y) (?A\<lparr>a_refund := sd_refund s\<rparr>)"
    using SetState_abs [OF aok(2)] ok(3) by (simp add: refunded_def)
  have nn: "nonneg ?A" using e(2) by (simp add: ainv_def)
  have "nonneg (absS ?b (SetState ?b a k y s))"
    unfolding abs by (rule nonneg_update) (use nn aok(1) nonneg_balance [OF nn aok(1)] keeps_place_set in \<open>auto simp: aset_state_def\<close>)
  moreover have "covered (absS ?b (SetState ?b a k y s))" if p
    unfolding abs by (rule covered_set) (use that e(2) ok(2) step aok(1) in \<open>auto simp: ainv_def env_ok_def\<close>)
  moreover have "funds (absS ?b (SetState ?b a k y s)) \<le> funds ?A"
    unfolding abs using funds_update [of "?A\<lparr>a_refund := sd_refund s\<rparr>", OF _ _ keeps_place_set, of ?b a k y] nn aok(1)
    by (simp add: aset_state_def split: if_splits)
  moreover have "sd_refund (SetState ?b a k y s) = sd_refund s"
    using arg_cong [OF abs, of a_refund] by simp
  moreover have "extends ?b (StateDB e) (SetState ?b a k y s)"
    using ok(3) extends_journaled [OF journaled_SetState [OF aok(2)]] extends_trans unfolding refunded_def by blast
  ultimately show ?thesis
    using g r by (simp add: evolves_def leaves_def ainv_def same_level_def)
qed

lemma sstore_entry:
  assumes dg: "gas_sstore env p dg" and env: "env_ok env"
    and op: "o_memorySize op = None" "o_dynamicGas op = Some dg" "o_minStack op = minStack 2 0" "o_writes op" "o_execute op = opSstore"
  shows "body_ok env p d 800 iscall op"
proof (rule refund_entry [OF op(1-4)])
  fix c mem e and st :: "int list"
  assume "evm_ok env p e" "2 \<le> length st"
  then show "\<exists>g s. dg env c st mem 0 e = Some (g, mem, e\<lparr>StateDB := s\<rparr>) \<and> refunded (ee_db env) (StateDB e) s"
    using dg unfolding gas_sstore_def by blast
next
  fix run f e x s f1
  assume a: "frame_ok f" "evm_ok env p e" "2 \<le> length (f_stack f)" "\<not> readOnly e"
    "dg env (f_contract f) (f_stack f) (f_mem f) 0 e = Some (Inr x, f_mem f, e\<lparr>StateDB := s\<rparr>)"
    "refunded (ee_db env) (StateDB e) s" "refund_of e + 24 * unat x < 2 ^ 64"
    "f1 = f\<lparr>f_contract := (f_contract f)\<lparr>c_Gas := c_Gas (f_contract f) - x\<rparr>\<rparr>"
    "unat (c_Gas (f_contract f1)) + unat x = unat (c_Gas (f_contract f))"
  obtain loc val st where st: "f_stack f = loc # val # st" using pop2 a(3) by blast
  obtain g s' where gs: "dg env (f_contract f) (f_stack f) (f_mem f) 0 e = Some (g, f_mem f, e\<lparr>StateDB := s'\<rparr>)"
    "g = Inr y \<Longrightarrow> refund_of e + 24 * unat y < 2 ^ 64 \<Longrightarrow> 800 \<le> unat y \<and> unat (sd_refund s') \<le> refund_of e + 24 * unat y \<and>
       (p \<longrightarrow> refund_step (a_read (\<lambda>v. v_committed v (BigToHash loc)) 0 (c_self (f_contract f)) (absS (ee_db env) (StateDB e)))
          (a_read (\<lambda>v. v_state v (BigToHash loc)) 0 (c_self (f_contract f)) (absS (ee_db env) (StateDB e)))
          (BigToHash val) (refund_of e) (unat (sd_refund s')))" for y
    using dg [unfolded gas_sstore_def, rule_format, OF conjI [OF a(2,3)], of "f_contract f" "f_mem f" 0] st by auto
  have eq: "g = Inr x" "s' = s" using gs(1) a(5) by (simp_all add: StateDB_inj)
  note s = gs(2) [OF eq(1) a(7), unfolded eq(2)]
  have "frame_ok (f1\<lparr>f_stack := st\<rparr>)"
    using a(1,8) st by (simp add: frame_ok_def)
  then show "go_sat (done_post env p 800 f e) (o_execute op env run f1 (e\<lparr>StateDB := s\<rparr>))"
    using SetState_evolves [OF a(2) env a(6) a(9), of "BigToHash loc" "c_self (f_contract f)" "BigToHash val"] s a(4,8,9) st by (simp add: op(5) opSstore_def next_stack_def)
qed

lemma gas_selfdestruct:
  assumes "evm_ok env p e" "1 \<le> length st"
  shows "\<exists>x s. gasSelfdestruct env c st mem sz e = Some (Inr x, mem, e\<lparr>StateDB := s\<rparr>) \<and> refunded (ee_db env) (StateDB e) s \<and>
           5000 \<le> unat x \<and>
           (refund_of e + 24 * unat x < 2 ^ 64 \<longrightarrow> refund_of e \<le> unat (sd_refund s) \<and> unat (sd_refund s) \<le> refund_of e + 24 * unat x)"
proof -
  let ?b = "ee_db env"
  have ok: "state_ok ?b (StateDB e)" using assms by (simp add: evm_ok_def sinv_def)
  obtain em s1 where g1: "Empty ?b (BigToAddress (st ! 0)) (StateDB e) = (em, s1)" by fastforce
  have r1: "refunded ?b (StateDB e) s1" "sd_refund s1 = sd_refund (StateDB e)"
    using refunded_reads(5,6) [OF ok, of "BigToAddress (st ! 0)"] g1 by simp_all
  have ok1: "state_ok ?b s1" using refunded_ok [OF r1(1) ok] .
  obtain pays s2 where g2: "(if em then (let (bal, s) = GetBalance ?b (c_self c) s1 in (bal \<noteq> 0, s)) else (False, s1)) = (pays, s2)"
    by fastforce
  have r2: "refunded ?b (StateDB e) s2" "sd_refund s2 = sd_refund (StateDB e)"
    using refunded_trans [OF r1(1) refunded_reads(7) [OF ok1]] refunded_reads(8) [OF ok1, of "c_self c"] r1 g2
    by (auto simp: split_beta Let_def split: if_splits)
  have ok2: "state_ok ?b s2" using refunded_ok [OF r2(1) ok] .
  obtain dead s3 where g3: "HasSuicided ?b (c_self c) s2 = (dead, s3)" by fastforce
  have r3: "refunded ?b (StateDB e) s3" "sd_refund s3 = sd_refund (StateDB e)"
    using refunded_trans [OF r2(1) refunded_reads(9) [OF ok2, of "c_self c"]] refunded_reads(10) [OF ok2, of "c_self c"] g3 r2 by simp_all
  let ?x = "5000 + (if em \<and> pays then 25000 else 0) :: u64" and ?s = "if \<not> dead then AddRefund 24000 s3 else s3"
  have "st \<noteq> []" using assms(2) by auto
  then have "gasSelfdestruct env c st mem sz e = Some (Inr ?x, mem, e\<lparr>StateDB := ?s\<rparr>)"
    unfolding gasSelfdestruct_def stack_Back_def using assms(2) by (simp add: g1 g2 g3)
  moreover have "refunded ?b (StateDB e) ?s"
    using r3 refunded_trans [OF r3(1) refunded_AddRefund(1) [OF refunded_ok [OF r3(1) ok]]] by simp
  moreover have "5000 \<le> unat ?x" by simp
  moreover have "refund_of e \<le> unat (sd_refund ?s) \<and> unat (sd_refund ?s) \<le> refund_of e + 24 * unat ?x"
    if "refund_of e + 24 * unat ?x < 2 ^ 64"
    using that \<open>5000 \<le> unat ?x\<close> r3(2) unat_plus_below [of "sd_refund s3" 24000] by (auto simp: refunded_AddRefund(2))
  ultimately show ?thesis by blast
qed

lemma selfdestruct_entry:
  assumes op: "o_memorySize op = None" "o_dynamicGas op = Some gasSelfdestruct" "o_minStack op = minStack 1 0" "o_writes op"
    "o_execute op = opSuicide"
  shows "body_ok env p d 5000 iscall op"
proof (rule refund_entry [OF op(1-4)])
  fix c mem e and st :: "int list"
  assume "evm_ok env p e" "1 \<le> length st"
  then show "\<exists>g s. gasSelfdestruct env c st mem 0 e = Some (g, mem, e\<lparr>StateDB := s\<rparr>) \<and> refunded (ee_db env) (StateDB e) s"
    using gas_selfdestruct by blast
next
  fix run f e x s f1
  assume a: "frame_ok f" "evm_ok env p e" "1 \<le> length (f_stack f)" "\<not> readOnly e"
    "gasSelfdestruct env (f_contract f) (f_stack f) (f_mem f) 0 e = Some (Inr x, f_mem f, e\<lparr>StateDB := s\<rparr>)"
    "refunded (ee_db env) (StateDB e) s" "refund_of e + 24 * unat x < 2 ^ 64"
    "f1 = f\<lparr>f_contract := (f_contract f)\<lparr>c_Gas := c_Gas (f_contract f) - x\<rparr>\<rparr>"
    "unat (c_Gas (f_contract f1)) + unat x = unat (c_Gas (f_contract f))"
  let ?e = "e\<lparr>StateDB := s\<rparr>"
  have s: "5000 \<le> unat x" "refund_of e \<le> unat (sd_refund s)" "unat (sd_refund s) \<le> refund_of e + 24 * unat x"
    using gas_selfdestruct [OF a(2,3), of "f_contract f" "f_mem f" 0] a(5,7) by (auto simp: StateDB_inj)
  have inv: "ainv p (absS (ee_db env) s)"
    using a(2,6) s(2) by (auto simp: evm_ok_def sinv_def ainv_def refunded_def covered_def)
  then have ev: "evolves env p False (c_Gas (f_contract f)) e (c_Gas (f_contract f1)) ?e"
    using a(6,9) s(3) by (simp add: evolves_def leaves_def refunded_def same_level_def)
  have "frame_ok f1" using a(1,8) by (simp add: frame_ok_def)
  moreover have "evm_ok env p ?e" "f_stack f1 = f_stack f" using evolves_ok [OF ev a(2)] a(8) by simp_all
  ultimately have "go_sat (plain_post env p f1 ?e) (opSuicide env run f1 ?e)"
    using exec_Suicide [of env p None, unfolded exec_plain_def, rule_format, of f1 ?e run] a(3,4) frame_okD(2) [of f1]
    by (simp add: mem_ready_def)
  then have "go_sat (exec_post env p f1 ?e) (opSuicide env run f1 ?e)"
    by (rule go_sat_mono) (rule plain_exec_post)
  then show "go_sat (done_post env p 5000 f e) (o_execute op env run f1 ?e)"
    unfolding op(5) by (rule exec_post_done) (use ev a(4,9) s(1) in auto)
qed

end
