(* ===== verification/State_Final.thy ===== *)
theory State_Final
  imports State_Flow State_Storage
begin

text \<open>
  The world state between two transactions. \<^verbatim>\<open>Finalise\<close> of \<^verbatim>\<open>src/core/state/statedb.go\<close> ranges over the accounts that the journal
  counts as dirty. An account that it leaves out has no uncommitted slot, because the counts cover the entries of the journal
  and undoing the entries leads back to the state before the transaction. So a transaction that starts on a settled state and only
  extends the journal ends, after \<^verbatim>\<open>Finalise\<close>, on a settled state.
\<close>

text \<open>The journal and the snapshots are empty, nothing is to be refunded, no balance is negative and every slot holds its committed value.\<close>

definition settled :: "backend \<Rightarrow> statedb \<Rightarrow> bool" where
  "settled b s \<longleftrightarrow>
     entries (sd_journal s) = [] \<and> validRevisions s = [] \<and> counts_ok (sd_journal s) \<and> aok (absS b s) \<and> sd_refund s = 0 \<and> nonneg (absS b s) \<and>
     (\<forall>a v. live (absS b s) a = Some v \<longrightarrow> v_state v = v_committed v)"

lemma settled_rooted: "settled b s \<Longrightarrow> rooted b s (absS b s)"
  using counts_nonneg by (auto simp: settled_def intro: rooted_no_entries)

lemma settled_state_ok: "settled b s \<Longrightarrow> state_ok b s"
  using settled_rooted by (auto simp: state_ok_def)

lemma settled_sinv: "settled b s \<Longrightarrow> sinv b p s"
proof -
  assume s: "settled b s"
  then have "cleared (absS b s) = {}" by (fastforce simp: settled_def cleared_def)
  then show ?thesis using s settled_state_ok [OF s] by (simp add: settled_def sinv_def ainv_def covered_def)
qed

lemma tidy_new: "v_state (ov b (newObject b a d)) = v_committed (ov b (newObject b a d))"
  by (simp add: ov_def newObject_def so_GetState_def fun_eq_iff)

lemma settled_New:
  assumes "\<And>a d. tr a = Some d \<Longrightarrow> 0 \<le> ac_Balance d"
  shows "settled b (statedb_New tr)"
proof -
  let ?A = "absS b (statedb_New tr)"
  have o: "a_obj ?A a = map_option (\<lambda>d. ov b (newObject b a d)) (tr a)" for a
    by (simp add: absS_def statedb_New_def obj_view_def base_view_def)
  have "nonneg ?A"
    using assms by (auto simp: nonneg_def o ov_def newObject_def)
  moreover have "v_state v = v_committed v" if "live ?A a = Some v" for a v
    using that by (auto simp: live_def o tidy_new split: option.splits if_splits)
  moreover have "aok ?A" by (simp add: aok_iff statedb_New_def)
  ultimately show ?thesis by (simp add: settled_def statedb_New_def newJournal_def counts_ok_def count_of_def)
qed

section \<open>The end of a transaction\<close>

lemma tidy_finalise: "v_state (ov b (so_finalise o1)) = v_committed (ov b (so_finalise o1))" if "fakeStorage o1 = None"
  using that by (simp add: ov_def so_finalise_def so_GetState_def fun_eq_iff)

lemma Finalise_fields:
  "sd_trie (Finalise b d t) = sd_trie t"
  "stateObjects (Finalise b d t) a =
     (if a \<in> dom (dirties (sd_journal t)) then map_option (finalise_object b d) (stateObjects t a) else stateObjects t a)"
  by (auto simp: Finalise_def clearJournalAndRefund_def Let_def domIff)

lemma Finalise_obj:
  "a_obj (absS b (Finalise b d t)) a =
     (if a \<in> dom (dirties (sd_journal t)) \<and> a \<in> dom (stateObjects t)
      then Some (ov b (finalise_object b d (the (stateObjects t a)))) else a_obj (absS b t) a)"
  by (cases "stateObjects t a") (simp_all add: absS_def obj_view_def Finalise_fields domIff)

lemma Finalise_balance: "balance_of (absS b (Finalise b d t)) = balance_of (absS b t)"
proof
  fix a
  show "balance_of (absS b (Finalise b d t)) a = balance_of (absS b t) a"
    by (cases "stateObjects t a")
      (simp_all add: balance_of_def Finalise_fields finalise_object_def so_finalise_def ov_def absS_def obj_view_def)
qed

lemma Finalise_funds: "funds (absS b (Finalise b d t)) = funds (absS b t)"
  by (simp add: funds_def Finalise_balance)

lemma Finalise_refund:
  "sd_refund (Finalise b d t) = (if entries (sd_journal t) = [] then sd_refund t else 0)"
  by (simp add: Finalise_def clearJournalAndRefund_def Let_def)

lemma nonneg_iff: "nonneg A \<longleftrightarrow> (\<forall>a. 0 \<le> balance_of A a)"
  by (auto simp: nonneg_def balance_of_def split: option.splits)

text \<open>An account that no counter names is as it was before the transaction, or has no uncommitted slot.\<close>

lemma undirtied_tidy:
  assumes "rooted b t A0" "\<And>v. live A0 a = Some v \<Longrightarrow> v_state v = v_committed v" "a \<notin> dom (dirties (sd_journal t))"
    "live (absS b t) a = Some v"
  shows "v_state v = v_committed v"
proof -
  have u: "undoes b (rev (entries (sd_journal t))) (absS b t) A0" and c: "counts_ok (sd_journal t)"
    using assms(1) by (simp_all add: rooted_def)
  have "\<forall>e \<in> set (rev (entries (sd_journal t))). dirtied e \<noteq> Some a"
    using counts_dom [OF c] assms(3) by auto
  from undoes_others [OF u this] show ?thesis
  proof
    assume "a_obj (absS b t) a = a_obj A0 a"
    then have "live A0 a = Some v" using assms(4) by (simp add: live_def)
    then show ?thesis by (rule assms(2))
  next
    assume "tidy (a_obj (absS b t) a)"
    then show ?thesis using assms(4) by (auto simp: live_def tidy_def split: option.splits if_splits)
  qed
qed

lemma Finalise_tidy:
  assumes "rooted b t A0" "\<And>v. live A0 a = Some v \<Longrightarrow> v_state v = v_committed v" "live (absS b (Finalise b d t)) a = Some v"
  shows "v_state v = v_committed v"
proof -
  have aok: "aok (absS b t)"
    using assms(1) undoes_areverts by (auto simp: rooted_def)
  show ?thesis
  proof (cases "a \<in> dom (dirties (sd_journal t))")
    case False
    then have "live (absS b t) a = Some v" using assms(3) by (simp add: live_def Finalise_obj)
    then show ?thesis using undirtied_tidy [OF assms(1,2) False] by blast
  next
    case dirty: True
    show ?thesis
    proof (cases "stateObjects t a")
      case None
      then have "a_obj (absS b t) a = Some v"
        using assms(3) by (auto simp: live_def Finalise_obj split: option.splits if_splits)
      then show ?thesis
        using None by (auto simp: absS_def obj_view_def base_view_def tidy_new)
    next
      case (Some o1)
      then have "live (absS b (Finalise b d t)) a = (if deleted (finalise_object b d o1) then None else Some (ov b (finalise_object b d o1)))"
        using dirty by (auto simp: live_def Finalise_obj ov_def)
      then have "v = ov b (so_finalise o1)"
        using assms(3) by (auto simp: finalise_object_def split: if_splits)
      moreover have "fakeStorage o1 = None" using aok Some by (auto simp: aok_iff)
      ultimately show ?thesis by (simp add: tidy_finalise)
    qed
  qed
qed

text \<open>Any progress from a settled state, followed by \<^verbatim>\<open>Finalise\<close>, ends settled and with the same money.\<close>

lemma Finalise_settles:
  assumes "settled b s" "extends b s t" "nonneg (absS b t)"
  shows "settled b (Finalise b d t)"
proof -
  have r: "rooted b t (absS b s)" using settled_rooted [OF assms(1)] assms(2) by (simp add: extends_def)
  have "sd_refund t = 0" if "entries (sd_journal t) = []"
  proof -
    have "absS b t = absS b s" using r that by (simp add: rooted_def)
    then have "sd_refund t = sd_refund s" by (metis astate.select_convs(3) absS_def)
    then show ?thesis using assms(1) by (simp add: settled_def)
  qed
  then have "sd_refund (Finalise b d t) = 0" by (simp add: Finalise_refund)
  moreover have "nonneg (absS b (Finalise b d t))" using assms(3) by (simp add: nonneg_iff Finalise_balance)
  moreover have ok: "state_ok b (Finalise b d t)" by (rule state_ok_Finalise) (use r in \<open>auto simp: state_ok_def\<close>)
  then have "counts_ok (sd_journal (Finalise b d t))" by (auto simp: state_ok_def rooted_def)
  moreover have "entries (sd_journal (Finalise b d t)) = []" "validRevisions (Finalise b d t) = []"
    by (simp_all add: Finalise_def clearJournalAndRefund_def newJournal_def Let_def)
  moreover have "v_state v = v_committed v" if "live (absS b (Finalise b d t)) a = Some v" for a v
    by (rule Finalise_tidy [OF r _ that]) (use assms(1) in \<open>simp add: settled_def\<close>)
  ultimately show ?thesis
    using state_ok_aok [OF ok] by (simp add: settled_def)
qed

text \<open>Announcing the next transaction changes no account.\<close>

lemma Prepare_settled: "settled b (Prepare th bh ti s) = settled b s" "absS b (Prepare th bh ti s) = (absS b s)\<lparr>a_tx := (th, bh, ti)\<rparr>"
proof -
  show abs: "absS b (Prepare th bh ti s) = (absS b s)\<lparr>a_tx := (th, bh, ti)\<rparr>"
    by (simp add: absS_def Prepare_def GetLogs_def fun_eq_iff)
  show "settled b (Prepare th bh ti s) = settled b s"
    unfolding settled_def abs by (simp add: Prepare_def aok_def nonneg_def live_def)
qed

lemma Prepare_funds: "funds (absS b (Prepare th bh ti s)) = funds (absS b s)"
  by (rule funds_cong) (simp add: Prepare_settled(2))

end
