(* ===== verification/Evm_Safety.thy ===== *)
theory Evm_Safety
  imports Evm_Entries State_Final
begin

text \<open>
  Every instruction of every table is safe, so is every round of the interpreter loop, the loop ends before its
  fuel does, and nested frames end before the call depth limit. The theorems at the end hold for the outermost
  call of a transaction.
\<close>

section \<open>Tables\<close>

text \<open>An entry of a table: a round is safe, and one that goes on has spent gas.\<close>

definition entry_ok :: "evm_env \<Rightarrow> bool \<Rightarrow> nat \<Rightarrow> byte \<Rightarrow> operation \<Rightarrow> bool" where
  "entry_ok env p d op x \<longleftrightarrow>
     (\<exists>lo. body_ok env p d lo (op = OP_CALL) x \<and> (0 < lo + unat (o_constantGas x) \<or> o_halts x \<or> o_reverts x))"

lemma entry_plain:
  assumes "exec_plain env p pops push (o_writes x) (o_memorySize x) (o_execute x)" "dyn_plain env p pops lo x"
    "o_minStack x = minStack pops push" "o_maxStack x = maxStack pops push"
    "0 < lo + unat (o_constantGas x) \<or> o_halts x \<or> o_reverts x"
  shows "entry_ok env p d op x"
  unfolding entry_ok_def using plain_entry [OF assms(2) exec_plain_safe [OF assms(1)] assms(3,4)] assms(5) by blast

lemma operation_of_fields [simp]:
  "o_execute (operation_of ex gas pops push) = ex" "o_constantGas (operation_of ex gas pops push) = gas"
  "o_dynamicGas (operation_of ex gas pops push) = None" "o_minStack (operation_of ex gas pops push) = minStack pops push"
  "o_maxStack (operation_of ex gas pops push) = maxStack pops push" "o_memorySize (operation_of ex gas pops push) = None"
  "o_halts (operation_of ex gas pops push) = False" "o_jumps (operation_of ex gas pops push) = False"
  "o_writes (operation_of ex gas pops push) = False" "o_valid (operation_of ex gas pops push) = True"
  "o_reverts (operation_of ex gas pops push) = False" "o_returns (operation_of ex gas pops push) = False"
  by (simp_all add: operation_of_def no_operation_def)

lemma entry_simple:
  "exec_plain env p pops push False None ex \<Longrightarrow> 0 < unat gas \<Longrightarrow> entry_ok env p d op (operation_of ex gas pops push)"
  by (rule entry_plain [where pops = pops and push = push and lo = 0]) (simp_all add: dyn_plain_def need_ok_def)

lemma need_ok_call: "max r a + 1 < n \<Longrightarrow> need_ok n (Some (memory_call r a))"
  by (auto simp: need_ok_def memory_call_def back2_def stack_Back_def split_beta)

lemma need_ok_simps:
  "need_ok 3 (Some memoryCallDataCopy)" "need_ok 3 (Some memoryReturnDataCopy)" "need_ok 3 (Some memoryCodeCopy)"
  "need_ok 4 (Some memoryExtCodeCopy)" "need_ok 2 (Some memorySha3)" "need_ok 2 (Some memoryReturn)" "need_ok 2 (Some memoryRevert)"
  "2 \<le> n \<Longrightarrow> need_ok n (Some memoryLog)" "need_ok 3 (Some memoryCreate)" "need_ok 4 (Some memoryCreate2)"
  "need_ok 1 (Some memoryMLoad)" "need_ok 2 (Some memoryMStore)" "need_ok 2 (Some memoryMStore8)"
  by (auto simp: need_ok_def memory_sizes memoryMLoad_def memoryMStore_def memoryMStore8_def back2_def stack_Back_def split: bind_splits)

lemma need_ok_calls: "need_ok 7 (Some memoryCall)" "need_ok 6 (Some memoryDelegateCall)" "need_ok 6 (Some memoryStaticCall)"
  by (simp_all add: memoryCall_def memoryDelegateCall_def memoryStaticCall_def need_ok_call)

lemma entry_memory:
  assumes "exec_plain env p pops push (o_writes x) (Some ms) (o_execute x)" "gas_plain env p pops True lo dg" "need_ok pops (Some ms)"
    "o_dynamicGas x = Some dg" "o_memorySize x = Some ms" "o_minStack x = minStack pops push" "o_maxStack x = maxStack pops push"
    "0 < lo + unat (o_constantGas x) \<or> o_halts x \<or> o_reverts x"
  shows "entry_ok env p d op x"
  using assms by (intro entry_plain [where pops = pops and push = push and lo = lo]) (simp_all add: dyn_plain_def)

lemma entry_sized:
  "exec_plain env p pops push False (Some ms) ex \<Longrightarrow> gas_plain env p pops True 0 dg \<Longrightarrow> need_ok pops (Some ms) \<Longrightarrow> 0 < unat gas \<Longrightarrow>
     entry_ok env p d op ((operation_of ex gas pops push)\<lparr>o_dynamicGas := Some dg, o_memorySize := Some ms\<rparr>)"
  by (rule entry_memory [where pops = pops and push = push and lo = 0]) simp_all

lemmas entry_rules = entry_simple entry_sized plain_ops plain_gas need_ok_simps

definition entries_ok :: "evm_env \<Rightarrow> nat \<Rightarrow> (byte \<times> operation) list \<Rightarrow> bool" where
  "entries_ok env d xs \<longleftrightarrow> list_all (\<lambda>(op, x). op = OP_SSTORE \<or> (\<forall>p. entry_ok env p d op x)) xs"

lemma entry_stop: "entry_ok env p d op ((operation_of opStop 0 0 0)\<lparr>o_halts := True\<rparr>)"
  by (rule entry_plain [where pops = 0 and push = 0 and lo = 0]) (simp_all add: dyn_plain_def need_ok_def plain_ops)

lemma entry_exp:
  "entry_ok env p d op ((operation_of opExp 0 2 1)\<lparr>o_dynamicGas := Some gasExpFrontier\<rparr>)"
  "entry_ok env p d op ((operation_of opExp 0 2 1)\<lparr>o_dynamicGas := Some gasExpEIP158\<rparr>)"
  by (rule entry_plain [where pops = 2 and push = 1 and lo = 10]; simp add: dyn_plain_def need_ok_def plain_ops plain_gas del: One_nat_def)+

lemma frontier_arithmetic_ok: "entries_ok env d frontier_arithmetic"
  by (simp add: entries_ok_def frontier_arithmetic_def entry_rules entry_stop entry_exp del: One_nat_def)

lemma frontier_comparison_ok: "entries_ok env d frontier_comparison"
  by (simp add: entries_ok_def frontier_comparison_def entry_rules del: One_nat_def)

lemma frontier_environment_ok: "env_ok env \<Longrightarrow> entries_ok env d frontier_environment"
  by (simp add: entries_ok_def frontier_environment_def entry_rules del: One_nat_def)

lemma frontier_block_ok: "env_ok env \<Longrightarrow> entries_ok env d frontier_block"
  by (simp add: entries_ok_def frontier_block_def entry_rules del: One_nat_def)

lemma entry_jumps:
  "entry_ok env p d op ((operation_of opJump 8 1 0)\<lparr>o_jumps := True\<rparr>)"
  "entry_ok env p d op ((operation_of opJumpi 10 2 0)\<lparr>o_jumps := True\<rparr>)"
  by (rule entry_plain [where pops = 1 and push = 0 and lo = 0] entry_plain [where pops = 2 and push = 0 and lo = 0];
      simp add: dyn_plain_def need_ok_def plain_ops del: One_nat_def)+

lemma frontier_storage_ok: "env_ok env \<Longrightarrow> entries_ok env d frontier_storage"
  by (simp add: entries_ok_def frontier_storage_def entry_rules entry_jumps del: One_nat_def)

lemma frontier_push_ok: "entries_ok env d frontier_push_low" "entries_ok env d frontier_push_high"
  by (simp_all add: entries_ok_def frontier_push_low_def frontier_push_high_def list_all_iff entry_rules del: One_nat_def)

lemma entry_dup:
  "0 < n \<Longrightarrow> entry_ok env p d op ((operation_of (makeDup n) 3 0 1)\<lparr>o_minStack := minDupStack n, o_maxStack := maxDupStack n\<rparr>)"
  by (rule entry_plain [where pops = n and push = "n + 1" and lo = 0])
    (simp_all add: dyn_plain_def need_ok_def plain_ops minDupStack_def maxDupStack_def del: One_nat_def add_Suc_right)

lemma entry_swap:
  "entry_ok env p d op ((operation_of (makeSwap n) 3 0 0)\<lparr>o_minStack := minSwapStack (n + 1), o_maxStack := maxSwapStack (n + 1)\<rparr>)"
  by (rule entry_plain [where pops = "n + 1" and push = "n + 1" and lo = 0])
    (simp_all add: dyn_plain_def need_ok_def plain_ops minSwapStack_def maxSwapStack_def del: One_nat_def add_Suc_right)

lemma frontier_stack_ok: "entries_ok env d frontier_dup" "entries_ok env d frontier_swap"
  by (simp_all add: entries_ok_def frontier_dup_def frontier_swap_def list_all_iff entry_dup entry_swap del: One_nat_def)

lemma entry_log:
  "entry_ok env p d op ((operation_of (makeLog n) 0 (n + 2) 0)\<lparr>o_dynamicGas := Some (makeGasLog m), o_memorySize := Some memoryLog, o_writes := True\<rparr>)"
  by (rule entry_memory [where pops = "n + 2" and push = 0 and lo = 375 and ms = memoryLog and dg = "makeGasLog m"])
    (simp_all add: plain_ops plain_gas need_ok_simps del: add_2_eq_Suc' add_2_eq_Suc)

lemma frontier_log_ok: "entries_ok env d frontier_log"
  using entry_log [where n = 0] entry_log [where n = 1] entry_log [where n = 2] entry_log [where n = 3] entry_log [where n = 4]
  by (simp add: entries_ok_def frontier_log_def del: One_nat_def add_2_eq_Suc' add_2_eq_Suc)

lemma gas_plain_more: "gas_plain env p pops m lo dg \<Longrightarrow> pops \<le> n \<Longrightarrow> gas_plain env p n m lo dg"
  unfolding gas_plain_def by (meson le_trans)

lemma entry_creates:
  "entry_ok env p d op ((operation_of opCreate 32000 3 1)
     \<lparr>o_dynamicGas := Some gasCreate, o_memorySize := Some memoryCreate, o_writes := True, o_returns := True\<rparr>)"
  "entry_ok env p d op ((operation_of opCreate2 32000 4 1)
     \<lparr>o_dynamicGas := Some gasCreate2, o_memorySize := Some memoryCreate2, o_writes := True, o_returns := True\<rparr>)"
proof -
  let ?x = "(operation_of opCreate 32000 3 1)
     \<lparr>o_dynamicGas := Some gasCreate, o_memorySize := Some memoryCreate, o_writes := True, o_returns := True\<rparr>"
  have "body_ok env p d 0 (op = OP_CALL) ?x"
    by (rule plain_entry [where pops = 3 and push = 1])
      (simp_all add: dyn_plain_def need_ok_simps plain_gas exec_creates del: One_nat_def)
  then show "entry_ok env p d op ?x" unfolding entry_ok_def by (intro exI [of _ 0]) simp
  let ?y = "(operation_of opCreate2 32000 4 1)
     \<lparr>o_dynamicGas := Some gasCreate2, o_memorySize := Some memoryCreate2, o_writes := True, o_returns := True\<rparr>"
  have "gas_plain env p 4 True 0 gasCreate2" by (rule gas_plain_more [of _ _ 3]) (simp_all add: plain_gas)
  then have "body_ok env p d 0 (op = OP_CALL) ?y"
    by (intro plain_entry [where pops = 4 and push = 1])
      (simp_all add: dyn_plain_def need_ok_simps exec_creates del: One_nat_def)
  then show "entry_ok env p d op ?y" unfolding entry_ok_def by (intro exI [of _ 0]) simp
qed

lemma entry_calling:
  assumes "need_ok pops (Some ms)" "gas_call env p pops pays dg" "exec_call env p d pops pays (op = OP_CALL) ms ex" "0 < unat gas"
  shows "entry_ok env p d op ((operation_of ex gas pops 1)
     \<lparr>o_dynamicGas := Some dg, o_memorySize := Some ms, o_returns := True\<rparr>)"
  unfolding entry_ok_def using assms(4)
  by (intro exI [of _ 0] conjI call_entry [OF assms(1,2), where push = 1]) (use assms(3) in simp_all)

lemma entry_calls:
  assumes "0 < unat gas"
  shows "entry_ok env p d OP_CALL ((operation_of opCall gas 7 1)
     \<lparr>o_dynamicGas := Some gasCall, o_memorySize := Some memoryCall, o_returns := True\<rparr>)"
  "entry_ok env p d op ((operation_of opCallCode gas 7 1)
     \<lparr>o_dynamicGas := Some gasCallCode, o_memorySize := Some memoryCall, o_returns := True\<rparr>)"
  "entry_ok env p d op ((operation_of opDelegateCall gas 6 1)
     \<lparr>o_dynamicGas := Some gasDelegateCall, o_memorySize := Some memoryDelegateCall, o_returns := True\<rparr>)"
  "entry_ok env p d op ((operation_of opStaticCall gas 6 1)
     \<lparr>o_dynamicGas := Some gasStaticCall, o_memorySize := Some memoryStaticCall, o_returns := True\<rparr>)"
  by (rule entry_calling [OF need_ok_calls(1) gas_call_value(1) _ assms] entry_calling [OF need_ok_calls(1) gas_call_value(2) _ assms]
      entry_calling [OF need_ok_calls(2) gas_call_free(1) _ assms] entry_calling [OF need_ok_calls(3) gas_call_free(2) _ assms];
      simp add: exec_call_value exec_call_free)+

lemma entry_selfdestruct:
  "entry_ok env p d op ((operation_of opSuicide 0 1 0)\<lparr>o_dynamicGas := Some gasSelfdestruct, o_halts := True, o_writes := True\<rparr>)"
  unfolding entry_ok_def by (intro exI [of _ 5000] conjI selfdestruct_entry) simp_all

lemma entry_results:
  "entry_ok env p d op ((operation_of opReturn 0 2 0)
     \<lparr>o_dynamicGas := Some gasReturn, o_memorySize := Some memoryReturn, o_halts := True\<rparr>)"
  "entry_ok env p d op ((operation_of opRevert 0 2 0)
     \<lparr>o_dynamicGas := Some gasRevert, o_memorySize := Some memoryRevert, o_reverts := True, o_returns := True\<rparr>)"
  by (rule entry_memory [where pops = 2 and push = 0 and lo = 0]; simp add: plain_ops plain_gas need_ok_simps)+

lemma frontier_calls_ok: "entries_ok env d frontier_calls"
  by (simp add: entries_ok_def frontier_calls_def entry_creates entry_calls entry_selfdestruct entry_results del: One_nat_def)

lemma frontier_ok:
  assumes "env_ok env" "op \<noteq> OP_SSTORE" "o_valid (newFrontierInstructionSet op)"
  shows "entry_ok env p d op (newFrontierInstructionSet op)"
proof -
  let ?xs = "frontier_arithmetic @ frontier_comparison @ frontier_environment @ frontier_block @ frontier_storage @
    frontier_push_low @ frontier_push_high @ frontier_dup @ frontier_swap @ frontier_log @ frontier_calls"
  have all: "list_all (\<lambda>(op, x). op = OP_SSTORE \<or> (\<forall>p. entry_ok env p d op x)) ?xs"
    using frontier_arithmetic_ok frontier_comparison_ok frontier_environment_ok [OF assms(1)] frontier_block_ok [OF assms(1)]
      frontier_storage_ok [OF assms(1)] frontier_push_ok frontier_stack_ok frontier_log_ok frontier_calls_ok
    unfolding entries_ok_def by simp
  obtain x where x: "map_of ?xs op = Some x" "newFrontierInstructionSet op = x"
    using assms(3) by (cases "map_of ?xs op") (simp_all add: newFrontierInstructionSet_def no_operation_def del: map_of_append)
  show ?thesis
    using all [unfolded list_all_iff, rule_format, OF map_of_SomeD [OF x(1)]] assms(2) x(2) by simp
qed

text \<open>A storage write is priced by the old or the new rule.\<close>

definition sstore_shape :: "operation \<Rightarrow> bool" where
  "sstore_shape x \<longleftrightarrow>
     o_execute x = opSstore \<and> o_memorySize x = None \<and> o_minStack x = minStack 2 0 \<and> o_writes x \<and>
     (o_dynamicGas x = Some gasSStore \<or> o_dynamicGas x = Some gasSStoreEIP2200)"

definition table_ok :: "evm_env \<Rightarrow> nat \<Rightarrow> JumpTable \<Rightarrow> bool" where
  "table_ok env d jt \<longleftrightarrow>
     (\<forall>op p. op \<noteq> OP_SSTORE \<and> o_valid (jt op) \<longrightarrow> entry_ok env p d op (jt op)) \<and> sstore_shape (jt OP_SSTORE) \<and>
     o_minStack (jt OP_CALL) = minStack 7 1"

lemma table_set:
  "table_ok env d jt \<Longrightarrow> op \<noteq> OP_SSTORE \<Longrightarrow> op \<noteq> OP_CALL \<Longrightarrow> (\<And>p. entry_ok env p d op x) \<Longrightarrow> table_ok env d (jt(op := x))"
  by (simp add: table_ok_def)

lemma body_ok_constantGas: "body_ok env p d lo c (x\<lparr>o_constantGas := g\<rparr>) = body_ok env p d lo c x"
proof -
  have ex: "execute_op env run (x\<lparr>o_constantGas := g\<rparr>) f e = execute_op env run x f e" for run f e
    unfolding execute_op_def by (auto simp: Let_def intro!: arg_cong [of _ _ "go_bind (o_execute x env run f e)"] split: sum.split)
  have "dyn_charge env (x\<lparr>o_constantGas := g\<rparr>) f e = dyn_charge env x f e" for f e
    by (simp add: dyn_charge_def requested_memory_def cong: sum.case_cong option.case_cong)
  then show ?thesis
    by (simp add: body_ok_def body_def ex cong: option.case_cong)
qed

lemma entry_ok_constantGas: "entry_ok env p d op x \<Longrightarrow> 0 < unat g \<Longrightarrow> entry_ok env p d op (x\<lparr>o_constantGas := g\<rparr>)"
  unfolding entry_ok_def body_ok_constantGas by auto

lemma table_set_constantGas:
  assumes "table_ok env d jt" "op \<noteq> OP_SSTORE" "0 < unat g"
  shows "table_ok env d (set_constantGas op g jt)"
  using assms entry_ok_constantGas by (auto simp: set_constantGas_def table_ok_def)

lemma frontier_call: "o_minStack (newFrontierInstructionSet OP_CALL) = minStack 7 1"
  by (simp add: newFrontierInstructionSet_def frontier_arithmetic_def frontier_comparison_def frontier_environment_def
      frontier_block_def frontier_storage_def frontier_push_low_def frontier_push_high_def frontier_dup_def frontier_swap_def
      frontier_log_def frontier_calls_def upt_conv_Cons map_add_def)

lemma homestead_ok: "env_ok env \<Longrightarrow> table_ok env d newHomesteadInstructionSet"
proof -
  assume env: "env_ok env"
  have "table_ok env d newFrontierInstructionSet"
    unfolding table_ok_def using frontier_ok [OF env] frontier_call
    by (auto simp: sstore_shape_def newFrontierInstructionSet_def frontier_arithmetic_def frontier_comparison_def frontier_environment_def
        frontier_block_def frontier_storage_def)
  then show ?thesis
    unfolding newHomesteadInstructionSet_def by (rule table_set) (simp_all add: entry_calls del: One_nat_def)
qed

lemma tangerine_ok: "env_ok env \<Longrightarrow> table_ok env d newTangerineWhistleInstructionSet"
  unfolding newTangerineWhistleInstructionSet_def Let_def
  by (intro table_set_constantGas homestead_ok) simp_all

lemma newFrontier_exp: "newFrontierInstructionSet OP_EXP = (operation_of opExp 0 2 1)\<lparr>o_dynamicGas := Some gasExpFrontier\<rparr>"
  by (simp add: newFrontierInstructionSet_def frontier_arithmetic_def)

lemma spurious_ok: "env_ok env \<Longrightarrow> table_ok env d newSpuriousDragonInstructionSet"
  unfolding newSpuriousDragonInstructionSet_def set_dynamicGas_def
  by (rule table_set [OF tangerine_ok])
    (simp_all add: newTangerineWhistleInstructionSet_def set_constantGas_def newHomesteadInstructionSet_def newFrontier_exp entry_exp
      del: One_nat_def)

lemma constantinople_ok: "env_ok env \<Longrightarrow> table_ok env d newConstantinopleInstructionSet"
  unfolding newConstantinopleInstructionSet_def newByzantiumInstructionSet_def
  by (intro table_set spurious_ok) (simp_all add: entry_rules entry_calls entry_creates entry_results del: One_nat_def)

lemma enables_ok:
  assumes "env_ok env" "table_ok env d jt"
  shows "table_ok env d (enable1344 jt)" "table_ok env d (enable1884 jt)" "table_ok env d (enable2200 jt)"
    "table_ok env d (enableNonce jt)"
proof -
  show "table_ok env d (enable1344 jt)" "table_ok env d (enableNonce jt)"
    unfolding enable1344_def enableNonce_def
    by (rule table_set [OF assms(2)]; use assms(1) in \<open>simp add: entry_rules del: One_nat_def\<close>)+
  show "table_ok env d (enable1884 jt)"
    unfolding enable1884_def Let_def
    by (intro table_set table_set_constantGas assms(2)) (use assms(1) in \<open>simp_all add: entry_rules del: One_nat_def\<close>)
  show "table_ok env d (enable2200 jt)"
    using assms(2) by (simp add: enable2200_def set_dynamicGas_def table_ok_def sstore_shape_def)
qed

lemma EnableEIP_ok: "env_ok env \<Longrightarrow> table_ok env d jt \<Longrightarrow> EnableEIP n jt = Some jt' \<Longrightarrow> table_ok env d jt'"
  by (auto simp: EnableEIP_def enables_ok split: if_splits)

lemma enable_loop_ok:
  assumes "env_ok env" "table_ok env d jt" "enable_loop n i arr len jt = Some (eips, jt')"
  shows "table_ok env d jt'"
  using assms(2,3)
proof (induction n arbitrary: i arr len jt)
  case (Suc n)
  show ?case
  proof (cases "EnableEIP (arr ! i) jt")
    case None
    then show ?thesis using Suc.prems Suc.IH by (simp split: if_splits)
  next
    case (Some j)
    then show ?thesis using Suc.prems Suc.IH [OF EnableEIP_ok [OF assms(1)]] by simp
  qed
qed simp

lemma NewEVMInterpreter_ok:
  assumes env: "env_ok env" and jt: "NewEVMInterpreter env = Some (eips, jt)"
  shows "table_ok env d jt"
proof -
  let ?j0 = "if IsSingularity env then newSingularityInstructionSet else newConstantinopleInstructionSet"
  obtain j where j: "enable_loop (length (ExtraEips env)) 0 (ExtraEips env) (length (ExtraEips env)) ?j0 = Some (eips, j)"
    "jt = enableNonce j"
    using jt by (auto simp: NewEVMInterpreter_def)
  have "table_ok env d ?j0"
    by (simp add: newSingularityInstructionSet_def enables_ok [OF env] constantinople_ok [OF env])
  then show ?thesis using enable_loop_ok [OF env _ j(1)] enables_ok(4) [OF env] j(2) by blast
qed

text \<open>The rule that the table of a machine uses for storage writes.\<close>

definition eip2200 :: "evm_env \<Rightarrow> bool" where
  "eip2200 env \<longleftrightarrow> o_dynamicGas (interpreter_table env OP_SSTORE) \<noteq> Some gasSStore"

lemma interpreter_entry_ok:
  assumes env: "env_ok env" and valid: "o_valid (interpreter_table env op)"
  shows "entry_ok env (eip2200 env) d op (interpreter_table env op)"
proof -
  obtain eips jt where jt: "NewEVMInterpreter env = Some (eips, jt)" "interpreter_table env = jt"
    using valid by (auto simp: interpreter_table_def no_operation_def split: option.splits)
  note ok = NewEVMInterpreter_ok [OF env jt(1), of d]
  show ?thesis
  proof (cases "op = OP_SSTORE")
    case False
    then show ?thesis using ok valid jt(2) by (simp add: table_ok_def)
  next
    case True
    let ?dg = "if eip2200 env then gasSStoreEIP2200 else gasSStore"
    have sh: "sstore_shape (jt OP_SSTORE)" using ok by (simp add: table_ok_def)
    then have "o_dynamicGas (jt OP_SSTORE) = Some ?dg" by (auto simp: sstore_shape_def eip2200_def jt(2))
    moreover have "gas_sstore env (eip2200 env) ?dg"
      using gas_sstore_2200 gas_sstore_legacy by (cases "eip2200 env") simp_all
    ultimately have "body_ok env (eip2200 env) d 800 (op = OP_CALL) (jt OP_SSTORE)"
      using sh by (intro sstore_entry [OF _ env]) (auto simp: sstore_shape_def)
    then show ?thesis unfolding entry_ok_def jt(2) True by (intro exI [of _ 800]) simp
  qed
qed

lemma interpreter_call:
  assumes "env_ok env" "o_valid (interpreter_table env OP_CALL)"
  shows "o_minStack (interpreter_table env OP_CALL) = minStack 7 1"
  using assms NewEVMInterpreter_ok [OF assms(1)]
  by (auto simp: interpreter_table_def table_ok_def no_operation_def split: option.splits)

section \<open>The loop\<close>

lemma body_goes_on: "body env run x f e = Ret (None, f', e') \<Longrightarrow> \<not> o_halts x \<and> \<not> o_reverts x"
  by (cases "dyn_charge env x f e"; cases "o_execute x env run (fst (snd (the (dyn_charge env x f e)))) (snd (snd (the (dyn_charge env x f e))))")
    (auto simp: body_def execute_op_def fails_def Let_def split: option.splits sum.splits if_splits)

lemma body_progress:
  assumes "entry_ok env p d op x" "runner_ok env p d run" "inside d e" "budget (c_Gas (f_contract f)) e" "frame_ok f" "evm_ok env p e"
    "o_minStack x \<le> int (length (f_stack f))" "int (length (f_stack f)) \<le> o_maxStack x"
    "o_writes x \<Longrightarrow> \<not> readOnly e" "op = OP_CALL \<Longrightarrow> readOnly e \<Longrightarrow> f_stack f ! 2 = 0"
    and g: "unat (c_Gas (f_contract f)) + unat (o_constantGas x) = unat g"
  shows "go_sat (\<lambda>(r, f', e'). leaves env g e (c_Gas (f_contract f')) e' \<and>
     ((\<forall>ret er. r \<noteq> Some (ret, Some er)) \<longrightarrow> evolves env p (readOnly e) g e (c_Gas (f_contract f')) e') \<and>
     (r = None \<longrightarrow> frame_ok f' \<and> unat (c_Gas (f_contract f')) < unat g)) (body env run x f e)"
proof -
  obtain lo where lo: "body_ok env p d lo (op = OP_CALL) x" "0 < lo + unat (o_constantGas x) \<or> o_halts x \<or> o_reverts x"
    using assms(1) by (auto simp: entry_ok_def)
  have post: "go_sat (step_post env p lo f e) (body env run x f e)"
    using lo(1) assms(2-10) unfolding body_ok_def by blast
  have st: "evolves env p ro g e (c_Gas (f_contract f)) e" for ro
    using evm_ok_moves [OF assms(6)] g by (intro moves_evolves) (simp_all add: same_level_def)
  show ?thesis
  proof (cases "body env run x f e")
    case (Ret y)
    obtain r f' e' where y: "y = (r, f', e')" by (metis prod_cases3)
    have "r = None \<Longrightarrow> 0 < lo + unat (o_constantGas x)" using body_goes_on [of env run x f e f' e'] Ret y lo(2) by auto
    then show ?thesis
      using post Ret y g leaves_trans [OF evolves_leaves [OF st]] evolves_trans [OF st] by auto
  qed (use post in simp_all)
qed

definition round_post :: "evm_env \<Rightarrow> bool \<Rightarrow> frame \<Rightarrow> evm \<Rightarrow> (bytes \<times> vm_error option) option \<times> frame \<times> evm \<Rightarrow> bool" where
  "round_post env p f e = (\<lambda>(r, f', e'). leaves env (c_Gas (f_contract f)) e (c_Gas (f_contract f')) e' \<and>
     ((\<forall>ret er. r \<noteq> Some (ret, Some er)) \<longrightarrow>
        evolves env p (readOnly e) (c_Gas (f_contract f)) e (c_Gas (f_contract f')) e') \<and>
     (r = None \<longrightarrow> frame_ok f' \<and> unat (c_Gas (f_contract f')) < unat (c_Gas (f_contract f))))"

lemma round_fails [simp]: "go_sat (round_post env p f e) (fails er f e)"
  by (simp add: round_post_def fails_def leaves_def same_level_def)

lemma charge_body:
  assumes "UseGas (o_constantGas x) (f_contract f) = (True, c)"
  shows "go_bind (go_of (charge env x f e)) (\<lambda>(err, f, e). case err of Some er \<Rightarrow> fails er f e | None \<Rightarrow> execute_op env run x f e) =
           body env run x (f\<lparr>f_contract := c\<rparr>) e"
  using assms by (simp add: charge_split body_def)

lemma step_ok:
  assumes env: "env_ok env" and run: "runner_ok env (eip2200 env) d run" and e: "inside d e" "budget (c_Gas (f_contract f)) e"
    "frame_ok f" "evm_ok env (eip2200 env) e"
  shows "go_sat (round_post env (eip2200 env) f e) (step env run f e)"
proof -
  define op x where "op = GetOp (f_pc f) (f_contract f)" and "x = interpreter_table env op"
  define prot where "prot = (if readOnly e then
      (if o_writes x then Some True else if op = OP_CALL then map_option (\<lambda>x. x \<noteq> 0) (stack_Back 2 (f_stack f)) else Some False)
    else Some False)"
  let ?tail = "go_bind (go_of (charge env x f e)) (\<lambda>(err, f, e). case err of Some er \<Rightarrow> fails er f e | None \<Rightarrow> execute_op env run x f e)"
  show ?thesis
  proof (cases "\<not> o_valid x \<or> int (length (f_stack f)) < o_minStack x \<or> o_maxStack x < int (length (f_stack f))")
    case True
    then show ?thesis
      unfolding step_def Let_def op_def [symmetric] x_def [symmetric] by (auto simp: stack_len_def)
  next
    case False
    then have entry: "entry_ok env (eip2200 env) d op x" using interpreter_entry_ok [OF env] by (simp add: x_def)
    have step: "step env run f e = go_bind (go_of prot) (\<lambda>protected. if protected then fails errWriteProtection f e else ?tail)"
      using False unfolding step_def Let_def op_def [symmetric] x_def [symmetric] prot_def by (simp add: stack_len_def)
    show ?thesis
    proof (cases prot)
      case None
      have "prot \<noteq> None"
        using False interpreter_call [OF env] by (auto simp: prot_def x_def stack_Back_def minStack_def)
      then show ?thesis using None by simp
    next
      case (Some protected)
      show ?thesis
      proof (cases protected)
        case True
        then show ?thesis using step Some by simp
      next
        case np: False
        have w: "o_writes x \<Longrightarrow> \<not> readOnly e" "op = OP_CALL \<Longrightarrow> readOnly e \<Longrightarrow> f_stack f ! 2 = 0"
          using Some np by (auto simp: prot_def stack_Back_def split: if_splits)
        have tail: "go_sat (round_post env (eip2200 env) f e) ?tail"
        proof (cases rule: UseGas_cases [of "o_constantGas x" "f_contract f"])
          case 1
          then show ?thesis by (simp add: charge_split)
        next
          case 2
          have "budget (c_Gas (f_contract f) - o_constantGas x) e" using budget_less [OF e(2)] 2(2) by simp
          then show ?thesis
            unfolding charge_body [OF 2(1)] round_post_def
            by (intro body_progress [OF entry run e(1)]) (use False w e(3,4) 2(2) in \<open>auto simp: frame_ok_def\<close>)
        qed
        then show ?thesis using step Some np by simp
      qed
    qed
  qed
qed

lemma Run_loop_ok:
  assumes env: "env_ok env" and run: "runner_ok env (eip2200 env) d run"
  shows "inside d e \<Longrightarrow> budget (c_Gas (f_contract f)) e \<Longrightarrow> frame_ok f \<Longrightarrow> evm_ok env (eip2200 env) e \<Longrightarrow>
    unat (c_Gas (f_contract f)) < n \<Longrightarrow>
    go_sat (run_post env (eip2200 env) (readOnly e) (f_contract f) e) (Run_loop n env run f e)"
proof (induction n arbitrary: f e)
  case (Suc n)
  show ?case
    unfolding Run_loop.simps
  proof (rule go_sat_bind [OF step_ok [OF env run Suc.prems(1-4)]], goal_cases)
    case (1 x)
    obtain r f1 e1 where x: "x = (r, f1, e1)" by (metis prod_cases3)
    note post = 1 [unfolded x round_post_def, simplified]
    show ?case
    proof (cases r)
      case None
      then have ev: "evolves env (eip2200 env) (readOnly e) (c_Gas (f_contract f)) e (c_Gas (f_contract f1)) e1"
        and f1: "frame_ok f1" "unat (c_Gas (f_contract f1)) < n" using post Suc.prems(5) by auto
      have lvl: "inside d e1" "readOnly e1 = readOnly e"
        using ev Suc.prems(1) by (simp_all add: evolves_def leaves_def same_level_def inside_def)
      have "go_sat (run_post env (eip2200 env) (readOnly e) (f_contract f1) e1) (Run_loop n env run f1 e1)"
        using Suc.IH [OF lvl(1) evolves_budget [OF ev Suc.prems(2)] f1(1) evolves_ok [OF ev Suc.prems(4)] f1(2)] lvl(2) by simp
      then have "go_sat (run_post env (eip2200 env) (readOnly e) (f_contract f) e) (Run_loop n env run f1 e1)"
        by (rule go_sat_mono) (use evolves_trans [OF ev] leaves_trans [OF evolves_leaves [OF ev]] in auto)
      then show ?thesis using x None by simp
    next
      case (Some res)
      then show ?thesis using x post by (cases res) auto
    qed
  qed
qed simp

lemma Run_ok:
  assumes env: "env_ok env" and run: "runner_ok env (eip2200 env) d run"
    and e: "evm_ok env (eip2200 env) e" "contract_ok c" "budget (c_Gas c) e" "runs_at (Suc d) e"
  shows "go_sat (run_post env (eip2200 env) (readOnly e \<or> ro) c e) (Run env run c input ro e)"
proof -
  define e0 where "e0 = e\<lparr>evm_depth := evm_depth e + 1, readOnly := readOnly e \<or> ro, returnData := Own []\<rparr>"
  define r where "r = (if c_Code c = [] then Ret (([], None), c, e0)
    else Run_loop (unat (c_Gas c) + 1) env run \<lparr>f_pc = 0, f_mem = NewMemory, f_stack = [], f_contract = c\<lparr>c_Input := input\<rparr>\<rparr> e0)"
  have ok: "evm_ok env (eip2200 env) e0" "budget (c_Gas c) e0" "inside d e0" "readOnly e0 = (readOnly e \<or> ro)"
    using e by (simp_all add: e0_def evm_ok_def budget_def inside_def runs_at_def)
  have frame: "frame_ok \<lparr>f_pc = 0, f_mem = NewMemory, f_stack = [], f_contract = c\<lparr>c_Input := input\<rparr>\<rparr>"
    using e(2) by (simp add: frame_ok_def NewMemory_def mem_Len_def)
  have "evolves env (eip2200 env) (readOnly e \<or> ro) (c_Gas c) e0 (c_Gas c) e0"
    using moves_evolves [OF evm_ok_moves [OF ok(1)]] by (simp add: same_level_def)
  then have "go_sat (run_post env (eip2200 env) (readOnly e \<or> ro) c e0) r"
    using Run_loop_ok [OF env run ok(3) _ frame ok(1), of "unat (c_Gas c) + 1"] ok(2,4) evolves_leaves
    unfolding r_def by (cases "c_Code c = []") (auto intro: go_sat_mono)
  then have "go_sat (run_post env (eip2200 env) (readOnly e \<or> ro) c e)
      (go_bind r (\<lambda>(res, c, e'). Ret (res, c, e'\<lparr>evm_depth := evm_depth e' - 1,
         readOnly := (if ro \<and> \<not> readOnly e then False else readOnly e')\<rparr>)))"
    by (rule go_sat_bind) (auto simp: e0_def evolves_def leaves_def same_level_def)
  then show ?thesis unfolding Run_def Let_def r_def e0_def by simp
qed

lemma precompile_ok:
  assumes "evm_ok env p e"
  shows "run_post env p ro c e (fst (RunPrecompiledContract pc input c), snd (RunPrecompiledContract pc input c), e)"
proof (cases rule: UseGas_cases [of "RequiredGas pc input" c])
  case 1
  then show ?thesis by (simp add: RunPrecompiledContract_def leaves_def same_level_def)
next
  case 2
  then have "evolves env p ro (c_Gas c) e (c_Gas c - RequiredGas pc input) e"
    using evm_ok_moves [OF assms] by (intro moves_evolves) (simp_all add: same_level_def)
  then show ?thesis
    using 2 evolves_leaves by (auto simp: RunPrecompiledContract_def split: sum.split)
qed

lemma interp_ok: "env_ok env \<Longrightarrow> runner_ok env (eip2200 env) d (evm_runner d env)"
proof (induction d)
  case 0
  then show ?case by (auto simp: runner_ok_def runs_at_def)
next
  case (Suc d)
  show ?case
    unfolding runner_ok_def
  proof (intro allI impI, elim conjE, goal_cases)
    case (1 c input ro e)
    show ?case
    proof (cases "precompiles env (c_CodeAddr c)")
      case None
      have "go_sat (run_post env (eip2200 env) (readOnly e \<or> ro) c e) (interp (Suc d) env c input ro e)"
        using Run_ok [OF Suc.prems Suc.IH [OF Suc.prems] 1] by (simp add: evm_runner_def)
      then show ?thesis
        unfolding evm_runner_def evm_run_def None option.case by (rule go_sat_bind) auto
    next
      case (Some pc)
      then show ?thesis
        using precompile_ok [OF 1(1)] by (simp add: evm_runner_def evm_run_def split_beta)
    qed
  qed
qed



section \<open>The outermost frame\<close>

lemma go_sat_iff: "go_sat P r \<longleftrightarrow> r = Stale \<or> (\<exists>x. r = Ret x \<and> P x)"
  by (cases r) auto

lemma outermost:
  assumes "env_ok env" "settled (ee_db env) (StateDB e)" "evm_depth e = 0"
    "24 * unat gas < 2 ^ 64"
  shows "runner_ok env (eip2200 env) max_levels (evm_runner max_levels env)" "evm_ok env (eip2200 env) e" "budget gas e"
    "CallCreateDepth + 1 \<le> evm_depth e + max_levels"
  using assms interp_ok settled_sinv by (auto simp: evm_ok_def budget_def max_levels_def settled_def)

text \<open>A world with two accounts: the first has money and no code, the second stores one in its slot zero.\<close>

definition demo_world :: backend where
  "demo_world = demo_db\<lparr>ContractCode := (\<lambda>_ h. if h = 5 then Some [0x60, 1, 0x60, 0, 0x55] else None)\<rparr>"

definition demo_accounts :: "address \<rightharpoonup> Account" where
  "demo_accounts = [1 \<mapsto> (zero_Account demo_world)\<lparr>ac_Balance := 10\<rparr>, 2 \<mapsto> (zero_Account demo_world)\<lparr>ac_CodeHash := 5\<rparr>]"

definition demo_env :: evm_env where
  "demo_env =
     \<lparr>ee_db = demo_world, ee_grow = (\<lambda>old new. new), PrecompiledContractsByzantium = Map.empty,
      PrecompiledContractsIstanbul = Map.empty, IsSingularity = True, ChainID = 1, NoRecursion = False,
      EnablePreimageRecording = False, ExtraEips = [], GetHash = (\<lambda>_. 0), Origin = 1, GasPrice = 1, TxNonce = 0, Coinbase = 3,
      GasLimit = 100000, BlockNumber = 1, BlockTime = 1, Difficulty = 1\<rparr>"

definition demo_evm :: evm where
  "demo_evm =
     \<lparr>StateDB = statedb_New demo_accounts, evm_depth = 0, callGasTemp = 0, readOnly = False, returnData = Own [],
      jumpdests = Map.empty\<rparr>"

lemma demo_ok:
  "env_ok demo_env" "settled (ee_db demo_env) (StateDB demo_evm)" "evm_depth demo_evm = 0" "\<not> readOnly demo_evm"
  "sd_refund (StateDB demo_evm) = 0"
proof -
  show "env_ok demo_env"
    by (simp add: env_ok_def demo_env_def empty_storage_def fresh_def ov_def newObject_def so_GetCommittedState_def getTrie_def
        demo_world_def demo_db_def decode_slot_def Let_def split: option.split)
  show "settled (ee_db demo_env) (StateDB demo_evm)"
    unfolding demo_evm_def evm.select_convs
    by (rule settled_New) (auto simp: demo_accounts_def zero_Account_def split: if_splits)
  show "evm_depth demo_evm = 0" "\<not> readOnly demo_evm" "sd_refund (StateDB demo_evm) = 0"
    by (simp_all add: demo_evm_def statedb_New_def)
qed

definition demo_frame :: frame where
  "demo_frame =
     \<lparr>f_pc = 0, f_mem = NewMemory, f_stack = [3, 4],
      f_contract = \<lparr>c_CallerAddress = 1, c_self = 2, c_analysis = None, c_Code = [0x01], c_CodeHash = 0, c_CodeAddr = 2,
        c_Input = [], c_Gas = 100, c_value = 0\<rparr>\<rparr>"

text \<open>C3: A message call ends, without a panic. Let a transaction start a call at depth zero on a settled state,
  with less gas than a 24th of 64 bits. Then the interpreter with 1025 levels of frames, each with one round more than it has gas, returns:
  no stack access, memory access, slice, jump table entry, snapshot or refund subtraction panics, and the fuel is enough. The
  gas that is left is at most the gas given, the machine is back at depth zero and writable, balances
  are non-negative, refunds are at most 24 per unit of gas spent, and the sum of all balances has not grown. The one exception is the panic that needs two codes with the same hash.\<close>

theorem call_returns:
  assumes "env_ok env" "settled (ee_db env) (StateDB e)" "evm_depth e = 0" "\<not> readOnly e"
    and "24 * unat gas < 2 ^ 64" "0 \<le> value"
  shows "Call env (evm_runner max_levels env) caller addr input gas value e = Stale \<or>
    (\<exists>ret left err e'. Call env (evm_runner max_levels env) caller addr input gas value e = Ret ((ret, left, err), e') \<and>
       unat left \<le> unat gas \<and> evm_depth e' = 0 \<and> \<not> readOnly e' \<and> sinv (ee_db env) (eip2200 env) (StateDB e') \<and>
       unat (sd_refund (StateDB e')) + 24 * unat left \<le> 24 * unat gas \<and>
       funds (absS (ee_db env) (StateDB e')) \<le> funds (absS (ee_db env) (StateDB e)))"
proof -
  have "go_sat (call_post env (eip2200 env) (readOnly e) gas e) (Call env (evm_runner max_levels env) caller addr input gas value e)"
    using assms(4,6) by (intro Call_ok [OF outermost [OF assms(1-3,5)]]) auto
  then show ?thesis
    using assms(2,3,4) evolves_ok [of env "eip2200 env" False gas e] outermost(2) [OF assms(1-3,5)]
    unfolding go_sat_iff by (fastforce simp: evolves_def leaves_def same_level_def evm_ok_def settled_def)
qed

theorem call_returns_witness:
  "Call demo_env (evm_runner max_levels demo_env) (AccountRef 1) 2 [] 100000 4 demo_evm = Stale \<or>
    (\<exists>ret left err e'. Call demo_env (evm_runner max_levels demo_env) (AccountRef 1) 2 [] 100000 4 demo_evm = Ret ((ret, left, err), e') \<and>
       unat left \<le> 100000 \<and> evm_depth e' = 0)"
  using call_returns [OF demo_ok(1-4), of 100000 4 "AccountRef 1" 2 "[]"] demo_ok(5) by auto

text \<open>C13: Contract creation ends in the same way, for the two instructions' address schemes: without a panic, within its gas, and
  with the invariant of the state kept.\<close>

theorem create_returns:
  assumes "env_ok env" "settled (ee_db env) (StateDB e)" "evm_depth e = 0" "\<not> readOnly e"
    and "24 * unat gas < 2 ^ 64" "0 \<le> value"
    and "r = evm_Create env (evm_runner max_levels env) caller code gas value e \<or>
         r = evm_Create2 env (evm_runner max_levels env) caller code gas value salt e"
  shows "r = Stale \<or>
    (\<exists>ret addr left err e'. r = Ret ((ret, addr, left, err), e') \<and>
       unat left \<le> unat gas \<and> evm_depth e' = 0 \<and> \<not> readOnly e' \<and> sinv (ee_db env) (eip2200 env) (StateDB e') \<and>
       unat (sd_refund (StateDB e')) + 24 * unat left \<le> 24 * unat gas \<and>
       funds (absS (ee_db env) (StateDB e')) \<le> funds (absS (ee_db env) (StateDB e)))"
proof -
  obtain a where "go_sat (create_post env (eip2200 env) a gas e) r"
    using evm_Create_ok [OF outermost [OF assms(1-3,5)] assms(6,4)] assms(7) by blast
  then show ?thesis
    using assms(2,3,4) evolves_ok [of env "eip2200 env" False gas e] outermost(2) [OF assms(1-3,5)]
    unfolding go_sat_iff by (fastforce simp: evolves_def leaves_def same_level_def evm_ok_def settled_def)
qed

theorem create_returns_witness:
  "evm_Create demo_env (evm_runner max_levels demo_env) (AccountRef 1) [0x60, 1, 0x60, 0, 0x55] 100000 4 demo_evm = Stale \<or>
    (\<exists>ret addr left err e'. evm_Create demo_env (evm_runner max_levels demo_env) (AccountRef 1) [0x60, 1, 0x60, 0, 0x55] 100000 4 demo_evm =
       Ret ((ret, addr, left, err), e') \<and> unat left \<le> 100000 \<and> evm_depth e' = 0)"
  using create_returns [OF demo_ok(1-4) _ _ disjI1 [OF refl], of 100000 4 "AccountRef 1" "[0x60, 1, 0x60, 0, 0x55]"] demo_ok(5) by auto



text \<open>A static call of an account without code returns.\<close>

lemma static_no_code:
  assumes "sinv (ee_db env) p (StateDB e)" "a_read v_code [] addr (absS (ee_db env) (StateDB e)) = []"
    "precompiles env addr = None" "evm_depth e = 0"
  shows "\<exists>ret left err e'. StaticCall env (evm_runner max_levels env) caller addr input gas e = Ret ((ret, left, err), e')"
proof -
  let ?b = "ee_db env"
  obtain n s where sn: "Snapshot (StateDB e) = (n, s)" by fastforce
  obtain c e1 where nc: "NewContract caller addr 0 gas (e\<lparr>StateDB := s\<rparr>) = (c, e1)" by fastforce
  obtain c' e2 where lc: "load_code env addr c e1 = (c', e2)" by fastforce
  have s: "StateDB e1 = s" "absS ?b s = absS ?b (StateDB e)"
    using NewContract_ok(1) [OF nc] absS_Snapshot [of ?b "StateDB e"] sn by simp_all
  have aok: "aok (absS ?b s)" "aok (absS ?b (snd (GetCodeHash ?b addr s)))"
    using sinv_aok [OF assms(1)] s(2) reads_abs [of ?b addr s] by simp_all
  have "absS ?b (snd (GetCodeHash ?b addr s)) = absS ?b (StateDB e)" using reads_abs [of ?b addr s] s(2) by simp
  then have "fst (GetCode ?b addr (snd (GetCodeHash ?b addr s))) = []" using GetState_abs(6) [OF aok(2), of addr] assms(2) by simp
  moreover have "c' = SetCallCode addr (fst (GetCodeHash ?b addr s)) (fst (GetCode ?b addr (snd (GetCodeHash ?b addr s)))) c"
    using lc s(1) by (auto simp: load_code_def split_beta)
  ultimately have "c_Code c' = []" "c_CodeAddr c' = addr" by (simp_all add: SetCallCode_def)
  then have "\<exists>e3. evm_runner max_levels env c' input True e4 = Ret ((Fresh [], None), c', e3)" for e4
    using assms(3) interp.simps(2) [of 1024] by (simp add: evm_runner_def evm_run_def max_levels_def Run_def Let_def)
  then obtain e3 where "evm_runner max_levels env c' input True (e2\<lparr>StateDB := AddBalance ?b addr 0 (StateDB e2)\<rparr>) =
      Ret ((Fresh [], None), c', e3)" by blast
  then show ?thesis
    using assms(4) sn nc lc by (simp add: StaticCall_def finish_call_def)
qed



text \<open>C12: The frame keeps its type. One round of the interpreter loop, at any depth below the limit and with the rest of the levels
  for its callees, does not panic; on a frame whose stack holds at most 1024 non-negative words, whose memory is at most the
  limit and whose contract is well-formed, it either leaves the loop or leaves such a frame with less gas.\<close>

theorem step_keeps_frame:
  assumes "env_ok env" "1 \<le> evm_depth e" "CallCreateDepth + 1 \<le> evm_depth e + d" "budget (c_Gas (f_contract f)) e"
    "frame_ok f" "sinv (ee_db env) (eip2200 env) (StateDB e)"
  shows "step env (evm_runner d env) f e = Stale \<or>
    (\<exists>res f' e'. step env (evm_runner d env) f e = Ret (res, f', e') \<and>
       (res = None \<longrightarrow> frame_ok f' \<and> unat (c_Gas (f_contract f')) < unat (c_Gas (f_contract f)) \<and>
          sinv (ee_db env) (eip2200 env) (StateDB e')))"
proof -
  have e: "inside d e" "evm_ok env (eip2200 env) e" using assms(2,3,6) by (simp_all add: inside_def evm_ok_def)
  show ?thesis
    using step_ok [OF assms(1) interp_ok [OF assms(1)] e(1) assms(4,5) e(2)] evolves_ok [OF _ e(2)]
    unfolding go_sat_iff round_post_def by (fastforce simp: evm_ok_def)
qed

theorem step_keeps_frame_witness:
  "step demo_env (evm_runner 1024 demo_env) demo_frame (demo_evm\<lparr>evm_depth := 1\<rparr>) = Stale \<or>
    (\<exists>res f' e'. step demo_env (evm_runner 1024 demo_env) demo_frame (demo_evm\<lparr>evm_depth := 1\<rparr>) = Ret (res, f', e') \<and>
       (res = None \<longrightarrow> frame_ok f' \<and> unat (c_Gas (f_contract f')) < 100))"
proof -
  let ?e = "demo_evm\<lparr>evm_depth := 1\<rparr>"
  have "frame_ok demo_frame" "c_Gas (f_contract demo_frame) = 100"
    by (simp_all add: demo_frame_def frame_ok_def contract_ok_def NewMemory_def mem_Len_def StackLimit_def)
  moreover have "sinv (ee_db demo_env) (eip2200 demo_env) (StateDB ?e)" "1 \<le> evm_depth ?e"
    "CallCreateDepth + 1 \<le> evm_depth ?e + 1024" "budget 100 ?e"
    using settled_sinv [OF demo_ok(2)] demo_ok(5) by (simp_all add: budget_def)
  ultimately show ?thesis
    using step_keeps_frame [OF demo_ok(1), of ?e 1024 demo_frame] by fastforce
qed

end
