(* ===== verification/Core_Transition.thy ===== *)
theory Core_Transition
  imports Evm_Safety
begin

text \<open>
  One transaction: the gas pool of a block (\<^verbatim>\<open>src/core/gaspool.go\<close>) and the state transition of a message
  (\<^verbatim>\<open>src/core/state_transition.go\<close>), which buys the gas, runs the message call or the creation on the virtual machine, and pays the gas
  that is left back to the sender and the rest to the miner. The lemmas follow the gas and the money through it.
\<close>

section \<open>The gas pool\<close>

datatype tx_error =
    ErrNonceTooHigh | ErrNonceTooLow | ErrGasLimitReached | errInsufficientBalanceForGas
  | tx_vm_error vm_error | ErrInvalidSender

type_synonym gas_pool = u64

abbreviation (input) "MaxUint64 \<equiv> (0xFFFFFFFFFFFFFFFF :: u64)"

definition AddGas :: "u64 \<Rightarrow> gas_pool \<Rightarrow> gas_pool option" where
  "AddGas amount gp = (if gp > MaxUint64 - amount then None else Some (gp + amount))"

definition SubGas :: "u64 \<Rightarrow> gas_pool \<Rightarrow> tx_error option \<times> gas_pool" where
  "SubGas amount gp = (if gp < amount then (Some ErrGasLimitReached, gp) else (None, gp - amount))"

section \<open>Messages\<close>

record tx_message =
  msg_to :: "address option"
  msg_from :: address
  msg_nonce :: u64
  msg_amount :: int
  msg_gasLimit :: u64
  msg_gasPrice :: int
  msg_data :: bytes
  msg_checkNonce :: bool

abbreviation (input) "TxGas \<equiv> (21000 :: u64)"
abbreviation (input) "TxGasContractCreation \<equiv> (53000 :: u64)"
abbreviation (input) "TxDataZeroGas \<equiv> (4 :: u64)"
abbreviation (input) "TxDataNonZeroGasFrontier \<equiv> (68 :: u64)"
abbreviation (input) "TxDataNonZeroGasEIP2028 \<equiv> (16 :: u64)"

text \<open>The loop of \<^verbatim>\<open>IntrinsicGas\<close> over the bytes of the data.\<close>

fun count_nonzero :: "bytes \<Rightarrow> u64 \<Rightarrow> u64" where
  "count_nonzero [] nz = nz"
| "count_nonzero (byt # data) nz = count_nonzero data (if byt \<noteq> 0 then nz + 1 else nz)"

definition IntrinsicGas :: "bytes \<Rightarrow> bool \<Rightarrow> bool \<Rightarrow> vm_error + u64" where
  "IntrinsicGas data contractCreation isEIP2028 =
     (let gas = (if contractCreation then TxGasContractCreation else TxGas) in
      if length data > 0 then
        (let nz = count_nonzero data 0;
             nonZeroGas = (if isEIP2028 then TxDataNonZeroGasEIP2028 else TxDataNonZeroGasFrontier)
         in if (MaxUint64 - gas) div nonZeroGas < nz then Inl ErrOutOfGas
            else
              (let gas = gas + nz * nonZeroGas;
                   z = of_nat (length data) - nz
               in if (MaxUint64 - gas) div TxDataZeroGas < z then Inl ErrOutOfGas
                  else Inr (gas + z * TxDataZeroGas)))
      else Inr gas)"

section \<open>The transition\<close>

text \<open>The state database of the transition is the one of its virtual machine.\<close>

record transition =
  st_gp :: gas_pool
  st_msg :: tx_message
  st_gas :: u64
  st_gasPrice :: int
  st_initialGas :: u64
  st_value :: int
  st_data :: bytes
  st_evm :: evm

definition NewStateTransition :: "evm \<Rightarrow> tx_message \<Rightarrow> gas_pool \<Rightarrow> transition" where
  "NewStateTransition e msg gp =
     \<lparr>st_gp = gp, st_msg = msg, st_gas = 0, st_gasPrice = msg_gasPrice msg, st_initialGas = 0,
      st_value = msg_amount msg, st_data = msg_data msg, st_evm = e\<rparr>"

abbreviation st_state :: "transition \<Rightarrow> statedb" where
  "st_state st \<equiv> StateDB (st_evm st)"

abbreviation set_state :: "statedb \<Rightarrow> transition \<Rightarrow> transition" where
  "set_state s st \<equiv> st\<lparr>st_evm := (st_evm st)\<lparr>StateDB := s\<rparr>\<rparr>"

definition st_to :: "transition \<Rightarrow> address" where
  "st_to st = (case msg_to (st_msg st) of None \<Rightarrow> 0 | Some a \<Rightarrow> a)"

definition useGas :: "u64 \<Rightarrow> transition \<Rightarrow> tx_error option \<times> transition" where
  "useGas amount st =
     (if st_gas st < amount then (Some (tx_vm_error ErrOutOfGas), st) else (None, st\<lparr>st_gas := st_gas st - amount\<rparr>))"

definition gasUsed :: "transition \<Rightarrow> u64" where
  "gasUsed st = st_initialGas st - st_gas st"

definition buyGas :: "backend \<Rightarrow> transition \<Rightarrow> tx_error option \<times> transition" where
  "buyGas b st =
     (let msg = st_msg st;
          mgval = uint (msg_gasLimit msg) * st_gasPrice st;
          (balance, s) = GetBalance b (msg_from msg) (st_state st);
          st = set_state s st
      in if big_Cmp balance mgval < 0 then (Some errInsufficientBalanceForGas, st)
         else
           (let (err, gp) = SubGas (msg_gasLimit msg) (st_gp st);
                st = st\<lparr>st_gp := gp\<rparr>
            in case err of
                 Some er \<Rightarrow> (Some er, st)
               | None \<Rightarrow>
                   (let st = st\<lparr>st_gas := st_gas st + msg_gasLimit msg, st_initialGas := msg_gasLimit msg\<rparr>
                    in (None, set_state (SubBalance b (msg_from msg) mgval (st_state st)) st))))"

definition preCheck :: "backend \<Rightarrow> transition \<Rightarrow> tx_error option \<times> transition" where
  "preCheck b st =
     (if msg_checkNonce (st_msg st) then
        (let (nonce, s) = GetNonce b (msg_from (st_msg st)) (st_state st);
             st = set_state s st
         in if nonce < msg_nonce (st_msg st) then (Some ErrNonceTooHigh, st)
            else if nonce > msg_nonce (st_msg st) then (Some ErrNonceTooLow, st)
            else buyGas b st)
      else buyGas b st)"

definition refundGas :: "backend \<Rightarrow> transition \<Rightarrow> transition option" where
  "refundGas b st =
     (let refund = gasUsed st div 2;
          refund = (if refund > GetRefund (st_state st) then GetRefund (st_state st) else refund);
          st = st\<lparr>st_gas := st_gas st + refund\<rparr>;
          remaining = uint (st_gas st) * st_gasPrice st;
          st = set_state (AddBalance b (msg_from (st_msg st)) remaining (st_state st)) st
      in do {
           gp \<leftarrow> AddGas (st_gas st) (st_gp st);
           Some (st\<lparr>st_gp := gp\<rparr>)
         })"

text \<open>The call or the creation of \<^verbatim>\<open>TransitionDb\<close>: its return data, its error, and the gas that is left. The input slice
  of the outermost call is the data of the message.\<close>

definition run_message :: "evm_env \<Rightarrow> runner \<Rightarrow> transition \<Rightarrow> ((bytes \<times> vm_error option) \<times> transition) go" where
  "run_message env run st =
     (let msg = st_msg st;
          sender = AccountRef (msg_from msg)
      in if msg_to msg = None then
           go_bind (evm_Create env run sender (st_data st) (st_gas st) (st_value st) (st_evm st))
             (\<lambda>((ret, _, gas, vmerr), e). Ret ((ret, vmerr), st\<lparr>st_gas := gas, st_evm := e\<rparr>))
         else
           (let (nonce, s) = GetNonce (ee_db env) (ref_Address sender) (st_state st);
                st = set_state (SetNonce (ee_db env) (msg_from msg) (nonce + 1) s) st
            in go_bind (Call env run sender (st_to st) (st_data st) (st_gas st) (st_value st) (st_evm st))
                 (\<lambda>((ret, gas, vmerr), e).
                    Ret ((case ret of Fresh bs \<Rightarrow> bs | Same \<Rightarrow> st_data st, vmerr), st\<lparr>st_gas := gas, st_evm := e\<rparr>))))"

type_synonym message_result = "((bytes \<times> u64 \<times> bool \<times> tx_error option) \<times> transition) go"

definition TransitionDb :: "evm_env \<Rightarrow> runner \<Rightarrow> transition \<Rightarrow> message_result" where
  "TransitionDb env run st =
     (case preCheck (ee_db env) st of
        (Some err, st) \<Rightarrow> Ret (([], 0, False, Some err), st)
      | (None, st) \<Rightarrow>
          (case IntrinsicGas (st_data st) (msg_to (st_msg st) = None) (IsSingularity env) of
             Inl err \<Rightarrow> Ret (([], 0, False, Some (tx_vm_error err)), st)
           | Inr gas \<Rightarrow>
               (case useGas gas st of
                  (Some err, st) \<Rightarrow> Ret (([], 0, False, Some err), st)
                | (None, st) \<Rightarrow>
                    go_bind (run_message env run st) (\<lambda>((ret, vmerr), st).
                      if vmerr = Some ErrInsufficientBalance
                      then Ret (([], 0, False, Some (tx_vm_error ErrInsufficientBalance)), st)
                      else
                        go_bind (go_of (refundGas (ee_db env) st)) (\<lambda>st.
                          let fee = uint (gasUsed st) * st_gasPrice st;
                              st = set_state (AddBalance (ee_db env) (Coinbase env) fee (st_state st)) st
                          in Ret ((ret, gasUsed st, vmerr \<noteq> None, None), st))))))"

definition ApplyMessage :: "evm_env \<Rightarrow> runner \<Rightarrow> evm \<Rightarrow> tx_message \<Rightarrow> gas_pool \<Rightarrow> message_result" where
  "ApplyMessage env run e msg gp = TransitionDb env run (NewStateTransition e msg gp)"

section \<open>Gas\<close>

lemma u64_lt: "unat x < 2 ^ 64" for x :: u64
  using unsigned_less [of x] by simp

lemma AddGas_iff: "AddGas amount gp = Some x \<longleftrightarrow> unat gp + unat amount < 2 ^ 64 \<and> unat x = unat gp + unat amount"
proof -
  have m: "unat (MaxUint64 - amount) = 2 ^ 64 - 1 - unat amount"
    using u64_lt [of amount] by (subst unat_sub) (simp_all add: word_le_nat_alt)
  have le: "gp > MaxUint64 - amount \<longleftrightarrow> 2 ^ 64 \<le> unat gp + unat amount"
    unfolding word_less_nat_alt m using u64_lt [of amount] by auto
  have "unat (gp + amount) = unat gp + unat amount" if "unat gp + unat amount < 2 ^ 64"
    using that by (simp add: unat_add_lem [THEN iffD1])
  then show ?thesis
    unfolding AddGas_def le by (auto simp: word_unat_eq_iff)
qed

lemma SubGas_cases:
  obtains "SubGas amount gp = (Some ErrGasLimitReached, gp)" "unat gp < unat amount"
  | "SubGas amount gp = (None, gp - amount)" "unat amount \<le> unat gp" "unat (gp - amount) = unat gp - unat amount"
  by (cases "gp < amount") (auto simp: SubGas_def word_less_nat_alt unat_sub word_le_nat_alt)

lemma unat_minus_le: "unat x \<le> unat y \<Longrightarrow> unat (y - x) = unat y - unat x" for x y :: u64
  by (simp add: unat_sub word_le_nat_alt)

lemma unat_plus_less: "unat x + unat y < 2 ^ 64 \<Longrightarrow> unat (x + y) = unat x + unat y" for x y :: u64
  by (simp add: unat_add_lem [THEN iffD1])

lemma count_nonzero_unat:
  "unat nz + length data < 2 ^ 64 \<Longrightarrow> unat (count_nonzero data nz) = unat nz + length (filter (\<lambda>byt. byt \<noteq> 0) data)"
proof (induction data arbitrary: nz)
  case (Cons byt data)
  have "unat (nz + 1) = unat nz + 1"
    using Cons.prems by (subst unat_plus_less) auto
  then show ?case using Cons by simp
qed simp

text \<open>The intrinsic gas at full precision.\<close>

definition intrinsic :: "bytes \<Rightarrow> bool \<Rightarrow> bool \<Rightarrow> nat" where
  "intrinsic data contractCreation isEIP2028 =
     (if contractCreation then 53000 else 21000) + (if isEIP2028 then 16 else 68) * length (filter (\<lambda>byt. byt \<noteq> 0) data) +
     4 * length (filter (\<lambda>byt. byt = 0) data)"

lemma div_guard:
  assumes "0 < unat k"
  shows "(MaxUint64 - g) div k < n \<longleftrightarrow> 2 ^ 64 \<le> unat g + unat n * unat k"
    "\<not> (MaxUint64 - g) div k < n \<Longrightarrow> unat (g + n * k) = unat g + unat n * unat k"
proof -
  have m: "unat (MaxUint64 - g) = 2 ^ 64 - 1 - unat g"
    using u64_lt [of g] by (subst unat_sub) (simp_all add: word_le_nat_alt)
  have "(MaxUint64 - g) div k < n \<longleftrightarrow> (2 ^ 64 - 1 - unat g) div unat k < unat n"
    by (simp add: word_less_nat_alt unat_div m)
  also have "\<dots> \<longleftrightarrow> 2 ^ 64 - 1 - unat g < unat n * unat k"
    using assms by (rule div_less_iff_less_mult)
  also have "\<dots> \<longleftrightarrow> 2 ^ 64 \<le> unat g + unat n * unat k"
    using u64_lt [of g] by auto
  finally show iff: "(MaxUint64 - g) div k < n \<longleftrightarrow> 2 ^ 64 \<le> unat g + unat n * unat k" .
  assume "\<not> (MaxUint64 - g) div k < n"
  with iff have lt: "unat g + unat n * unat k < 2 ^ 64" by simp
  then have "unat (n * k) = unat n * unat k" by (simp add: unat_mult_lem [THEN iffD1])
  with lt show "unat (g + n * k) = unat g + unat n * unat k" by (simp add: unat_plus_less)
qed

lemma IntrinsicGas_cases:
  assumes "length data < 2 ^ 64"
  obtains g where "IntrinsicGas data c i = Inr g" "unat g = intrinsic data c i" "intrinsic data c i < 2 ^ 64"
  | "IntrinsicGas data c i = Inl ErrOutOfGas" "2 ^ 64 \<le> intrinsic data c i"
proof -
  let ?nz = "count_nonzero data 0" and ?k = "if i then TxDataNonZeroGasEIP2028 else TxDataNonZeroGasFrontier"
  let ?g0 = "if c then TxGasContractCreation else TxGas" and ?z = "of_nat (length data) - count_nonzero data 0 :: u64"
  have nz: "unat ?nz = length (filter (\<lambda>byt. byt \<noteq> 0) data)" using count_nonzero_unat [of 0 data] assms by simp
  have parts: "length (filter (\<lambda>byt. byt \<noteq> 0) data) + length (filter (\<lambda>byt. byt = 0) data) = length data"
    using sum_length_filter_compl [of "\<lambda>byt. byt \<noteq> 0" data] by simp
  have z: "unat ?z = length (filter (\<lambda>byt. byt = 0) data)"
    using assms parts nz by (subst unat_minus_le) (simp_all add: unat_of_nat)
  have k: "0 < unat ?k" "unat ?k = (if i then 16 else 68)" "unat ?g0 = (if c then 53000 else 21000)" by simp_all
  note g1 = div_guard [OF k(1), of ?g0 ?nz] and g2 = div_guard [of TxDataZeroGas "?g0 + ?nz * ?k" ?z]
  have "(\<exists>g. IntrinsicGas data c i = Inr g \<and> unat g = intrinsic data c i \<and> intrinsic data c i < 2 ^ 64) \<or>
      IntrinsicGas data c i = Inl ErrOutOfGas \<and> 2 ^ 64 \<le> intrinsic data c i"
  proof (cases "data = []")
    case True
    then show ?thesis using k(3) by (simp add: IntrinsicGas_def intrinsic_def)
  next
    case False
    show ?thesis
    proof (cases "(MaxUint64 - ?g0) div ?k < ?nz")
      case True
      then have "IntrinsicGas data c i = Inl ErrOutOfGas" using False by (simp add: IntrinsicGas_def Let_def)
      then show ?thesis using g1(1) True nz k by (simp add: intrinsic_def mult.commute)
    next
      case ok: False
      then have u: "unat (?g0 + ?nz * ?k) = (if c then 53000 else 21000) + (if i then 16 else 68) * length (filter (\<lambda>byt. byt \<noteq> 0) data)"
        using g1(2) nz k by (simp add: mult.commute)
      show ?thesis
      proof (cases "(MaxUint64 - (?g0 + ?nz * ?k)) div TxDataZeroGas < ?z")
        case True
        then have "IntrinsicGas data c i = Inl ErrOutOfGas" using False ok by (simp add: IntrinsicGas_def Let_def)
        then show ?thesis using g2(1) True u z by (simp add: intrinsic_def)
      next
        case fits: False
        then have "IntrinsicGas data c i = Inr (?g0 + ?nz * ?k + ?z * TxDataZeroGas)" using False ok by (simp add: IntrinsicGas_def Let_def)
        then show ?thesis using g2 fits u z u64_lt [of "?g0 + ?nz * ?k + ?z * TxDataZeroGas"] by (simp add: intrinsic_def)
      qed
    qed
  qed
  then show ?thesis using that by blast
qed
section \<open>Money\<close>

lemma GetNonce_pays:
  assumes "sinv b p s"
  shows "pays_by b p 0 s (snd (GetNonce b a s))" "pays_by b p 0 s (snd (GetBalance b a s))"
  using moves_pays(1) [OF moves_reads(4) [OF assms, of False a]] moves_pays(1) [OF moves_reads(3) [OF assms, of False a]] by simp_all

text \<open>Buying gas takes its price from the sender and the gas from the pool, or takes nothing.\<close>

definition gas_bought :: "backend \<Rightarrow> bool \<Rightarrow> transition \<Rightarrow> transition \<Rightarrow> bool" where
  "gas_bought b p st st' \<longleftrightarrow>
     (let g = msg_gasLimit (st_msg st) in
      unat g \<le> unat (st_gp st) \<and>
      (\<exists>s. st' = st\<lparr>st_gp := st_gp st - g, st_gas := st_gas st + g, st_initialGas := g,
               st_evm := (st_evm st)\<lparr>StateDB := s\<rparr>\<rparr> \<and>
           pays_by b p (- (uint g * st_gasPrice st)) (st_state st) s))"

definition not_bought :: "backend \<Rightarrow> bool \<Rightarrow> transition \<Rightarrow> transition \<Rightarrow> bool" where
  "not_bought b p st st' \<longleftrightarrow> st_gp st' = st_gp st \<and> pays_by b p 0 (st_state st) (st_state st')"

lemma buyGas_ok:
  assumes inv: "sinv b p (st_state st)" and r: "buyGas b st = (err, st')"
  shows "if err = None then gas_bought b p st st' else not_bought b p st st'"
proof -
  let ?m = "st_msg st" and ?g = "msg_gasLimit (st_msg st)"
  let ?v = "uint ?g * st_gasPrice st"
  obtain bal s where g: "GetBalance b (msg_from ?m) (st_state st) = (bal, s)" by fastforce
  have pay: "pays_by b p 0 (st_state st) s" using GetNonce_pays(2) [OF inv, of "msg_from ?m"] g by simp
  have bal: "bal = a_read v_balance 0 (msg_from ?m) (absS b s)"
    using reads_abs(3,4) [of b "msg_from ?m" "st_state st"] g by simp
  note def = r [unfolded buyGas_def Let_def g prod.case]
  show ?thesis
  proof (cases "bal < ?v")
    case True
    then show ?thesis using def pay by (auto simp: big_Cmp_def not_bought_def)
  next
    case False
    show ?thesis
    proof (cases rule: SubGas_cases [of ?g "st_gp st"])
      case 1
      then show ?thesis using def False pay by (auto simp: big_Cmp_def not_bought_def split: if_splits)
    next
      case 2
      have "pays_by b p (- ?v) s (SubBalance b (msg_from ?m) ?v s)"
        using False bal by (intro pays_SubBalance [OF pays_sinv [OF pay inv]]) simp
      then have "pays_by b p (- ?v) (st_state st) (SubBalance b (msg_from ?m) ?v s)"
        using pays_trans [OF pay] by fastforce
      then show ?thesis using def False 2 by (auto simp: big_Cmp_def gas_bought_def Let_def split: if_splits)
    qed
  qed
qed

lemma preCheck_ok:
  assumes inv: "sinv b p (st_state st)" and r: "preCheck b st = (err, st')"
  shows "if err = None then gas_bought b p st st' else not_bought b p st st'"
proof (cases "msg_checkNonce (st_msg st)")
  case False
  then show ?thesis using buyGas_ok [OF inv] r by (simp add: preCheck_def)
next
  case True
  obtain n s where g: "GetNonce b (msg_from (st_msg st)) (st_state st) = (n, s)" by fastforce
  let ?st = "set_state s st"
  have pay: "pays_by b p 0 (st_state st) s" using GetNonce_pays(1) [OF inv, of "msg_from (st_msg st)"] g by simp
  have inv': "sinv b p (st_state ?st)" using pays_sinv [OF pay inv] by simp
  show ?thesis
  proof (cases "n = msg_nonce (st_msg st)")
    case False
    then show ?thesis using r True g pay by (auto simp: preCheck_def not_bought_def Let_def not_less_iff_gr_or_eq split: if_splits)
  next
    case True': True
    then have "buyGas b ?st = (err, st')" using r True g by (simp add: preCheck_def Let_def)
    from buyGas_ok [OF inv' this] show ?thesis
      using pays_trans [OF pay] by (fastforce simp: gas_bought_def not_bought_def Let_def split: if_splits)
  qed
qed

section \<open>The message\<close>

text \<open>What is known when the call or the creation is over.\<close>

fun message_post :: "evm_env \<Rightarrow> transition \<Rightarrow> (bytes \<times> vm_error option) \<times> transition \<Rightarrow> bool" where
  "message_post env st ((ret, vmerr), st') \<longleftrightarrow>
     st' = st\<lparr>st_gas := st_gas st', st_evm := st_evm st'\<rparr> \<and> unat (st_gas st') \<le> unat (st_gas st) \<and>
     extends (ee_db env) (st_state st) (st_state st') \<and> ainv (eip2200 env) (absS (ee_db env) (st_state st')) \<and>
     funds (absS (ee_db env) (st_state st')) \<le> funds (absS (ee_db env) (st_state st))"

lemma run_message_ok:
  assumes env: "env_ok env" and inv: "sinv (ee_db env) (eip2200 env) (st_state st)"
    and e: "evm_depth (st_evm st) = 0" "\<not> readOnly (st_evm st)" "budget (st_gas st) (st_evm st)" "0 \<le> st_value st"
  shows "go_sat (message_post env st) (run_message env (evm_runner max_levels env) st)"
proof -
  let ?b = "ee_db env" and ?p = "eip2200 env" and ?run = "evm_runner max_levels env" and ?a = "msg_from (st_msg st)"
  have run: "runner_ok env ?p max_levels ?run" by (rule interp_ok [OF env])
  show ?thesis
  proof (cases "msg_to (st_msg st)")
    case None
    obtain a where "go_sat (create_post env ?p a (st_gas st) (st_evm st))
        (evm_Create env ?run (AccountRef ?a) (st_data st) (st_gas st) (st_value st) (st_evm st))"
      using evm_Create_ok(1) [OF run, of "st_evm st" "st_gas st" "st_value st" "AccountRef ?a" "st_data st"] inv e
      by (auto simp: evm_ok_def max_levels_def)
    then have "go_sat (message_post env st)
       (go_bind (evm_Create env ?run (AccountRef ?a) (st_data st) (st_gas st) (st_value st) (st_evm st))
         (\<lambda>((ret, _, gas, vmerr), e). Ret ((ret, vmerr), st\<lparr>st_gas := gas, st_evm := e\<rparr>)))"
      by (rule go_sat_bind) (auto simp: evolves_def leaves_def)
    then show ?thesis using None by (simp add: run_message_def)
  next
    case (Some to)
    obtain n s where g: "GetNonce ?b ?a (st_state st) = (n, s)" by fastforce
    let ?s = "SetNonce ?b ?a (n + 1) s"
    let ?e = "(st_evm st)\<lparr>StateDB := ?s\<rparr>"
    have m1: "moves ?b ?p False (st_state st) s" using moves_reads(4) [OF inv, of False ?a] g by simp
    have m: "moves ?b ?p False (st_state st) ?s" by (rule moves_trans [OF m1 moves_SetNonce [OF moves_sinv [OF m1 inv]]])
    have "budget (st_gas st) ?e" using e(3) m by (simp add: budget_def moves_def)
    then have "go_sat (call_post env ?p False (st_gas st) ?e)
        (Call env ?run (AccountRef ?a) to (st_data st) (st_gas st) (st_value st) ?e)"
      using Call_ok [OF run, of ?e "st_gas st" "st_value st" "AccountRef ?a" to "st_data st"] e moves_sinv [OF m inv]
      by (simp add: evm_ok_def max_levels_def)
    then have "go_sat (message_post env st)
       (go_bind (Call env ?run (AccountRef ?a) to (st_data st) (st_gas st) (st_value st) ?e)
         (\<lambda>((ret, gas, vmerr), e). Ret ((case ret of Fresh bs \<Rightarrow> bs | Same \<Rightarrow> st_data st, vmerr), st\<lparr>st_gas := gas, st_evm := e\<rparr>)))"
      by (rule go_sat_bind) (use m in \<open>auto simp: evolves_def leaves_def moves_def elim: extends_trans\<close>)
    then show ?thesis using Some g by (simp add: run_message_def st_to_def Let_def cong: ret_slice.case_cong)
  qed
qed
section \<open>Settling the bill\<close>

text \<open>After the message: the refund is at most half of the gas that was used, the gas that is left goes back to the pool and its
  price to the sender. The pool has room for it, because the gas came from it.\<close>

lemma refundGas_ok:
  assumes inv: "sinv b p (st_state st)" and price: "0 \<le> st_gasPrice st"
    and g: "unat (st_gas st) \<le> unat (st_initialGas st)" "unat (st_gp st) + unat (st_initialGas st) < 2 ^ 64"
  obtains st' where "refundGas b st = Some st'" "unat (st_gp st') = unat (st_gp st) + unat (st_gas st')"
    "unat (st_gas st) \<le> unat (st_gas st')" "unat (st_initialGas st) - unat (st_gas st) \<le> 2 * (unat (st_initialGas st) - unat (st_gas st'))"
    "unat (st_gas st') \<le> unat (st_initialGas st)" "pays_by b p (uint (st_gas st') * st_gasPrice st) (st_state st) (st_state st')"
    "st_initialGas st' = st_initialGas st" "st_gasPrice st' = st_gasPrice st"
proof -
  define r where "r = (if gasUsed st div 2 > GetRefund (st_state st) then GetRefund (st_state st) else gasUsed st div 2)"
  have used: "unat (gasUsed st) = unat (st_initialGas st) - unat (st_gas st)"
    using g(1) by (simp add: gasUsed_def unat_minus_le)
  have "r \<le> gasUsed st div 2" by (auto simp: r_def)
  then have r: "unat r \<le> (unat (st_initialGas st) - unat (st_gas st)) div 2"
    by (simp add: word_le_nat_alt unat_div used)
  have left: "unat (st_gas st + r) = unat (st_gas st) + unat r"
    using r g u64_lt [of "st_initialGas st"] by (intro unat_plus_less) linarith
  let ?v = "uint (st_gas st + r) * st_gasPrice st"
  let ?s = "AddBalance b (msg_from (st_msg st)) ?v (st_state st)"
  have pay: "pays_by b p ?v (st_state st) ?s" using price by (intro pays_AddBalance [OF inv]) simp
  have "unat (st_gp st) + unat (st_gas st + r) < 2 ^ 64" using left r g by linarith
  then obtain gp where gp: "AddGas (st_gas st + r) (st_gp st) = Some gp" "unat gp = unat (st_gp st) + unat (st_gas st + r)"
    using AddGas_iff [of "st_gas st + r" "st_gp st" "st_gp st + (st_gas st + r)"] unat_plus_less by blast
  have "refundGas b st = Some (st\<lparr>st_gas := st_gas st + r, st_evm := (st_evm st)\<lparr>StateDB := ?s\<rparr>, st_gp := gp\<rparr>)"
    using gp(1) unfolding refundGas_def Let_def r_def [symmetric] by simp
  then show ?thesis
    by (rule that) (use gp(2) left r pay g(1) in auto)
qed

text \<open>The outcome of a transaction on a machine at rest: progress from the state before, no new money, and exact accounts of the gas.\<close>

fun tx_post :: "evm_env \<Rightarrow> evm \<Rightarrow> tx_message \<Rightarrow> gas_pool \<Rightarrow> (bytes \<times> u64 \<times> bool \<times> tx_error option) \<times> transition \<Rightarrow> bool" where
  "tx_post env e msg gp ((ret, used, failed, err), st) \<longleftrightarrow>
     extends (ee_db env) (StateDB e) (st_state st) \<and> nonneg (absS (ee_db env) (st_state st)) \<and>
     funds (absS (ee_db env) (st_state st)) \<le> funds (absS (ee_db env) (StateDB e)) \<and>
     (err = None \<longrightarrow>
        unat (st_gp st) + unat used = unat gp \<and> unat used \<le> unat (msg_gasLimit msg) \<and>
        intrinsic (msg_data msg) (msg_to msg = None) (IsSingularity env) \<le> 2 * unat used) \<and>
     (err \<noteq> None \<longrightarrow> used = 0 \<and> unat (st_gp st) \<le> unat gp)"

lemma TransitionDb_paid:
  fixes g left :: u64
  assumes "pays_by b p (- (uint g * price)) s0 s1" "extends b s1 s2" "ainv p (absS b s2)" "funds (absS b s2) \<le> funds (absS b s1)"
    and "pays_by b p (uint left * price) s2 s3" "pays_by b p (uint (g - left) * price) s3 s4" "unat left \<le> unat g"
  shows "extends b s0 s4" "nonneg (absS b s4)" "funds (absS b s4) \<le> funds (absS b s0)"
proof -
  have "int (unat (g - left)) = int (unat g) - int (unat left)"
    unfolding unat_minus_le [OF assms(7)] using assms(7) by (rule of_nat_diff)
  then have "uint (g - left) = uint g - uint left" by simp
  then have "uint left * price + uint (g - left) * price = uint g * price" by (simp flip: distrib_right)
  then show "funds (absS b s4) \<le> funds (absS b s0)"
    using assms by (simp add: pays_by_def)
  have "extends b s0 s1" "extends b s2 s3" "extends b s3 s4" using assms by (simp_all add: pays_by_def)
  then show "extends b s0 s4" using assms(2) extends_trans by blast
  show "nonneg (absS b s4)" using assms(6) by (simp add: pays_by_def ainv_def)
qed

lemma gas_boughtD:
  assumes "gas_bought b p (NewStateTransition e msg gp) st1" "msg_gasLimit msg = g"
  obtains s1 where "unat g \<le> unat gp" "pays_by b p (- (uint g * msg_gasPrice msg)) (StateDB e) s1"
    "st1 = \<lparr>st_gp = gp - g, st_msg = msg, st_gas = g, st_gasPrice = msg_gasPrice msg, st_initialGas = g,
      st_value = msg_amount msg, st_data = msg_data msg, st_evm = e\<lparr>StateDB := s1\<rparr>\<rparr>"
  using assms by (auto simp: gas_bought_def NewStateTransition_def Let_def)

text \<open>From the point where the gas is bought and the intrinsic gas is used.\<close>

definition finish_transition ::
  "evm_env \<Rightarrow> (bytes \<times> vm_error option) \<times> transition \<Rightarrow> message_result" where
  "finish_transition env = (\<lambda>((ret, vmerr), st).
     if vmerr = Some ErrInsufficientBalance then Ret (([], 0, False, Some (tx_vm_error ErrInsufficientBalance)), st)
     else
       go_bind (go_of (refundGas (ee_db env) st)) (\<lambda>st.
         let fee = uint (gasUsed st) * st_gasPrice st;
             st = set_state (AddBalance (ee_db env) (Coinbase env) fee (st_state st)) st
         in Ret ((ret, gasUsed st, vmerr \<noteq> None, None), st)))"

lemma finish_transition_ok:
  assumes price: "0 \<le> msg_gasPrice msg" and b: "unat g \<le> unat gp" "msg_gasLimit msg = g"
    "pays_by (ee_db env) (eip2200 env) (- (uint g * msg_gasPrice msg)) (StateDB e) (st_state st)" and inv: "sinv (ee_db env) (eip2200 env) (StateDB e)"
    and st: "st_gp st = gp - g" "st_initialGas st = g" "st_gasPrice st = msg_gasPrice msg"
      "unat (st_gas st) + intrinsic (msg_data msg) (msg_to msg = None) (IsSingularity env) \<le> unat g"
    and post: "message_post env st x"
  shows "go_sat (tx_post env e msg gp) (finish_transition env x)"
proof -
  let ?b = "ee_db env" and ?p = "eip2200 env"
  obtain ret vmerr st1 where x: "x = ((ret, vmerr), st1)" by (metis prod.exhaust)
  have st1: "st_gp st1 = gp - g" "st_initialGas st1 = g" "st_gasPrice st1 = msg_gasPrice msg" "unat (st_gas st1) \<le> unat (st_gas st)"
    "extends ?b (st_state st) (st_state st1)" "ainv ?p (absS ?b (st_state st1))" "funds (absS ?b (st_state st1)) \<le> funds (absS ?b (st_state st))"
    using post x st by (auto dest: arg_cong [of _ _ st_gp] arg_cong [of _ _ st_initialGas] arg_cong [of _ _ st_gasPrice])
  have gp: "unat (gp - g) = unat gp - unat g" by (rule unat_minus_le [OF b(1)])
  have inv1: "sinv ?b ?p (st_state st1)"
    using pays_sinv [OF b(3) inv] extends_state_ok [OF st1(5)] st1(6) by (simp add: sinv_def)
  show ?thesis
  proof (cases "vmerr = Some ErrInsufficientBalance")
    case True
    have "0 \<le> uint g * msg_gasPrice msg" using price by simp
    then have "funds (absS ?b (st_state st1)) \<le> funds (absS ?b (StateDB e))" using b(3) st1(7) by (simp add: pays_by_def)
    moreover have "extends ?b (StateDB e) (st_state st1)" using b(3) st1(5) extends_trans by (auto simp: pays_by_def)
    ultimately show ?thesis using True x st1 gp by (simp add: finish_transition_def ainv_def)
  next
    case False
    obtain st2 where st2: "refundGas ?b st1 = Some st2" "unat (st_gp st2) = unat (st_gp st1) + unat (st_gas st2)"
      "unat (st_gas st1) \<le> unat (st_gas st2)"
      "unat (st_initialGas st1) - unat (st_gas st1) \<le> 2 * (unat (st_initialGas st1) - unat (st_gas st2))"
      "unat (st_gas st2) \<le> unat (st_initialGas st1)"
      "pays_by ?b ?p (uint (st_gas st2) * st_gasPrice st1) (st_state st1) (st_state st2)"
      "st_initialGas st2 = st_initialGas st1" "st_gasPrice st2 = st_gasPrice st1"
      by (rule refundGas_ok [OF inv1]) (use price st1 st(4) b(1) gp u64_lt [of gp] in auto)
    let ?fee = "uint (g - st_gas st2) * msg_gasPrice msg"
    let ?s = "AddBalance ?b (Coinbase env) ?fee (st_state st2)"
    have "pays_by ?b ?p ?fee (st_state st2) ?s" using price by (intro pays_AddBalance [OF pays_sinv [OF st2(6) inv1]]) simp
    note paid = TransitionDb_paid [OF b(3) st1(5,6,7) st2(6) [unfolded st1(3)] this]
    have left: "unat (st_gas st2) \<le> unat g" using st2(5) st1(2) by simp
    have "unat (g - st_gas st2) = unat g - unat (st_gas st2)" by (rule unat_minus_le [OF left])
    then have "tx_post env e msg gp ((ret, g - st_gas st2, vmerr \<noteq> None, None), set_state ?s st2)"
      using paid left st2 st1 gp b st(4) by (simp add: gasUsed_def)
    then show ?thesis
      using False x st2(1,7,8) st1(2,3) by (simp add: finish_transition_def gasUsed_def Let_def)
  qed
qed

lemma ApplyMessage_ok:
  assumes env: "env_ok env" and s: "settled (ee_db env) (StateDB e)" and e: "evm_depth e = 0" "\<not> readOnly e"
    and m: "24 * unat gp < 2 ^ 64" "0 \<le> msg_gasPrice msg" "0 \<le> msg_amount msg" "length (msg_data msg) < 2 ^ 64"
  shows "go_sat (tx_post env e msg gp) (ApplyMessage env (evm_runner max_levels env) e msg gp)"
proof -
  let ?b = "ee_db env" and ?p = "eip2200 env" and ?g = "msg_gasLimit msg" and ?st = "NewStateTransition e msg gp"
  have inv: "sinv ?b ?p (StateDB e)" by (rule settled_sinv [OF s])
  obtain err st1 where pc: "preCheck ?b ?st = (err, st1)" by fastforce
  have pre: "if err = None then gas_bought ?b ?p ?st st1 else not_bought ?b ?p ?st st1"
    by (rule preCheck_ok [OF _ pc]) (simp add: inv NewStateTransition_def)
  show ?thesis
  proof (cases err)
    case (Some er)
    then show ?thesis
      using pre pc by (simp add: ApplyMessage_def TransitionDb_def not_bought_def pays_by_def ainv_def NewStateTransition_def)
  next
    case None
    then obtain s1 where b: "unat ?g \<le> unat gp" "pays_by ?b ?p (- (uint ?g * msg_gasPrice msg)) (StateDB e) s1"
      "st1 = \<lparr>st_gp = gp - ?g, st_msg = msg, st_gas = ?g, st_gasPrice = msg_gasPrice msg, st_initialGas = ?g,
        st_value = msg_amount msg, st_data = msg_data msg, st_evm = e\<lparr>StateDB := s1\<rparr>\<rparr>"
      using pre gas_boughtD [of ?b ?p e msg gp st1] by auto
    have fail: "tx_post env e msg gp (([], 0, False, Some er), st1)" for er
    proof -
      have "0 \<le> uint ?g * msg_gasPrice msg" using m(2) by simp
      then show ?thesis using b unat_minus_le [OF b(1)] by (simp add: pays_by_def ainv_def)
    qed
    show ?thesis
    proof (cases rule: IntrinsicGas_cases [OF m(4), of "msg_to msg = None" "IsSingularity env"])
      case 2
      then show ?thesis using pc None fail b(3) by (simp add: ApplyMessage_def TransitionDb_def)
    next
      case (1 ig)
      show ?thesis
      proof (cases "?g < ig")
        case True
        then show ?thesis using pc None fail b(3) 1 by (simp add: ApplyMessage_def TransitionDb_def useGas_def)
      next
        case False
        define st where "st = st1\<lparr>st_gas := ?g - ig\<rparr>"
        have ig: "unat (?g - ig) = unat ?g - unat ig" "unat ig \<le> unat ?g" using False by (simp_all add: unat_minus_le word_less_nat_alt)
        have tr: "ApplyMessage env (evm_runner max_levels env) e msg gp = go_bind (run_message env (evm_runner max_levels env) st) (finish_transition env)"
          using pc None b(3) 1 False by (simp add: ApplyMessage_def TransitionDb_def useGas_def st_def finish_transition_def)
        have inv1: "sinv ?b ?p s1" by (rule pays_sinv [OF b(2) inv])
        have "sd_refund s1 = 0" using b(2) s by (simp add: pays_by_def settled_def)
        then have "budget (?g - ig) (e\<lparr>StateDB := s1\<rparr>)" using m(1) ig b(1) by (simp add: budget_def)
        then have run: "go_sat (message_post env st) (run_message env (evm_runner max_levels env) st)"
          by (intro run_message_ok [OF env]) (use inv1 e m(3) b(3) in \<open>simp_all add: st_def\<close>)
        show ?thesis unfolding tr
          by (rule go_sat_bind [OF run], rule finish_transition_ok [OF m(2) b(1) refl _ inv]) (use b ig 1(2) in \<open>auto simp: st_def\<close>)
      qed
    qed
  qed
qed
section \<open>Transactions\<close>


definition demo_message :: tx_message where
  "demo_message =
     \<lparr>msg_to = Some 2, msg_from = 1, msg_nonce = 0, msg_amount = 4, msg_gasLimit = 50000, msg_gasPrice = 0, msg_data = [0, 7],
      msg_checkNonce = True\<rparr>"


text \<open>C36: The intrinsic gas is computed exactly. \<^verbatim>\<open>IntrinsicGas\<close> returns the price of the transaction at full precision, with the prices of the two rule sets
  for zero and non-zero bytes, and reports an error exactly when it does not fit into 64 bits.\<close>

theorem IntrinsicGas_exact:
  assumes "length data < 2 ^ 64"
  shows "IntrinsicGas data contractCreation isEIP2028 =
    (if intrinsic data contractCreation isEIP2028 < 2 ^ 64 then Inr (of_nat (intrinsic data contractCreation isEIP2028)) else Inl ErrOutOfGas)"
  by (rule IntrinsicGas_cases [OF assms, of contractCreation isEIP2028]) (auto simp: word_unat_eq_iff unat_of_nat)

theorem IntrinsicGas_exact_witness: "IntrinsicGas [0, 7, 9] False True = Inr 21036"
  using IntrinsicGas_exact [of "[0, 7, 9]" False True] by (simp add: intrinsic_def)

end
