(* ===== verification/Core_Types.thy ===== *)
theory Core_Types
  imports State_Revert
begin

text \<open>
  The data of a block that transaction processing reads and writes, from \<^verbatim>\<open>src/core/types\<close>: transactions with their
  hash (\<^verbatim>\<open>transaction.go\<close>), receipts (\<^verbatim>\<open>receipt.go\<close>), headers (\<^verbatim>\<open>block.go\<close>) and the log filter (\<^verbatim>\<open>bloom9.go\<close>). A filter
  finds everything that was put into it.
\<close>

section \<open>Transactions\<close>

text \<open>\<^verbatim>\<open>txdata\<close>. The decoder lets no negative integer in.\<close>

record txdata =
  AccountNonce :: u64
  Price :: nat
  TxGasLimit :: u64
  Recipient :: "address option"
  Amount :: nat
  Payload :: bytes
  Sig_V :: nat
  Sig_R :: nat
  Sig_S :: nat

definition tx_EncodeRLP :: "txdata \<Rightarrow> rlp_item" where
  "tx_EncodeRLP tx =
     Lst [Str (nat_bytes (unat (AccountNonce tx))), Str (nat_bytes (Price tx)), Str (nat_bytes (unat (TxGasLimit tx))),
          (case Recipient tx of None \<Rightarrow> Str [] | Some a \<Rightarrow> Str (addr_bytes a)), Str (nat_bytes (Amount tx)), Str (Payload tx),
          Str (nat_bytes (Sig_V tx)), Str (nat_bytes (Sig_R tx)), Str (nat_bytes (Sig_S tx))]"

definition tx_Hash :: "backend \<Rightarrow> txdata \<Rightarrow> hash" where
  "tx_Hash b tx = keccak256 b (EncodeToBytes (tx_EncodeRLP tx))"

section \<open>Headers and receipts\<close>

type_synonym bloom = bytes

record header =
  h_ParentHash :: hash
  h_UncleHash :: hash
  h_Coinbase :: address
  h_Root :: hash
  h_TxHash :: hash
  h_ReceiptHash :: hash
  h_Bloom :: bloom
  h_Difficulty :: int
  h_Number :: int
  h_GasLimit :: u64
  h_GasUsed :: u64
  h_Time :: u64
  h_Extra :: bytes
  h_MixDigest :: hash
  h_Nonce :: bytes

record receipt =
  r_PostState :: bytes
  r_Status :: u64
  r_CumulativeGasUsed :: u64
  r_Bloom :: bloom
  r_Logs :: "evm_log list"
  r_TxHash :: hash
  r_ContractAddress :: address
  r_GasUsed :: u64
  r_BlockHash :: hash
  r_BlockNumber :: int
  r_TransactionIndex :: u64

abbreviation (input) "ReceiptStatusFailed \<equiv> (0 :: u64)"
abbreviation (input) "ReceiptStatusSuccessful \<equiv> (1 :: u64)"
abbreviation (input) "BloomByteLength \<equiv> (256 :: nat)"

definition NewReceipt :: "bytes \<Rightarrow> bool \<Rightarrow> u64 \<Rightarrow> receipt" where
  "NewReceipt root failed cumulativeGasUsed =
     \<lparr>r_PostState = root, r_Status = (if failed then ReceiptStatusFailed else ReceiptStatusSuccessful),
      r_CumulativeGasUsed = cumulativeGasUsed, r_Bloom = replicate BloomByteLength 0, r_Logs = [], r_TxHash = 0,
      r_ContractAddress = 0, r_GasUsed = 0, r_BlockHash = 0, r_BlockNumber = 0, r_TransactionIndex = 0\<rparr>"

section \<open>The log filter\<close>

text \<open>One of the three bits of an entry: eleven bits of two bytes of its hash.\<close>

definition bloom_index :: "bytes \<Rightarrow> nat \<Rightarrow> nat" where
  "bloom_index h i = unat ((ucast (h ! (i + 1)) + push_bit 8 (ucast (h ! i))) AND 2047 :: u64)"

definition bloom9 :: "backend \<Rightarrow> bytes \<Rightarrow> nat" where
  "bloom9 b bs =
     (let h = hash_bytes (keccak256 b bs) in foldl (\<lambda>r i. r OR push_bit (bloom_index h i) 1) 0 [0, 2, 4])"

fun bloom_topics :: "backend \<Rightarrow> hash list \<Rightarrow> nat \<Rightarrow> nat" where
  "bloom_topics b [] bin = bin"
| "bloom_topics b (t # ts) bin = bloom_topics b ts (bin OR bloom9 b (hash_bytes t))"

fun LogsBloom_loop :: "backend \<Rightarrow> evm_log list \<Rightarrow> nat \<Rightarrow> nat" where
  "LogsBloom_loop b [] bin = bin"
| "LogsBloom_loop b (l # ls) bin = LogsBloom_loop b ls (bloom_topics b (lg_Topics l) (bin OR bloom9 b (addr_bytes (lg_Address l))))"

definition LogsBloom :: "backend \<Rightarrow> evm_log list \<Rightarrow> nat" where
  "LogsBloom b logs = LogsBloom_loop b logs 0"

text \<open>\<^verbatim>\<open>SetBytes\<close> on the zero array; a slice that is too long is a panic.\<close>

definition BytesToBloom :: "bytes \<Rightarrow> bloom option" where
  "BytesToBloom d =
     (if BloomByteLength < length d then None else Some (replicate (BloomByteLength - length d) 0 @ d))"

fun CreateBloom_loop :: "backend \<Rightarrow> receipt list \<Rightarrow> nat \<Rightarrow> nat" where
  "CreateBloom_loop b [] bin = bin"
| "CreateBloom_loop b (r # rs) bin = CreateBloom_loop b rs (bin OR LogsBloom b (r_Logs r))"

definition CreateBloom :: "backend \<Rightarrow> receipt list \<Rightarrow> bloom option" where
  "CreateBloom b receipts = BytesToBloom (nat_bytes (CreateBloom_loop b receipts 0))"

definition bloom_Add :: "backend \<Rightarrow> nat \<Rightarrow> bloom \<Rightarrow> bloom option" where
  "bloom_Add b d bl = BytesToBloom (nat_bytes (be_val bl OR bloom9 b (nat_bytes d)))"

definition BloomLookup :: "backend \<Rightarrow> bloom \<Rightarrow> bytes \<Rightarrow> bool" where
  "BloomLookup b bin topic = (let cmp = bloom9 b topic in be_val bin AND cmp = cmp)"

definition bloom_TestBytes :: "backend \<Rightarrow> bloom \<Rightarrow> bytes \<Rightarrow> bool" where
  "bloom_TestBytes b bin test = BloomLookup b bin (nat_bytes (be_val test))"

section \<open>A filter has no false negatives\<close>

text \<open>The bits of one number are among the bits of another.\<close>

definition within :: "nat \<Rightarrow> nat \<Rightarrow> bool" where
  "within x y \<longleftrightarrow> y AND x = x"

lemma within_iff: "within x y \<longleftrightarrow> (\<forall>n. bit x n \<longrightarrow> bit y n)"
  by (auto simp: within_def bit_eq_iff bit_and_iff)

lemma within_or: "within x x" "within x y \<Longrightarrow> within x (y OR z)" "within x z \<Longrightarrow> within x (y OR z)"
  by (auto simp: within_iff bit_or_iff)

lemma within_topics: "within x bin \<Longrightarrow> within x (bloom_topics b ts bin)"
  by (induction ts arbitrary: bin) (auto intro: within_or)

lemma within_logs: "within x bin \<Longrightarrow> within x (LogsBloom_loop b ls bin)"
proof (induction ls arbitrary: bin)
  case (Cons l ls)
  show ?case unfolding LogsBloom_loop.simps by (intro Cons.IH within_topics within_or(2) Cons.prems)
qed simp

lemma within_receipts: "within x bin \<Longrightarrow> within x (CreateBloom_loop b rs bin)"
  by (induction rs arbitrary: bin) (auto intro: within_or)

lemma topic_within: "t \<in> set ts \<Longrightarrow> within (bloom9 b (hash_bytes t)) (bloom_topics b ts bin)"
  by (induction ts arbitrary: bin) (auto intro: within_or within_topics)

lemma log_within:
  "l \<in> set ls \<Longrightarrow> bs = addr_bytes (lg_Address l) \<or> bs \<in> hash_bytes ` set (lg_Topics l) \<Longrightarrow>
     within (bloom9 b bs) (LogsBloom_loop b ls bin)"
  by (induction ls arbitrary: bin) (auto intro: within_or within_logs within_topics topic_within)

lemma receipt_within:
  "r \<in> set rs \<Longrightarrow> within x (LogsBloom b (r_Logs r)) \<Longrightarrow> within x (CreateBloom_loop b rs bin)"
  by (induction rs arbitrary: bin) (auto intro: within_or within_receipts)

text \<open>A filter fits into its 2048 bits.\<close>

lemma or_less: "x < 2 ^ n \<Longrightarrow> y < 2 ^ n \<Longrightarrow> x OR y < 2 ^ n" for x y :: nat
  by (metis take_bit_nat_eq_self_iff take_bit_or)

lemma bloom_index_less: "bloom_index h i < 2048"
proof -
  have "(x AND 2047 :: u64) = take_bit 11 x" for x
    by (simp add: take_bit_eq_mask mask_eq_exp_minus_1)
  moreover have "unat (take_bit 11 x) < 2048" for x :: u64
    using take_bit_nat_less_exp [of 11 "unat x"] by (simp add: unsigned_take_bit_eq)
  ultimately show ?thesis by (simp add: bloom_index_def)
qed

lemma bloom9_less: "bloom9 b bs < 2 ^ 2048"
proof -
  have z: "(0 :: nat) < 2 ^ 2048" by (simp only: zero_less_power zero_less_numeral)
  have p: "push_bit (bloom_index h i) (1 :: nat) < 2 ^ 2048" for h i
    using power_strict_increasing [OF bloom_index_less [of h i], of "2 :: nat"] by (simp only: push_bit_eq_mult mult_1)
  show ?thesis unfolding bloom9_def Let_def foldl.simps by (intro or_less z p)
qed

lemma topics_less: "bin < 2 ^ 2048 \<Longrightarrow> bloom_topics b ts bin < 2 ^ 2048"
  by (induction ts arbitrary: bin) (simp_all only: bloom_topics.simps or_less bloom9_less)

lemma logs_less: "bin < 2 ^ 2048 \<Longrightarrow> LogsBloom_loop b ls bin < 2 ^ 2048"
  by (induction ls arbitrary: bin) (simp_all only: LogsBloom_loop.simps topics_less or_less bloom9_less)

lemma receipts_less: "bin < 2 ^ 2048 \<Longrightarrow> CreateBloom_loop b rs bin < 2 ^ 2048"
proof (induction rs arbitrary: bin)
  case (Cons r rs)
  have "LogsBloom b (r_Logs r) < 2 ^ 2048" unfolding LogsBloom_def by (rule logs_less) (simp only: zero_less_power zero_less_numeral)
  then show ?case using Cons by (simp only: CreateBloom_loop.simps or_less)
qed (simp only: CreateBloom_loop.simps)

lemma bloom_bits: "(256 :: nat) ^ 256 = 2 ^ 2048"
  by simp

lemma BytesToBloom_nat:
  assumes "x < 2 ^ 2048"
  obtains bl where "BytesToBloom (nat_bytes x) = Some bl" "be_val bl = x" "length bl = BloomByteLength"
proof -
  have "x < 256 ^ 256" using assms unfolding bloom_bits .
  then have l: "length (nat_bytes x) \<le> 256" by (rule length_nat_bytes_le)
  have "be_val (replicate k 0 @ bs) = be_val bs" for k bs by (induction k) (simp_all add: be_val_Cons)
  then show ?thesis using l by (intro that [of "replicate (256 - length (nat_bytes x)) 0 @ nat_bytes x"]) (simp_all add: BytesToBloom_def)
qed

text \<open>Adding to a filter keeps what is in it and makes \<^verbatim>\<open>Test\<close> succeed. \<^verbatim>\<open>TestBytes\<close> goes through an integer, so it looks for
  its argument without leading zeros.\<close>

lemma bloom_Add_Test:
  assumes "length bl = BloomByteLength"
  obtains bl' where "bloom_Add b d bl = Some bl'" "BloomLookup b bl' (nat_bytes d)" "length bl' = BloomByteLength"
    "\<And>bs. BloomLookup b bl bs \<Longrightarrow> BloomLookup b bl' bs"
proof -
  have "be_val bl < 2 ^ 2048" using be_val_less [of bl] unfolding assms bloom_bits .
  then have "be_val bl OR bloom9 b (nat_bytes d) < 2 ^ 2048" by (rule or_less [OF _ bloom9_less])
  then obtain bl' where bl': "bloom_Add b d bl = Some bl'" "be_val bl' = be_val bl OR bloom9 b (nat_bytes d)" "length bl' = BloomByteLength"
    unfolding bloom_Add_def by (rule BytesToBloom_nat)
  have look: "BloomLookup b x bs \<longleftrightarrow> within (bloom9 b bs) (be_val x)" for x bs by (simp add: BloomLookup_def within_def Let_def)
  show ?thesis by (rule that [OF bl'(1) _ bl'(3)]) (auto simp: look bl'(2) intro: within_or)
qed

lemma bloom_TestBytes_iff: "bs = [] \<or> hd bs \<noteq> 0 \<Longrightarrow> bloom_TestBytes b bl bs = BloomLookup b bl bs"
  by (auto simp: bloom_TestBytes_def nat_bytes_be_val)

text \<open>C37: A bloom filter has no false negatives and always fits. \<^verbatim>\<open>CreateBloom\<close> does not panic, its result has the 256 bytes of a filter, and a lookup of the address or
  of a topic of any log of the receipts succeeds.\<close>

theorem bloom_complete:
  assumes "r \<in> set receipts" "l \<in> set (r_Logs r)" "bs = addr_bytes (lg_Address l) \<or> bs \<in> hash_bytes ` set (lg_Topics l)"
  shows "\<exists>bl. CreateBloom b receipts = Some bl \<and> length bl = BloomByteLength \<and> BloomLookup b bl bs"
proof -
  have "CreateBloom_loop b receipts 0 < 2 ^ 2048" by (rule receipts_less) (simp only: zero_less_power zero_less_numeral)
  then obtain bl where bl: "CreateBloom b receipts = Some bl" "be_val bl = CreateBloom_loop b receipts 0" "length bl = BloomByteLength"
    unfolding CreateBloom_def by (rule BytesToBloom_nat)
  have "within (bloom9 b bs) (CreateBloom_loop b receipts 0)"
    using receipt_within [OF assms(1)] log_within [OF assms(2,3)] by (simp add: LogsBloom_def)
  then show ?thesis using bl by (simp add: BloomLookup_def within_def Let_def)
qed

definition demo_log :: evm_log where
  "demo_log = \<lparr>lg_Address = 7, lg_Topics = [3], lg_Data = [], lg_BlockNumber = 1, lg_TxHash = 0, lg_TxIndex = 0, lg_BlockHash = 0, lg_Index = 0\<rparr>"

theorem bloom_complete_witness:
  "\<exists>bl. CreateBloom demo_db [(NewReceipt [] False 0)\<lparr>r_Logs := [demo_log]\<rparr>] = Some bl \<and> BloomLookup demo_db bl (hash_bytes 3)"
  using bloom_complete [of "(NewReceipt [] False 0)\<lparr>r_Logs := [demo_log]\<rparr>" "[(NewReceipt [] False 0)\<lparr>r_Logs := [demo_log]\<rparr>]" demo_log "hash_bytes 3" demo_db]
  by (auto simp: demo_log_def)

end
