(* ===== verification/Core_Process.thy ===== *)
theory Core_Process
  imports Core_Transition Core_Types
begin

text \<open>
  A block of transactions: the context of a transaction (\<^verbatim>\<open>src/core/evm.go\<close>), \<^verbatim>\<open>ApplyTransaction\<close> and \<^verbatim>\<open>Process\<close>
  (\<^verbatim>\<open>src/core/state_processor.go\<close>), and the gas limit of the next block (\<^verbatim>\<open>src/core/block_validator.go\<close>). The transition of
  one transaction is composed along the block: each one leaves the state settled for the next, and the pool and the receipts
  account for all the gas of the block.
\<close>

section \<open>The processor\<close>

text \<open>What the processor takes from the chain and the consensus engine: the configuration and the library below the virtual machine
  (the fields of a block or a transaction in it are replaced), the fork rules, the recovery of senders from signatures, the author of a header,
  the hashes of its ancestors, the hash of a header, and the engine's rewards at the end of a block.\<close>

record processor =
  pr_env :: evm_env
  pr_IsSingularity :: "int \<Rightarrow> bool"
  pr_IsEWASM :: "int \<Rightarrow> bool"
  pr_Sender :: "txdata \<Rightarrow> address option"
  pr_Author :: "header \<Rightarrow> address"
  pr_GetHash :: "header \<Rightarrow> u64 \<Rightarrow> hash"
  pr_Hash :: "header \<Rightarrow> hash"
  pr_Finalize :: "header \<Rightarrow> statedb \<Rightarrow> txdata list \<Rightarrow> receipt list \<Rightarrow> tx_error option \<times> statedb"

definition AsMessage :: "(txdata \<Rightarrow> address option) \<Rightarrow> txdata \<Rightarrow> tx_error + tx_message" where
  "AsMessage sender tx =
     (case sender tx of
        None \<Rightarrow> Inl ErrInvalidSender
      | Some from \<Rightarrow>
          Inr \<lparr>msg_to = Recipient tx, msg_from = from, msg_nonce = AccountNonce tx, msg_amount = int (Amount tx),
               msg_gasLimit = TxGasLimit tx, msg_gasPrice = int (Price tx), msg_data = Payload tx, msg_checkNonce = True\<rparr>)"

definition NewEVMContext :: "processor \<Rightarrow> tx_message \<Rightarrow> header \<Rightarrow> address option \<Rightarrow> evm_env" where
  "NewEVMContext P msg h author =
     (pr_env P)\<lparr>IsSingularity := pr_IsSingularity P (h_Number h), GetHash := pr_GetHash P h, Origin := msg_from msg,
       Coinbase := (case author of None \<Rightarrow> pr_Author P h | Some a \<Rightarrow> a), BlockNumber := h_Number h, BlockTime := uint (h_Time h),
       Difficulty := h_Difficulty h, GasLimit := h_GasLimit h, GasPrice := msg_gasPrice msg, TxNonce := uint (msg_nonce msg)\<rparr>"

text \<open>There is no interpreter for the rules that \<^verbatim>\<open>IsEWASM\<close> announces.\<close>

definition NewEVM :: "processor \<Rightarrow> header \<Rightarrow> statedb \<Rightarrow> evm option" where
  "NewEVM P h s =
     (if pr_IsEWASM P (h_Number h) then None
      else Some \<lparr>StateDB = s, evm_depth = 0, callGasTemp = 0, readOnly = False, returnData = Own [], jumpdests = Map.empty\<rparr>)"

definition ApplyTransaction ::
  "processor \<Rightarrow> address option \<Rightarrow> gas_pool \<Rightarrow> statedb \<Rightarrow> header \<Rightarrow> txdata \<Rightarrow> u64 \<Rightarrow>
     ((tx_error + receipt) \<times> gas_pool \<times> statedb \<times> u64) go" where
  "ApplyTransaction P author gp s h tx usedGas =
     (case AsMessage (pr_Sender P) tx of
        Inl err \<Rightarrow> Ret (Inl err, gp, s, usedGas)
      | Inr msg \<Rightarrow>
          (let env = NewEVMContext P msg h author; b = ee_db env in
           go_bind (go_of (NewEVM P h s)) (\<lambda>e.
           go_bind (ApplyMessage env (evm_runner max_levels env) e msg gp) (\<lambda>((_, gas, failed, err), st).
             case err of
               Some er \<Rightarrow> Ret (Inl er, st_gp st, st_state st, usedGas)
             | None \<Rightarrow>
                 (let s = Finalise b True (st_state st);
                      usedGas = usedGas + gas;
                      receipt = (NewReceipt [] failed usedGas)\<lparr>r_TxHash := tx_Hash b tx, r_GasUsed := gas\<rparr>;
                      receipt = (if msg_to msg = None
                                 then receipt\<lparr>r_ContractAddress := CreateAddress b (Origin env) (AccountNonce tx)\<rparr> else receipt);
                      receipt = receipt\<lparr>r_Logs := GetLogs (tx_Hash b tx) s\<rparr>
                  in go_bind (go_of (CreateBloom b [receipt])) (\<lambda>bloom.
                       Ret (Inr (receipt\<lparr>r_Bloom := bloom, r_BlockHash := bhash s, r_BlockNumber := h_Number h,
                                   r_TransactionIndex := of_int (txIndex s)\<rparr>),
                            st_gp st, s, usedGas)))))))"

text \<open>The loop of \<^verbatim>\<open>Process\<close> over the transactions, from number \<open>i\<close> on.\<close>

fun process_txs ::
  "processor \<Rightarrow> header \<Rightarrow> nat \<Rightarrow> txdata list \<Rightarrow> gas_pool \<Rightarrow> statedb \<Rightarrow> u64 \<Rightarrow> receipt list \<Rightarrow> evm_log list \<Rightarrow>
     ((tx_error + receipt list \<times> evm_log list \<times> u64) \<times> statedb) go" where
  "process_txs P h i [] gp s usedGas receipts allLogs = Ret (Inr (receipts, allLogs, usedGas), s)"
| "process_txs P h i (tx # txs) gp s usedGas receipts allLogs =
     (let s = Prepare (tx_Hash (ee_db (pr_env P)) tx) (pr_Hash P h) (int i) s in
      go_bind (ApplyTransaction P None gp s h tx usedGas) (\<lambda>(r, gp, s, usedGas).
        case r of
          Inl err \<Rightarrow> Ret (Inl err, s)
        | Inr receipt \<Rightarrow>
            process_txs P h (Suc i) txs gp s usedGas (receipts @ [receipt]) (allLogs @ r_Logs receipt)))"

type_synonym process_result = "((receipt list \<times> evm_log list \<times> u64 \<times> tx_error option) \<times> statedb) go"

definition Process :: "processor \<Rightarrow> header \<Rightarrow> txdata list \<Rightarrow> statedb \<Rightarrow> process_result" where
  "Process P h txs s =
     go_bind (go_of (AddGas (h_GasLimit h) 0)) (\<lambda>gp.
       go_bind (process_txs P h 0 txs gp s 0 [] []) (\<lambda>(r, s).
         case r of
           Inl err \<Rightarrow> Ret (([], [], 0, Some err), s)
         | Inr (receipts, allLogs, usedGas) \<Rightarrow>
             (let (err, s) = pr_Finalize P h s txs receipts in Ret ((receipts, allLogs, usedGas, err), s))))"

section \<open>One transaction in a block\<close>

lemma NewEVMContext_ok: "env_ok (pr_env P) \<Longrightarrow> 0 \<le> msg_gasPrice msg \<Longrightarrow> env_ok (NewEVMContext P msg h author)"
  by (simp add: env_ok_def NewEVMContext_def)

lemma NewEVMContext_db [simp]: "ee_db (NewEVMContext P msg h author) = ee_db (pr_env P)"
  by (simp add: NewEVMContext_def)

lemma CreateBloom_Some: "\<exists>bl. CreateBloom b rs = Some bl"
proof -
  have "CreateBloom_loop b rs 0 < 2 ^ 2048" by (rule receipts_less) (simp only: zero_less_power zero_less_numeral)
  then show ?thesis unfolding CreateBloom_def by (metis BytesToBloom_nat)
qed

lemma bloom_bind: "(\<And>bl. go_sat Q (k bl)) \<Longrightarrow> go_sat Q (go_bind (go_of (CreateBloom b rs)) k)"
  using CreateBloom_Some [of b rs] by auto

text \<open>The gas of the block is in the pool or used, and the receipt says how much of it the transaction took.\<close>

fun applied :: "processor \<Rightarrow> statedb \<Rightarrow> gas_pool \<Rightarrow> u64 \<Rightarrow> (tx_error + receipt) \<times> gas_pool \<times> statedb \<times> u64 \<Rightarrow> bool" where
  "applied P s gp used (Inl err, _) \<longleftrightarrow> True"
| "applied P s gp used (Inr r, gp', s', used') \<longleftrightarrow>
     settled (ee_db (pr_env P)) s' \<and> funds (absS (ee_db (pr_env P)) s') \<le> funds (absS (ee_db (pr_env P)) s) \<and>
     unat gp' + unat (r_GasUsed r) = unat gp \<and> used' = used + r_GasUsed r \<and> r_CumulativeGasUsed r = used'"

lemma ApplyTransaction_ok:
  assumes env: "env_ok (pr_env P)" and s: "settled (ee_db (pr_env P)) s" and gp: "24 * unat gp < 2 ^ 64"
    and tx: "length (Payload tx) < 2 ^ 64" and ew: "\<not> pr_IsEWASM P (h_Number h)"
  shows "go_sat (applied P s gp used) (ApplyTransaction P author gp s h tx used)"
proof (cases "AsMessage (pr_Sender P) tx")
  case (Inl err)
  then show ?thesis by (simp add: ApplyTransaction_def)
next
  case (Inr msg)
  let ?env = "NewEVMContext P msg h author" and ?b = "ee_db (pr_env P)"
  have msg: "0 \<le> msg_gasPrice msg" "0 \<le> msg_amount msg" "length (msg_data msg) < 2 ^ 64"
    using Inr tx by (auto simp: AsMessage_def split: option.splits)
  obtain e where e: "NewEVM P h s = Some e" "StateDB e = s" "evm_depth e = 0" "\<not> readOnly e"
    using ew by (simp add: NewEVM_def)
  have "go_sat (tx_post ?env e msg gp) (ApplyMessage ?env (evm_runner max_levels ?env) e msg gp)"
    by (rule ApplyMessage_ok) (use NewEVMContext_ok [OF env msg(1)] s gp msg e in simp_all)
  then show ?thesis
    unfolding ApplyTransaction_def Inr sum.case Let_def e(1) go_of.simps go_bind.simps
  proof (rule go_sat_bind, goal_cases)
    case (1 x)
    obtain ret gas failed err st where x: "x = ((ret, gas, failed, err), st)" by (metis prod.exhaust)
    show ?case
    proof (cases err)
      case (Some er)
      then show ?thesis using x by simp
    next
      case None
      have "settled ?b (Finalise ?b True (st_state st))" "funds (absS ?b (Finalise ?b True (st_state st))) \<le> funds (absS ?b s)"
        "unat (st_gp st) + unat gas = unat gp"
        using 1 x None Finalise_settles [OF s] e(2) by (simp_all add: Finalise_funds)
      then show ?thesis
        using x None by (auto simp: NewReceipt_def Let_def intro!: bloom_bind)
    qed
  qed
qed

section \<open>The whole block\<close>

text \<open>The receipts carry the running total of the gas, starting from \<open>base\<close>.\<close>

definition gas_of :: "receipt list \<Rightarrow> nat" where
  "gas_of rs = sum_list (map (\<lambda>r. unat (r_GasUsed r)) rs)"

definition cumulative :: "nat \<Rightarrow> receipt list \<Rightarrow> bool" where
  "cumulative base rs \<longleftrightarrow> (\<forall>i < length rs. unat (r_CumulativeGasUsed (rs ! i)) = base + gas_of (take (Suc i) rs))"

lemma cumulative_Cons:
  "cumulative base (r # rs) \<longleftrightarrow> unat (r_CumulativeGasUsed r) = base + unat (r_GasUsed r) \<and> cumulative (base + unat (r_GasUsed r)) rs"
proof -
  have "(\<forall>i < Suc (length rs). Q i) \<longleftrightarrow> Q 0 \<and> (\<forall>i < length rs. Q (Suc i))" for Q
    using less_Suc_eq_0_disj by auto
  then show ?thesis by (simp add: cumulative_def gas_of_def add.assoc)
qed

text \<open>What the rest of the loop adds to the receipts and the logs it starts with.\<close>

fun processed ::
  "processor \<Rightarrow> txdata list \<Rightarrow> gas_pool \<Rightarrow> statedb \<Rightarrow> u64 \<Rightarrow> receipt list \<Rightarrow> evm_log list \<Rightarrow>
     (tx_error + receipt list \<times> evm_log list \<times> u64) \<times> statedb \<Rightarrow> bool" where
  "processed P txs gp s used receipts logs (Inl err, s') \<longleftrightarrow> True"
| "processed P txs gp s used receipts logs (Inr (receipts', logs', used'), s') \<longleftrightarrow>
     settled (ee_db (pr_env P)) s' \<and> funds (absS (ee_db (pr_env P)) s') \<le> funds (absS (ee_db (pr_env P)) s) \<and>
     (\<exists>rs. receipts' = receipts @ rs \<and> logs' = logs @ concat (map r_Logs rs) \<and> length rs = length txs \<and>
        gas_of rs \<le> unat gp \<and> unat used' = unat used + gas_of rs \<and> cumulative (unat used) rs)"

lemma process_txs_ok:
  assumes env: "env_ok (pr_env P)" and ew: "\<not> pr_IsEWASM P (h_Number h)"
  shows "settled (ee_db (pr_env P)) s \<Longrightarrow> 24 * unat gp < 2 ^ 64 \<Longrightarrow> unat used + unat gp < 2 ^ 64 \<Longrightarrow>
    (\<And>tx. tx \<in> set txs \<Longrightarrow> length (Payload tx) < 2 ^ 64) \<Longrightarrow>
    go_sat (processed P txs gp s used receipts logs) (process_txs P h i txs gp s used receipts logs)"
proof (induction txs arbitrary: i gp s used receipts logs)
  case Nil
  then show ?case by (simp add: gas_of_def cumulative_def)
next
  case (Cons tx txs)
  let ?b = "ee_db (pr_env P)"
  let ?s = "Prepare (tx_Hash ?b tx) (pr_Hash P h) (int i) s"
  have s: "settled ?b ?s" using Cons.prems(1) by (simp add: Prepare_settled)
  have tx: "length (Payload tx) < 2 ^ 64" using Cons.prems(4) by simp
  show ?case
    unfolding process_txs.simps Let_def
  proof (rule go_sat_bind [OF ApplyTransaction_ok [OF env s Cons.prems(2) tx ew]], goal_cases)
    case (1 x)
    obtain r gp' s' used' where x: "x = (r, gp', s', used')" by (metis prod.exhaust)
    show ?case
    proof (cases r)
      case (Inl err)
      then show ?thesis using x by simp
    next
      case (Inr rc)
      then have a: "settled ?b s'" "funds (absS ?b s') \<le> funds (absS ?b s)" "unat gp' + unat (r_GasUsed rc) = unat gp"
        "used' = used + r_GasUsed rc" "r_CumulativeGasUsed rc = used'"
        using 1 x by (simp_all add: Prepare_funds)
      have u: "unat used' = unat used + unat (r_GasUsed rc)"
        unfolding a(4) using a(3) Cons.prems(3) by (intro unat_plus_less) linarith
      have "go_sat (processed P txs gp' s' used' (receipts @ [rc]) (logs @ r_Logs rc))
          (process_txs P h (Suc i) txs gp' s' used' (receipts @ [rc]) (logs @ r_Logs rc))"
        using a(3) u Cons.prems by (intro Cons.IH [OF a(1)]) auto
      then have "go_sat (processed P (tx # txs) gp s used receipts logs)
          (process_txs P h (Suc i) txs gp' s' used' (receipts @ [rc]) (logs @ r_Logs rc))"
      proof (rule go_sat_mono, goal_cases)
        case (1 y)
        show ?case
        proof (cases "fst y")
          case (Inl err)
          then show ?thesis by (cases y) simp
        next
          case (Inr z)
          then obtain rs s2 where y: "y = (Inr (receipts @ rc # rs, logs @ r_Logs rc @ concat (map r_Logs rs), snd (snd z)), s2)"
            and p: "settled ?b s2" "funds (absS ?b s2) \<le> funds (absS ?b s')" "length rs = length txs" "gas_of rs \<le> unat gp'"
              "unat (snd (snd z)) = unat used' + gas_of rs" "cumulative (unat used') rs"
            using 1 by (cases y; cases z) auto
          then show ?thesis
            using a u by (auto simp: cumulative_Cons gas_of_def intro!: exI [of _ "rc # rs"])
        qed
      qed
      then show ?thesis using x Inr by simp
    qed
  qed
qed


definition demo_processor :: processor where
  "demo_processor =
     \<lparr>pr_env = demo_env, pr_IsSingularity = (\<lambda>_. True), pr_IsEWASM = (\<lambda>_. False), pr_Sender = (\<lambda>_. Some 1), pr_Author = (\<lambda>_. 3), pr_GetHash = (\<lambda>_ _. 0),
      pr_Hash = (\<lambda>_. 0), pr_Finalize = (\<lambda>_ s _ _. (None, s))\<rparr>"

definition demo_header :: header where
  "demo_header =
     \<lparr>h_ParentHash = 0, h_UncleHash = 0, h_Coinbase = 3, h_Root = 0, h_TxHash = 0, h_ReceiptHash = 0, h_Bloom = replicate BloomByteLength 0,
      h_Difficulty = 1, h_Number = 1, h_GasLimit = 100000, h_GasUsed = 0, h_Time = 1, h_Extra = [], h_MixDigest = 0, h_Nonce = []\<rparr>"

definition demo_tx :: txdata where
  "demo_tx = \<lparr>AccountNonce = 0, Price = 0, TxGasLimit = 50000, Recipient = Some 2, Amount = 4, Payload = [0, 7], Sig_V = 0, Sig_R = 0, Sig_S = 0\<rparr>"


section \<open>The gas limit of the next block\<close>

abbreviation (input) "GasLimitBoundDivisor \<equiv> (1024 :: u64)"
abbreviation (input) "MinGasLimit \<equiv> (5000 :: u64)"

definition CalcGasLimit :: "header \<Rightarrow> u64 \<Rightarrow> u64 \<Rightarrow> u64" where
  "CalcGasLimit parent gasFloor gasCeil =
     (let contrib = (h_GasUsed parent + h_GasUsed parent div 2) div GasLimitBoundDivisor;
          decay = h_GasLimit parent div GasLimitBoundDivisor - 1;
          limit = h_GasLimit parent - decay + contrib;
          limit = (if limit < MinGasLimit then MinGasLimit else limit)
      in if limit < gasFloor then
           (let limit = h_GasLimit parent + decay in if limit > gasFloor then gasFloor else limit)
         else if limit > gasCeil then
           (let limit = h_GasLimit parent - decay in if limit < gasCeil then gasCeil else limit)
         else limit)"

text \<open>The check of a header against its parent in \<^verbatim>\<open>verifyHeader\<close> of the proof-of-work engines. The difference is an \<^verbatim>\<open>int64\<close>, so it wraps and
  its sign is the one of the signed reading.\<close>

definition gas_limit_accepted :: "header \<Rightarrow> u64 \<Rightarrow> bool" where
  "gas_limit_accepted parent gasLimit =
     (let diff = h_GasLimit parent - gasLimit;
          diff = (if sint diff < 0 then diff * - 1 else diff);
          limit = h_GasLimit parent div GasLimitBoundDivisor
      in \<not> (diff \<ge> limit \<or> gasLimit < MinGasLimit))"

lemma sint_diff: "unat x < 2 ^ 63 \<Longrightarrow> unat y < 2 ^ 63 \<Longrightarrow> sint (x - y) = uint x - uint y" for x y :: u64
proof -
  assume a: "unat x < 2 ^ 63" "unat y < 2 ^ 63"
  then have b: "uint x < 2 ^ 63" "uint y < 2 ^ 63" "0 \<le> uint x" "0 \<le> uint y"
    using of_nat_less_iff [of "unat x" "2 ^ 63", where 'a = int] of_nat_less_iff [of "unat y" "2 ^ 63", where 'a = int] by simp_all
  have "sint (x - y) = signed_take_bit 63 (take_bit 64 (uint x - uint y))"
    by (simp add: sint_uint uint_word_ariths take_bit_eq_mod)
  also have "\<dots> = signed_take_bit 63 (uint x - uint y)" by (simp add: signed_take_bit_take_bit)
  also have "- (2 ^ 63) \<le> uint x - uint y" "uint x - uint y < 2 ^ 63" using b by linarith+
  then have "signed_take_bit 63 (uint x - uint y) = uint x - uint y" by (rule signed_take_bit_int_eq_self)
  finally show ?thesis .
qed

lemma accepted_iff:
  assumes "unat (h_GasLimit parent) < 2 ^ 63" "unat gasLimit < 2 ^ 63"
  shows "gas_limit_accepted parent gasLimit \<longleftrightarrow>
    \<bar>uint (h_GasLimit parent) - uint gasLimit\<bar> < uint (h_GasLimit parent) div 1024 \<and> 5000 \<le> uint gasLimit"
proof -
  let ?p = "h_GasLimit parent"
  let ?d = "if sint (?p - gasLimit) < 0 then (?p - gasLimit) * - 1 else ?p - gasLimit"
  have s: "sint (?p - gasLimit) = uint ?p - uint gasLimit" by (rule sint_diff [OF assms])
  have "uint ?d = \<bar>uint ?p - uint gasLimit\<bar>"
  proof (cases "uint ?p < uint gasLimit")
    case True
    have "(?p - gasLimit) * - 1 = gasLimit - ?p" by simp
    then show ?thesis using True s by (simp add: uint_minus_simple_alt word_le_def uint_sub_lem [THEN iffD1])
  next
    case False
    then show ?thesis using s by (simp add: uint_sub_lem [THEN iffD1] word_le_def)
  qed
  then show ?thesis
    unfolding gas_limit_accepted_def Let_def by (auto simp: word_le_def word_less_def uint_div not_le not_less)
qed

lemma contrib_less:
  fixes p u :: nat
  assumes "5120 \<le> p" "u \<le> p"
  shows "(u + u div 2) div 1024 \<le> (p div 1024 - 1) + (p div 1024 - 1)"
proof -
  define q where "q = p div 1024"
  have q: "5 \<le> q" "p < 1024 * q + 1024" using assms by (simp_all add: q_def)
  define w where "w = u + u div 2"
  have "2 * w \<le> 3 * u" by (simp add: w_def)
  then have "2 * w \<le> 3072 * q + 3069" using assms(2) q by linarith
  then have "w < (2 * q - 1) * 1024" using q by (cases "q = 5 \<or> q = 6") auto
  then have "w div 1024 < 2 * q - 1" by (rule less_mult_imp_div_less)
  then show ?thesis unfolding q_def [symmetric] w_def [symmetric] by simp
qed

lemma CalcGasLimit_range:
  fixes gasFloor gasCeil :: u64
  assumes "5120 \<le> h_GasLimit parent" "unat (h_GasLimit parent) < 2 ^ 62" "h_GasUsed parent \<le> h_GasLimit parent" "5000 \<le> gasCeil"
  defines "D \<equiv> unat (h_GasLimit parent) div 1024 - 1" and "r \<equiv> CalcGasLimit parent gasFloor gasCeil"
  shows "unat (h_GasLimit parent) \<le> unat r + D" "unat r \<le> unat (h_GasLimit parent) + D" "5000 \<le> unat r"
proof -
  let ?p = "h_GasLimit parent" and ?u = "h_GasUsed parent"
  have a: "5120 \<le> unat ?p" "unat ?u \<le> unat ?p" "5000 \<le> unat gasCeil" using assms(1,3,4) by (simp_all add: word_le_nat_alt)
  define contrib decay where "contrib = (?u + ?u div 2) div GasLimitBoundDivisor" and "decay = ?p div GasLimitBoundDivisor - 1"
  have decay: "unat decay = D" using a(1) by (simp add: decay_def D_def unat_minus_le unat_div)
  have "unat (?u + ?u div 2) = unat ?u + unat ?u div 2" using a(2) assms(2) by (subst unat_plus_less) (simp_all add: unat_div)
  then have contrib: "unat contrib \<le> D + D" using contrib_less [OF a(1,2)] by (simp add: contrib_def D_def unat_div)
  have D: "D < unat ?p" "4 * D < 2 ^ 62" using a(1) assms(2) by (simp_all add: D_def)
  define l where "l = (if ?p - decay + contrib < MinGasLimit then MinGasLimit else ?p - decay + contrib)"
  have m: "unat (?p - decay) = unat ?p - D" using D decay by (simp add: unat_minus_le)
  have l0: "unat (?p - decay + contrib) = unat ?p - D + unat contrib" using m contrib D assms(2) by (subst unat_plus_less) simp_all
  have l: "unat ?p \<le> unat l + D" "unat l \<le> unat ?p + D" "5000 \<le> unat l"
    using l0 contrib D a(1) by (auto simp: l_def word_less_nat_alt)
  have up: "unat (?p + decay) = unat ?p + D" using decay D assms(2) by (subst unat_plus_less) simp_all
  have r: "r = (if l < gasFloor then (if ?p + decay > gasFloor then gasFloor else ?p + decay)
      else if l > gasCeil then (if ?p - decay < gasCeil then gasCeil else ?p - decay) else l)"
    by (simp add: r_def CalcGasLimit_def Let_def l_def contrib_def decay_def)
  show "unat ?p \<le> unat r + D" "unat r \<le> unat ?p + D" "5000 \<le> unat r"
    unfolding r using l up m a D by (auto simp: word_less_nat_alt)
qed

lemma limit_arith:
  fixes p r q :: nat
  assumes "p \<le> r + (q - 1)" "r \<le> p + (q - 1)" "5 \<le> q" "q \<le> p" "p < 4611686018427387904" "5000 \<le> r"
  shows "r < 9223372036854775808" "\<bar>int p - int r\<bar> < int q" "5000 \<le> int r"
  using assms by linarith+

text \<open>C38: A miner proposes a gas limit that is accepted. Let the parent have a gas limit of at least 5120 and below half of the signed range, and use no more than that; let the
  ceiling of the miner be at least the minimum. Then the limit that \<^verbatim>\<open>CalcGasLimit\<close> computes passes the check of \<^verbatim>\<open>verifyHeader\<close>: it differs from the parent's by less than a 1024th, and is at least
  5000. Below 5120 this fails: after a full block of gas limit 5000 the proposed limit is rejected.\<close>

theorem CalcGasLimit_accepted:
  "(5120 \<le> h_GasLimit parent \<and> unat (h_GasLimit parent) < 2 ^ 62 \<and> h_GasUsed parent \<le> h_GasLimit parent \<and> 5000 \<le> gasCeil \<longrightarrow>
      gas_limit_accepted parent (CalcGasLimit parent gasFloor gasCeil)) \<and>
   (h_GasLimit parent = 5000 \<and> h_GasUsed parent = 5000 \<and> gasFloor \<le> 5004 \<and> 5004 \<le> gasCeil \<longrightarrow>
      \<not> gas_limit_accepted parent (CalcGasLimit parent gasFloor gasCeil))"
proof (intro conjI impI, goal_cases)
  case 1
  let ?p = "unat (h_GasLimit parent)" and ?r = "unat (CalcGasLimit parent gasFloor gasCeil)"
  note r = CalcGasLimit_range [of parent gasCeil gasFloor]
  have "?p \<le> ?r + (?p div 1024 - 1)" "?r \<le> ?p + (?p div 1024 - 1)" "5000 \<le> ?r" using r 1 by simp_all
  moreover have "5 \<le> ?p div 1024" "?p < 2 ^ 62" "?p div 1024 \<le> ?p"
    using 1 div_le_mono [of 5120 ?p 1024] by (simp_all add: word_le_nat_alt)
  ultimately have "?r < 2 ^ 63" "\<bar>int ?p - int ?r\<bar> < int (?p div 1024)" "5000 \<le> int ?r"
    using limit_arith [of ?p ?r "?p div 1024"] by simp_all
  then show ?case using 1 by (subst accepted_iff) (simp_all add: zdiv_int)
next
  case 2
  have "CalcGasLimit parent gasFloor gasCeil = 5004"
    using 2 by (auto simp: CalcGasLimit_def not_less)
  then show ?case using 2 by (simp add: gas_limit_accepted_def)
qed

theorem CalcGasLimit_accepted_witness:
  "gas_limit_accepted (demo_header\<lparr>h_GasUsed := 100000\<rparr>) (CalcGasLimit (demo_header\<lparr>h_GasUsed := 100000\<rparr>) 90000 200000) \<and>
   \<not> gas_limit_accepted (demo_header\<lparr>h_GasLimit := 5000, h_GasUsed := 5000\<rparr>)
       (CalcGasLimit (demo_header\<lparr>h_GasLimit := 5000, h_GasUsed := 5000\<rparr>) 0 8000000)"
  using CalcGasLimit_accepted [of "demo_header\<lparr>h_GasUsed := 100000\<rparr>" 200000 90000]
    CalcGasLimit_accepted [of "demo_header\<lparr>h_GasLimit := 5000, h_GasUsed := 5000\<rparr>" 8000000 0]
  by (simp add: demo_header_def)

end
