(* ===== verification/Trie_Encoding.thy ===== *)
theory Trie_Encoding
  imports Prelude
begin

text \<open>
  The three encodings of trie keys in \<^verbatim>\<open>src/trie/encoding.go\<close>: key bytes, hex (one byte for each nibble, with an optional terminator 16) and
  compact (the hex prefix encoding of the Yellow Paper, used for nodes on disk). Each conversion is the inverse of the other on valid keys.
\<close>

section \<open>Conversions\<close>

abbreviation (input) "terminator16 \<equiv> (16 :: byte)"

definition hasTerm :: "bytes \<Rightarrow> bool" where
  "hasTerm s \<longleftrightarrow> length s > 0 \<and> last s = terminator16"

text \<open>The loop of \<^verbatim>\<open>keybytesToHex\<close>.\<close>

fun keybytesToHex_loop :: "bytes \<Rightarrow> bytes" where
  "keybytesToHex_loop [] = []"
| "keybytesToHex_loop (b # str) = b div 16 # b mod 16 # keybytesToHex_loop str"

definition keybytesToHex :: "bytes \<Rightarrow> bytes" where
  "keybytesToHex str = keybytesToHex_loop str @ [terminator16]"

text \<open>\<^verbatim>\<open>decodeNibbles\<close> reads pairs; a last single nibble is an index out of range.\<close>

fun decodeNibbles :: "bytes \<Rightarrow> bytes option" where
  "decodeNibbles [] = Some []"
| "decodeNibbles [n] = None"
| "decodeNibbles (n # m # nibbles) = map_option (\<lambda>bs. (push_bit 4 n OR m) # bs) (decodeNibbles nibbles)"

definition hexToKeybytes :: "bytes \<Rightarrow> bytes option" where
  "hexToKeybytes hex =
     (let hex = (if hasTerm hex then butlast hex else hex) in
      if odd (length hex) then None else decodeNibbles hex)"

definition hexToCompact :: "bytes \<Rightarrow> bytes option" where
  "hexToCompact hex =
     (let terminator = (if hasTerm hex then 1 else 0 :: byte);
          hex = (if hasTerm hex then butlast hex else hex);
          flag = push_bit 5 terminator;
          (flag, hex) = (if odd (length hex) then (flag OR push_bit 4 1 OR hd hex, tl hex) else (flag, hex))
      in map_option (\<lambda>bs. flag # bs) (decodeNibbles hex))"

definition compactToHex :: "bytes \<Rightarrow> bytes" where
  "compactToHex compact =
     (if compact = [] then compact
      else
        (let base = keybytesToHex compact;
             base = (if hd base < 2 then butlast base else base);
             chop = 2 - (hd base AND 1)
         in drop (unat chop) base))"

fun prefixLen :: "bytes \<Rightarrow> bytes \<Rightarrow> nat" where
  "prefixLen (x # a) (y # b) = (if x = y then Suc (prefixLen a b) else 0)"
| "prefixLen _ _ = 0"

section \<open>Nibbles\<close>

definition nibbles :: "bytes \<Rightarrow> bool" where
  "nibbles h \<longleftrightarrow> (\<forall>x \<in> set h. x < 16)"

lemma nibbles_simps [simp]: "nibbles []" "nibbles (x # h) \<longleftrightarrow> x < 16 \<and> nibbles h" "nibbles (h @ h') \<longleftrightarrow> nibbles h \<and> nibbles h'"
  by (auto simp: nibbles_def)

lemma byte_parts: "push_bit 4 (b div 16) OR b mod 16 = b" "b div 16 < 16" "b mod 16 < 16" for b :: byte
proof -
  have d: "b div 16 = drop_bit 4 b" "b mod 16 = take_bit 4 b"
    by (simp_all add: drop_bit_eq_div take_bit_eq_mod)
  show "push_bit 4 (b div 16) OR b mod 16 = b" 
    unfolding d by (rule bit_eqI) (auto simp: bit_or_iff bit_push_bit_iff bit_drop_bit_eq bit_take_bit_iff bit_imp_le_length)
  show "b div 16 < 16" "b mod 16 < 16"
    by (simp_all add: word_less_nat_alt unat_div unat_mod less_mult_imp_div_less unsigned_less [of b, simplified])
qed

lemma nibble_pair:
  assumes "n < 16" "m < (16 :: byte)"
  shows "(push_bit 4 n OR m) div 16 = n" "(push_bit 4 n OR m) mod 16 = m"
proof -
  have s: "take_bit 4 n = n" "take_bit 4 m = m"
    using assms by (simp_all add: take_bit_eq_mod mod_word_less)
  have b: "bit n k \<Longrightarrow> k < 4" "bit m k \<Longrightarrow> k < 4" for k
    using s bit_take_bit_iff by metis+
  have d: "drop_bit 4 (push_bit 4 n OR m) = n" "take_bit 4 (push_bit 4 n OR m) = m"
    by (rule bit_eqI; use b in \<open>auto simp: bit_or_iff bit_push_bit_iff bit_drop_bit_eq bit_take_bit_iff\<close>)+
  then show "(push_bit 4 n OR m) div 16 = n" "(push_bit 4 n OR m) mod 16 = m"
    by (simp_all add: drop_bit_eq_div take_bit_eq_mod)
qed

lemma decodeNibbles_loop [simp]: "decodeNibbles (keybytesToHex_loop k) = Some k"
  by (induction k) (simp_all add: byte_parts)

lemma nibbles_loop [simp]: "nibbles (keybytesToHex_loop k)" "length (keybytesToHex_loop k) = 2 * length k"
  by (induction k) (simp_all add: byte_parts)

lemma decodeNibbles_even:
  "nibbles h \<Longrightarrow> even (length h) \<Longrightarrow> \<exists>bs. decodeNibbles h = Some bs \<and> keybytesToHex_loop bs = h"
proof (induction h rule: decodeNibbles.induct)
  case (3 n m h)
  then obtain bs where "decodeNibbles h = Some bs" "keybytesToHex_loop bs = h" by auto
  then show ?case using 3(2) nibble_pair [of n m] by simp
qed simp_all

lemma hasTerm_nibbles: "nibbles ns \<Longrightarrow> \<not> hasTerm ns" "hasTerm (ns @ [16])"
proof -
  assume "nibbles ns"
  then have "ns \<noteq> [] \<Longrightarrow> last ns < 16" by (simp add: nibbles_def)
  then show "\<not> hasTerm ns" by (auto simp: hasTerm_def)
qed (simp add: hasTerm_def)

text \<open>A valid hex key: nibbles, then possibly the terminator. A valid compact key: a flag of two bits, and no stray nibble when the length is even.\<close>

definition hex_key :: "bytes \<Rightarrow> bool \<Rightarrow> bytes" where
  "hex_key ns t = ns @ (if t then [terminator16] else [])"

definition compact_ok :: "bytes \<Rightarrow> bool" where
  "compact_ok c \<longleftrightarrow> c \<noteq> [] \<and> hd c div 16 < 4 \<and> (even (unat (hd c div 16)) \<longrightarrow> hd c mod 16 = 0)"

definition flag_nibble :: "bool \<Rightarrow> bool \<Rightarrow> byte" where
  "flag_nibble t o1 = (if t then 2 else 0) + (if o1 then 1 else 0)"

text \<open>The compact form as hex: the flag, the padding, the nibbles.\<close>

lemma hexToCompact_eq:
  assumes "nibbles ns"
  shows "\<exists>c. hexToCompact (hex_key ns t) = Some c \<and> c \<noteq> [] \<and>
    keybytesToHex_loop c = flag_nibble t (odd (length ns)) # (if odd (length ns) then ns else 0 # ns)"
proof -
  have h: "hasTerm (hex_key ns t) = t" "(if t then butlast (hex_key ns t) else hex_key ns t) = ns"
    using hasTerm_nibbles(1) [OF assms] by (simp_all add: hex_key_def hasTerm_nibbles(2))
  show ?thesis
  proof (cases "odd (length ns)")
    case False
    then obtain bs where bs: "decodeNibbles ns = Some bs" "keybytesToHex_loop bs = ns" using decodeNibbles_even [OF assms] by auto
    have "push_bit 5 (if t then 1 else 0 :: byte) div 16 = flag_nibble t False" "push_bit 5 (if t then 1 else 0 :: byte) mod 16 = 0"
      by (cases t; simp add: flag_nibble_def)+
    then show ?thesis using False bs unfolding hexToCompact_def Let_def h by simp
  next
    case True
    then obtain n ms where ns: "ns = n # ms" by (cases ns) auto
    then obtain bs where bs: "decodeNibbles ms = Some bs" "keybytesToHex_loop bs = ms" using decodeNibbles_even [of ms] assms True by auto
    have f: "push_bit 5 (if t then 1 else 0 :: byte) OR push_bit 4 1 = push_bit 4 (flag_nibble t True)" "flag_nibble t True < 16"
      by (cases t; simp add: flag_nibble_def)+
    have "(push_bit 5 (if t then 1 else 0 :: byte) OR push_bit 4 1 OR n) div 16 = flag_nibble t True"
      "(push_bit 5 (if t then 1 else 0 :: byte) OR push_bit 4 1 OR n) mod 16 = n"
      using nibble_pair [OF f(2), of n] assms ns unfolding or.assoc [symmetric] f(1) by simp_all
    then show ?thesis using True bs ns unfolding hexToCompact_def Let_def h by simp
  qed
qed

lemma compactToHex_flag:
  assumes "keybytesToHex_loop c = flag_nibble t o1 # (if o1 then ns else 0 # ns)" "c \<noteq> []"
  shows "compactToHex c = hex_key ns t"
proof -
  have b: "keybytesToHex c = flag_nibble t o1 # (if o1 then ns else 0 # ns) @ [16]" by (simp add: keybytesToHex_def assms(1))
  have f: "flag_nibble t o1 < 2 \<longleftrightarrow> \<not> t" "unat (2 - (flag_nibble t o1 AND 1)) = (if o1 then 1 else 2)"
    by (cases t; cases o1; simp add: flag_nibble_def)+
  show ?thesis
    unfolding compactToHex_def Let_def b using assms(2) f by (cases t; cases o1) (simp_all add: hex_key_def)
qed

lemma compact_split:
  assumes "compact_ok c"
  obtains t ns where "keybytesToHex_loop c = flag_nibble t (odd (length ns)) # (if odd (length ns) then ns else 0 # ns)" "nibbles ns"
proof -
  obtain b bs where c: "c = b # bs" using assms by (cases c) (auto simp: compact_ok_def)
  have b: "b div 16 \<in> {0, 1, 2, 3}" "even (unat (b div 16)) \<longrightarrow> b mod 16 = 0"
    using assms c by (auto simp: compact_ok_def word_less_nat_alt word_unat_eq_iff)
  then consider "b div 16 = 0" | "b div 16 = 2" | "b div 16 = 1" | "b div 16 = 3" by auto
  then show ?thesis
  proof cases
    case 1
    moreover have "b mod 16 = 0" using b(2) 1 by simp
    ultimately show ?thesis by (intro that [of False "keybytesToHex_loop bs"]) (simp_all add: c flag_nibble_def)
  next
    case 2
    moreover have "b mod 16 = 0" using b(2) 2 by simp
    ultimately show ?thesis by (intro that [of True "keybytesToHex_loop bs"]) (simp_all add: c flag_nibble_def)
  next
    case 3
    then show ?thesis by (intro that [of False "b mod 16 # keybytesToHex_loop bs"]) (simp_all add: c byte_parts flag_nibble_def)
  next
    case 4
    then show ?thesis by (intro that [of True "b mod 16 # keybytesToHex_loop bs"]) (simp_all add: c byte_parts flag_nibble_def)
  qed
qed

text \<open>C40: The key encodings are inverse to each other. A byte key survives the way to hex and back. A hex key, terminated or not, survives the way to its compact
  form and back, and every valid compact form is the compact form of a hex key; no conversion of a valid key panics.\<close>

theorem key_encodings:
  "hexToKeybytes (keybytesToHex k) = Some k \<and>
   (nibbles ns \<longrightarrow> map_option compactToHex (hexToCompact (hex_key ns t)) = Some (hex_key ns t)) \<and>
   (compact_ok c \<longrightarrow> hexToCompact (compactToHex c) = Some c)"
proof (intro conjI impI)
  show "hexToKeybytes (keybytesToHex k) = Some k"
    by (simp add: hexToKeybytes_def keybytesToHex_def hasTerm_nibbles)
  assume "nibbles ns"
  then obtain c where "hexToCompact (hex_key ns t) = Some c" "c \<noteq> []"
    "keybytesToHex_loop c = flag_nibble t (odd (length ns)) # (if odd (length ns) then ns else 0 # ns)" using hexToCompact_eq by blast
  then show "map_option compactToHex (hexToCompact (hex_key ns t)) = Some (hex_key ns t)" by (simp add: compactToHex_flag)
next
  assume c: "compact_ok c"
  then obtain t ns where s: "keybytesToHex_loop c = flag_nibble t (odd (length ns)) # (if odd (length ns) then ns else 0 # ns)" "nibbles ns"
    by (rule compact_split)
  obtain d where d: "hexToCompact (hex_key ns t) = Some d"
    "keybytesToHex_loop d = flag_nibble t (odd (length ns)) # (if odd (length ns) then ns else 0 # ns)"
    using hexToCompact_eq [OF s(2)] by blast
  have "decodeNibbles (keybytesToHex_loop c) = decodeNibbles (keybytesToHex_loop d)" using s d by simp
  then have "c = d" by simp
  moreover have "compactToHex c = hex_key ns t" using compactToHex_flag [OF s(1)] c by (simp add: compact_ok_def)
  ultimately show "hexToCompact (compactToHex c) = Some c" using d(1) by simp
qed

theorem key_encodings_witness:
  "map_option compactToHex (hexToCompact [1, 2, 3, 16]) = Some [1, 2, 3, 16] \<and> hexToCompact (compactToHex [0x20, 0x0f]) = Some [0x20, 0x0f]"
  using key_encodings [of "[]" "[1, 2, 3]" True "[0x20, 0x0f]"] by (simp add: hex_key_def compact_ok_def)

end
