(* ===== verification/Trie_Insert.thy ===== *)
theory Trie_Insert
  imports Trie_Core
begin

text \<open>
  Insertion into the trie of \<^verbatim>\<open>src/trie/trie.go\<close>: on a trie in its minimal form \<^const>\<open>trie_insert\<close> returns, within the fuel that the length of the key gives, the minimal form
  of the updated contents, and every hash that a node of the result remembers is still the hash of the trie below it.
\<close>

section \<open>Insertion keeps the minimal form\<close>

definition need :: "node \<Rightarrow> bytes \<Rightarrow> nat" where
  "need n key = 2 * length key + (case n of hashNode _ \<Rightarrow> 2 | _ \<Rightarrow> 1)"

lemma need_le: "need n key \<le> 2 * length key + 2"
  by (simp add: need_def split: node.split)

lemma need_nonzero [simp]: "need n key \<noteq> 0"
  by (simp add: need_def split: node.split)

text \<open>A key fits a trie when it can be looked up in it: at a value nothing of the key is left.\<close>

definition fits :: "ptrie \<Rightarrow> bytes \<Rightarrow> bool" where
  "fits t key \<longleftrightarrow> (key = [] \<or> path key True) \<and> (t = PNil \<or> canon t \<and> (is_val t \<longleftrightarrow> key = []))"

definition inserted :: "(ptrie \<Rightarrow> bytes) \<Rightarrow> node_db \<Rightarrow> ptrie \<Rightarrow> bytes \<Rightarrow> bytes \<Rightarrow> (bool \<times> node) trie_result \<Rightarrow> bool" where
  "inserted H db t key v r \<longleftrightarrow>
     (\<exists>dirty n' t'. r = Some (Inr (dirty, n')) \<and> loads H db t' n' \<and> canon t' \<and> (is_val t' \<longleftrightarrow> key = []) \<and>
        plookup t' = (plookup t)(key \<mapsto> v) \<and> (\<not> dirty \<longrightarrow> t' = t) \<and> (t \<noteq> PNil \<and> \<not> is_short t \<longrightarrow> \<not> is_short t'))"

lemma insertedI:
  assumes "r = Some (Inr (dirty, n'))" "loads H db t' n'" "canon t'" "is_val t' \<longleftrightarrow> key = []"
    "plookup t' = (plookup t)(key \<mapsto> v)" "\<not> dirty \<Longrightarrow> t' = t"
    "t \<noteq> PNil \<Longrightarrow> \<not> is_short t \<Longrightarrow> \<not> is_short t'"
  shows "inserted H db t key v r"
  using assms unfolding inserted_def by blast

lemma insertedE:
  assumes "inserted H db t key v r"
  obtains dirty n' t' where "r = Some (Inr (dirty, n'))" "loads H db t' n'" "canon t'" "is_val t' \<longleftrightarrow> key = []"
    "plookup t' = (plookup t)(key \<mapsto> v)" "\<not> dirty \<longrightarrow> t' = t" "t \<noteq> PNil \<and> \<not> is_short t \<longrightarrow> \<not> is_short t'"
  using assms unfolding inserted_def by blast

lemma path_unique: "path k e \<Longrightarrow> path k e' \<Longrightarrow> e = e'"
  by (induction k) (auto split: if_splits)

lemma insert_nil:
  "0 < f \<Longrightarrow> trie_insert f db NilNode p k val = Some (Inr (True, if k = [] then val else shortNode k val newFlag))"
  by (cases f) auto

lemma loads_sub: "loads H db u c \<Longrightarrow> loads H db (sub k u) (if k = [] then c else shortNode k c newFlag)"
  by (simp add: sub_def)

lemma canon_sub:
  assumes "path (a # s) (is_val u)" "canon u" "\<not> is_short u"
  shows "canon (sub s u)" "is_val (sub s u) \<longleftrightarrow> unat a = 16" "sub s u \<noteq> PNil"
  using assms by (auto simp: sub_def split: if_splits) (cases u; auto simp: word_unat_eq_iff)+

lemma canon_branch:
  assumes "a \<noteq> b" "unat a < 17" "unat b < 17" "canon x" "is_val x \<longleftrightarrow> unat a = 16" "canon y" "is_val y \<longleftrightarrow> unat b = 16"
  shows "canon (PFull (nils[unat b := y, unat a := x]))"
proof -
  have "x \<noteq> PNil" "y \<noteq> PNil" "unat a \<noteq> unat b" using assms(1,4,6) by (auto simp: word_unat_eq_iff)
  then have "\<exists>i < 17. \<exists>j < 17. i \<noteq> j \<and> nils[unat b := y, unat a := x] ! i \<noteq> PNil \<and> nils[unat b := y, unat a := x] ! j \<noteq> PNil"
    using assms(2,3) by (intro exI [of _ "unat a"] exI [of _ "unat b"] conjI) (simp_all add: nth_list_update)
  then show ?thesis using assms by (auto simp: nth_list_update)
qed

lemma loads_branch:
  assumes "unat a < 17" "unat b < 17" "loads H db x nx" "loads H db y ny"
  shows "loads H db (PFull (nils[unat b := y, unat a := x])) (fullNode (empty_children[unat b := ny, unat a := nx]) newFlag)"
  using assms by (auto simp: empty_children_def nth_list_update)

lemma canon_full_upd:
  assumes "canon (PFull ts)" "i < 17" "canon t'" "is_val t' \<longleftrightarrow> i = 16"
  shows "canon (PFull (ts[i := t']))"
proof -
  have len: "length ts = 17" and all: "\<forall>i < 17. ts ! i = PNil \<or> canon (ts ! i) \<and> (is_val (ts ! i) \<longleftrightarrow> i = 16)" using assms(1) by auto
  obtain j k where jk: "j < 17" "k < 17" "j \<noteq> k" "ts ! j \<noteq> PNil" "ts ! k \<noteq> PNil" using assms(1) by auto
  have "t' \<noteq> PNil" using assms(3) by auto
  then have "\<exists>j < 17. \<exists>k < 17. j \<noteq> k \<and> ts[i := t'] ! j \<noteq> PNil \<and> ts[i := t'] ! k \<noteq> PNil"
    using jk len assms(2) by (intro exI [of _ j] exI [of _ k] conjI) (auto simp: nth_list_update)
  then show ?thesis using len all assms by (auto simp: nth_list_update)
qed

lemma path_Cons:
  assumes "path (x # r) True"
  shows "unat x < 17" "r = [] \<or> path r True" "r = [] \<longleftrightarrow> unat x = 16"
  using assms path_hd [OF assms] by (auto simp: word_unat_eq_iff split: if_splits)

text \<open>The branch where the key and the key of a short node part.\<close>

lemma insert_branch:
  assumes n: "loads H db u c" "canon (PShort k u)" and v: "v \<noteq> []" and key: "path key True" "key = p @ a # r" "k = p @ b # s" "a \<noteq> b" and f: "0 < f"
  shows "inserted H db (PShort k u) key v (trie_insert (Suc f) db (shortNode k c fl) prefix key (valueNode v))"
proof -
  have k: "path k (is_val u)" "canon u" "\<not> is_short u" using n(2) by auto
  have pa: "path (a # r) True" "path (b # s) (is_val u)" "p \<noteq> [] \<Longrightarrow> path p False"
    using key k(1) by (auto simp: path_append)
  have lt: "unat a < 17" "unat b < 17" using path_hd pa(1,2) by blast+
  let ?na = "if r = [] then valueNode v else shortNode r (valueNode v) newFlag" and ?nb = "if s = [] then c else shortNode s c newFlag"
  let ?b = "fullNode (empty_children[unat b := ?nb, unat a := ?na]) newFlag"
  let ?t = "PFull (nils[unat b := sub s u, unat a := sub r (PVal v)])"
  have ca: "canon (sub r (PVal v))" "is_val (sub r (PVal v)) \<longleftrightarrow> unat a = 16" using canon_sub [of a r "PVal v"] pa(1) v by simp_all
  have cb: "canon (sub s u)" "is_val (sub s u) \<longleftrightarrow> unat b = 16" using canon_sub [OF pa(2) k(2,3)] by simp_all
  have t: "canon ?t" by (rule canon_branch [OF key(4) lt ca cb])
  have "loads H db (sub r (PVal v)) ?na" "loads H db (sub s u) ?nb"
    using loads_sub [of H db "PVal v" "valueNode v" r] loads_sub [OF n(1), of s] by auto
  then have lb: "loads H db ?t ?b" by (rule loads_branch [OF lt])
  have ml: "prefixLen key k = length p" "prefixLen key k \<noteq> length k" using prefixLen_split [OF key(4)] key(2,3) by simp_all
  have run: "trie_insert (Suc f) db (shortNode k c fl) prefix key (valueNode v) =
      Some (Inr (True, if p = [] then ?b else shortNode p ?b newFlag))"
    using ml lt key(2,3) insert_nil [OF f] by (simp add: Let_def nth_append not_le)
  have look: "plookup (sub p ?t) = (plookup (PShort k u))(key \<mapsto> v)"
    using plookup_short_upd [OF plookup_branch_val [OF key(4) lt, of s u r v], of p] key(2,3) by (simp add: plookup_short_append)
  show ?thesis
    by (rule insertedI [OF run, of _ _ "sub p ?t"]) (use lb t pa(3) look key in \<open>auto simp: sub_def\<close>)
qed

definition inserts :: "nat \<Rightarrow> (ptrie \<Rightarrow> bytes) \<Rightarrow> node_db \<Rightarrow> bytes \<Rightarrow> bool" where
  "inserts f H db v \<longleftrightarrow>
     (\<forall>t n prefix key. loads H db t n \<longrightarrow> fits t key \<longrightarrow> need n key \<le> f \<longrightarrow>
        inserted H db t key v (trie_insert f db n prefix key (valueNode v)))"

lemma insertsD:
  "inserts f H db v \<Longrightarrow> loads H db t n \<Longrightarrow> fits t key \<Longrightarrow> need n key \<le> f \<Longrightarrow>
     inserted H db t key v (trie_insert f db n prefix key (valueNode v))"
  by (simp add: inserts_def)

lemma insert_hash:
  assumes IH: "inserts f H db v" and n: "loads H db t (hashNode h)" "fits t key" "need (hashNode h) key \<le> Suc f" and key: "key \<noteq> []"
  shows "inserted H db t key v (trie_insert (Suc f) db (hashNode h) prefix key (valueNode v))"
proof -
  obtain m where m: "resolveHash db h prefix = Inr m" "loads H db t m" "\<And>h. m \<noteq> hashNode h" by (rule loads_hash [OF n(1)]) blast
  have "need m key \<le> f" using n(3) m(3) by (auto simp: need_def split: node.splits)
  from insertsD [OF IH m(2) n(2) this, of prefix] obtain dirty n' t' where
    r: "trie_insert f db m prefix key (valueNode v) = Some (Inr (dirty, n'))" "loads H db t' n'" "canon t'" "is_val t' \<longleftrightarrow> key = []"
      "plookup t' = (plookup t)(key \<mapsto> v)" "\<not> dirty \<longrightarrow> t' = t" "t \<noteq> PNil \<and> \<not> is_short t \<longrightarrow> \<not> is_short t'" by (rule insertedE)
  have "trie_insert (Suc f) db (hashNode h) prefix key (valueNode v) = Some (Inr (dirty, if dirty then n' else m))"
    using key m(1) r(1) by simp
  moreover have "loads H db t' (if dirty then n' else m)" using r(2,6) m(2) by auto
  ultimately show ?thesis using r(3-7) by (intro insertedI) auto
qed

lemma fits_below:
  assumes "path (k @ r) True" "path k (is_val u)" "canon u"
  shows "fits u r"
proof (cases "r = []")
  case True
  then show ?thesis using assms path_unique [of k True "is_val u"] by (auto simp: fits_def)
next
  case False
  then have "path k False" "path r True" using assms(1) by (auto simp: path_append)
  then show ?thesis using False assms(3) path_unique [OF _ assms(2), of False] by (simp add: fits_def)
qed

lemma insert_short:
  assumes IH: "inserts f H db v" and n: "loads H db t (shortNode k c fl)" "fits t key" "need (shortNode k c fl) key \<le> Suc f"
    and key: "key \<noteq> []" and v: "v \<noteq> []"
  shows "inserted H db t key v (trie_insert (Suc f) db (shortNode k c fl) prefix key (valueNode v))"
proof -
  obtain u where u: "t = PShort k u" "loads H db u c" by (rule loads_short [OF n(1)])
  have p: "path key True" "canon t" using n(2) key u(1) by (auto simp: fits_def)
  have cu: "path k (is_val u)" "canon u" "\<not> is_short u" "k \<noteq> []" using p(2) u(1) by auto
  show ?thesis
  proof (cases rule: key_cases [OF p(1) cu(1)])
    case (1 r)
    have fits: "fits u r" using fits_below p(1) 1 cu(1,2) by blast
    have "need c r \<le> f" using need_le [of c r] n(3) 1 cu(4) by (cases k) (auto simp: need_def)
    from insertsD [OF IH u(2) fits this, of "prefix @ k"] obtain dirty n' t' where
      r: "trie_insert f db c (prefix @ k) r (valueNode v) = Some (Inr (dirty, n'))" "loads H db t' n'" "canon t'" "is_val t' \<longleftrightarrow> r = []"
        "plookup t' = (plookup u)(r \<mapsto> v)" "\<not> dirty \<longrightarrow> t' = u" "u \<noteq> PNil \<and> \<not> is_short u \<longrightarrow> \<not> is_short t'" by (rule insertedE)
    have run: "trie_insert (Suc f) db (shortNode k c fl) prefix key (valueNode v) =
        Some (Inr (dirty, if dirty then shortNode k n' newFlag else shortNode k c fl))"
      using key 1 r(1) by (simp add: prefixLen_match)
    have "u \<noteq> PNil" using cu(2) by auto
    then have "canon (PShort k t')" using r(3,4,7) cu fits by (simp add: fits_def)
    moreover have "plookup (PShort k t') = (plookup t)(key \<mapsto> v)" using plookup_short_upd [OF r(5), of k] u(1) 1 by simp
    moreover have "loads H db (PShort k t') (if dirty then shortNode k n' newFlag else shortNode k c fl)"
      using r(2,6) n(1) u(1) by (cases dirty) (simp_all del: loads.simps(3) add: loads.simps(3) [of _ _ _ _ "shortNode k n' newFlag"])
    ultimately show ?thesis using r(6) u(1) key by (intro insertedI [OF run, of _ _ "PShort k t'"]) auto
  next
    case (2 q a r b s)
    have "0 < f" using n(3) key by (cases key) (auto simp: need_def)
    then show ?thesis unfolding u(1) using insert_branch [OF u(2) _ v p(1) 2] p(2) u(1) by simp
  qed
qed

lemma insert_full:
  assumes IH: "inserts f H db v" and n: "loads H db t (fullNode cs fl)" "fits t key" "need (fullNode cs fl) key \<le> Suc f" and key: "key \<noteq> []"
  shows "inserted H db t key v (trie_insert (Suc f) db (fullNode cs fl) prefix key (valueNode v))"
proof -
  obtain ts where ts: "t = PFull ts" "length cs = length ts" "\<And>i. i < length ts \<Longrightarrow> loads H db (ts ! i) (cs ! i)"
    by (rule loads_full [OF n(1)]) blast
  have p: "path key True" "canon (PFull ts)" using n(2) key ts(1) by (auto simp: fits_def)
  have len: "length ts = 17" using p(2) by simp
  obtain x r where xr: "key = x # r" using key by (cases key) auto
  note x = path_Cons [OF p(1) [unfolded xr]]
  have l: "loads H db (ts ! unat x) (cs ! unat x)" using ts(3) x(1) len by simp
  have "fits (ts ! unat x) r" using p(2) x by (auto simp: fits_def)
  moreover have "need (cs ! unat x) r \<le> f" using need_le [of "cs ! unat x" r] n(3) xr by (simp add: need_def)
  ultimately obtain dirty n' t' where
    r: "trie_insert f db (cs ! unat x) (prefix @ [x]) r (valueNode v) = Some (Inr (dirty, n'))" "loads H db t' n'" "canon t'" "is_val t' \<longleftrightarrow> r = []"
      "plookup t' = (plookup (ts ! unat x))(r \<mapsto> v)" "\<not> dirty \<longrightarrow> t' = ts ! unat x" using insertedE [OF insertsD [OF IH l]] by metis
  have run: "trie_insert (Suc f) db (fullNode cs fl) prefix key (valueNode v) =
      Some (Inr (dirty, if dirty then fullNode (cs[unat x := n']) newFlag else fullNode cs fl))"
    using xr r(1) x(1) ts(2) len by simp
  have "loads H db (PFull (ts[unat x := t'])) (if dirty then fullNode (cs[unat x := n']) newFlag else fullNode cs fl)"
  proof (cases dirty)
    case True
    then show ?thesis using ts r(2) x(1) len by (auto simp: nth_list_update)
  next
    case False
    then show ?thesis using r(6) n(1) ts(1) by simp
  qed
  moreover have "canon (PFull (ts[unat x := t']))" using canon_full_upd [OF p(2) x(1) r(3)] r(4) x(3) by simp
  moreover have "plookup (PFull (ts[unat x := t'])) = (plookup t)(key \<mapsto> v)"
    using plookup_full_upd [OF r(5)] x(1) len ts(1) xr by simp
  ultimately show ?thesis using ts(1) r(6) key by (intro insertedI [OF run, of _ _ "PFull (ts[unat x := t'])"]) auto
qed

lemma insert_value:
  assumes "loads H db t n" "fits t []" "v \<noteq> []"
  shows "inserted H db t [] v (trie_insert (Suc f) db n prefix [] (valueNode v))"
proof -
  consider "t = PNil" "n = NilNode" | w where "t = PVal w" "n = valueNode w" using assms(1,2) by (cases t) (auto simp: fits_def)
  then show ?thesis
  proof cases
    case 1
    then have "plookup (PVal v) = (plookup t)([] \<mapsto> v)" by (auto simp: fun_eq_iff)
    then show ?thesis using 1 assms(3) by (intro insertedI [of _ True "valueNode v" _ _ "PVal v"]) auto
  next
    case (2 w)
    then have "plookup (PVal v) = (plookup t)([] \<mapsto> v)" by (auto simp: fun_eq_iff)
    then show ?thesis using 2 assms(3) by (intro insertedI [of _ "w \<noteq> v" "valueNode v" _ _ "PVal v"]) auto
  qed
qed

lemma insert_into_nil:
  assumes "path key True" "v \<noteq> []" "key \<noteq> []"
  shows "inserted H db PNil key v (trie_insert (Suc f) db NilNode prefix key (valueNode v))"
proof -
  have "plookup (PShort key (PVal v)) = (plookup PNil)(key \<mapsto> v)" by (auto simp: fun_eq_iff)
  then show ?thesis
    using assms by (intro insertedI [of _ True "shortNode key (valueNode v) newFlag" _ _ "PShort key (PVal v)"]) auto
qed

lemma trie_insert_ok: "v \<noteq> [] \<Longrightarrow> inserts f H db v"
proof (induction f)
  case 0
  show ?case by (simp add: inserts_def)
next
  case (Suc f)
  show ?case
    unfolding inserts_def
  proof (intro allI impI)
    fix t n prefix key
    assume a: "loads H db t n" "fits t key" "need n key \<le> Suc f"
    show "inserted H db t key v (trie_insert (Suc f) db n prefix key (valueNode v))"
    proof (cases "key = []")
      case True
      then show ?thesis using insert_value a(1,2) Suc.prems by blast
    next
      case False
      then have "path key True" "\<not> is_val t" using a(2) by (auto simp: fits_def)
      then show ?thesis
        using a False Suc insert_hash insert_short insert_full insert_into_nil by (cases n) (auto simp: loads_leaf simp del: trie_insert.simps)
    qed
  qed
qed

end
