(* ===== verification/Trie_Delete.thy ===== *)
theory Trie_Delete
  imports Trie_Insert
begin

text \<open>
  Deletion from the trie of \<^verbatim>\<open>src/trie/trie.go\<close>: on a trie in its minimal form \<^const>\<open>trie_delete\<close> returns, within the fuel that the length of the key gives, the minimal form of the
  contents without the key. A full node with a single child left becomes a short node, and a short node above a short node is joined with it.
\<close>

section \<open>Joining short nodes\<close>

definition join :: "bytes \<Rightarrow> ptrie \<Rightarrow> ptrie" where
  "join k t = (case t of PShort k' u \<Rightarrow> PShort (k @ k') u | _ \<Rightarrow> PShort k t)"

lemma join_kind [simp]: "join k t \<noteq> PNil" "\<not> is_val (join k t)" "is_short (join k t)"
  by (simp_all add: join_def split: ptrie.split)

lemma plookup_join [simp]: "plookup (join k t) = plookup (PShort k t)"
  by (cases t) (simp_all only: join_def ptrie.case plookup_short_append)

lemma canon_join:
  assumes "path k (is_val t)" "canon t" "k \<noteq> []"
  shows "canon (join k t)"
  using assms by (cases t) (auto simp: join_def path_append)

lemma loads_join:
  assumes "loads H db t m" "\<And>h. m \<noteq> hashNode h" "loads H db t n"
  shows "loads H db (join k t) (case m of shortNode k' val' _ \<Rightarrow> shortNode (k @ k') val' newFlag | _ \<Rightarrow> shortNode k n newFlag)"
  using assms by (cases t; cases m) (auto simp: join_def)

lemma loads_resolve:
  assumes "loads H db t n"
  obtains m where "resolve db n prefix = Inr m" "loads H db t m" "\<And>h. m \<noteq> hashNode h"
proof (cases n)
  case (hashNode h)
  then have "loads H db t (hashNode h)" using assms by simp
  then obtain m where "resolveHash db h prefix = Inr m" "loads H db t m" "\<And>h. m \<noteq> hashNode h" by (rule loads_hash) blast
  then show ?thesis using hashNode by (intro that) (simp_all add: resolve_def)
qed (use assms that in \<open>auto simp: resolve_def\<close>)

section \<open>The single child\<close>

lemma single_child_seen: "0 \<le> pos \<Longrightarrow> single_child i cs pos = (if \<forall>c \<in> set cs. c = NilNode then pos else -2)"
  by (induction cs arbitrary: i) auto

lemma single_child_one:
  "j < length cs \<Longrightarrow> cs ! j \<noteq> NilNode \<Longrightarrow> (\<And>i. i < length cs \<Longrightarrow> i \<noteq> j \<Longrightarrow> cs ! i = NilNode) \<Longrightarrow> single_child i cs (-1) = int (i + j)"
proof (induction cs arbitrary: i j)
  case (Cons c cs)
  show ?case
  proof (cases j)
    case 0
    have "cs ! k = NilNode" if "k < length cs" for k using Cons.prems(3) [of "Suc k"] that 0 by simp
    then have "\<forall>c \<in> set cs. c = NilNode" by (auto simp: in_set_conv_nth)
    then show ?thesis using Cons.prems(2) 0 by (simp add: single_child_seen)
  next
    case (Suc j')
    have "cs ! k = NilNode" if "k < length cs" "k \<noteq> j'" for k using Cons.prems(3) [of "Suc k"] that Suc by simp
    then show ?thesis using Cons.IH [of j' "Suc i"] Cons.prems(1,2) Cons.prems(3) [of 0] Suc by simp
  qed
qed simp

lemma single_child_many:
  "j < k \<Longrightarrow> k < length cs \<Longrightarrow> cs ! j \<noteq> NilNode \<Longrightarrow> cs ! k \<noteq> NilNode \<Longrightarrow> single_child i cs (-1) = -2"
proof (induction cs arbitrary: i j k)
  case (Cons c cs)
  obtain k' where k: "k = Suc k'" using Cons.prems(1) by (cases k) auto
  show ?case
  proof (cases "c = NilNode")
    case True
    then obtain j' where "j = Suc j'" using Cons.prems(3) by (cases j) auto
    then show ?thesis using True Cons.IH [of j' k' "Suc i"] Cons.prems k by simp
  next
    case False
    then show ?thesis using Cons.prems k by (auto simp: single_child_seen)
  qed
qed simp

lemma plookup_single:
  assumes "j < length ts" "length ts \<le> 256" "\<And>i. i < length ts \<Longrightarrow> i \<noteq> j \<Longrightarrow> ts ! i = PNil"
  shows "plookup (PFull ts) = plookup (PShort [of_nat j] (ts ! j))"
proof
  fix x
  have j: "unat (of_nat j :: byte) = j" using assms(1,2) by (simp add: unat_of_nat)
  show "plookup (PFull ts) x = plookup (PShort [of_nat j] (ts ! j)) x"
  proof (cases x)
    case (Cons a r)
    show ?thesis
    proof (cases "unat a = j")
      case True
      then show ?thesis using Cons j assms(1) by (auto simp: word_unat_eq_iff)
    next
      case False
      then show ?thesis using Cons j assms(3) [of "unat a"] by (auto simp: word_unat_eq_iff)
    qed
  qed simp
qed

section \<open>Deletion keeps the minimal form\<close>

definition deleted :: "(ptrie \<Rightarrow> bytes) \<Rightarrow> node_db \<Rightarrow> ptrie \<Rightarrow> bytes \<Rightarrow> (bool \<times> node) trie_result \<Rightarrow> bool" where
  "deleted H db t key r \<longleftrightarrow>
     (\<exists>dirty n' t'. r = Some (Inr (dirty, n')) \<and> loads H db t' n' \<and> (t' = PNil \<or> canon t' \<and> \<not> is_val t' \<and> key \<noteq> []) \<and>
        plookup t' = (plookup t)(key := None) \<and> (\<not> dirty \<longrightarrow> t' = t) \<and> (dirty \<longrightarrow> (\<forall>h. n' \<noteq> hashNode h)) \<and>
        (t' = PNil \<longrightarrow> t = PNil \<or> is_val t \<or> is_short t))"

lemma deletedI:
  assumes "r = Some (Inr (dirty, n'))" "loads H db t' n'" "t' = PNil \<or> canon t' \<and> \<not> is_val t' \<and> key \<noteq> []"
    "plookup t' = (plookup t)(key := None)" "\<not> dirty \<Longrightarrow> t' = t" "\<And>h. dirty \<Longrightarrow> n' \<noteq> hashNode h"
    "t' = PNil \<Longrightarrow> t = PNil \<or> is_val t \<or> is_short t"
  shows "deleted H db t key r"
  using assms unfolding deleted_def by blast

lemma deletedE:
  assumes "deleted H db t key r"
  obtains dirty n' t' where "r = Some (Inr (dirty, n'))" "loads H db t' n'" "t' = PNil \<or> canon t' \<and> \<not> is_val t' \<and> key \<noteq> []"
    "plookup t' = (plookup t)(key := None)" "\<not> dirty \<longrightarrow> t' = t" "dirty \<longrightarrow> (\<forall>h. n' \<noteq> hashNode h)"
    "t' = PNil \<longrightarrow> t = PNil \<or> is_val t \<or> is_short t"
  using assms unfolding deleted_def by blast

definition deletes :: "nat \<Rightarrow> (ptrie \<Rightarrow> bytes) \<Rightarrow> node_db \<Rightarrow> bool" where
  "deletes f H db \<longleftrightarrow>
     (\<forall>t n prefix key. loads H db t n \<longrightarrow> fits t key \<longrightarrow> need n key \<le> f \<longrightarrow> deleted H db t key (trie_delete f db n prefix key))"

lemma deletesD:
  "deletes f H db \<Longrightarrow> loads H db t n \<Longrightarrow> fits t key \<Longrightarrow> need n key \<le> f \<Longrightarrow> deleted H db t key (trie_delete f db n prefix key)"
  by (simp add: deletes_def)

lemma delete_hash:
  assumes IH: "deletes f H db" and n: "loads H db t (hashNode h)" "fits t key" "need (hashNode h) key \<le> Suc f"
  shows "deleted H db t key (trie_delete (Suc f) db (hashNode h) prefix key)"
proof -
  obtain m where m: "resolveHash db h prefix = Inr m" "loads H db t m" "\<And>h. m \<noteq> hashNode h" by (rule loads_hash [OF n(1)]) blast
  have "need m key \<le> f" using n(3) m(3) by (auto simp: need_def split: node.splits)
  from deletesD [OF IH m(2) n(2) this, of prefix] obtain dirty n' t' where
    r: "trie_delete f db m prefix key = Some (Inr (dirty, n'))" "loads H db t' n'" "t' = PNil \<or> canon t' \<and> \<not> is_val t' \<and> key \<noteq> []"
      "plookup t' = (plookup t)(key := None)" "\<not> dirty \<longrightarrow> t' = t" "dirty \<longrightarrow> (\<forall>h. n' \<noteq> hashNode h)"
      "t' = PNil \<longrightarrow> t = PNil \<or> is_val t \<or> is_short t" by (rule deletedE)
  have run: "trie_delete (Suc f) db (hashNode h) prefix key = Some (Inr (dirty, if dirty then n' else m))" using m(1) r(1) by simp
  have "loads H db t' (if dirty then n' else m)" using r(2,5) m(2) by auto
  then show ?thesis using r(3-7) m(3) by (intro deletedI [OF run, of _ _ t']) auto
qed

lemma plookup_absent: "plookup t key = None \<Longrightarrow> plookup t = (plookup t)(key := None)"
  by (auto simp: fun_eq_iff)

lemma delete_short_value:
  assumes "loads H db (PShort k u) (shortNode k c fl)" "canon (PShort k u)" "is_val u"
  shows "deleted H db (PShort k u) k (trie_delete (Suc f) db (shortNode k c fl) prefix k)"
proof -
  have run: "trie_delete (Suc f) db (shortNode k c fl) prefix k = Some (Inr (True, NilNode))" using prefixLen_match [of k "[]"] by simp
  obtain v where "u = PVal v" using assms(3) by (cases u) auto
  then have "plookup PNil = (plookup (PShort k u))(k := None)" by (auto simp: fun_eq_iff)
  then show ?thesis by (intro deletedI [OF run, of _ _ PNil]) auto
qed

lemma delete_short_below:
  assumes IH: "deletes f H db" and n: "loads H db (PShort k u) (shortNode k c fl)" "canon (PShort k u)" "loads H db u c"
    and key: "path (k @ r) True" "r \<noteq> []" "need (shortNode k c fl) (k @ r) \<le> Suc f"
  shows "deleted H db (PShort k u) (k @ r) (trie_delete (Suc f) db (shortNode k c fl) prefix (k @ r))"
proof -
  have cu: "path k (is_val u)" "canon u" "\<not> is_short u" "k \<noteq> []" using n(2) by auto
  have fits: "fits u r" by (rule fits_below [OF key(1) cu(1,2)])
  then have u: "\<not> is_val u" "u \<noteq> PNil" using key(2) cu(2) by (auto simp: fits_def)
  have "need c r \<le> f" using need_le [of c r] key(3) cu(4) by (cases k) (auto simp: need_def)
  from deletesD [OF IH n(3) fits this, of "prefix @ k"] obtain dirty n' t' where
    r: "trie_delete f db c (prefix @ k) r = Some (Inr (dirty, n'))" "loads H db t' n'" "t' = PNil \<or> canon t' \<and> \<not> is_val t' \<and> r \<noteq> []"
      "plookup t' = (plookup u)(r := None)" "\<not> dirty \<longrightarrow> t' = u" "dirty \<longrightarrow> (\<forall>h. n' \<noteq> hashNode h)"
      "t' = PNil \<longrightarrow> u = PNil \<or> is_val u \<or> is_short u" by (rule deletedE)
  let ?n = "case n' of shortNode k' val' _ \<Rightarrow> shortNode (k @ k') val' newFlag | _ \<Rightarrow> shortNode k n' newFlag"
  have run: "trie_delete (Suc f) db (shortNode k c fl) prefix (k @ r) = Some (Inr (dirty, if dirty then ?n else shortNode k c fl))"
    using r(1) key(2) by (cases n') (simp_all add: prefixLen_match)
  have t': "canon t'" "\<not> is_val t'" using r(3,7) u cu(3) by auto
  have look: "plookup (PShort k t') = (plookup (PShort k u))(k @ r := None)" by (rule plookup_short_upd [OF r(4)])
  show ?thesis
  proof (cases dirty)
    case True
    have "loads H db (join k t') ?n" using loads_join [OF r(2) _ r(2)] r(6) True by blast
    moreover have "canon (join k t')" using canon_join t' cu(1,4) u(1) by auto
    moreover have "?n \<noteq> hashNode h" for h by (simp split: node.split)
    ultimately show ?thesis using True key(2) look by (intro deletedI [OF run, of _ _ "join k t'"]) auto
  next
    case False
    then show ?thesis using n(1,2) key(2) look r(5) by (intro deletedI [OF run, of _ _ "PShort k u"]) auto
  qed
qed

lemma delete_short:
  assumes IH: "deletes f H db" and n: "loads H db t (shortNode k c fl)" "fits t key" "need (shortNode k c fl) key \<le> Suc f" and key: "key \<noteq> []"
  shows "deleted H db t key (trie_delete (Suc f) db (shortNode k c fl) prefix key)"
proof -
  obtain u where u: "t = PShort k u" "loads H db u c" by (rule loads_short [OF n(1)])
  have p: "path key True" "canon (PShort k u)" using n(2) key u(1) by (auto simp: fits_def)
  then have k: "path k (is_val u)" "canon u" by auto
  show ?thesis
  proof (cases rule: key_cases [OF p(1) k(1)])
    case (1 r)
    show ?thesis
    proof (cases "r = []")
      case True
      then have "is_val u" using path_unique [of k True "is_val u"] p(1) 1 k(1) by simp
      then show ?thesis unfolding 1 True u(1) append_Nil2 by (rule delete_short_value [OF n(1) [unfolded u(1)] p(2)])
    next
      case False
      then show ?thesis
        unfolding 1 u(1) by (rule delete_short_below [OF IH n(1) [unfolded u(1)] p(2) u(2) p(1) [unfolded 1] _ n(3) [unfolded 1]])
    qed
  next
    case (2 p a r b s)
    have "prefixLen key k = length p" using prefixLen_split [OF 2(3)] 2 by simp
    then have run: "trie_delete (Suc f) db (shortNode k c fl) prefix key = Some (Inr (False, shortNode k c fl))" using 2 by simp
    have "key \<noteq> k @ z" for z using 2 by auto
    then have "plookup t = (plookup t)(key := None)" unfolding u(1) by (intro plookup_absent plookup_short_other)
    then show ?thesis using n(1) p(2) u(1) key by (intro deletedI [OF run, of _ _ t]) simp_all
  qed
qed

text \<open>What becomes of a full node after a deletion below it.\<close>

definition shrink :: "node_db \<Rightarrow> bytes \<Rightarrow> node list \<Rightarrow> (bool \<times> node) trie_result" where
  "shrink db prefix cs =
     (let pos = single_child 0 cs (-1)
      in if pos \<ge> 0 then
           (if pos \<noteq> 16 then
              (case resolve db (cs ! nat pos) prefix of
                 Inl e \<Rightarrow> Some (Inl e)
               | Inr cnode \<Rightarrow>
                   (case cnode of
                      shortNode k' val' _ \<Rightarrow> Some (Inr (True, shortNode (of_int pos # k') val' newFlag))
                    | _ \<Rightarrow> Some (Inr (True, shortNode [of_int pos] (cs ! nat pos) newFlag))))
            else Some (Inr (True, shortNode [of_int pos] (cs ! nat pos) newFlag)))
         else Some (Inr (True, fullNode cs newFlag)))"

definition full_parts :: "(ptrie \<Rightarrow> bytes) \<Rightarrow> node_db \<Rightarrow> ptrie list \<Rightarrow> node list \<Rightarrow> bool" where
  "full_parts H db ts cs \<longleftrightarrow>
     length ts = 17 \<and> length cs = 17 \<and>
     (\<forall>i < 17. loads H db (ts ! i) (cs ! i) \<and> (ts ! i = PNil \<or> canon (ts ! i) \<and> (is_val (ts ! i) \<longleftrightarrow> i = 16)))"

definition shrunk :: "(ptrie \<Rightarrow> bytes) \<Rightarrow> node_db \<Rightarrow> ptrie list \<Rightarrow> (bool \<times> node) trie_result \<Rightarrow> bool" where
  "shrunk H db ts r \<longleftrightarrow>
     (\<exists>n' t'. r = Some (Inr (True, n')) \<and> loads H db t' n' \<and> canon t' \<and> \<not> is_val t' \<and> plookup t' = plookup (PFull ts) \<and> (\<forall>h. n' \<noteq> hashNode h))"

lemma full_parts_upd:
  assumes "full_parts H db ts cs" "loads H db t' n'" "t' = PNil \<or> canon t' \<and> (is_val t' \<longleftrightarrow> i = 16)" "i < 17"
  shows "full_parts H db (ts[i := t']) (cs[i := n'])"
  unfolding full_parts_def
proof (intro conjI allI impI)
  fix j :: nat
  assume "j < 17"
  then show "loads H db (ts[i := t'] ! j) (cs[i := n'] ! j)"
    "ts[i := t'] ! j = PNil \<or> canon (ts[i := t'] ! j) \<and> (is_val (ts[i := t'] ! j) \<longleftrightarrow> j = 16)"
    using assms by (cases "i = j"; simp add: full_parts_def)+
qed (use assms(1) in \<open>simp_all add: full_parts_def\<close>)

lemma loads_NilNode: "loads H db t n \<Longrightarrow> n = NilNode \<longleftrightarrow> t = PNil"
  by (cases t) auto

lemma path_single: "j < 17 \<Longrightarrow> path [of_nat j] (j = 16)"
  by (auto simp: word_unat_eq_iff word_less_nat_alt unat_of_nat)

lemma shrink_many:
  assumes p: "full_parts H db ts cs" and jk: "j < k" "k < 17" "ts ! j \<noteq> PNil" "ts ! k \<noteq> PNil"
  shows "shrunk H db ts (shrink db prefix cs)"
proof -
  have "loads H db (ts ! j) (cs ! j)" "loads H db (ts ! k) (cs ! k)" using p jk by (simp_all add: full_parts_def)
  then have "cs ! j \<noteq> NilNode" "cs ! k \<noteq> NilNode" using jk(3,4) loads_NilNode by blast+
  then have "shrink db prefix cs = Some (Inr (True, fullNode cs newFlag))"
    using single_child_many [OF jk(1), of cs 0] jk(2) p by (simp add: shrink_def full_parts_def)
  moreover have "loads H db (PFull ts) (fullNode cs newFlag)" using p by (simp add: full_parts_def)
  moreover have "\<exists>i < 17. \<exists>j < 17. i \<noteq> j \<and> ts ! i \<noteq> PNil \<and> ts ! j \<noteq> PNil"
    using jk by (intro exI [of _ j] exI [of _ k] conjI) simp_all
  then have "canon (PFull ts)" using p by (simp add: full_parts_def)
  ultimately show ?thesis unfolding shrunk_def by (intro exI [of _ "fullNode cs newFlag"] exI [of _ "PFull ts"]) simp
qed

lemma shrink_single:
  assumes p: "full_parts H db ts cs" and j: "j < 17" "ts ! j \<noteq> PNil" and rest: "\<And>i. i < 17 \<Longrightarrow> i \<noteq> j \<Longrightarrow> ts ! i = PNil"
  shows "shrunk H db ts (shrink db prefix cs)"
proof -
  have len: "length ts = 17" "length cs = 17" and l: "\<And>i. i < 17 \<Longrightarrow> loads H db (ts ! i) (cs ! i)"
    and c: "canon (ts ! j)" "is_val (ts ! j) \<longleftrightarrow> j = 16" using p j by (auto simp: full_parts_def)
  have pos: "single_child 0 cs (-1) = int j"
    using single_child_one [of j cs 0] len j rest loads_NilNode [OF l] by simp
  obtain m where m: "resolve db (cs ! j) prefix = Inr m" "loads H db (ts ! j) m" "\<And>h. m \<noteq> hashNode h" by (rule loads_resolve [OF l [OF j(1)]]) blast
  let ?n = "case m of shortNode k' val' _ \<Rightarrow> shortNode ([of_nat j] @ k') val' newFlag | _ \<Rightarrow> shortNode [of_nat j] (cs ! j) newFlag"
  have "m = cs ! j \<and> (\<exists>v. m = valueNode v)" if "j = 16" using that c m(2) l [OF j(1)] by (cases "ts ! j") auto
  then have "shrink db prefix cs = Some (Inr (True, ?n))" using m(1) by (cases "j = 16") (auto simp: shrink_def pos Let_def split: node.split)
  moreover have "loads H db (join [of_nat j] (ts ! j)) ?n" by (rule loads_join [OF m(2,3) l [OF j(1)]])
  moreover have "canon (join [of_nat j] (ts ! j))" using canon_join path_single [OF j(1)] c by simp
  moreover have "plookup (join [of_nat j] (ts ! j)) = plookup (PFull ts)" using plookup_single [of j ts] len j rest by simp
  moreover have "?n \<noteq> hashNode h" for h by (simp split: node.split)
  ultimately show ?thesis unfolding shrunk_def by (intro exI [of _ ?n] exI [of _ "join [of_nat j] (ts ! j)"]) simp
qed

lemma shrink_ok:
  assumes "full_parts H db ts cs" "j < 17" "ts ! j \<noteq> PNil"
  shows "shrunk H db ts (shrink db prefix cs)"
proof (cases "\<exists>i < 17. i \<noteq> j \<and> ts ! i \<noteq> PNil")
  case True
  then obtain i where "i < 17" "i \<noteq> j" "ts ! i \<noteq> PNil" by blast
  then show ?thesis using shrink_many [OF assms(1), of i j] shrink_many [OF assms(1), of j i] assms(2,3) by (cases "i < j") auto
next
  case False
  then show ?thesis using shrink_single [OF assms] by blast
qed

lemma delete_full:
  assumes IH: "deletes f H db" and n: "loads H db t (fullNode cs fl)" "fits t key" "need (fullNode cs fl) key \<le> Suc f" and key: "key \<noteq> []"
  shows "deleted H db t key (trie_delete (Suc f) db (fullNode cs fl) prefix key)"
proof -
  obtain ts where ts: "t = PFull ts" "length cs = length ts" "\<And>i. i < length ts \<Longrightarrow> loads H db (ts ! i) (cs ! i)"
    by (rule loads_full [OF n(1)]) blast
  have p: "path key True" "canon (PFull ts)" using n(2) key ts(1) by (auto simp: fits_def)
  have len: "length ts = 17" and parts: "full_parts H db ts cs" using p(2) ts(2,3) by (auto simp: full_parts_def)
  obtain j where j: "j < 17" "ts ! j \<noteq> PNil" "j \<noteq> unat (hd key)" using p(2) by auto
  obtain x r where xr: "key = x # r" using key by (cases key) auto
  note x = path_Cons [OF p(1) [unfolded xr]]
  have l: "loads H db (ts ! unat x) (cs ! unat x)" using ts(3) x(1) len by simp
  have fits: "fits (ts ! unat x) r" using p(2) x by (auto simp: fits_def)
  have "need (cs ! unat x) r \<le> f" using need_le [of "cs ! unat x" r] n(3) xr by (simp add: need_def)
  from deletesD [OF IH l fits this, of "prefix @ [x]"] obtain dirty n' t' where
    r: "trie_delete f db (cs ! unat x) (prefix @ [x]) r = Some (Inr (dirty, n'))" "loads H db t' n'" "t' = PNil \<or> canon t' \<and> \<not> is_val t' \<and> r \<noteq> []"
      "plookup t' = (plookup (ts ! unat x))(r := None)" "\<not> dirty \<longrightarrow> t' = ts ! unat x" by (rule deletedE)
  have look: "plookup (PFull (ts[unat x := t'])) = (plookup t)(key := None)"
    using plookup_full_upd [OF r(4)] x(1) len ts(1) xr by simp
  have run: "trie_delete (Suc f) db (fullNode cs fl) prefix key =
      (if dirty then shrink db prefix (cs[unat x := n']) else Some (Inr (False, fullNode cs fl)))"
    using xr r(1) x(1) ts(2) len by (simp add: shrink_def Let_def)
  show ?thesis
  proof (cases dirty)
    case True
    have "t' = PNil \<or> canon t' \<and> (is_val t' \<longleftrightarrow> unat x = 16)"
      using r(3) x(3) by blast
    then have "full_parts H db (ts[unat x := t']) (cs[unat x := n'])"
      using full_parts_upd [OF parts r(2)] x(1) by blast
    then have "shrunk H db (ts[unat x := t']) (shrink db prefix (cs[unat x := n']))"
      using shrink_ok [of H db "ts[unat x := t']" _ j] j xr len by simp
    then show ?thesis using run True look ts(1) key unfolding shrunk_def by (auto intro!: deletedI)
  next
    case False
    then show ?thesis using run look r(5) n(1) ts(1) p(2) key by (intro deletedI [of _ False "fullNode cs fl" _ _ t]) auto
  qed
qed

lemma delete_leaf:
  assumes "fits t key"
  shows "loads H db t NilNode \<Longrightarrow> deleted H db t key (trie_delete (Suc f) db NilNode prefix key)"
    and "loads H db t (valueNode v) \<Longrightarrow> deleted H db t key (trie_delete (Suc f) db (valueNode v) prefix key)"
proof -
  show "deleted H db t key (trie_delete (Suc f) db NilNode prefix key)" if "loads H db t NilNode"
    using that by (intro deletedI [of _ False NilNode _ _ PNil]) (auto simp: loads_leaf)
  assume t: "loads H db t (valueNode v)"
  then have "key = []" using assms by (auto simp: loads_leaf fits_def)
  then have "plookup PNil = (plookup t)(key := None)" using t by (auto simp: loads_leaf)
  then show "deleted H db t key (trie_delete (Suc f) db (valueNode v) prefix key)"
    using t by (intro deletedI [of _ True NilNode _ _ PNil]) (auto simp: loads_leaf)
qed

lemma trie_delete_ok: "deletes f H db"
proof (induction f)
  case 0
  show ?case by (simp add: deletes_def)
next
  case (Suc f)
  show ?case
    unfolding deletes_def
  proof (intro allI impI)
    fix t n prefix key
    assume a: "loads H db t n" "fits t key" "need n key \<le> Suc f"
    have "key \<noteq> []" if "n = shortNode k c fl \<or> n = fullNode cs fl" for k c cs fl
      using that a(1,2) by (auto simp: fits_def elim: loads_short loads_full)
    then show "deleted H db t key (trie_delete (Suc f) db n prefix key)"
      using a Suc delete_hash delete_leaf delete_short delete_full
      by (cases n) (simp_all del: trie_delete.simps)
  qed
qed

end
