(* ===== verification/Trie_Store.thy ===== *)
theory Trie_Store
  imports Trie_Delete
begin

text \<open>
  The trie of \<^verbatim>\<open>src/trie/trie.go\<close> as a key-value store. Lookup reads the contents and only loads nodes. The minimal form that insertion and deletion keep is determined by the contents. The
  contract of a store with a canonical form is a locale, interpreted on \<^const>\<open>TryGet\<close>, \<^const>\<open>TryUpdate\<close> and \<^const>\<open>TryDelete\<close>; from it follows that the trie behaves as a map over
  every sequence of operations, and that two histories with the same outcome end in the same trie, hence with the same root hash.
\<close>

section \<open>Lookup\<close>

definition value_of :: "bytes option \<Rightarrow> bytes" where
  "value_of x = (case x of None \<Rightarrow> [] | Some v \<Rightarrow> v)"

lemma value_of_simps [simp]: "value_of None = []" "value_of (Some v) = v"
  by (simp_all add: value_of_def)

definition got :: "(ptrie \<Rightarrow> bytes) \<Rightarrow> node_db \<Rightarrow> ptrie \<Rightarrow> bytes \<Rightarrow> (bytes \<times> node \<times> bool) trie_result \<Rightarrow> bool" where
  "got H db t key r \<longleftrightarrow> (\<exists>n' res. r = Some (Inr (value_of (plookup t key), n', res)) \<and> loads H db t n')"

lemma gotE:
  assumes "got H db t key r"
  obtains n' res where "r = Some (Inr (value_of (plookup t key), n', res))" "loads H db t n'"
  using assms unfolding got_def by blast

definition gets :: "nat \<Rightarrow> (ptrie \<Rightarrow> bytes) \<Rightarrow> node_db \<Rightarrow> bool" where
  "gets f H db \<longleftrightarrow>
     (\<forall>t n key pos. loads H db t n \<longrightarrow> pos \<le> length key \<longrightarrow> fits t (drop pos key) \<longrightarrow> need n (drop pos key) \<le> f \<longrightarrow>
        got H db t (drop pos key) (tryGet f db n key pos))"

lemma getsD:
  "gets f H db \<Longrightarrow> loads H db t n \<Longrightarrow> drop pos key = k \<Longrightarrow> pos \<le> length key \<Longrightarrow> fits t k \<Longrightarrow> need n k \<le> f \<Longrightarrow>
     got H db t k (tryGet f db n key pos)"
  by (auto simp: gets_def)

lemma get_hash:
  assumes IH: "gets f H db" and n: "loads H db t (hashNode h)" "pos \<le> length key" "fits t (drop pos key)" "need (hashNode h) (drop pos key) \<le> Suc f"
  shows "got H db t (drop pos key) (tryGet (Suc f) db (hashNode h) key pos)"
proof -
  obtain m where m: "resolveHash db h (take pos key) = Inr m" "loads H db t m" "\<And>h. m \<noteq> hashNode h" by (rule loads_hash [OF n(1)]) blast
  have "need m (drop pos key) \<le> f" using n(4) m(3) by (auto simp: need_def split: node.splits)
  from getsD [OF IH m(2) refl n(2,3) this] show ?thesis using m(1) by (auto simp: got_def)
qed

lemma get_short:
  assumes IH: "gets f H db" and n: "loads H db t (shortNode k c fl)" "pos \<le> length key" "fits t (drop pos key)" "need (shortNode k c fl) (drop pos key) \<le> Suc f"
  shows "got H db t (drop pos key) (tryGet (Suc f) db (shortNode k c fl) key pos)"
proof -
  obtain u where u: "t = PShort k u" "loads H db u c" by (rule loads_short [OF n(1)])
  then have cu: "path (drop pos key) True" "path k (is_val u)" "canon u" "k \<noteq> []" using n(3) by (auto simp: fits_def)
  show ?thesis
  proof (cases rule: key_cases [OF cu(1,2)])
    case (1 r)
    have len: "length k + length r = length key - pos" using arg_cong [OF 1, of length] by simp
    have d: "drop (pos + length k) key = r" using arg_cong [OF 1, of "drop (length k)"] by (simp add: add.commute)
    have "fits u r" using fits_below cu 1 by metis
    moreover have "need c r \<le> f" using need_le [of c r] n(4) 1 cu(4) by (cases k) (auto simp: need_def)
    moreover have "pos + length k \<le> length key" using len n(2) by linarith
    ultimately obtain n' res where
      r: "tryGet f db c key (pos + length k) = Some (Inr (value_of (plookup u r), n', res))" "loads H db u n'"
      using getsD [OF IH u(2) d] by (auto elim: gotE)
    have "tryGet (Suc f) db (shortNode k c fl) key pos =
        Some (Inr (value_of (plookup t (drop pos key)), if res then shortNode k n' fl else shortNode k c fl, res))"
      using r(1) 1 len u(1) by simp
    moreover have "loads H db t (if res then shortNode k n' fl else shortNode k c fl)" using r(2) n(1) u(1) by (auto simp: node_ok_def)
    ultimately show ?thesis by (auto simp: got_def)
  next
    case (2 p a r b s)
    then have "k \<noteq> take (length k) (drop pos key)" by (metis append_eq_append_conv append_take_drop_id list.inject same_append_eq append_Cons append_assoc)
    moreover have "plookup t (drop pos key) = None" unfolding u(1) by (rule plookup_short_other) (use 2 in auto)
    ultimately show ?thesis using n(1) by (auto simp: got_def)
  qed
qed

lemma get_full:
  assumes IH: "gets f H db" and n: "loads H db t (fullNode cs fl)" "pos \<le> length key" "fits t (drop pos key)" "need (fullNode cs fl) (drop pos key) \<le> Suc f"
  shows "got H db t (drop pos key) (tryGet (Suc f) db (fullNode cs fl) key pos)"
proof -
  obtain ts where ts: "t = PFull ts" "length cs = length ts" "\<And>i. i < length ts \<Longrightarrow> loads H db (ts ! i) (cs ! i)"
    by (rule loads_full [OF n(1)]) blast
  have p: "path (drop pos key) True" "canon (PFull ts)" using n(3) ts(1) by (auto simp: fits_def)
  have len: "length ts = 17" using p(2) by simp
  obtain x r where xr: "drop pos key = x # r" using p(1) by (cases "drop pos key") auto
  note x = path_Cons [OF p(1) [unfolded xr]]
  have pos: "pos < length key" "key ! pos = x" "drop (pos + 1) key = r"
    using xr by (metis drop_eq_Nil list.distinct(1) not_le, metis drop_eq_Nil hd_drop_conv_nth list.distinct(1) list.sel(1) not_le, metis Suc_eq_plus1 drop_Suc list.sel(3) tl_drop)
  have l: "loads H db (ts ! unat x) (cs ! unat x)" using ts(3) x(1) len by simp
  have "fits (ts ! unat x) r" using p(2) x by (auto simp: fits_def)
  moreover have "need (cs ! unat x) r \<le> f" using need_le [of "cs ! unat x" r] n(4) xr by (simp add: need_def)
  ultimately obtain n' res where
    r: "tryGet f db (cs ! unat x) key (pos + 1) = Some (Inr (value_of (plookup (ts ! unat x) r), n', res))" "loads H db (ts ! unat x) n'"
    using getsD [OF IH l pos(3)] pos(1) by (auto elim: gotE)
  have "tryGet (Suc f) db (fullNode cs fl) key pos =
      Some (Inr (value_of (plookup t (drop pos key)), if res then fullNode (cs[unat x := n']) fl else fullNode cs fl, res))"
    using r(1) pos(1,2) xr x(1) ts(1,2) len by simp
  moreover have "loads H db (ts ! i) (cs[unat x := n'] ! i)" if "i < length ts" for i
    using that ts(2,3) r(2) by (cases "i = unat x") simp_all
  then have "loads H db t (fullNode (cs[unat x := n']) fl)" using n(1) ts(1,2) by (auto simp: node_ok_def)
  ultimately show ?thesis using n(1) by (auto simp: got_def)
qed

lemma tryGet_ok: "gets f H db"
proof (induction f)
  case 0
  show ?case by (simp add: gets_def)
next
  case (Suc f)
  show ?case
    unfolding gets_def
  proof (intro allI impI)
    fix t n and key :: bytes and pos
    assume a: "loads H db t n" "pos \<le> length key" "fits t (drop pos key)" "need n (drop pos key) \<le> Suc f"
    show "got H db t (drop pos key) (tryGet (Suc f) db n key pos)"
    proof (cases n)
      case (valueNode v)
      then have "t = PVal v" "drop pos key = []" using a(1,3) by (auto simp: loads_leaf fits_def)
      then show ?thesis using valueNode by (auto simp: got_def)
    next
      case NilNode
      then show ?thesis using a(1) by (auto simp: got_def loads_leaf)
    qed (use a Suc get_hash get_short get_full in \<open>simp_all del: tryGet.simps\<close>)
  qed
qed

section \<open>The contents determine the trie\<close>

lemma plookup_short_nil: "k \<noteq> [] \<Longrightarrow> plookup (PShort k t) [] = None"
  by simp

lemma canon_nonempty: "canon t \<Longrightarrow> \<exists>key. plookup t key \<noteq> None"
proof (induction t)
  case (PShort k t)
  then obtain key where "plookup t key \<noteq> None" by auto
  then show ?case using plookup_short [of k t key] by (intro exI [of _ "k @ key"]) simp
next
  case (PFull ts)
  then obtain i where i: "i < 17" "ts ! i \<noteq> PNil" "length ts = 17" by auto
  then have "canon (ts ! i)" using PFull.prems by auto
  then obtain key where "plookup (ts ! i) key \<noteq> None" using PFull.IH [of "ts ! i"] i by auto
  then show ?case using i by (intro exI [of _ "of_nat i # key"]) (simp add: unat_of_nat)
qed auto

lemma full_not_short:
  assumes "canon (PFull ts)" "k \<noteq> []"
  shows "plookup (PFull ts) \<noteq> plookup (PShort k u)"
proof
  assume eq: "plookup (PFull ts) = plookup (PShort k u)"
  obtain i j where ij: "i < 17" "j < 17" "i \<noteq> j" "ts ! i \<noteq> PNil" "ts ! j \<noteq> PNil" and len: "length ts = 17" using assms(1) by auto
  have "of_nat x = hd k" if x: "x < 17" "ts ! x \<noteq> PNil" for x
  proof -
    have "canon (ts ! x)" using assms(1) x by auto
    then obtain key where "plookup (ts ! x) key \<noteq> None" using canon_nonempty by blast
    then have "plookup (PShort k u) (of_nat x # key) \<noteq> None" unfolding eq [symmetric] using x len by (simp add: unat_of_nat)
    then obtain r where "of_nat x # key = k @ r" unfolding not_None_eq plookup_short_iff by blast
    then show ?thesis using assms(2) by (cases k) auto
  qed
  from this [OF ij(1,4)] this [OF ij(2,5)] have "unat (of_nat i :: byte) = unat (of_nat j :: byte)" by simp
  then show False using ij(1-3) by (simp add: unat_of_nat)
qed

lemma short_keys:
  assumes eq: "plookup (PShort k u) = plookup (PShort k' u')" and c: "canon (PShort k u)" "canon (PShort k' u')" and le: "length k \<le> length k'"
  shows "k = k' \<and> plookup u = plookup u'"
proof -
  obtain key where "plookup u' key \<noteq> None" using canon_nonempty [of u'] c(2) by auto
  then have "plookup (PShort k u) (k' @ key) \<noteq> None" unfolding eq by simp
  then obtain r where "k' @ key = k @ r" unfolding not_None_eq plookup_short_iff by blast
  then obtain s where s: "k' = k @ s" using le by (auto simp: append_eq_append_conv2)
  have u: "plookup u = plookup (PShort s u')"
    using eq unfolding s plookup_short_append by (metis ext plookup_short)
  have "s = []"
  proof (rule ccontr)
    assume "s \<noteq> []"
    then have "plookup u [] = None" and full: "\<And>ts. canon (PFull ts) \<Longrightarrow> plookup u \<noteq> plookup (PFull ts)"
      using u plookup_short_nil [of s u'] full_not_short [of _ s u'] by metis+
    then show False using c(1) by (cases u) auto
  qed
  then show ?thesis using s u by (auto simp: fun_eq_iff)
qed

lemma plookup_child: "unat x < length ts \<Longrightarrow> plookup (ts ! unat x) = (\<lambda>r. plookup (PFull ts) (x # r))"
  by simp

lemma canon_unique: "canon t \<Longrightarrow> canon t' \<Longrightarrow> plookup t = plookup t' \<Longrightarrow> t = t'"
proof (induction t arbitrary: t')
  case (PVal v)
  then have "plookup t' [] = Some v" by (metis plookup.simps(2))
  then show ?case using PVal.prems(2) by (cases t') (auto split: if_splits)
next
  case (PShort k u)
  show ?case
  proof (cases t')
    case t': (PShort k' u')
    note eq = PShort.prems(3) [unfolded t'] and c = PShort.prems(1) PShort.prems(2) [unfolded t']
    have "k = k' \<and> plookup u = plookup u'"
    proof (cases "length k \<le> length k'")
      case True
      then show ?thesis by (rule short_keys [OF eq c])
    next
      case False
      then have "k' = k \<and> plookup u' = plookup u" by (intro short_keys [OF eq [symmetric] c(2,1)]) simp
      then show ?thesis by metis
    qed
    then show ?thesis using PShort.IH [of u'] PShort.prems t' by simp
  next
    case (PFull ts)
    then have "plookup t' \<noteq> plookup (PShort k u)" unfolding PFull using PShort.prems(1) by (intro full_not_short [OF PShort.prems(2) [unfolded PFull]]) simp
    then show ?thesis using PShort.prems(3) by metis
  next
    case (PVal w)
    then show ?thesis using PShort.prems(1) arg_cong [OF PShort.prems(3), of "\<lambda>m. m []"] by simp
  qed (use PShort.prems(2) in simp)
next
  case (PFull ts)
  show ?case
  proof (cases t')
    case t': (PFull ts')
    have len: "length ts = 17" "length ts' = 17" using PFull.prems(1,2) t' by auto
    have "ts ! i = ts' ! i" if i: "i < 17" for i
    proof -
      have "unat (of_nat i :: byte) = i" using i by (simp add: unat_of_nat)
      then have look: "plookup (ts ! i) = plookup (ts' ! i)"
        using plookup_child [of "of_nat i" ts] plookup_child [of "of_nat i" ts'] i len PFull.prems(3) t' by simp
      have ok: "ts ! i = PNil \<or> canon (ts ! i)" "ts' ! i = PNil \<or> canon (ts' ! i)" using PFull.prems(1,2) t' i by auto
      have "ts ! i = PNil \<longleftrightarrow> ts' ! i = PNil" using look ok canon_nonempty by (metis plookup.simps(1))
      then show ?thesis using PFull.IH [of "ts ! i" "ts' ! i"] ok look i len by auto
    qed
    then show ?thesis using len t' by (simp add: list_eq_iff_nth_eq)
  next
    case (PShort k u)
    then have "plookup (PFull ts) \<noteq> plookup t'" using full_not_short [OF PFull.prems(1), of k u] PFull.prems(2) [unfolded PShort] unfolding PShort canon.simps by blast
    then show ?thesis using PFull.prems(3) by metis
  next
    case (PVal w)
    then show ?thesis using arg_cong [OF PFull.prems(3), of "\<lambda>m. m []"] by simp
  qed (use PFull.prems(2) in simp)
qed auto
section \<open>The contract of a store with a canonical form\<close>

datatype ('k, 'v) store_op = Get 'k | Update 'k 'v | Delete 'k

text \<open>The map that a store implements; the value \<open>none\<close> stands for a missing one, and storing it deletes.\<close>

fun spec_op :: "'v \<Rightarrow> ('k, 'v) store_op \<Rightarrow> ('k \<rightharpoonup> 'v) \<Rightarrow> 'v option \<times> ('k \<rightharpoonup> 'v)" where
  "spec_op none (Get k) m = (Some (case m k of None \<Rightarrow> none | Some v \<Rightarrow> v), m)"
| "spec_op none (Update k v) m = (None, m(k := if v = none then None else Some v))"
| "spec_op none (Delete k) m = (None, m(k := None))"

fun spec_ops :: "'v \<Rightarrow> ('k, 'v) store_op list \<Rightarrow> ('k \<rightharpoonup> 'v) \<Rightarrow> 'v option list \<times> ('k \<rightharpoonup> 'v)" where
  "spec_ops none [] m = ([], m)"
| "spec_ops none (x # xs) m = (let (r, m) = spec_op none x m; (rs, m) = spec_ops none xs m in (r # rs, m))"

text \<open>Running the operations of an implementation; \<open>None\<close> is a panic, and an error ends the run.\<close>

fun run_op :: "('k \<Rightarrow> 's \<Rightarrow> (('e + 'v) \<times> 's) option) \<Rightarrow> ('k \<Rightarrow> 'v \<Rightarrow> 's \<Rightarrow> ('e option \<times> 's) option) \<Rightarrow> ('k \<Rightarrow> 's \<Rightarrow> ('e option \<times> 's) option) \<Rightarrow>
    ('k, 'v) store_op \<Rightarrow> 's \<Rightarrow> ('v option \<times> 's) option" where
  "run_op get update delete (Get k) s = (case get k s of Some (Inr v, s) \<Rightarrow> Some (Some v, s) | _ \<Rightarrow> None)"
| "run_op get update delete (Update k v) s = (case update k v s of Some (None, s) \<Rightarrow> Some (None, s) | _ \<Rightarrow> None)"
| "run_op get update delete (Delete k) s = (case delete k s of Some (None, s) \<Rightarrow> Some (None, s) | _ \<Rightarrow> None)"

fun run_ops :: "('k \<Rightarrow> 's \<Rightarrow> (('e + 'v) \<times> 's) option) \<Rightarrow> ('k \<Rightarrow> 'v \<Rightarrow> 's \<Rightarrow> ('e option \<times> 's) option) \<Rightarrow> ('k \<Rightarrow> 's \<Rightarrow> ('e option \<times> 's) option) \<Rightarrow>
    ('k, 'v) store_op list \<Rightarrow> 's \<Rightarrow> ('v option list \<times> 's) option" where
  "run_ops get update delete [] s = Some ([], s)"
| "run_ops get update delete (x # xs) s =
     (case run_op get update delete x s of
        None \<Rightarrow> None
      | Some (r, s) \<Rightarrow> (case run_ops get update delete xs s of None \<Rightarrow> None | Some (rs, s) \<Rightarrow> Some (r # rs, s)))"

locale kv_store =
  fixes form :: "'s \<Rightarrow> 'f \<Rightarrow> bool"
    and contents :: "'f \<Rightarrow> 'k \<rightharpoonup> 'v"
    and none :: 'v
    and get :: "'k \<Rightarrow> 's \<Rightarrow> (('e + 'v) \<times> 's) option"
    and update :: "'k \<Rightarrow> 'v \<Rightarrow> 's \<Rightarrow> ('e option \<times> 's) option"
    and delete :: "'k \<Rightarrow> 's \<Rightarrow> ('e option \<times> 's) option"
  assumes get_law: "form s f \<Longrightarrow> \<exists>s'. get k s = Some (Inr (case contents f k of None \<Rightarrow> none | Some v \<Rightarrow> v), s') \<and> form s' f"
    and update_law: "form s f \<Longrightarrow> v \<noteq> none \<Longrightarrow> \<exists>s' f'. update k v s = Some (None, s') \<and> form s' f' \<and> contents f' = (contents f)(k \<mapsto> v)"
    and delete_law: "form s f \<Longrightarrow> \<exists>s' f'. delete k s = Some (None, s') \<and> form s' f' \<and> contents f' = (contents f)(k := None)"
    and update_none: "update k none s = delete k s"
begin

lemma run_op_ok:
  assumes "form s f"
  shows "\<exists>s' f'. run_op get update delete x s = Some (fst (spec_op none x (contents f)), s') \<and> form s' f' \<and> contents f' = snd (spec_op none x (contents f))"
proof (cases x)
  case (Get k)
  then show ?thesis using get_law [OF assms, of k] by auto
next
  case (Update k v)
  then show ?thesis using update_law [OF assms, of v k] delete_law [OF assms, of k] update_none by (cases "v = none") auto
next
  case (Delete k)
  then show ?thesis using delete_law [OF assms, of k] by auto
qed

lemma run_ops_ok:
  "form s f \<Longrightarrow>
     \<exists>s' f'. run_ops get update delete xs s = Some (fst (spec_ops none xs (contents f)), s') \<and> form s' f' \<and> contents f' = snd (spec_ops none xs (contents f))"
proof (induction xs arbitrary: s f)
  case (Cons x xs)
  obtain s1 f1 where 1: "run_op get update delete x s = Some (fst (spec_op none x (contents f)), s1)" "form s1 f1" "contents f1 = snd (spec_op none x (contents f))"
    using run_op_ok [OF Cons.prems] by blast
  show ?case using Cons.IH [OF 1(2)] 1 by (auto simp: case_prod_beta)
qed auto

end

locale canonical_store = kv_store +
  assumes canonical: "form s f \<Longrightarrow> form s' f' \<Longrightarrow> contents f = contents f' \<Longrightarrow> f = f'"
begin

lemma history_independent:
  assumes "form s f" "form s' f'" "snd (spec_ops none xs (contents f)) = snd (spec_ops none xs' (contents f'))"
  shows "\<exists>r r' g.
    run_ops get update delete xs s = Some (fst (spec_ops none xs (contents f)), r) \<and>
    run_ops get update delete xs' s' = Some (fst (spec_ops none xs' (contents f')), r') \<and>
    form r g \<and> form r' g \<and> contents g = snd (spec_ops none xs (contents f))"
  using run_ops_ok [OF assms(1), of xs] run_ops_ok [OF assms(2), of xs'] assms(3) canonical by metis

end

section \<open>The trie as a store\<close>

text \<open>A root stands for a trie in its minimal form whose keys are whole byte strings.\<close>

definition trie_form :: "(ptrie \<Rightarrow> bytes) \<Rightarrow> node_db \<Rightarrow> node \<Rightarrow> ptrie \<Rightarrow> bool" where
  "trie_form H db root t \<longleftrightarrow> loads H db t root \<and> (t = PNil \<or> canon t \<and> \<not> is_val t) \<and> dom (plookup t) \<subseteq> range keybytesToHex"

definition trie_contents :: "ptrie \<Rightarrow> bytes \<rightharpoonup> bytes" where
  "trie_contents t k = plookup t (keybytesToHex k)"

lemma keybytesToHex_inj [simp]: "keybytesToHex k = keybytesToHex k' \<longleftrightarrow> k = k'"
proof
  assume "keybytesToHex k = keybytesToHex k'"
  then have "decodeNibbles (keybytesToHex_loop k) = decodeNibbles (keybytesToHex_loop k')" by (simp add: keybytesToHex_def)
  then show "k = k'" by simp
qed simp

lemma trie_contents_upd: "plookup t' = (plookup t)(keybytesToHex k := y) \<Longrightarrow> trie_contents t' = (trie_contents t)(k := y)"
  by (auto simp: trie_contents_def fun_eq_iff)

lemma keybytesToHex_nonempty [simp]: "keybytesToHex k \<noteq> []"
  by (simp add: keybytesToHex_def)

lemma trie_form_fits:
  assumes "trie_form H db root t"
  shows "loads H db t root" "fits t (keybytesToHex k)" "need root (keybytesToHex k) \<le> trie_fuel (keybytesToHex k)"
  using assms path_keybytes need_le by (auto simp: trie_form_def fits_def trie_fuel_def)

lemma trie_form_upd:
  assumes "trie_form H db root t" "loads H db t' root'" "t' = PNil \<or> canon t' \<and> \<not> is_val t'" "plookup t' = (plookup t)(keybytesToHex k := y)"
  shows "trie_form H db root' t'" "trie_contents t' = (trie_contents t)(k := y)"
proof -
  have "dom (plookup t') \<subseteq> insert (keybytesToHex k) (dom (plookup t))" unfolding assms(4) by auto
  then show "trie_form H db root' t'" using assms by (auto simp: trie_form_def)
  show "trie_contents t' = (trie_contents t)(k := y)" by (rule trie_contents_upd [OF assms(4)])
qed

lemma TryGet_ok:
  assumes "trie_form H db root t"
  shows "\<exists>root'. TryGet db k root = Some (Inr (case trie_contents t k of None \<Rightarrow> [] | Some v \<Rightarrow> v), root') \<and> trie_form H db root' t"
proof -
  let ?k = "keybytesToHex k"
  obtain n' res where r: "tryGet (trie_fuel ?k) db root ?k 0 = Some (Inr (value_of (plookup t ?k), n', res))" "loads H db t n'"
    using getsD [OF tryGet_ok trie_form_fits(1) [OF assms], of 0 ?k ?k "trie_fuel ?k"] trie_form_fits(2,3) [OF assms, of k] by (auto elim: gotE)
  have "TryGet db k root = Some (Inr (case trie_contents t k of None \<Rightarrow> [] | Some v \<Rightarrow> v), if res then n' else root)"
    using r(1) by (simp add: TryGet_def Let_def trie_contents_def value_of_def)
  moreover have "trie_form H db (if res then n' else root) t" using assms r(2) by (simp add: trie_form_def)
  ultimately show ?thesis by blast
qed

lemma TryUpdate_ok:
  assumes "trie_form H db root t" "v \<noteq> []"
  shows "\<exists>root' t'. TryUpdate db k v root = Some (None, root') \<and> trie_form H db root' t' \<and> trie_contents t' = (trie_contents t)(k \<mapsto> v)"
proof -
  let ?k = "keybytesToHex k"
  obtain dirty n' t' where r: "trie_insert (trie_fuel ?k) db root [] ?k (valueNode v) = Some (Inr (dirty, n'))" "loads H db t' n'" "canon t'"
      "is_val t' \<longleftrightarrow> ?k = []" "plookup t' = (plookup t)(?k \<mapsto> v)"
    using insertsD [OF trie_insert_ok [OF assms(2)] trie_form_fits [OF assms(1)]] by (rule insertedE)
  then show ?thesis using trie_form_upd [OF assms(1) r(2) _ r(5)] assms(2) by (auto simp: TryUpdate_def Let_def)
qed

lemma TryDelete_ok:
  assumes "trie_form H db root t"
  shows "\<exists>root' t'. TryDelete db k root = Some (None, root') \<and> trie_form H db root' t' \<and> trie_contents t' = (trie_contents t)(k := None)"
proof -
  let ?k = "keybytesToHex k"
  obtain dirty n' t' where r: "trie_delete (trie_fuel ?k) db root [] ?k = Some (Inr (dirty, n'))" "loads H db t' n'"
      "t' = PNil \<or> canon t' \<and> \<not> is_val t' \<and> ?k \<noteq> []" "plookup t' = (plookup t)(?k := None)"
    using deletesD [OF trie_delete_ok trie_form_fits [OF assms]] by (rule deletedE)
  then show ?thesis using trie_form_upd [OF assms r(2) _ r(4)] by (auto simp: TryDelete_def Let_def)
qed

lemma trie_form_canonical:
  assumes "trie_form H db root t" "trie_form H db root' t'" "trie_contents t = trie_contents t'"
  shows "t = t'"
proof -
  have "plookup t x = plookup t' x" for x
  proof (cases "x \<in> range keybytesToHex")
    case True
    then show ?thesis using assms(3) by (auto simp: trie_contents_def fun_eq_iff)
  next
    case False
    then have "x \<notin> dom (plookup t)" "x \<notin> dom (plookup t')" using assms(1,2) by (auto simp: trie_form_def)
    then show ?thesis by (simp add: domIff)
  qed
  then have "plookup t = plookup t'" by blast
  then show ?thesis using assms(1,2) canon_unique canon_nonempty unfolding trie_form_def by (metis plookup.simps(1))
qed

lemma TryUpdate_nil: "TryUpdate db k [] root = TryDelete db k root"
  by (simp add: TryUpdate_def TryDelete_def)

interpretation trie: canonical_store "trie_form H db" trie_contents "[]" "TryGet db" "TryUpdate db" "TryDelete db" for H db
  by unfold_locales (rule TryGet_ok TryUpdate_ok TryDelete_ok TryUpdate_nil trie_form_canonical; assumption?)+

lemma trie_form_leaf:
  assumes "loads H db (PShort (keybytesToHex k) (PVal v)) root" "v \<noteq> []"
  shows "trie_form H db root (PShort (keybytesToHex k) (PVal v))" "trie_contents (PShort (keybytesToHex k) (PVal v)) = [k \<mapsto> v]"
proof -
  have look: "plookup (PShort (keybytesToHex k) (PVal v)) = [keybytesToHex k \<mapsto> v]" by (auto simp: fun_eq_iff)
  then show "trie_form H db root (PShort (keybytesToHex k) (PVal v))"
    using assms path_keybytes by (auto simp: trie_form_def simp del: loads.simps plookup.simps)
  show "trie_contents (PShort (keybytesToHex k) (PVal v)) = [k \<mapsto> v]" unfolding trie_contents_def look by (auto simp: fun_eq_iff)
qed

lemma trie_form_empty: "trie_form H db NilNode PNil" "trie_contents PNil = Map.empty"
  by (auto simp: trie_form_def trie_contents_def fun_eq_iff)

text \<open>C39: Two tries, each partly in memory and partly in the node database, go through two sequences of lookups, updates and deletions. No operation panics or fails, every lookup returns
  what a map would return, and if the two maps are the same in the end, both roots stand for the same trie, whose contents are that map: structure and root hash depend on the contents only,
  not on the history. Every hash that a node of the results remembers is still the hash of the trie below it.\<close>

theorem trie_history_independent:
  assumes "trie_form H db root t" "trie_form H db root' t'"
    "snd (spec_ops [] xs (trie_contents t)) = snd (spec_ops [] xs' (trie_contents t'))"
  shows "\<exists>r r' u.
    run_ops (TryGet db) (TryUpdate db) (TryDelete db) xs root = Some (fst (spec_ops [] xs (trie_contents t)), r) \<and>
    run_ops (TryGet db) (TryUpdate db) (TryDelete db) xs' root' = Some (fst (spec_ops [] xs' (trie_contents t')), r') \<and>
    trie_form H db r u \<and> trie_form H db r' u \<and> trie_contents u = snd (spec_ops [] xs (trie_contents t))"
  using assms by (rule trie.history_independent)

theorem trie_history_independent_witness:
  "\<exists>r r' u.
    let db = (\<lambda>_. Some (shortNode (keybytesToHex [7]) (valueNode [5]) \<lparr>fl_hash = Some [1], fl_dirty = False\<rparr>)) in
    run_ops (TryGet db) (TryUpdate db) (TryDelete db) [Update [7] [5], Update [7, 1] [6], Get [7], Delete [7, 1]] NilNode = Some ([None, None, Some [5], None], r) \<and>
    run_ops (TryGet db) (TryUpdate db) (TryDelete db) [Get [9]] (hashNode [1]) = Some ([Some []], r') \<and>
    trie_form (\<lambda>_. [1]) db r u \<and> trie_form (\<lambda>_. [1]) db r' u \<and> trie_contents u [7] = Some [5]"
proof -
  let ?db = "\<lambda>_. Some (shortNode (keybytesToHex [7]) (valueNode [5]) \<lparr>fl_hash = Some [1], fl_dirty = False\<rparr>)"
  let ?t = "PShort (keybytesToHex [7]) (PVal [5])" and ?H = "\<lambda>_. [1 :: byte]"
  have "loads ?H ?db ?t (hashNode [1])" by (simp add: node_ok_def)
  note t = trie_form_leaf [OF this]
  have "snd (spec_ops [] [Update [7] [5], Update [7, 1] [6], Get [7], Delete [7, 1]] (trie_contents PNil)) = snd (spec_ops [] [Get [9]] (trie_contents ?t))"
    by (auto simp: t(2) trie_form_empty fun_eq_iff)
  from trie_history_independent [OF trie_form_empty(1) [of ?H ?db] t(1) this] obtain r r' u where
    "run_ops (TryGet ?db) (TryUpdate ?db) (TryDelete ?db) [Update [7] [5], Update [7, 1] [6], Get [7], Delete [7, 1]] NilNode = Some ([None, None, Some [5], None], r)"
    "run_ops (TryGet ?db) (TryUpdate ?db) (TryDelete ?db) [Get [9]] (hashNode [1]) = Some ([Some []], r')"
    "trie_form ?H ?db r u" "trie_form ?H ?db r' u" "trie_contents u [7] = Some [5]"
    by (auto simp add: t(2) trie_form_empty simp del: run_ops.simps)
  then show ?thesis unfolding Let_def by blast
qed

end
