(* ===== verification/Spec2Isabelle.thy ===== *)
theory Spec2Isabelle
  imports Prelude Prque Rlp_Encode Rlp_Raw Rlp_Stream Common_Types Istanbul_Validator Istanbul_Types
    Istanbul_Round Istanbul_Core Istanbul_Safety Istanbul_Agreement Istanbul_Total Common_Math State_Db State_Revert
    State_Refine State_Flow State_Storage Evm_Memory Evm_Base Evm_Gas Evm_Instructions Evm_Calls Evm_Table Evm_Run
    Evm_Arith Evm_Jump Evm_Bounds Evm_Plain Evm_Charge Evm_Frames Evm_Entries Evm_Safety State_Final
    Core_Transition Core_Types Core_Process Trie_Encoding Trie_Core Trie_Insert Trie_Delete Trie_Store
begin

text \<open>
  A verification library for go-simplechain, an Ethereum-style node in Go (\<^verbatim>\<open>src/\<close>). It models the parts of the node that decide
  what a block means and which block is agreed on, from the wire format up to the execution of contracts and the vote of the
  Istanbul consensus engine, and proves what each part promises to the next.

  \<^bold>\<open>Conventions.\<close> A Go function is a HOL function of the same name (a method carries its receiver's name where names clash). Structs are
  records and enumerations datatypes. Fixed-width integers are words (\<^verbatim>\<open>uint64\<close> is \<open>u64\<close>, an address is a 160-bit word, a hash
  a 256-bit word), so arithmetic wraps as in Go; \<^verbatim>\<open>big.Int\<close> is \<open>int\<close>. A pointer receiver becomes a state that is passed and returned. A Go
  \<^verbatim>\<open>error\<close> is a value of a sum or option type. A panic (nil dereference, index out of range, explicit \<^verbatim>\<open>panic\<close>) is
  \<open>None\<close>, and in the virtual machine \<open>Panic\<close>; that no panic happens is always a theorem. Code outside the sources (hash functions, elliptic curves, the key-value
  database, the precompiled contracts' bodies, the growth policy of Go's \<^verbatim>\<open>append\<close>) is a parameter.

  \<^bold>\<open>Serialisation\<close> (\<^verbatim>\<open>src/rlp\<close>, \<^verbatim>\<open>src/common\<close>).
  \<^item> \<open>Rlp_Encode\<close>: \<^verbatim>\<open>encode.go\<close>, the two-pass buffer with its list headers. It produces the encoding of the Yellow Paper.
  \<^item> \<open>Rlp_Raw\<close>: \<^verbatim>\<open>raw.go\<close>, the slice readers; they accept exactly the canonical encodings.
  \<^item> \<open>Rlp_Stream\<close>: \<^verbatim>\<open>decode.go\<close>, the stream with its limits and its stack of open lists. The locale \<open>rlp_codec\<close> says what a
    decoder promises (complete, sound, total), \<open>rlp_fields\<close> the same for the body of a list; structs, slices and arrays
    inherit it from their parts, and the messages of the consensus engine are instances.
  \<^item> \<open>Common_Types\<close>, \<open>Common_Math\<close>: hex strings, addresses, hashes; 256-bit arithmetic on big integers and checked 64-bit arithmetic.

  \<^bold>\<open>Consensus\<close> (\<^verbatim>\<open>src/consensus/istanbul\<close>, \<^verbatim>\<open>src/common/prque\<close>).
  \<^item> \<open>Prque\<close>: the priority queue over the block-allocated stack and Go's \<^verbatim>\<open>container/heap\<close>; locales \<open>heap_container\<close> and
    \<open>prio_queue\<close> are its contract, a multiset with extraction of a maximum.
  \<^item> \<open>Istanbul_Validator\<close>: validator sets and proposer selection, with the contract \<open>validator_set\<close>.
  \<^item> \<open>Istanbul_Types\<close>, \<open>Istanbul_Round\<close>: messages and their signatures, message sets, round state, round change set; the locale
    \<open>quorum_system\<close> has the counting argument and is interpreted on \<^verbatim>\<open>Confirmations\<close> and \<^verbatim>\<open>F\<close>.
  \<^item> \<open>Istanbul_Core\<close>: the engine: every handler of \<^verbatim>\<open>consensus/istanbul/core\<close> and the dispatch of events, on a record \<open>core\<close>
    that also keeps what was sent (\<open>outbox\<close>). \<open>Istanbul_Safety\<close> has the invariant and that every event keeps it, \<open>Istanbul_Total\<close>
    that every event is handled, \<open>Istanbul_Agreement\<close> the runs from \<^verbatim>\<open>Start\<close> and agreement: two certificates of one view are for one
    block as long as at most \<^verbatim>\<open>F\<close> validators are faulty, unless a correct validator re-sent a commit for an old view.

  \<^bold>\<open>World state\<close> (\<^verbatim>\<open>src/core/state\<close>).
  \<^item> \<open>State_Db\<close>: state objects with their four layers of storage, the journal with all its entries, the database with snapshots,
    \<^verbatim>\<open>Finalise\<close> and \<^verbatim>\<open>IntermediateRoot\<close>.
  \<^item> \<open>State_Revert\<close>: the abstract state that the getters show, and that reverting restores it after any operations.
  \<^item> \<open>State_Refine\<close>: each operation is an operation on one abstract account. \<open>State_Storage\<close>: the layers of storage and the trie.
  \<^item> \<open>State_Flow\<close>: what holds along a run: snapshots stay revertible, balances stay non-negative, refunds cover the cleared slots.

  \<^bold>\<open>Virtual machine\<close> (\<^verbatim>\<open>src/core/vm\<close>).
  \<^item> \<open>Evm_Memory\<close>, \<open>Evm_Base\<close>, \<open>Evm_Gas\<close>, \<open>Evm_Instructions\<close>, \<open>Evm_Calls\<close>, \<open>Evm_Table\<close>, \<open>Evm_Run\<close>: stack and memory, contracts and context,
    gas functions, instructions, calls and creation, the instruction tables of every rule set, the interpreter loop.
  \<^item> \<open>Evm_Arith\<close>: arithmetic instructions compute the word operations. \<open>Evm_Jump\<close>: the jump analysis is exact. \<open>Evm_Bounds\<close>: memory sizes and fees.
  \<^item> \<open>Evm_Plain\<close>, \<open>Evm_Charge\<close>, \<open>Evm_Frames\<close>, \<open>Evm_Entries\<close>, \<open>Evm_Safety\<close>: every entry of every table is safe, so every round of the
    loop is, so every call is. The predicate \<open>runner_ok\<close> is the contract between a frame and its callees; it is proved for every
    number of levels by induction.

  \<^bold>\<open>Transactions and blocks\<close> (\<^verbatim>\<open>src/core\<close>).
  \<^item> \<open>State_Final\<close>: what a transaction leaves behind. \<open>settled\<close> is the state between two transactions; any progress from a settled state followed by
    \<^verbatim>\<open>Finalise\<close> is settled again, because the dirty counts of the journal cover every account with an uncommitted slot.
  \<^item> \<open>Core_Transition\<close>: \<^verbatim>\<open>gaspool.go\<close> and \<^verbatim>\<open>state_transition.go\<close>. Buying gas, intrinsic gas, the call or creation on the virtual machine, refunds and fees. No
    panic, exact gas, no new money: \<open>funds\<close> is the sum of all balances, and \<open>pays_by\<close> follows it through every payment.
  \<^item> \<open>Core_Types\<close>: transactions, receipts, headers and the log filter of \<^verbatim>\<open>src/core/types\<close>; the filter has no false negatives.
  \<^item> \<open>Core_Process\<close>: \<^verbatim>\<open>state_processor.go\<close>, the context of \<^verbatim>\<open>evm.go\<close> and \<^verbatim>\<open>CalcGasLimit\<close>. A block is a sequence of transactions on settled states;
    its gas and receipts add up. Sender recovery, ancestor hashes, the author of a header and the engine's rewards are the parameters of \<open>processor\<close>.

  \<^bold>\<open>The trie\<close> (\<^verbatim>\<open>src/trie\<close>).
  \<^item> \<open>Trie_Encoding\<close>: the key encodings of \<^verbatim>\<open>encoding.go\<close>, inverse to each other.
  \<^item> \<open>Trie_Core\<close>: the nodes of \<^verbatim>\<open>node.go\<close> and the operations of \<^verbatim>\<open>trie.go\<close>, with the node database as a parameter. \<open>ptrie\<close> is a trie without hashes, \<open>canon\<close> its
    minimal form, \<open>plookup\<close> its contents, and \<open>loads\<close> relates it to nodes in memory and in the database. The fuel is two rounds for each nibble of the key, one of them to load a node.
  \<^item> \<open>Trie_Insert\<close>, \<open>Trie_Delete\<close>: insertion and deletion keep the minimal form and the remembered hashes.
  \<^item> \<open>Trie_Store\<close>: lookup, the minimal form is determined by the contents, and the contract of a key-value store with a canonical form (\<open>kv_store\<close>, \<open>canonical_store\<close>),
    interpreted on \<^verbatim>\<open>TryGet\<close>, \<^verbatim>\<open>TryUpdate\<close> and \<^verbatim>\<open>TryDelete\<close>.

  \<^bold>\<open>Bounds and fuel.\<close> Nested frames are unfolded \<open>max_levels\<close> = 1025 times: the code refuses a call above depth 1024, so the last level is never asked to run.
  The loop of one frame has fuel for one round more than the frame has gas; each round that continues spends gas. Fuel running out is a value of its own
  (\<open>NoFuel\<close>), and the theorems exclude it. The result \<open>Stale\<close> stands for one panic that needs two different codes with one hash: the jump analysis is cached by code hash, and
  a cached bit vector of another length could be indexed out of range. The gas of a transaction is assumed to be below a 24th of \<open>2^64\<close>, so that the refund
  counter (15000 at most for 5000 gas, 24000 for a self-destruct) does not wrap. Loops over queues in the consensus engine have one unit of fuel per queued item.

  \<^bold>\<open>Not modelled.\<close> Networking, storage engines, wallets, remote procedure calls, command line programs and the goroutines that connect them are input/output without a function to state.
  The other consensus engines, the chain import and the transaction pool act through the database, timers and channels; where the modelled parts call them, or
  are called by them, the calls are parameters (the backend of the consensus engine, the readers of tries and code). Within the modelled files: tracing, printing,
  JSON and database adapters, the integer pools, metrics, Go's reflection, and copying or committing the state to the node database.
\<close>

end
